(* ===== verification/SS_Prelude.thy ===== *)
theory SS_Prelude
  imports Complex_Main "HOL-Library.Word" "HOL-Library.Multiset" "HOL-Library.Char_ord"
    "HOL-Library.List_Lexorder" "HOL-Library.Product_Lexorder"
begin

text \<open>
  What every component of the development shares: the machine types, the way a C++ exception or
  an undefined step becomes a value, the standard-library loops over vectors that the code calls
  again and again (\<open>std::find_if\<close> followed by \<open>erase\<close>), the collections of facts the component
  proofs use, and one locale for step systems, from which every reachability argument of the
  development is taken.
\<close>

unbundle bit_operations_syntax

type_synonym byte = "8 word"
type_synonym u16 = "16 word"
type_synonym uuid = "128 word"

named_theorems bucket_ops \<open>how the bucket operations act on lists of nodes\<close>
named_theorems wf_ops \<open>operations that keep a well-formedness invariant\<close>
named_theorems json_ops \<open>evaluation of the JSON accessors\<close>
named_theorems frame_ops \<open>parts of the state an operation leaves alone\<close>

section \<open>Exceptions and undefined steps as values\<close>

text \<open>
  No function of the program catches an exception, so a throw ends the handler and, through
  \<open>io_context::run\<close>, the process. \<open>Undefined\<close> stands for a step the C++ standard does not define:
  a null dereference, an access past the end, an erase at \<open>end()\<close>, a call through a dangling
  \<open>this\<close>.
\<close>

datatype cpp_error =
    Json_type_error
  | Json_out_of_range
  | Json_parse_error
  | Invalid_argument
  | Out_of_range
  | System_error
  | Runtime_error
  | Undefined

type_synonym 'a result = "cpp_error + 'a"

fun bind_res :: "'a result \<Rightarrow> ('a \<Rightarrow> 'b result) \<Rightarrow> 'b result" where
  "bind_res (Inl e) f = Inl e"
| "bind_res (Inr x) f = f x"

fun map_res :: "('a \<Rightarrow> 'b) \<Rightarrow> 'a result \<Rightarrow> 'b result" where
  "map_res f (Inl e) = Inl e"
| "map_res f (Inr x) = Inr (f x)"

definition of_option :: "cpp_error \<Rightarrow> 'a option \<Rightarrow> 'a result" where
  "of_option e x = (case x of None \<Rightarrow> Inl e | Some v \<Rightarrow> Inr v)"

text \<open>A loop over a vector whose body may throw: the first error ends it.\<close>

fun traverse_res :: "('a \<Rightarrow> 'b result) \<Rightarrow> 'a list \<Rightarrow> 'b list result" where
  "traverse_res f [] = Inr []"
| "traverse_res f (x # xs) =
     bind_res (f x) (\<lambda>y. map_res (Cons y) (traverse_res f xs))"

fun fold_res :: "('a \<Rightarrow> 's \<Rightarrow> 's result) \<Rightarrow> 'a list \<Rightarrow> 's \<Rightarrow> 's result" where
  "fold_res f [] s = Inr s"
| "fold_res f (x # xs) s = bind_res (f x s) (fold_res f xs)"

definition returns :: "'a result \<Rightarrow> bool" where
  "returns r \<longleftrightarrow> (\<exists>x. r = Inr x)"

lemma bind_res_Inr: "bind_res m f = Inr y \<longleftrightarrow> (\<exists>x. m = Inr x \<and> f x = Inr y)"
  by (cases m) auto

lemma bind_res_Inl: "bind_res m f = Inl e \<longleftrightarrow> m = Inl e \<or> (\<exists>x. m = Inr x \<and> f x = Inl e)"
  by (cases m) auto

lemma map_res_Inr: "map_res f m = Inr y \<longleftrightarrow> (\<exists>x. m = Inr x \<and> y = f x)"
  by (cases m) auto

lemma of_option_Inr: "of_option e x = Inr v \<longleftrightarrow> x = Some v"
  by (auto simp: of_option_def split: option.splits)

lemma of_option_simps [simp]: "of_option e None = Inl e" "of_option e (Some v) = Inr v"
  by (simp_all add: of_option_def)

lemmas res_inv = bind_res_Inr map_res_Inr of_option_Inr

lemma bind_res_assoc: "bind_res (bind_res m f) g = bind_res m (\<lambda>x. bind_res (f x) g)"
  by (cases m) auto

lemma traverse_res_total: "(\<And>x. x \<in> set xs \<Longrightarrow> f x = Inr (g x)) \<Longrightarrow> traverse_res f xs = Inr (map g xs)"
  by (induction xs) auto

lemma traverse_res_length: "traverse_res f xs = Inr ys \<Longrightarrow> length ys = length xs"
  by (induction xs arbitrary: ys) (auto simp: res_inv)

lemma fold_res_append:
  "fold_res f (xs @ ys) s = bind_res (fold_res f xs s) (fold_res f ys)"
proof (induction xs arbitrary: s)
  case (Cons x xs)
  then show ?case by (cases "f x s") auto
qed simp

lemma fold_res_total:
  "(\<And>x s. x \<in> set xs \<Longrightarrow> f x s = Inr (g x s)) \<Longrightarrow> fold_res f xs s = Inr (fold g xs s)"
  by (induction xs arbitrary: s) auto

lemma fold_res_invariant:
  assumes "fold_res f xs s = Inr t" and "P s"
    and "\<And>x s t. x \<in> set xs \<Longrightarrow> P s \<Longrightarrow> f x s = Inr t \<Longrightarrow> P t"
  shows "P t"
  using assms by (induction xs arbitrary: s) (auto simp: res_inv)

section \<open>Vectors\<close>

text \<open>\<open>auto it = std::find_if(v.begin(), v.end(), P); if(it != v.end()) v.erase(it);\<close>\<close>

fun erase_first :: "('a \<Rightarrow> bool) \<Rightarrow> 'a list \<Rightarrow> 'a list" where
  "erase_first P [] = []"
| "erase_first P (x # xs) = (if P x then xs else x # erase_first P xs)"

text \<open>\<open>it = v.erase(std::find_if(...)); v.insert(it, y);\<close>\<close>

fun replace_first :: "('a \<Rightarrow> bool) \<Rightarrow> 'a \<Rightarrow> 'a list \<Rightarrow> 'a list" where
  "replace_first P y [] = []"
| "replace_first P y (x # xs) = (if P x then y # xs else x # replace_first P y xs)"

lemma erase_first_none: "(\<And>x. x \<in> set xs \<Longrightarrow> \<not> P x) \<Longrightarrow> erase_first P xs = xs"
  by (induction xs) auto

lemma set_erase_first_subset: "set (erase_first P xs) \<subseteq> set xs"
  by (induction xs) auto

lemma length_erase_first_le: "length (erase_first P xs) \<le> length xs"
  by (induction xs) auto

lemma length_erase_first: "find P xs = Some x \<Longrightarrow> Suc (length (erase_first P xs)) = length xs"
  by (induction xs) (auto split: if_splits)

lemma distinct_map_erase_first: "distinct (map f xs) \<Longrightarrow> distinct (map f (erase_first P xs))"
  by (induction xs) (auto dest: subsetD [OF set_erase_first_subset])

lemma erase_first_filter:
  "distinct (map f xs) \<Longrightarrow> erase_first (\<lambda>x. f x = k) xs = filter (\<lambda>x. f x \<noteq> k) xs"
  by (induction xs) (auto intro!: filter_True [symmetric], metis imageI)

lemma length_replace_first [simp]: "length (replace_first P y xs) = length xs"
  by (induction xs) auto

lemma set_replace_first_subset: "set (replace_first P y xs) \<subseteq> insert y (set xs)"
  by (induction xs) auto

lemma distinct_map_replace_first:
  "distinct (map f xs) \<Longrightarrow> f y \<notin> f ` set xs \<Longrightarrow> distinct (map f (replace_first P y xs))"
  by (induction xs) (auto dest: subsetD [OF set_replace_first_subset])

lemma find_Some_set: "find P xs = Some x \<Longrightarrow> x \<in> set xs \<and> P x"
  by (induction xs) (auto split: if_splits)

lemma find_None_set: "find P xs = None \<longleftrightarrow> (\<forall>x \<in> set xs. \<not> P x)"
  by (induction xs) auto

lemma distinct_map_eqD:
  "distinct (map f xs) \<Longrightarrow> x \<in> set xs \<Longrightarrow> y \<in> set xs \<Longrightarrow> f x = f y \<Longrightarrow> x = y"
  by (induction xs) (auto simp: image_iff)

section \<open>Step systems\<close>

text \<open>
  A component driven by events is a set of start states and a step relation. What holds at the
  start and is kept by every step holds in every reachable state.
\<close>

inductive reach :: "('s \<Rightarrow> bool) \<Rightarrow> ('s \<Rightarrow> 's \<Rightarrow> bool) \<Rightarrow> 's \<Rightarrow> bool"
  for start :: "'s \<Rightarrow> bool" and step :: "'s \<Rightarrow> 's \<Rightarrow> bool" where
  reach_start: "start s \<Longrightarrow> reach start step s"
| reach_step: "reach start step s \<Longrightarrow> step s t \<Longrightarrow> reach start step t"

locale inductive_invariant =
  fixes start :: "'s \<Rightarrow> bool" and step :: "'s \<Rightarrow> 's \<Rightarrow> bool" and inv :: "'s \<Rightarrow> bool"
  assumes inv_start: "start s \<Longrightarrow> inv s"
    and inv_step: "step s t \<Longrightarrow> inv s \<Longrightarrow> inv t"
begin

lemma inv_reach: "reach start step s \<Longrightarrow> inv s"
  by (induction rule: reach.induct) (auto intro: inv_start inv_step)

end

section \<open>Numbers as bytes\<close>

text \<open>The low \<open>n\<close> bytes of a two's complement number, least significant first.\<close>

fun le_bytes :: "nat \<Rightarrow> int \<Rightarrow> byte list" where
  "le_bytes 0 v = []"
| "le_bytes (Suc n) v = word_of_int v # le_bytes n (v div 256)"

fun le_value :: "byte list \<Rightarrow> int" where
  "le_value [] = 0"
| "le_value (b # bs) = uint b + 256 * le_value bs"

lemma length_le_bytes [simp]: "length (le_bytes n v) = n"
  by (induction n arbitrary: v) auto

lemma le_value_bytes: "le_value (le_bytes n v) = v mod 2 ^ (8 * n)"
proof (induction n arbitrary: v)
  case (Suc n)
  have "v mod 2 ^ (8 * Suc n) = v mod 256 + 256 * (v div 256 mod 2 ^ (8 * n))"
    using zmod_zmult2_eq [of "2 ^ (8 * n)" v 256] by (simp add: power_add)
  then show ?case using Suc by (simp add: uint_word_of_int)
qed simp

lemma le_value_bounds: "0 \<le> le_value bs \<and> le_value bs < 2 ^ (8 * length bs)"
proof (induction bs)
  case (Cons b bs)
  have "0 \<le> uint b" "uint b < 256" using uint_lt2p [of b] by auto
  then show ?case using Cons by (simp add: power_add)
qed simp

text \<open>Reading the bytes back as a signed number of the same width.\<close>

definition le_signed :: "byte list \<Rightarrow> int" where
  "le_signed bs = (let v = le_value bs in if 2 * v < 2 ^ (8 * length bs) then v else v - 2 ^ (8 * length bs))"

lemma le_signed_bounds:
  "bs \<noteq> [] \<Longrightarrow> - (2 ^ (8 * length bs)) \<le> 2 * le_signed bs \<and> 2 * le_signed bs < 2 ^ (8 * length bs)"
  using le_value_bounds [of bs] by (auto simp: le_signed_def Let_def)

lemma le_signed_bytes:
  assumes "- (2 ^ (8 * n)) \<le> 2 * v" and "2 * v < 2 ^ (8 * n)"
  shows "le_signed (le_bytes n v) = v"
proof (cases "0 \<le> v")
  case True
  then have "v mod 2 ^ (8 * n) = v" using assms by (intro mod_pos_pos_trivial) auto
  then show ?thesis using assms by (simp add: le_signed_def le_value_bytes)
next
  case False
  have "v mod 2 ^ (8 * n) = (v + 2 ^ (8 * n)) mod 2 ^ (8 * n)" by simp
  also have "\<dots> = v + 2 ^ (8 * n)" using False assms by (intro mod_pos_pos_trivial) auto
  finally show ?thesis using False assms by (simp add: le_signed_def le_value_bytes)
qed

end
