(* ===== verification/SS_Json.thy ===== *)
theory SS_Json
  imports SS_Prelude "HOL-Library.Finite_Map"
begin

text \<open>
  The JSON values the messages are made of, and the accessors of \<open>include/json.hpp\<close> (nlohmann
  3.11.2) the program calls on them. A JSON object is a \<open>std::map\<close> and is modelled by a finite
  map; \<open>number_integer\<close> and \<open>number_unsigned\<close> are one constructor, a \<open>number_float\<close> is a \<open>double\<close>,
  a binary value carries its optional subtype, and \<open>JDiscarded\<close> is the value of a parse that failed
  without an exception.
  An accessor that throws returns \<open>Inl\<close>. The non-const \<open>operator[]\<close> inserts a null for a missing
  key, so it returns the changed value too; the const one is undefined on a missing key.
\<close>

text \<open>
  The values of a \<open>double\<close>: the finite ones are rationals, apart from the zero with a sign; the
  infinities carry theirs; all NaNs are one value (the program compares no two doubles).
\<close>

datatype double =
    D_finite rat
  | D_minus_zero
  | D_infinity bool
  | D_nan

text \<open>\<open>std::isfinite\<close>.\<close>

fun isfinite :: "double \<Rightarrow> bool" where
  "isfinite (D_finite r) = True"
| "isfinite D_minus_zero = True"
| "isfinite (D_infinity s) = False"
| "isfinite D_nan = False"

datatype json =
    JNull
  | JBool bool
  | JInt int
  | JFloat double
  | JStr string
  | JArr "json list"
  | JBin "nat option" "byte list"
  | JObj "(string, json) fmap"
  | JDiscarded

fun is_object :: "json \<Rightarrow> bool" where
  "is_object (JObj m) = True"
| "is_object _ = False"

fun json_contains :: "json \<Rightarrow> string \<Rightarrow> bool" where
  "json_contains (JObj m) k = (fmlookup m k \<noteq> None)"
| "json_contains _ k = False"

text \<open>\<open>operator[](key)\<close> on a non-const value: the element and the value after the call.\<close>

fun json_index :: "string \<Rightarrow> json \<Rightarrow> (json \<times> json) result" where
  "json_index k JNull = Inr (JNull, JObj (fmupd k JNull fmempty))"
| "json_index k (JObj m) =
     (case fmlookup m k of
        Some v \<Rightarrow> Inr (v, JObj m)
      | None \<Rightarrow> Inr (JNull, JObj (fmupd k JNull m)))"
| "json_index k _ = Inl Json_type_error"

text \<open>\<open>operator[](key) const\<close>.\<close>

fun json_index_const :: "string \<Rightarrow> json \<Rightarrow> json result" where
  "json_index_const k (JObj m) =
     (case fmlookup m k of Some v \<Rightarrow> Inr v | None \<Rightarrow> Inl Undefined)"
| "json_index_const k _ = Inl Json_type_error"

text \<open>\<open>body[key] = value\<close>.\<close>

fun json_set :: "string \<Rightarrow> json \<Rightarrow> json \<Rightarrow> json result" where
  "json_set k v JNull = Inr (JObj (fmupd k v fmempty))"
| "json_set k v (JObj m) = Inr (JObj (fmupd k v m))"
| "json_set k v _ = Inl Json_type_error"

fun json_push_back :: "json \<Rightarrow> json \<Rightarrow> json result" where
  "json_push_back v JNull = Inr (JArr [v])"
| "json_push_back v (JArr xs) = Inr (JArr (xs @ [v]))"
| "json_push_back v _ = Inl Json_type_error"

text \<open>\<open>body[key].push_back(value)\<close>.\<close>

definition json_push_at :: "string \<Rightarrow> json \<Rightarrow> json \<Rightarrow> json result" where
  "json_push_at k v b =
     bind_res (json_index k b) (\<lambda>(x, b').
       bind_res (json_push_back v x) (\<lambda>x'. json_set k x' b'))"

fun json_get_string :: "json \<Rightarrow> string result" where
  "json_get_string (JStr s) = Inr s"
| "json_get_string _ = Inl Json_type_error"

fun json_empty :: "json \<Rightarrow> bool" where
  "json_empty JNull = True"
| "json_empty (JArr xs) = (xs = [])"
| "json_empty (JObj m) = (m = fmempty)"
| "json_empty _ = False"

fun json_size :: "json \<Rightarrow> nat" where
  "json_size JNull = 0"
| "json_size (JArr xs) = length xs"
| "json_size (JObj m) = fcard (fmdom m)"
| "json_size _ = 1"

text \<open>Truncation of a floating-point number to an integer, as \<open>static_cast\<close> does it.\<close>

definition trunc_rat :: "rat \<Rightarrow> int" where
  "trunc_rat r = (if 0 \<le> r then \<lfloor>r\<rfloor> else \<lceil>r\<rceil>)"

fun trunc_double :: "double \<Rightarrow> int option" where
  "trunc_double (D_finite r) = Some (trunc_rat r)"
| "trunc_double D_minus_zero = Some 0"
| "trunc_double (D_infinity s) = None"
| "trunc_double D_nan = None"

text \<open>The conversion of a \<open>double\<close> to an integer type of the values from \<open>lo\<close> to below \<open>hi\<close>.\<close>

definition cast_double :: "int \<Rightarrow> int \<Rightarrow> double \<Rightarrow> int result" where
  "cast_double lo hi r =
     (case trunc_double r of
        Some i \<Rightarrow> if lo \<le> i \<and> i < hi then Inr i else Inl Undefined
      | None \<Rightarrow> Inl Undefined)"

text \<open>
  \<open>get<int>()\<close>: an integer is converted modulo \<open>2 ^ 32\<close>; a floating-point number whose integral
  part does not fit an \<open>int\<close>, an infinity and a NaN are undefined.
\<close>

fun json_get_int :: "json \<Rightarrow> int result" where
  "json_get_int (JInt i) = Inr (sint (word_of_int i :: 32 word))"
| "json_get_int (JFloat r) = cast_double (- (2 ^ 31)) (2 ^ 31) r"
| "json_get_int (JBool b) = Inr (if b then 1 else 0)"
| "json_get_int _ = Inl Json_type_error"

text \<open>Conversion to \<open>unsigned short\<close>.\<close>

fun json_get_ushort :: "json \<Rightarrow> u16 result" where
  "json_get_ushort (JInt i) = Inr (word_of_int i)"
| "json_get_ushort (JFloat r) = map_res word_of_int (cast_double 0 (2 ^ 16) r)"
| "json_get_ushort (JBool b) = Inr (if b then 1 else 0)"
| "json_get_ushort _ = Inl Json_type_error"

text \<open>
  Conversion to an enum: through \<open>get_arithmetic_value\<close> on its underlying type, a 32-bit unsigned
  integer here, which takes numbers only.
\<close>

fun json_get_enum :: "json \<Rightarrow> int result" where
  "json_get_enum (JInt i) = Inr (uint (word_of_int i :: 32 word))"
| "json_get_enum (JFloat r) = cast_double 0 (2 ^ 32) r"
| "json_get_enum _ = Inl Json_type_error"

text \<open>\<open>get<std::vector<std::string>>()\<close>.\<close>

fun json_get_strings :: "json \<Rightarrow> string list result" where
  "json_get_strings (JArr xs) = traverse_res json_get_string xs"
| "json_get_strings _ = Inl Json_type_error"

section \<open>Laws of the accessors\<close>

text \<open>What a lookup through the const \<open>operator[]\<close> sees: the map a value stands for.\<close>

fun json_fields :: "json \<Rightarrow> (string, json) fmap" where
  "json_fields (JObj m) = m"
| "json_fields _ = fmempty"

lemma json_contains_fields: "json_contains j k \<longleftrightarrow> fmlookup (json_fields j) k \<noteq> None"
  by (cases j) auto

lemma json_index_const_fields:
  "fmlookup (json_fields j) k = Some v \<Longrightarrow> json_index_const k j = Inr v"
  by (cases j) auto

lemma json_index_fields:
  "fmlookup (json_fields j) k = Some v \<Longrightarrow> json_index k j = Inr (v, j)"
  by (cases j) auto

lemma json_set_obj: "json_set k v j = Inr j' \<Longrightarrow> \<exists>m. j' = JObj m"
  by (cases j) auto

lemma json_set_fields:
  "json_set k v j = Inr j' \<Longrightarrow> json_fields j' = fmupd k v (json_fields j)"
  by (cases j) auto

lemma json_set_total: "is_object j \<Longrightarrow> json_set k v j = Inr (JObj (fmupd k v (json_fields j)))"
  by (cases j) auto

lemma is_object_fields: "is_object j \<longleftrightarrow> j = JObj (json_fields j)"
  by (cases j) auto

lemma json_push_at_arr:
  "fmlookup (json_fields j) k = Some (JArr xs) \<Longrightarrow>
   json_push_at k v j = Inr (JObj (fmupd k (JArr (xs @ [v])) (json_fields j)))"
  by (cases j) (auto simp: json_push_at_def)

lemma fmupd_same: "fmlookup m k = Some v \<Longrightarrow> fmupd k v m = m"
  by (rule fmap_ext) auto

lemma fmupd_twice [simp]: "fmupd k v (fmupd k w m) = fmupd k v m"
  by (rule fmap_ext) auto

lemma json_get_strings_map: "json_get_strings (JArr (map JStr ss)) = Inr ss"
  by (induction ss) auto

lemmas json_field_simps [json_ops] =
  json_contains_fields json_index_const_fields json_index_fields json_set_total json_push_at_arr

locale json_object =
  fixes get :: "string \<Rightarrow> 'j \<Rightarrow> json result"
    and put :: "string \<Rightarrow> json \<Rightarrow> 'j \<Rightarrow> 'j result"
    and obj :: "'j \<Rightarrow> bool"
  assumes put_total: "obj b \<Longrightarrow> \<exists>b'. put k v b = Inr b' \<and> obj b'"
    and get_put_same: "put k v b = Inr b' \<Longrightarrow> get k b' = Inr v"
    and get_put_other: "put k v b = Inr b' \<Longrightarrow> obj b \<Longrightarrow> k' \<noteq> k \<Longrightarrow> get k' b' = get k' b"
begin

text \<open>A client that sets two different fields reads both back.\<close>

lemma put_put_get:
  assumes "obj b" and "k \<noteq> k'" and "put k v b = Inr b1" and "put k' v' b1 = Inr b2"
  shows "get k b2 = Inr v \<and> get k' b2 = Inr v'"
  using assms by (metis get_put_same get_put_other put_total Inr_inject)

end

interpretation jo: json_object json_index_const json_set is_object
proof unfold_locales
  show "\<exists>b'. json_set k v b = Inr b' \<and> is_object b'" if "is_object b" for b k v
    using that by (cases b) auto
  show "json_index_const k b' = Inr v" if "json_set k v b = Inr b'" for k v b b'
    using that by (cases b) auto
  show "json_index_const k' b' = json_index_const k' b"
    if "json_set k v b = Inr b'" "is_object b" "k' \<noteq> k" for k v b b' k'
    using that by (cases b) auto
qed

end
