(* ===== verification/SS_Utils.thy ===== *)
theory SS_Utils
  imports SS_Json
begin

text \<open>
  Endpoints and the helpers of \<open>include/utils.hpp\<close> and \<open>src/utils.cpp\<close>, together with the record
  of everything the program takes from outside the repository.
\<close>

section \<open>Addresses and endpoints\<close>

text \<open>
  A \<open>boost::asio::ip::address\<close> holds a version 4 or a version 6 address (scope identifiers are
  left out). Addresses and endpoints are ordered as Boost documents it: version 4 before version
  6, then by value; endpoints by address, then by port. \<open>std::map<ip::udp::endpoint, _>\<close> walks its
  keys in this order.
\<close>

datatype ip_addr = V4 "32 word" | V6 "128 word"

datatype endpoint = Endpoint (ep_address: ip_addr) (ep_port: u16)

instantiation ip_addr :: linorder
begin

fun less_eq_ip_addr :: "ip_addr \<Rightarrow> ip_addr \<Rightarrow> bool" where
  "less_eq_ip_addr (V4 a) (V4 b) = (a \<le> b)"
| "less_eq_ip_addr (V4 a) (V6 b) = True"
| "less_eq_ip_addr (V6 a) (V4 b) = False"
| "less_eq_ip_addr (V6 a) (V6 b) = (a \<le> b)"

definition less_ip_addr :: "ip_addr \<Rightarrow> ip_addr \<Rightarrow> bool" where
  "less_ip_addr a b \<longleftrightarrow> a \<le> b \<and> \<not> b \<le> a"

instance
proof
  fix a b c :: ip_addr
  show "(a < b) = (a \<le> b \<and> \<not> b \<le> a)" by (rule less_ip_addr_def)
  show "a \<le> a" by (cases a) auto
  show "a \<le> b \<Longrightarrow> b \<le> c \<Longrightarrow> a \<le> c" by (cases a; cases b; cases c) auto
  show "a \<le> b \<Longrightarrow> b \<le> a \<Longrightarrow> a = b" by (cases a; cases b) auto
  show "a \<le> b \<or> b \<le> a" by (cases a; cases b) auto
qed

end

instantiation endpoint :: linorder
begin

definition less_eq_endpoint :: "endpoint \<Rightarrow> endpoint \<Rightarrow> bool" where
  "less_eq_endpoint a b \<longleftrightarrow>
     ep_address a < ep_address b \<or> ep_address a = ep_address b \<and> ep_port a \<le> ep_port b"

definition less_endpoint :: "endpoint \<Rightarrow> endpoint \<Rightarrow> bool" where
  "less_endpoint a b \<longleftrightarrow> a \<le> b \<and> \<not> b \<le> a"

instance
proof
  fix a b c :: endpoint
  show "(a < b) = (a \<le> b \<and> \<not> b \<le> a)" by (rule less_endpoint_def)
  show "a \<le> a" by (simp add: less_eq_endpoint_def)
  show "a \<le> b \<Longrightarrow> b \<le> c \<Longrightarrow> a \<le> c" by (auto simp: less_eq_endpoint_def)
  show "a \<le> b \<Longrightarrow> b \<le> a \<Longrightarrow> a = b"
    by (cases a; cases b) (auto simp: less_eq_endpoint_def)
  show "a \<le> b \<or> b \<le> a" by (auto simp: less_eq_endpoint_def)
qed

end

section \<open>What lies outside the repository\<close>

text \<open>
  Boost's address and UUID text forms, \<open>cu::sha1\<close> (a git submodule), the UUID generator (the
  \<open>n\<close>-th value it hands out) and the eight bytes of a \<open>double\<close> in memory are parameters. Each component takes
  the record as an argument; the laws a theorem needs of it are the predicates below.
\<close>

record ext =
  x_ip_to_string :: "ip_addr \<Rightarrow> string"
  x_ip_from_string :: "string \<Rightarrow> ip_addr option"
  x_is_loopback :: "ip_addr \<Rightarrow> bool"
  x_sha1 :: "byte list \<Rightarrow> byte list"
  x_uuid_to_string :: "uuid \<Rightarrow> string"
  x_uuid_from_string :: "string \<Rightarrow> uuid option"
  x_uuid_gen :: "nat \<Rightarrow> uuid"
  x_double_bytes :: "double \<Rightarrow> byte list"
  x_double_value :: "byte list \<Rightarrow> double"

text \<open>Printing an address and reading it back gives the address.\<close>

definition ip_text_ok :: "ext \<Rightarrow> bool" where
  "ip_text_ok E \<longleftrightarrow> (\<forall>a. x_ip_from_string E (x_ip_to_string E a) = Some a)"

text \<open>The text of a version 4 address is dotted decimal, so it has no colon.\<close>

definition v4_no_colon :: "ext \<Rightarrow> bool" where
  "v4_no_colon E \<longleftrightarrow> (\<forall>w. CHR '':'' \<notin> set (x_ip_to_string E (V4 w)))"

definition uuid_text_ok :: "ext \<Rightarrow> bool" where
  "uuid_text_ok E \<longleftrightarrow> (\<forall>u. x_uuid_from_string E (x_uuid_to_string E u) = Some u)"

text \<open>A \<open>double\<close> is eight bytes, and writing back the value of eight bytes keeps the value.\<close>

definition double_ok :: "ext \<Rightarrow> bool" where
  "double_ok E \<longleftrightarrow>
     (\<forall>r. length (x_double_bytes E r) = 8) \<and>
     (\<forall>bs. length bs = 8 \<longrightarrow> x_double_value E (x_double_bytes E (x_double_value E bs)) = x_double_value E bs)"

text \<open>The texts of addresses and UUIDs are short (36 characters for a UUID, at most 45 for an address).\<close>

definition codec_ok :: "ext \<Rightarrow> bool" where
  "codec_ok E \<longleftrightarrow> double_ok E \<and> (\<forall>a. length (x_ip_to_string E a) \<le> 45) \<and> (\<forall>u. length (x_uuid_to_string E u) \<le> 45)"

section \<open>Decimal numbers\<close>

definition digit_char :: "nat \<Rightarrow> char" where
  "digit_char d = char_of (48 + d)"

definition char_digit :: "char \<Rightarrow> nat" where
  "char_digit c = of_char c - 48"

definition is_digit :: "char \<Rightarrow> bool" where
  "is_digit c \<longleftrightarrow> 48 \<le> (of_char c :: nat) \<and> (of_char c :: nat) \<le> 57"

definition is_space :: "char \<Rightarrow> bool" where
  "is_space c \<longleftrightarrow> (of_char c :: nat) = 32 \<or> 9 \<le> (of_char c :: nat) \<and> (of_char c :: nat) \<le> 13"

text \<open>\<open>std::to_string\<close> of an unsigned number.\<close>

fun to_string_nat :: "nat \<Rightarrow> string" where
  "to_string_nat n =
     (if n < 10 then [digit_char n] else to_string_nat (n div 10) @ [digit_char (n mod 10)])"

declare to_string_nat.simps [simp del]

definition digits_value :: "string \<Rightarrow> nat" where
  "digits_value ds = foldl (\<lambda>a c. 10 * a + char_digit c) 0 ds"

text \<open>
  \<open>std::stoi\<close>: leading white space, an optional sign, the longest run of digits; no digit is
  \<open>std::invalid_argument\<close>, a value outside \<open>int\<close> is \<open>std::out_of_range\<close>; what follows the digits is
  ignored.
\<close>

definition stoi :: "string \<Rightarrow> int result" where
  "stoi s =
     (let s1 = dropWhile is_space s;
          neg = (case s1 of c # _ \<Rightarrow> c = CHR ''-'' | [] \<Rightarrow> False);
          s2 = (case s1 of c # r \<Rightarrow> if c = CHR ''-'' \<or> c = CHR ''+'' then r else s1 | [] \<Rightarrow> s1);
          ds = takeWhile is_digit s2;
          v = (if neg then - int (digits_value ds) else int (digits_value ds))
      in if ds = [] then Inl Invalid_argument
         else if - (2 ^ 31) \<le> v \<and> v < 2 ^ 31 then Inr v
         else Inl Out_of_range)"

section \<open>The helpers of utils.cpp\<close>

definition endpoint_to_str :: "ext \<Rightarrow> endpoint \<Rightarrow> string" where
  "endpoint_to_str E ep =
     x_ip_to_string E (ep_address ep) @ '':'' @ to_string_nat (unat (ep_port ep))"

text \<open>
  \<open>ep_str.substr(0, ep_str.find(":"))\<close> is the text before the first colon, the whole text if there
  is none; \<open>ep_str.substr(ep_str.find(':') + 1)\<close> is the text after it, the whole text if there is
  none, since \<open>npos + 1\<close> is 0. The port is narrowed from \<open>int\<close> to \<open>unsigned short\<close>.
\<close>

definition before_colon :: "string \<Rightarrow> string" where
  "before_colon s = takeWhile (\<lambda>c. c \<noteq> CHR '':'') s"

definition after_colon :: "string \<Rightarrow> string" where
  "after_colon s =
     (if CHR '':'' \<in> set s then tl (dropWhile (\<lambda>c. c \<noteq> CHR '':'') s) else s)"

definition str_to_endpoint :: "ext \<Rightarrow> string \<Rightarrow> endpoint result" where
  "str_to_endpoint E ep_str =
     bind_res (stoi (after_colon ep_str)) (\<lambda>port.
       bind_res (of_option System_error (x_ip_from_string E (before_colon ep_str))) (\<lambda>addr.
         Inr (Endpoint addr (word_of_int port))))"

definition extract_endpoint :: "ext \<Rightarrow> endpoint \<Rightarrow> string \<times> u16" where
  "extract_endpoint E ep = (x_ip_to_string E (ep_address ep), ep_port ep)"

definition addr_pair_to_endpoint :: "ext \<Rightarrow> string \<Rightarrow> u16 \<Rightarrow> endpoint result" where
  "addr_pair_to_endpoint E ip port =
     bind_res (of_option System_error (x_ip_from_string E ip)) (\<lambda>a. Inr (Endpoint a port))"

text \<open>The address bytes, then the port in memory order (little-endian).\<close>

definition endpoint_to_binary :: "ext \<Rightarrow> endpoint \<Rightarrow> byte list" where
  "endpoint_to_binary E ep =
     map of_char (x_ip_to_string E (ep_address ep))
     @ [ucast (ep_port ep), ucast (drop_bit 8 (ep_port ep))]"

text \<open>\<open>generate_random_endpoint\<close> over the five numbers its distributions draw.\<close>

definition generate_random_endpoint :: "byte \<Rightarrow> byte \<Rightarrow> byte \<Rightarrow> byte \<Rightarrow> u16 \<Rightarrow> endpoint" where
  "generate_random_endpoint byte_1 byte_2 byte_3 byte_4 random_port =
     Endpoint (V4 (push_bit 24 (ucast byte_1) OR push_bit 16 (ucast byte_2)
                   OR push_bit 8 (ucast byte_3) OR ucast byte_4)) random_port"

text \<open>\<open>ip::udp::endpoint( ip::address::from_string("0.0.0.0"), 0 )\<close>.\<close>

definition any_endpoint :: endpoint where
  "any_endpoint = Endpoint (V4 0) 0"

section \<open>Lemmas\<close>

lemma of_char_digit [simp]: "d < 10 \<Longrightarrow> (of_char (digit_char d) :: nat) = 48 + d"
  by (simp add: digit_char_def)

lemma char_digit_digit_char [simp]: "d < 10 \<Longrightarrow> char_digit (digit_char d) = d"
  by (simp add: char_digit_def)

lemma is_digit_digit_char [simp]: "d < 10 \<Longrightarrow> is_digit (digit_char d)"
  by (simp add: is_digit_def)

lemma to_string_nat_digits: "list_all is_digit (to_string_nat n)"
proof (induction n rule: to_string_nat.induct)
  case (1 n)
  then show ?case by (subst to_string_nat.simps) auto
qed

lemma to_string_nat_nonempty [simp]: "to_string_nat n \<noteq> []"
  by (subst to_string_nat.simps) simp

lemma digits_value_snoc: "digits_value (ds @ [c]) = 10 * digits_value ds + char_digit c"
  by (simp add: digits_value_def)

lemma digits_value_to_string_nat [simp]: "digits_value (to_string_nat n) = n"
proof (induction n rule: to_string_nat.induct)
  case (1 n)
  show ?case
  proof (cases "n < 10")
    case True
    then show ?thesis by (subst to_string_nat.simps) (simp add: digits_value_def)
  next
    case False
    with "1.IH" show ?thesis
      by (subst to_string_nat.simps) (simp add: digits_value_snoc)
  qed
qed

lemma digit_not_special:
  assumes "is_digit c"
  shows "\<not> is_space c" "c \<noteq> CHR ''-''" "c \<noteq> CHR ''+''" "c \<noteq> CHR '':''" "c \<noteq> CHR ''.''"
  using assms by (auto simp: is_digit_def is_space_def)

lemma stoi_to_string_nat: "n < 2 ^ 31 \<Longrightarrow> stoi (to_string_nat n) = Inr (int n)"
proof -
  assume n: "n < 2 ^ 31"
  obtain c cs where s: "to_string_nat n = c # cs"
    using to_string_nat_nonempty [of n] by (cases "to_string_nat n") auto
  have all: "is_digit c" "\<forall>x \<in> set cs. is_digit x"
    using to_string_nat_digits [of n] s by (simp_all add: list_all_iff)
  from all(1) have "\<not> is_space c" "c \<noteq> CHR ''-''" "c \<noteq> CHR ''+''"
    by (auto dest: digit_not_special)
  with all have "stoi (c # cs) = (if int (digits_value (c # cs)) < 2 ^ 31
      then Inr (int (digits_value (c # cs))) else Inl Out_of_range)"
    by (simp add: stoi_def Let_def takeWhile_eq_all_conv [THEN iffD2])
  moreover have "digits_value (c # cs) = n"
    using s digits_value_to_string_nat [of n] by simp
  ultimately show ?thesis using n s by simp
qed

lemma before_colon_append:
  "CHR '':'' \<notin> set a \<Longrightarrow> before_colon (a @ '':'' @ b) = a"
  unfolding before_colon_def by (induction a) auto

lemma after_colon_append:
  "CHR '':'' \<notin> set a \<Longrightarrow> after_colon (a @ '':'' @ b) = b"
  unfolding after_colon_def by (induction a) auto

lemma addr_pair_extract:
  "ip_text_ok E \<Longrightarrow> addr_pair_to_endpoint E (fst (extract_endpoint E ep)) (snd (extract_endpoint E ep)) = Inr ep"
  by (cases ep) (simp add: addr_pair_to_endpoint_def extract_endpoint_def ip_text_ok_def)

lemma str_to_endpoint_v4:
  assumes "ip_text_ok E" and "v4_no_colon E"
  shows "str_to_endpoint E (endpoint_to_str E (Endpoint (V4 w) p)) = Inr (Endpoint (V4 w) p)"
proof -
  have col: "CHR '':'' \<notin> set (x_ip_to_string E (V4 w))"
    using assms(2) by (simp add: v4_no_colon_def)
  have "unat p < 2 ^ 31"
    using unsigned_less [of p, where 'a = nat] by simp
  then have "stoi (to_string_nat (unat p)) = Inr (int (unat p))"
    by (rule stoi_to_string_nat)
  then show ?thesis
    using assms(1) before_colon_append [OF col] after_colon_append [OF col]
    by (simp add: str_to_endpoint_def endpoint_to_str_def ip_text_ok_def)
qed

section \<open>A concrete environment\<close>

text \<open>
  One instance of the record, on which the theorems that assume laws of it are applied. Addresses
  and identifiers are printed as a decimal number after a letter, the digest is the reversed input
  padded to 20 bytes, and a floating-point number keeps its integral part.
\<close>

definition sample_ext :: "ext" where
  "sample_ext =
     \<lparr>x_ip_to_string = (\<lambda>a. case a of V4 w \<Rightarrow> CHR ''4'' # to_string_nat (unat w)
                                    | V6 w \<Rightarrow> CHR ''6'' # to_string_nat (unat w)),
      x_ip_from_string = (\<lambda>s. case s of [] \<Rightarrow> None
         | c # ds \<Rightarrow> if c = CHR ''4'' then Some (V4 (word_of_nat (digits_value ds)))
                     else if c = CHR ''6'' then Some (V6 (word_of_nat (digits_value ds))) else None),
      x_is_loopback = (\<lambda>a. case a of V4 w \<Rightarrow> drop_bit 24 w = 127 | V6 w \<Rightarrow> w = 1),
      x_sha1 = (\<lambda>bs. take 20 (rev bs @ replicate 20 0)),
      x_uuid_to_string = (\<lambda>u. to_string_nat (unat u)),
      x_uuid_from_string = (\<lambda>s. Some (word_of_nat (digits_value s))),
      x_uuid_gen = (\<lambda>n. word_of_nat (Suc n)),
      x_double_bytes = (\<lambda>r. le_bytes 8 (case trunc_double r of Some i \<Rightarrow> i | None \<Rightarrow> 0)),
      x_double_value = (\<lambda>bs. D_finite (of_int (le_value bs)))\<rparr>"

lemma sample_uuid_gen [simp]: "x_uuid_gen sample_ext n = word_of_nat (Suc n)"
  by (simp add: sample_ext_def)

lemma sample_ip_text_ok: "ip_text_ok sample_ext"
  by (auto simp: ip_text_ok_def sample_ext_def split: ip_addr.splits)

lemma to_string_nat_no_colon: "CHR '':'' \<notin> set (to_string_nat n)"
  using to_string_nat_digits [of n] digit_not_special(4) by (fastforce simp: list_all_iff)

lemma sample_v4_no_colon: "v4_no_colon sample_ext"
  by (simp add: v4_no_colon_def sample_ext_def to_string_nat_no_colon)

lemma sample_uuid_text_ok: "uuid_text_ok sample_ext"
  by (simp add: uuid_text_ok_def sample_ext_def)

lemma sample_double_ok: "double_ok sample_ext"
proof -
  have "le_value bs mod 2 ^ 64 = le_value bs" if "length bs = 8" for bs
    using le_value_bounds [of bs] that by (intro mod_pos_pos_trivial) auto
  moreover have "trunc_rat (of_int v) = v" for v by (simp add: trunc_rat_def)
  ultimately show ?thesis by (simp add: double_ok_def sample_ext_def le_value_bytes)
qed

lemma length_to_string_nat: "0 < k \<Longrightarrow> n < 10 ^ k \<Longrightarrow> length (to_string_nat n) \<le> k"
proof (induction k arbitrary: n)
  case (Suc k)
  show ?case
  proof (cases "n < 10")
    case False
    then have "0 < k" using Suc.prems by (cases k) auto
    moreover have "n div 10 < 10 ^ k" using Suc.prems by (simp add: less_mult_imp_div_less mult.commute)
    ultimately show ?thesis using Suc.IH [of "n div 10"] False by (simp add: to_string_nat.simps [of n])
  qed (simp add: to_string_nat.simps [of n])
qed simp

lemma length_endpoint_to_str: "codec_ok E \<Longrightarrow> length (endpoint_to_str E ep) \<le> 51"
proof -
  assume "codec_ok E"
  then have "length (x_ip_to_string E (ep_address ep)) \<le> 45" by (simp add: codec_ok_def)
  moreover have "unat (ep_port ep) < 10 ^ 5" using unsigned_less [of "ep_port ep", where ?'a = nat] by simp
  then have "length (to_string_nat (unat (ep_port ep))) \<le> 5" by (intro length_to_string_nat) simp
  ultimately show ?thesis by (simp add: endpoint_to_str_def)
qed

lemma sample_codec_ok: "codec_ok sample_ext"
proof -
  have "unat u < 10 ^ 39" for u :: "128 word" using unsigned_less [of u, where ?'a = nat] by simp
  then have u: "length (to_string_nat (unat u)) \<le> 39" for u :: "128 word" by (intro length_to_string_nat) simp
  have "unat u < 10 ^ 10" for u :: "32 word" using unsigned_less [of u, where ?'a = nat] by simp
  then have w: "length (to_string_nat (unat u)) \<le> 10" for u :: "32 word" by (intro length_to_string_nat) simp
  have "length (x_ip_to_string sample_ext a) \<le> 45" for a
  proof (cases a)
    case (V4 x)
    then show ?thesis using w [of x] by (simp add: sample_ext_def)
  next
    case (V6 x)
    then show ?thesis using u [of x] by (simp add: sample_ext_def)
  qed
  moreover have "length (x_uuid_to_string sample_ext i) \<le> 45" for i
    using u [of i] by (simp add: sample_ext_def)
  ultimately show ?thesis by (simp add: codec_ok_def sample_double_ok)
qed

lemmas sample_ext_ok = sample_codec_ok sample_double_ok sample_ip_text_ok sample_v4_no_colon sample_uuid_text_ok

end
