(* ===== verification/SS_Io.thy ===== *)
theory SS_Io
  imports SS_Utils
begin

text \<open>
  The world the components act on: the clock, the UUID generator, the socket and the queue and
  timers of the one \<open>io_context\<close>. Every component extends the record \<open>io_world\<close> by its own state,
  and every function of a component is polymorphic in what later components add.

  A handler the code hands to the \<open>io_context\<close> is a value of \<open>task\<close>. A lambda that captured \<open>this\<close>
  of an observer carries the observer's identifier; running it looks the observer up, and it is
  \<open>Undefined\<close> when the observer is gone, since the pointer dangles then. The clock counts whole
  seconds, the unit of \<open>std::time\<close> and of every timer of the program.
\<close>

datatype task =
    T_recv "byte list"
  | T_recv_aborted
  | T_command "string list"
  | T_ping_timeout uuid
  | T_call_timeout uuid
  | T_call_pong uuid
  | T_call_find uuid endpoint
  | T_get_remote_nodes
  | T_maintainer_tick
  | T_kad_refresh
  | T_binding_timeout uuid
  | T_sr_handler uuid "endpoint option"
  | T_traversal_done uuid
  | T_ice_refresh
  | T_pool_refresh
  | T_node_tick

record io_world =
  w_now :: int
  w_uuids :: nat
  w_app_id :: string
  w_net :: "(endpoint \<times> byte list) list"
  w_queue :: "task list"
  w_timers :: "(int \<times> task) list"

text \<open>\<open>random_generator()()\<close>.\<close>

definition fresh_uuid :: "ext \<Rightarrow> 'a io_world_scheme \<Rightarrow> uuid \<times> 'a io_world_scheme" where
  "fresh_uuid E w = (x_uuid_gen E (w_uuids w), w\<lparr>w_uuids := Suc (w_uuids w)\<rparr>)"

text \<open>\<open>io_context::post\<close>: the queue is first in, first out.\<close>

definition io_post :: "task \<Rightarrow> 'a io_world_scheme \<Rightarrow> 'a io_world_scheme" where
  "io_post t w = w\<lparr>w_queue := w_queue w @ [t]\<rparr>"

text \<open>
  \<open>deadline_timer::cancel\<close>: the pending waits of the timer are queued with \<open>operation_aborted\<close>. No
  handler of the program looks at the error code of a timer, so the aborted handler is the same
  task.
\<close>

definition timer_cancel :: "task \<Rightarrow> 'a io_world_scheme \<Rightarrow> 'a io_world_scheme" where
  "timer_cancel t w =
     w\<lparr>w_queue := w_queue w @ map snd (filter (\<lambda>(_, u). u = t) (w_timers w)),
       w_timers := filter (\<lambda>(_, u). u \<noteq> t) (w_timers w)\<rparr>"

text \<open>\<open>expires_from_now\<close> (which cancels pending waits) followed by \<open>async_wait\<close>.\<close>

definition timer_set :: "task \<Rightarrow> int \<Rightarrow> 'a io_world_scheme \<Rightarrow> 'a io_world_scheme" where
  "timer_set t secs w =
     (let w' = timer_cancel t w
      in w'\<lparr>w_timers := w_timers w' @ [(w_now w' + secs, t)]\<rparr>)"

definition socket_send :: "endpoint \<Rightarrow> byte list \<Rightarrow> 'a io_world_scheme \<Rightarrow> 'a io_world_scheme" where
  "socket_send dest bytes w = w\<lparr>w_net := w_net w @ [(dest, bytes)]\<rparr>"

section \<open>What each of them leaves alone\<close>

lemma io_post_simps [simp]:
  "w_now (io_post t w) = w_now w" "w_uuids (io_post t w) = w_uuids w"
  "w_app_id (io_post t w) = w_app_id w" "w_net (io_post t w) = w_net w"
  "w_queue (io_post t w) = w_queue w @ [t]" "w_timers (io_post t w) = w_timers w"
  "io_world.more (io_post t w) = io_world.more w"
  by (simp_all add: io_post_def)

lemma timer_cancel_simps [simp]:
  "w_now (timer_cancel t w) = w_now w" "w_uuids (timer_cancel t w) = w_uuids w"
  "w_app_id (timer_cancel t w) = w_app_id w" "w_net (timer_cancel t w) = w_net w"
  "w_queue (timer_cancel t w) = w_queue w @ map snd (filter (\<lambda>(_, u). u = t) (w_timers w))"
  "w_timers (timer_cancel t w) = filter (\<lambda>(_, u). u \<noteq> t) (w_timers w)"
  "io_world.more (timer_cancel t w) = io_world.more w"
  by (simp_all add: timer_cancel_def)

lemma timer_set_simps [simp]:
  "w_now (timer_set t s w) = w_now w" "w_uuids (timer_set t s w) = w_uuids w"
  "w_app_id (timer_set t s w) = w_app_id w" "w_net (timer_set t s w) = w_net w"
  "w_queue (timer_set t s w) = w_queue w @ map snd (filter (\<lambda>(_, u). u = t) (w_timers w))"
  "w_timers (timer_set t s w) = filter (\<lambda>(_, u). u \<noteq> t) (w_timers w) @ [(w_now w + s, t)]"
  "io_world.more (timer_set t s w) = io_world.more w"
  by (simp_all add: timer_set_def Let_def)

lemma socket_send_simps [simp]:
  "w_now (socket_send d b w) = w_now w" "w_uuids (socket_send d b w) = w_uuids w"
  "w_app_id (socket_send d b w) = w_app_id w" "w_net (socket_send d b w) = w_net w @ [(d, b)]"
  "w_queue (socket_send d b w) = w_queue w" "w_timers (socket_send d b w) = w_timers w"
  "io_world.more (socket_send d b w) = io_world.more w"
  by (simp_all add: socket_send_def)

lemma fresh_uuid_simps [simp]:
  "fst (fresh_uuid E w) = x_uuid_gen E (w_uuids w)"
  "snd (fresh_uuid E w) = w\<lparr>w_uuids := Suc (w_uuids w)\<rparr>"
  by (simp_all add: fresh_uuid_def)

text \<open>Waiting for one timer does not touch the waits of another.\<close>

lemma timer_set_other:
  "t \<noteq> u \<Longrightarrow> (d, u) \<in> set (w_timers (timer_set t s w)) \<longleftrightarrow> (d, u) \<in> set (w_timers w)"
  by auto

end
