(* ===== verification/SS_ObserverStorage.thy ===== *)
theory SS_ObserverStorage
  imports SS_Io
begin

text \<open>
  \<open>observer.hpp\<close>, \<open>observer.cpp\<close> and \<open>observer_strage.hpp\<close>. An observer is a record that extends
  \<open>base_observer\<close>; the wrapper \<open>observer<T>\<close> shares one body between its copies, so an observer is
  known by its identifier. One entry of the storage is a \<open>hashed_unique\<close> index over the identifier:
  a list without repeated identifiers, whose order no operation of the program depends on.
\<close>

section \<open>Observers\<close>

record base_observer =
  bo_id :: uuid
  bo_expire_at :: int
  bo_expire_flag :: bool
  bo_type_name :: string

abbreviation DEFAULT_EXPIRE_TIME_s :: int where
  "DEFAULT_EXPIRE_TIME_s \<equiv> 20"

text \<open>The constructor: a nil identifier is drawn a second time.\<close>

definition base_observer_new ::
  "ext \<Rightarrow> string \<Rightarrow> 'a io_world_scheme \<Rightarrow> base_observer \<times> 'a io_world_scheme" where
  "base_observer_new E t_name w =
     (let (i, w1) = fresh_uuid E w;
          (i', w2) = (if i = 0 then fresh_uuid E w1 else (i, w1))
      in (\<lparr>bo_id = i', bo_expire_at = w_now w + DEFAULT_EXPIRE_TIME_s, bo_expire_flag = False,
           bo_type_name = t_name\<rparr>, w2))"

definition get_expire_time_left :: "int \<Rightarrow> 'a base_observer_scheme \<Rightarrow> int" where
  "get_expire_time_left now obs = bo_expire_at obs - now"

definition destruct_self :: "'a base_observer_scheme \<Rightarrow> 'a base_observer_scheme" where
  "destruct_self obs = obs\<lparr>bo_expire_at := 0\<rparr>"

definition extend_expire_at :: "int \<Rightarrow> int \<Rightarrow> 'a base_observer_scheme \<Rightarrow> 'a base_observer_scheme" where
  "extend_expire_at now t obs = obs\<lparr>bo_expire_at := now + t\<rparr>"

definition is_expired :: "int \<Rightarrow> 'a base_observer_scheme \<Rightarrow> bool" where
  "is_expired now obs \<longleftrightarrow> bo_expire_flag obs \<or> bo_expire_at obs \<le> now"

section \<open>One entry of the storage\<close>

abbreviation OBSERVER_STRAGE_TICK_TIME_s :: int where
  "OBSERVER_STRAGE_TICK_TIME_s \<equiv> 60"

text \<open>The range of the unique index that holds the key: at most one element.\<close>

definition os_find :: "uuid \<Rightarrow> 'a base_observer_scheme list \<Rightarrow> 'a base_observer_scheme list" where
  "os_find i e = filter (\<lambda>obs. bo_id obs = i) e"

definition os_add ::
  "'a base_observer_scheme \<Rightarrow> 'a base_observer_scheme list \<Rightarrow> bool \<times> 'a base_observer_scheme list" where
  "os_add obs e =
     (if \<exists>x \<in> set e. bo_id x = bo_id obs then (False, e) else (True, e @ [obs]))"

text \<open>\<open>delete_observer(id)\<close>: \<open>erase\<close> of what \<open>find\<close> returns, which is \<open>end()\<close> for an absent key.\<close>

definition os_delete :: "uuid \<Rightarrow> 'a base_observer_scheme list \<Rightarrow> 'a base_observer_scheme list result" where
  "os_delete i e =
     (if os_find i e = [] then Inl Undefined else Inr (filter (\<lambda>obs. bo_id obs \<noteq> i) e))"

text \<open>\<open>pop_observer\<close> erases the element its loop iterator stands on and then increments it.\<close>

definition os_pop ::
  "uuid \<Rightarrow> 'a base_observer_scheme list \<Rightarrow> ('a base_observer_scheme list \<times> 'a base_observer_scheme list) result" where
  "os_pop i e = (if os_find i e = [] then Inr ([], e) else Inl Undefined)"

text \<open>\<open>delete_expires_observer\<close>: the loop takes the iterator \<open>erase\<close> returns, or the next one.\<close>

fun os_delete_expires :: "int \<Rightarrow> 'a base_observer_scheme list \<Rightarrow> 'a base_observer_scheme list" where
  "os_delete_expires now [] = []"
| "os_delete_expires now (obs # e) =
     (if is_expired now obs then os_delete_expires now e else obs # os_delete_expires now e)"

text \<open>A change of the observer a caller holds a reference to.\<close>

definition os_modify ::
  "uuid \<Rightarrow> ('a base_observer_scheme \<Rightarrow> 'a base_observer_scheme) \<Rightarrow>
   'a base_observer_scheme list \<Rightarrow> 'a base_observer_scheme list" where
  "os_modify i f e = map (\<lambda>obs. if bo_id obs = i then f obs else obs) e"

text \<open>The observer a captured \<open>this\<close> points to.\<close>

definition os_deref :: "uuid \<Rightarrow> 'a base_observer_scheme list \<Rightarrow> 'a base_observer_scheme result" where
  "os_deref i e = of_option Undefined (find (\<lambda>obs. bo_id obs = i) e)"

section \<open>Lemmas\<close>

lemma os_delete_expires_filter: "os_delete_expires now e = filter (\<lambda>obs. \<not> is_expired now obs) e"
  by (induction e) auto

definition os_ids :: "'a base_observer_scheme list \<Rightarrow> uuid set" where
  "os_ids e = bo_id ` set e"

definition os_unique :: "'a base_observer_scheme list \<Rightarrow> bool" where
  "os_unique e \<longleftrightarrow> distinct (map bo_id e)"

lemma os_ids_simps [simp]:
  "os_ids [] = {}" "os_ids (obs # e) = insert (bo_id obs) (os_ids e)"
  "os_ids (e @ e') = os_ids e \<union> os_ids e'"
  by (auto simp: os_ids_def)

lemma os_unique_Nil [simp, wf_ops]: "os_unique []"
  by (simp add: os_unique_def)

lemma os_add_unique [wf_ops]: "os_unique e \<Longrightarrow> os_unique (snd (os_add obs e))"
  by (auto simp: os_add_def os_unique_def)

lemma os_add_fresh: "bo_id obs \<notin> os_ids e \<Longrightarrow> os_add obs e = (True, e @ [obs])"
  by (auto simp: os_add_def os_ids_def image_iff)

lemma os_filter_unique [wf_ops]: "os_unique e \<Longrightarrow> os_unique (filter P e)"
  by (simp add: os_unique_def distinct_map_filter)

lemma os_delete_expires_unique [wf_ops]: "os_unique e \<Longrightarrow> os_unique (os_delete_expires now e)"
  by (simp add: os_delete_expires_filter os_filter_unique)

lemma os_modify_ids [simp]:
  "(\<And>obs. bo_id (f obs) = bo_id obs) \<Longrightarrow> map bo_id (os_modify i f e) = map bo_id e"
  by (simp add: os_modify_def)

lemma os_modify_unique [wf_ops]:
  "(\<And>obs. bo_id (f obs) = bo_id obs) \<Longrightarrow> os_unique e \<Longrightarrow> os_unique (os_modify i f e)"
  by (simp add: os_unique_def)

lemma os_modify_os_ids [simp]:
  "(\<And>obs. bo_id (f obs) = bo_id obs) \<Longrightarrow> os_ids (os_modify i f e) = os_ids e"
  by (metis os_ids_def os_modify_ids list.set_map)

lemma os_modify_absent: "i \<notin> os_ids e \<Longrightarrow> os_modify i f e = e"
  unfolding os_modify_def os_ids_def by (rule map_idI) auto

lemma set_os_modify: "set (os_modify i f e) = (\<lambda>obs. if bo_id obs = i then f obs else obs) ` set e"
  by (simp add: os_modify_def)

lemma os_deref_Inr: "os_deref i e = Inr obs \<Longrightarrow> obs \<in> set e \<and> bo_id obs = i"
  by (auto simp: os_deref_def of_option_Inr dest: find_Some_set)

lemma os_deref_present: "os_unique e \<Longrightarrow> obs \<in> set e \<Longrightarrow> os_deref (bo_id obs) e = Inr obs"
proof (induction e)
  case (Cons x e)
  then show ?case by (auto simp: os_unique_def os_deref_def)
qed simp

lemma os_deref_absent: "i \<notin> os_ids e \<Longrightarrow> os_deref i e = Inl Undefined"
  by (induction e) (auto simp: os_deref_def)

lemma os_deref_append: "i \<notin> os_ids e \<Longrightarrow> os_deref i (e @ e') = os_deref i e'"
  by (induction e) (auto simp: os_deref_def)

lemma os_deref_Cons [simp]: "os_deref i (obs # e) = (if bo_id obs = i then Inr obs else os_deref i e)"
  by (simp add: os_deref_def)

lemma os_find_present: "os_unique e \<Longrightarrow> obs \<in> set e \<Longrightarrow> os_find (bo_id obs) e = [obs]"
proof (induction e)
  case (Cons x e)
  then have "bo_id obs \<notin> bo_id ` set e" if "obs = x" using that by (auto simp: os_unique_def)
  with Cons show ?case by (auto simp: os_unique_def os_find_def filter_empty_conv image_iff)
qed simp

lemma os_find_absent: "i \<notin> os_ids e \<Longrightarrow> os_find i e = []"
  by (auto simp: os_find_def os_ids_def filter_empty_conv)

lemma os_find_empty_iff: "os_find i e = [] \<longleftrightarrow> i \<notin> os_ids e"
  by (auto simp: os_find_def os_ids_def filter_empty_conv)

lemma os_find_set: "obs \<in> set (os_find i e) \<longleftrightarrow> obs \<in> set e \<and> bo_id obs = i"
  by (auto simp: os_find_def)

section \<open>The interface the servers use\<close>

text \<open>
  What the DHT manager and the ICE agent rely on: a storage keeps what was added under its own
  identifier, a lookup finds nothing else, and the periodic clean-up takes away the expired
  observers and no other.
\<close>

locale observer_storage =
  fixes look :: "uuid \<Rightarrow> 's \<Rightarrow> 'o list"
    and add :: "'o \<Rightarrow> 's \<Rightarrow> 's"
    and clean :: "int \<Rightarrow> 's \<Rightarrow> 's"
    and key :: "'o \<Rightarrow> uuid"
    and expired :: "int \<Rightarrow> 'o \<Rightarrow> bool"
    and good :: "'s \<Rightarrow> bool"
  assumes look_key: "obs \<in> set (look i s) \<Longrightarrow> key obs = i"
    and look_add_same: "good s \<Longrightarrow> look (key obs) s = [] \<Longrightarrow> look (key obs) (add obs s) = [obs]"
    and look_add_other: "i \<noteq> key obs \<Longrightarrow> look i (add obs s) = look i s"
    and add_good: "good s \<Longrightarrow> good (add obs s)"
    and look_clean: "good s \<Longrightarrow> look i (clean now s) = filter (\<lambda>obs. \<not> expired now obs) (look i s)"
    and clean_good: "good s \<Longrightarrow> good (clean now s)"
begin

text \<open>A fresh observer is found until a clean-up finds it expired, and is gone after that one.\<close>

lemma found_until_expired:
  assumes "good s" and "look (key obs) s = []"
  shows "look (key obs) (clean now (add obs s)) = (if expired now obs then [] else [obs])"
  using assms look_add_same [OF assms] look_clean [OF add_good [OF assms(1)], of "key obs" now obs] by simp

text \<open>Adding an observer under a new identifier hides no observer already stored.\<close>

lemma add_keeps:
  assumes "good s" and "look (key obs) s = []" and "look i s = [old]"
  shows "look i (add obs s) = [old]"
proof -
  have "i \<noteq> key obs" using assms(2,3) by auto
  then show ?thesis using assms(3) by (simp add: look_add_other)
qed

end

interpretation os: observer_storage os_find "\<lambda>obs e. snd (os_add obs e)" os_delete_expires bo_id is_expired os_unique
proof unfold_locales
  fix obs :: "'b base_observer_scheme" and e i and now :: int
  show "obs \<in> set (os_find i e) \<Longrightarrow> bo_id obs = i" by (simp add: os_find_set)
  show "os_find (bo_id obs) e = [] \<Longrightarrow> os_find (bo_id obs) (snd (os_add obs e)) = [obs]"
    using os_add_fresh [of obs e] by (simp add: os_find_empty_iff os_find_def [of _ "e @ [obs]"])
      (simp add: os_find_def [symmetric] os_find_absent)
  show "i \<noteq> bo_id obs \<Longrightarrow> os_find i (snd (os_add obs e)) = os_find i e"
    by (auto simp: os_add_def os_find_def)
  show "os_unique e \<Longrightarrow> os_unique (snd (os_add obs e))" by (rule os_add_unique)
  show "os_find i (os_delete_expires now e) = filter (\<lambda>obs. \<not> is_expired now obs) (os_find i e)"
    by (simp add: os_find_def os_delete_expires_filter conj_commute)
  show "os_unique e \<Longrightarrow> os_unique (os_delete_expires now e)" by (rule os_delete_expires_unique)
qed

section \<open>Properties\<close>

text \<open>
  The lifetime of an observer in the storage: inserted under an identifier that is not stored,
  it is what a lookup of that identifier returns, a clean-up before its expiry leaves it there, and a
  clean-up at or after it removes it; every other identifier is looked up as before.
\<close>

theorem observer_lifetime:
  assumes "os_unique e" and "bo_id obs \<notin> os_ids e" and "\<not> bo_expire_flag obs"
  shows "fst (os_add obs e) \<and> os_find (bo_id obs) (snd (os_add obs e)) = [obs] \<and>
    os_find (bo_id obs) (os_delete_expires now (snd (os_add obs e))) = (if bo_expire_at obs \<le> now then [] else [obs]) \<and>
    (\<forall>i. i \<noteq> bo_id obs \<longrightarrow> os_find i (snd (os_add obs e)) = os_find i e)"
proof -
  have absent: "os_find (bo_id obs) e = []" using assms(2) by (simp add: os_find_empty_iff)
  show ?thesis
    using os.look_add_same [OF assms(1) absent] os.found_until_expired [OF assms(1) absent, of now]
      os.look_add_other [of _ obs e] os_add_fresh [OF assms(2)] assms(3)
    by (simp add: is_expired_def)
qed

theorem observer_lifetime_witness:
  "let a = \<lparr>bo_id = 1, bo_expire_at = 100, bo_expire_flag = False, bo_type_name = ''a''\<rparr>;
       b = \<lparr>bo_id = 2, bo_expire_at = 50, bo_expire_flag = False, bo_type_name = ''b''\<rparr> in
     os_find 2 (snd (os_add b [a])) = [b] \<and> os_find 2 (os_delete_expires 60 (snd (os_add b [a]))) = [] \<and>
     os_find 1 (snd (os_add b [a])) = [a]"
proof -
  let ?a = "\<lparr>bo_id = 1, bo_expire_at = 100, bo_expire_flag = False, bo_type_name = ''a''\<rparr>"
  let ?b = "\<lparr>bo_id = 2, bo_expire_at = 50, bo_expire_flag = False, bo_type_name = ''b''\<rparr>"
  have "os_unique [?a]" "bo_id ?b \<notin> os_ids [?a]" "\<not> bo_expire_flag ?b" by (simp_all add: os_unique_def)
  from observer_lifetime [OF this, of 60] show ?thesis
    by (simp add: Let_def os_find_def)
qed

end
