(* ===== verification/SS_Bson.thy ===== *)
theory SS_Bson
  imports SS_Utils
begin

text \<open>
  The BSON codec of \<open>include/json.hpp\<close> that \<open>message::encode\<close> and \<open>message::decode\<close> call: the
  writer computes every length in advance and then writes, the reader hands what it finds to a
  parser that builds the value. A size is a \<open>std::size_t\<close> and is modelled by a natural number; its
  conversion to a 32-bit number on the wire wraps. The characters of a string are its bytes.
\<close>

section \<open>The writer\<close>

definition write_number :: "nat \<Rightarrow> int \<Rightarrow> byte list" where
  "write_number n v = le_bytes n v"

definition chars_of :: "string \<Rightarrow> byte list" where
  "chars_of s = map of_char s"

definition calc_bson_entry_header_size :: "string \<Rightarrow> nat result" where
  "calc_bson_entry_header_size name =
     (if CHR 0x00 \<in> set name then Inl Json_out_of_range else Inr (1 + length name + 1))"

definition write_bson_entry_header :: "string \<Rightarrow> byte \<Rightarrow> byte list" where
  "write_bson_entry_header name element_type = element_type # chars_of name @ [0]"

definition write_bson_boolean :: "string \<Rightarrow> bool \<Rightarrow> byte list" where
  "write_bson_boolean name v = write_bson_entry_header name 0x08 @ [if v then 1 else 0]"

definition write_bson_double :: "ext \<Rightarrow> string \<Rightarrow> double \<Rightarrow> byte list" where
  "write_bson_double E name v = write_bson_entry_header name 0x01 @ x_double_bytes E v"

definition calc_bson_string_size :: "string \<Rightarrow> nat" where
  "calc_bson_string_size v = 4 + length v + 1"

definition write_bson_string :: "string \<Rightarrow> string \<Rightarrow> byte list" where
  "write_bson_string name v =
     write_bson_entry_header name 0x02 @ write_number 4 (int (length v + 1)) @ chars_of v @ [0]"

definition write_bson_null :: "string \<Rightarrow> byte list" where
  "write_bson_null name = write_bson_entry_header name 0x0A"

definition calc_bson_integer_size :: "int \<Rightarrow> nat" where
  "calc_bson_integer_size v = (if - (2 ^ 31) \<le> v \<and> v < 2 ^ 31 then 4 else 8)"

definition write_bson_integer :: "string \<Rightarrow> int \<Rightarrow> byte list" where
  "write_bson_integer name v =
     (if - (2 ^ 31) \<le> v \<and> v < 2 ^ 31 then write_bson_entry_header name 0x10 @ write_number 4 v
      else write_bson_entry_header name 0x12 @ write_number 8 v)"

definition calc_bson_unsigned_size :: "int \<Rightarrow> nat" where
  "calc_bson_unsigned_size v = (if v \<le> 2 ^ 31 - 1 then 4 else 8)"

definition write_bson_unsigned :: "string \<Rightarrow> int \<Rightarrow> byte list result" where
  "write_bson_unsigned name v =
     (if v \<le> 2 ^ 31 - 1 then Inr (write_bson_entry_header name 0x10 @ write_number 4 v)
      else if v \<le> 2 ^ 63 - 1 then Inr (write_bson_entry_header name 0x12 @ write_number 8 v)
      else Inl Json_out_of_range)"

definition calc_bson_binary_size :: "byte list \<Rightarrow> nat" where
  "calc_bson_binary_size v = 4 + length v + 1"

definition write_bson_binary :: "string \<Rightarrow> nat option \<Rightarrow> byte list \<Rightarrow> byte list" where
  "write_bson_binary name subtype v =
     write_bson_entry_header name 0x05 @ write_number 4 (int (length v)) @
     [case subtype of Some s \<Rightarrow> word_of_nat s | None \<Rightarrow> 0] @ v"

text \<open>The keys of an array are the positions; an object is a \<open>std::map\<close>, visited in the order of its keys.\<close>

definition array_entries :: "json list \<Rightarrow> (string \<times> json) list" where
  "array_entries xs = zip (map to_string_nat [0 ..< length xs]) xs"

definition document_size :: "nat result \<Rightarrow> nat result" where
  "document_size r = map_res (\<lambda>document_size. 4 + document_size + 1) r"

text \<open>
  A negative number is a \<open>number_integer\<close>; for the others the two writers agree
  (\<open>write_bson_signs\<close> below), so they go through the unsigned one.
\<close>

lemma sorted_list_of_fmap_set: "set (sorted_list_of_fmap m) = fset (fset_of_fmap m)"
  by (auto simp: sorted_list_of_fmap_def fset_of_fmap_iff image_iff fmlookup_dom_iff)

lemma sorted_list_of_fmap_distinct: "distinct (sorted_list_of_fmap m)"
  by (auto simp: sorted_list_of_fmap_def distinct_map inj_on_def sorted_list_of_fset.rep_eq)

lemma size_sorted_entries:
  "sum_list (map (\<lambda>kv. Suc (size (snd kv))) (sorted_list_of_fmap m)) < size (JObj m)"
  by (simp add: sum_list_distinct_conv_sum_set sorted_list_of_fmap_distinct sorted_list_of_fmap_set split_beta)

lemma size_array_entries:
  "sum_list (map (\<lambda>kv. Suc (size (snd kv))) (array_entries xs)) < size (JArr xs)"
proof -
  have "map (\<lambda>kv. Suc (size (snd kv))) (array_entries xs) = map (\<lambda>x. Suc (size x)) xs"
    by (rule nth_equalityI) (auto simp: array_entries_def)
  moreover have "(\<Sum>x\<leftarrow>xs. Suc (size x)) = sum_list (map size xs) + length xs" by (induction xs) auto
  ultimately show ?thesis by (simp add: size_list_conv_sum_list)
qed

function calc_bson_element_size :: "string \<Rightarrow> json \<Rightarrow> nat result"
  and calc_bson_entries_size :: "(string \<times> json) list \<Rightarrow> nat result" where
  "calc_bson_element_size name j =
     bind_res (calc_bson_entry_header_size name) (\<lambda>header_size.
       case j of
         JObj m \<Rightarrow> map_res ((+) header_size) (document_size (calc_bson_entries_size (sorted_list_of_fmap m)))
       | JArr xs \<Rightarrow> map_res ((+) header_size) (document_size (calc_bson_entries_size (array_entries xs)))
       | JBin st bs \<Rightarrow> Inr (header_size + calc_bson_binary_size bs)
       | JBool b \<Rightarrow> Inr (header_size + 1)
       | JFloat r \<Rightarrow> Inr (header_size + 8)
       | JInt i \<Rightarrow> Inr (header_size + (if i < 0 then calc_bson_integer_size i else calc_bson_unsigned_size i))
       | JStr s \<Rightarrow> Inr (header_size + calc_bson_string_size s)
       | JNull \<Rightarrow> Inr (header_size + 0)
       | JDiscarded \<Rightarrow> Inl Undefined)"
| "calc_bson_entries_size [] = Inr 0"
| "calc_bson_entries_size ((k, v) # es) =
     bind_res (calc_bson_element_size k v) (\<lambda>n. map_res ((+) n) (calc_bson_entries_size es))"
  by pat_completeness auto
termination
  by (relation "measure (case_sum (\<lambda>(_, j). size j) (\<lambda>es. sum_list (map (\<lambda>kv. Suc (size (snd kv))) es)))")
    (simp_all add: size_sorted_entries size_array_entries del: json.size)

declare calc_bson_element_size.simps [simp del]

definition calc_bson_object_size :: "(string, json) fmap \<Rightarrow> nat result" where
  "calc_bson_object_size m = document_size (calc_bson_entries_size (sorted_list_of_fmap m))"

definition calc_bson_array_size :: "json list \<Rightarrow> nat result" where
  "calc_bson_array_size xs = document_size (calc_bson_entries_size (array_entries xs))"

text \<open>The length, the elements and the final zero byte of an object or an array.\<close>

definition write_document :: "nat result \<Rightarrow> byte list result \<Rightarrow> byte list result" where
  "write_document sz elements =
     bind_res sz (\<lambda>n. map_res (\<lambda>bs. write_number 4 (int n) @ bs @ [0]) elements)"

function write_bson_element :: "ext \<Rightarrow> string \<Rightarrow> json \<Rightarrow> byte list result"
  and write_bson_elements :: "ext \<Rightarrow> (string \<times> json) list \<Rightarrow> byte list result" where
  "write_bson_element E name j =
     (case j of
        JObj m \<Rightarrow> map_res ((@) (write_bson_entry_header name 0x03))
          (write_document (calc_bson_object_size m) (write_bson_elements E (sorted_list_of_fmap m)))
      | JArr xs \<Rightarrow> map_res ((@) (write_bson_entry_header name 0x04))
          (write_document (calc_bson_array_size xs) (write_bson_elements E (array_entries xs)))
      | JBin st bs \<Rightarrow> Inr (write_bson_binary name st bs)
      | JBool b \<Rightarrow> Inr (write_bson_boolean name b)
      | JFloat r \<Rightarrow> Inr (write_bson_double E name r)
      | JInt i \<Rightarrow> if i < 0 then Inr (write_bson_integer name i) else write_bson_unsigned name i
      | JStr s \<Rightarrow> Inr (write_bson_string name s)
      | JNull \<Rightarrow> Inr (write_bson_null name)
      | JDiscarded \<Rightarrow> Inl Undefined)"
| "write_bson_elements E [] = Inr []"
| "write_bson_elements E ((k, v) # es) =
     bind_res (write_bson_element E k v) (\<lambda>bs. map_res ((@) bs) (write_bson_elements E es))"
  by pat_completeness auto
termination
  by (relation "measure (case_sum (\<lambda>(_, _, j). size j) (\<lambda>(_, es). sum_list (map (\<lambda>kv. Suc (size (snd kv))) es)))")
    (simp_all add: size_sorted_entries size_array_entries del: json.size)

declare write_bson_element.simps [simp del]

definition write_bson_object :: "ext \<Rightarrow> (string, json) fmap \<Rightarrow> byte list result" where
  "write_bson_object E m = write_document (calc_bson_object_size m) (write_bson_elements E (sorted_list_of_fmap m))"

definition to_bson :: "ext \<Rightarrow> json \<Rightarrow> byte list result" where
  "to_bson E j = (case j of JObj m \<Rightarrow> write_bson_object E m | _ \<Rightarrow> Inl Json_type_error)"

section \<open>The parser that builds the value\<close>

text \<open>
  \<open>json_sax_dom_parser\<close>. The code keeps a stack of pointers to the open objects and arrays inside
  the value under construction; here the stack holds the open containers themselves, the innermost
  first, and a container is put into the one around it when it ends. An object remembers the key of
  the element that comes next (\<open>object_element\<close>). A failed assertion is \<open>Undefined\<close>.
\<close>

datatype frame =
    F_object "(string, json) fmap" "string option"
  | F_array "json list"

record dom_parser =
  dp_root :: json
  dp_stack :: "frame list"

definition handle_value :: "json \<Rightarrow> dom_parser \<Rightarrow> dom_parser result" where
  "handle_value v d =
     (case dp_stack d of
        [] \<Rightarrow> Inr (d\<lparr>dp_root := v\<rparr>)
      | F_array xs # st \<Rightarrow> Inr (d\<lparr>dp_stack := F_array (xs @ [v]) # st\<rparr>)
      | F_object m (Some k) # st \<Rightarrow> Inr (d\<lparr>dp_stack := F_object (fmupd k v m) (Some k) # st\<rparr>)
      | F_object m None # st \<Rightarrow> Inl Undefined)"

definition dom_start_object :: "dom_parser \<Rightarrow> dom_parser" where
  "dom_start_object d = d\<lparr>dp_stack := F_object fmempty None # dp_stack d\<rparr>"

definition dom_key :: "string \<Rightarrow> dom_parser \<Rightarrow> dom_parser result" where
  "dom_key k d =
     (case dp_stack d of
        F_object m _ # st \<Rightarrow>
          Inr (d\<lparr>dp_stack := F_object (if fmlookup m k = None then fmupd k JNull m else m) (Some k) # st\<rparr>)
      | _ \<Rightarrow> Inl Undefined)"

definition dom_end_object :: "dom_parser \<Rightarrow> dom_parser result" where
  "dom_end_object d =
     (case dp_stack d of
        F_object m _ # st \<Rightarrow> handle_value (JObj m) (d\<lparr>dp_stack := st\<rparr>)
      | _ \<Rightarrow> Inl Undefined)"

definition dom_start_array :: "dom_parser \<Rightarrow> dom_parser" where
  "dom_start_array d = d\<lparr>dp_stack := F_array [] # dp_stack d\<rparr>"

definition dom_end_array :: "dom_parser \<Rightarrow> dom_parser result" where
  "dom_end_array d =
     (case dp_stack d of
        F_array xs # st \<Rightarrow> handle_value (JArr xs) (d\<lparr>dp_stack := st\<rparr>)
      | _ \<Rightarrow> Inl Undefined)"

section \<open>The reader\<close>

text \<open>
  The input is the list of the bytes not yet read. A function of the reader that returns false
  without an exception is \<open>Inr None\<close>. Exceptions are allowed in every call of the program, so each
  report of a parse error is a throw.
\<close>

type_synonym 'a sax = "'a option result"

definition bind_sax :: "'a sax \<Rightarrow> ('a \<Rightarrow> 'b sax) \<Rightarrow> 'b sax" where
  "bind_sax m f = bind_res m (\<lambda>x. case x of None \<Rightarrow> Inr None | Some v \<Rightarrow> f v)"

text \<open>\<open>get()\<close>: the next byte, or \<open>None\<close> for the end of the input.\<close>

definition reader_get :: "byte list \<Rightarrow> byte option \<times> byte list" where
  "reader_get inp = (case inp of [] \<Rightarrow> (None, []) | b # r \<Rightarrow> (Some b, r))"

definition unexpect_eof :: "byte option \<Rightarrow> byte result" where
  "unexpect_eof current = of_option Json_parse_error current"

text \<open>The loop of \<open>get_number\<close>, \<open>get_string\<close> and \<open>get_binary\<close>: \<open>n\<close> bytes, each checked for the end.\<close>

fun get_bytes :: "nat \<Rightarrow> byte list \<Rightarrow> (byte list \<times> byte list) result" where
  "get_bytes 0 inp = Inr ([], inp)"
| "get_bytes (Suc n) inp =
     (let (current, r) = reader_get inp in
      bind_res (unexpect_eof current) (\<lambda>b. map_res (map_prod (Cons b) id) (get_bytes n r)))"

definition get_number :: "nat \<Rightarrow> byte list \<Rightarrow> (int \<times> byte list) result" where
  "get_number n inp = map_res (map_prod le_signed id) (get_bytes n inp)"

definition string_of :: "byte list \<Rightarrow> string" where
  "string_of bs = map (\<lambda>b. char_of (unat b)) bs"

definition get_string :: "int \<Rightarrow> byte list \<Rightarrow> (string \<times> byte list) result" where
  "get_string len inp = map_res (map_prod string_of id) (get_bytes (nat len) inp)"

definition get_binary :: "int \<Rightarrow> byte list \<Rightarrow> (byte list \<times> byte list) result" where
  "get_binary len inp = get_bytes (nat len) inp"

fun get_bson_cstr :: "byte list \<Rightarrow> (string \<times> byte list) result" where
  "get_bson_cstr [] = Inl Json_parse_error"
| "get_bson_cstr (b # r) =
     (if b = 0 then Inr ([], r) else map_res (map_prod (Cons (char_of (unat b))) id) (get_bson_cstr r))"

text \<open>The terminator is read, not compared; when the input ends before it the reader returns false.\<close>

definition get_bson_string :: "int \<Rightarrow> byte list \<Rightarrow> (string \<times> byte list) sax" where
  "get_bson_string len inp =
     (if len < 1 then Inl Json_parse_error
      else bind_res (get_string (len - 1) inp) (\<lambda>(s, r).
        case reader_get r of (None, _) \<Rightarrow> Inr None | (Some _, r') \<Rightarrow> Inr (Some (s, r'))))"

definition get_bson_binary :: "int \<Rightarrow> byte list \<Rightarrow> (json \<times> byte list) result" where
  "get_bson_binary len inp =
     (if len < 0 then Inl Json_parse_error
      else bind_res (get_bytes 1 inp) (\<lambda>(subtype, r).
        map_res (map_prod (JBin (Some (unat (hd subtype)))) id) (get_binary len r)))"

text \<open>A scalar handed to the parser.\<close>

definition put_scalar :: "dom_parser \<Rightarrow> json \<times> byte list \<Rightarrow> (byte list \<times> dom_parser) sax" where
  "put_scalar d = (\<lambda>(v, r). map_res (\<lambda>d'. Some (r, d')) (handle_value v d))"

type_synonym element_list_reader = "bool \<Rightarrow> byte list \<Rightarrow> dom_parser \<Rightarrow> (byte list \<times> dom_parser) sax"

text \<open>The length of a document is read and not used.\<close>

definition parse_bson_internal ::
  "element_list_reader \<Rightarrow> byte list \<Rightarrow> dom_parser \<Rightarrow> (byte list \<times> dom_parser) sax" where
  "parse_bson_internal parse_list inp d =
     bind_res (get_number 4 inp) (\<lambda>(document_size, r).
       bind_sax (parse_list False r (dom_start_object d)) (\<lambda>(r', d').
         map_res (\<lambda>d''. Some (r', d'')) (dom_end_object d')))"

definition parse_bson_array ::
  "element_list_reader \<Rightarrow> byte list \<Rightarrow> dom_parser \<Rightarrow> (byte list \<times> dom_parser) sax" where
  "parse_bson_array parse_list inp d =
     bind_res (get_number 4 inp) (\<lambda>(document_size, r).
       bind_sax (parse_list True r (dom_start_array d)) (\<lambda>(r', d').
         map_res (\<lambda>d''. Some (r', d'')) (dom_end_array d')))"

text \<open>At the end of the input \<open>get()\<close> returns -1, which is a true boolean.\<close>

definition parse_bson_element_internal ::
  "ext \<Rightarrow> element_list_reader \<Rightarrow> byte \<Rightarrow> byte list \<Rightarrow> dom_parser \<Rightarrow> (byte list \<times> dom_parser) sax" where
  "parse_bson_element_internal E parse_list element_type inp d =
     (if element_type = 0x01 then
        bind_res (get_bytes 8 inp) (\<lambda>(bs, r). put_scalar d (JFloat (x_double_value E bs), r))
      else if element_type = 0x02 then
        bind_res (get_number 4 inp) (\<lambda>(len, r).
          bind_sax (get_bson_string len r) (\<lambda>(s, r'). put_scalar d (JStr s, r')))
      else if element_type = 0x03 then parse_bson_internal parse_list inp d
      else if element_type = 0x04 then parse_bson_array parse_list inp d
      else if element_type = 0x05 then
        bind_res (get_number 4 inp) (\<lambda>(len, r). bind_res (get_bson_binary len r) (put_scalar d))
      else if element_type = 0x08 then
        (let (current, r) = reader_get inp in put_scalar d (JBool (current \<noteq> Some 0), r))
      else if element_type = 0x0A then put_scalar d (JNull, inp)
      else if element_type = 0x10 then
        bind_res (get_number 4 inp) (\<lambda>(v, r). put_scalar d (JInt v, r))
      else if element_type = 0x12 then
        bind_res (get_number 8 inp) (\<lambda>(v, r). put_scalar d (JInt v, r))
      else Inl Json_parse_error)"

text \<open>
  The recursion of the reader, by fuel: each round of the loop and each nested list consumes at
  least one byte, so the length of the input is enough (\<open>from_bson_cases\<close>).
\<close>

fun parse_bson_element_list :: "ext \<Rightarrow> nat \<Rightarrow> element_list_reader" where
  "parse_bson_element_list E 0 is_array inp d = Inl Undefined"
| "parse_bson_element_list E (Suc n) is_array inp d =
     (case reader_get inp of
        (Some element_type, r) \<Rightarrow>
          if element_type = 0 then Inr (Some (r, d))
          else bind_res (get_bson_cstr r) (\<lambda>(key, r1).
            bind_res (if is_array then Inr d else dom_key key d) (\<lambda>d1.
              bind_sax (parse_bson_element_internal E (parse_bson_element_list E n) element_type r1 d1) (\<lambda>(r2, d2).
                parse_bson_element_list E n is_array r2 d2)))
      | (None, _) \<Rightarrow> Inl Json_parse_error)"

text \<open>\<open>sax_parse\<close> in strict mode, and the value it leaves; a parse that returned false is discarded.\<close>

definition sax_parse :: "ext \<Rightarrow> byte list \<Rightarrow> dom_parser \<Rightarrow> dom_parser sax" where
  "sax_parse E inp d =
     bind_sax (parse_bson_internal (parse_bson_element_list E (Suc (length inp))) inp d) (\<lambda>(r, d').
       case reader_get r of (None, _) \<Rightarrow> Inr (Some d') | (Some _, _) \<Rightarrow> Inl Json_parse_error)"

definition from_bson :: "ext \<Rightarrow> byte list \<Rightarrow> json result" where
  "from_bson E bs =
     map_res (\<lambda>res. case res of Some d \<Rightarrow> dp_root d | None \<Rightarrow> JDiscarded)
       (sax_parse E bs \<lparr>dp_root = JNull, dp_stack = []\<rparr>)"

end
