(* ===== verification/SS_BsonRoundtrip.thy ===== *)
theory SS_BsonRoundtrip
  imports SS_Bson
begin

text \<open>
  What the BSON codec guarantees: the sizes it announces are the sizes it writes, every value in
  its range is read back unchanged, the reader always ends with a value or a parse error, and what
  it reads can be written again.
\<close>

section \<open>Bytes and strings\<close>

lemma unat_of_char: "unat (of_char c :: byte) = of_char c"
proof -
  have "(of_char c :: byte) = word_of_nat (of_char c)" by (simp only: of_nat_of_char)
  moreover have "(of_char c :: nat) < 256" by (metis of_char_mod_256 mod_less_divisor zero_less_numeral)
  ultimately show ?thesis by (simp add: unat_of_nat)
qed

lemma string_of_chars_of [simp]: "string_of (chars_of s) = s"
  by (simp add: string_of_def chars_of_def comp_def unat_of_char)

lemma length_chars_of [simp]: "length (chars_of s) = length s"
  by (simp add: chars_of_def)

lemma of_char_byte_0: "(of_char c :: byte) = 0 \<longleftrightarrow> c = CHR 0x00"
proof
  assume "(of_char c :: byte) = 0"
  then have "(of_char c :: nat) = of_char (CHR 0x00)" using unat_of_char [of c] by simp
  then show "c = CHR 0x00" by (simp only: of_char_eq_iff)
qed simp

lemma get_bytes_append: "length bs = n \<Longrightarrow> get_bytes n (bs @ r) = Inr (bs, r)"
  by (induction n arbitrary: bs) (auto simp: length_Suc_conv reader_get_def unexpect_eof_def)

lemma get_bytes_Inr: "get_bytes n inp = Inr (v, r) \<Longrightarrow> inp = v @ r \<and> length v = n"
  by (induction n arbitrary: inp v)
    (auto simp: reader_get_def unexpect_eof_def res_inv split: list.splits)

lemma get_bytes_Inl: "get_bytes n inp = Inl e \<Longrightarrow> e = Json_parse_error"
proof (induction n arbitrary: inp)
  case (Suc n)
  then show ?case
    by (cases inp; cases "get_bytes n (tl inp)") (auto simp: reader_get_def unexpect_eof_def)
qed simp

lemma get_number_write:
  assumes "- (2 ^ (8 * n)) \<le> 2 * v" and "2 * v < 2 ^ (8 * n)"
  shows "get_number n (write_number n v @ r) = Inr (v, r)"
  using assms by (simp add: get_number_def write_number_def get_bytes_append le_signed_bytes)

lemma get_bson_cstr_write:
  "CHR 0x00 \<notin> set s \<Longrightarrow> get_bson_cstr (chars_of s @ 0 # r) = Inr (s, r)"
  by (induction s) (auto simp: chars_of_def of_char_byte_0 unat_of_char)

section \<open>The values of the format\<close>

definition bson_key_ok :: "string \<Rightarrow> bool" where
  "bson_key_ok k \<longleftrightarrow> CHR 0x00 \<notin> set k"

function (sequential) bson_ok :: "ext \<Rightarrow> json \<Rightarrow> bool" where
  "bson_ok E JNull = True"
| "bson_ok E (JBool b) = True"
| "bson_ok E (JInt i) = (- (2 ^ 63) \<le> i \<and> i < 2 ^ 63)"
| "bson_ok E (JFloat r) = (length (x_double_bytes E r) = 8 \<and> x_double_value E (x_double_bytes E r) = r)"
| "bson_ok E (JStr s) = (length s + 1 < 2 ^ 31)"
| "bson_ok E (JArr xs) = (\<forall>x \<in> set xs. bson_ok E x)"
| "bson_ok E (JBin st bs) = (length bs < 2 ^ 31 \<and> (\<exists>s < 256. st = Some s))"
| "bson_ok E (JObj m) = (\<forall>kv \<in> set (sorted_list_of_fmap m). bson_key_ok (fst kv) \<and> bson_ok E (snd kv))"
| "bson_ok E JDiscarded = False"
  by pat_completeness auto
termination
proof (relation "measure (\<lambda>(_, j). size j)")
  show "((E, snd kv), (E, JObj m)) \<in> measure (\<lambda>(_, j). size j)" if "kv \<in> set (sorted_list_of_fmap m)" for E m kv
    using size_sorted_entries [of m] member_le_sum_list [of "Suc (size (snd kv))" "map (\<lambda>kv. Suc (size (snd kv))) (sorted_list_of_fmap m)"] that
    by (auto simp del: json.size)
next
  show "((E, x), (E, JArr xs)) \<in> measure (\<lambda>(_, j). size j)" if "x \<in> set xs" for E xs x
    using that by (auto simp: size_list_estimation' less_Suc_eq_le)
qed simp

definition entries_ok :: "ext \<Rightarrow> (string \<times> json) list \<Rightarrow> bool" where
  "entries_ok E es \<longleftrightarrow> (\<forall>(k, v) \<in> set es. bson_key_ok k \<and> bson_ok E v)"

lemma entries_ok_simps [simp]:
  "entries_ok E []"
  "entries_ok E ((k, v) # es) \<longleftrightarrow> bson_key_ok k \<and> bson_ok E v \<and> entries_ok E es"
  by (auto simp: entries_ok_def)

lemma bson_ok_object: "bson_ok E (JObj m) \<longleftrightarrow> entries_ok E (sorted_list_of_fmap m)"
  by (auto simp: entries_ok_def)

lemma bson_ok_fields:
  "bson_ok E (JObj m) \<longleftrightarrow> (\<forall>k v. fmlookup m k = Some v \<longrightarrow> bson_key_ok k \<and> bson_ok E v)"
  by (force simp: entries_ok_def bson_ok_object sorted_list_of_fmap_set simp del: bson_ok.simps)

lemma to_string_nat_key: "bson_key_ok (to_string_nat n)"
  using to_string_nat_digits [of n] by (auto simp: bson_key_ok_def list_all_iff is_digit_def)

lemma array_entries_snd [simp]: "map snd (array_entries xs) = xs"
  by (simp add: array_entries_def)

lemma array_entries_key: "(k, v) \<in> set (array_entries xs) \<Longrightarrow> bson_key_ok k"
  using set_zip_leftD [of k v "map to_string_nat [0 ..< length xs]" xs]
  by (auto simp: array_entries_def to_string_nat_key)

lemma bson_ok_array: "bson_ok E (JArr xs) \<longleftrightarrow> entries_ok E (array_entries xs)"
proof -
  have "set xs = snd ` set (array_entries xs)" by (metis array_entries_snd set_map)
  then show ?thesis by (auto simp: entries_ok_def dest: array_entries_key)
qed

declare bson_ok.simps(6,8) [simp del]

lemma bson_ok_empty [simp]: "bson_ok E (JObj fmempty)"
  by (simp add: bson_ok_fields)

lemma bson_ok_upd [simp]:
  "bson_ok E (JObj m) \<Longrightarrow> bson_key_ok k \<Longrightarrow> bson_ok E v \<Longrightarrow> bson_ok E (JObj (fmupd k v m))"
  by (simp add: bson_ok_fields)

lemma bson_ok_list: "bson_ok E (JArr xs) \<longleftrightarrow> (\<forall>x \<in> set xs. bson_ok E x)"
  by (simp add: bson_ok.simps(6))

section \<open>Sizes\<close>

lemma document_size_Inr: "document_size r = Inr n \<longleftrightarrow> (\<exists>k. r = Inr k \<and> n = k + 5)"
  by (cases r) (auto simp: document_size_def)

lemma write_document_Inr:
  "write_document sz elements = Inr bs \<longleftrightarrow>
   (\<exists>n es. sz = Inr n \<and> elements = Inr es \<and> bs = write_number 4 (int n) @ es @ [0])"
  by (cases sz; cases elements) (auto simp: write_document_def)

lemma length_write_number [simp]: "length (write_number n v) = n"
  by (simp add: write_number_def)

lemma length_entry_header [simp]: "length (write_bson_entry_header name t) = length name + 2"
  by (simp add: write_bson_entry_header_def)

lemma header_size_Inr: "calc_bson_entry_header_size name = Inr n \<longleftrightarrow> bson_key_ok name \<and> n = length name + 2"
  by (auto simp: calc_bson_entry_header_size_def bson_key_ok_def)

lemmas bson_size_defs = calc_bson_integer_size_def calc_bson_unsigned_size_def calc_bson_string_size_def
  calc_bson_binary_size_def calc_bson_object_size_def calc_bson_array_size_def
  write_bson_integer_def write_bson_unsigned_def write_bson_string_def write_bson_binary_def
  write_bson_boolean_def write_bson_double_def write_bson_null_def

lemma bson_sizes:
  assumes "double_ok E"
  shows "calc_bson_element_size name j = Inr n \<Longrightarrow> write_bson_element E name j = Inr bs \<Longrightarrow> length bs = n"
    and "calc_bson_entries_size es = Inr n \<Longrightarrow> write_bson_elements E es = Inr bs \<Longrightarrow> length bs = n"
proof (induction name j and es arbitrary: n bs and n bs rule: calc_bson_element_size_calc_bson_entries_size.induct)
  case (1 name j)
  have d: "length (x_double_bytes E r) = 8" for r using assms by (simp add: double_ok_def)
  show ?case
  proof (cases j)
    case (JObj m)
    with 1 show ?thesis
      by (auto simp: calc_bson_element_size.simps [of name "JObj m"] write_bson_element.simps [of E name "JObj m"]
          bson_size_defs res_inv document_size_Inr write_document_Inr header_size_Inr)
  next
    case (JArr xs)
    with 1 show ?thesis
      by (auto simp: calc_bson_element_size.simps [of name "JArr xs"] write_bson_element.simps [of E name "JArr xs"]
          bson_size_defs res_inv document_size_Inr write_document_Inr header_size_Inr)
  qed (use 1 d in \<open>auto simp: calc_bson_element_size.simps write_bson_element.simps bson_size_defs res_inv
        header_size_Inr split: if_splits\<close>)
next
  case (3 k v es)
  then show ?case by (auto simp: res_inv)
qed simp

lemma bson_writes:
  assumes "double_ok E"
  shows "bson_key_ok name \<Longrightarrow> bson_ok E j \<Longrightarrow>
      \<exists>n bs. calc_bson_element_size name j = Inr n \<and> write_bson_element E name j = Inr bs"
    and "entries_ok E es \<Longrightarrow> \<exists>n bs. calc_bson_entries_size es = Inr n \<and> write_bson_elements E es = Inr bs"
proof (induction name j and es rule: calc_bson_element_size_calc_bson_entries_size.induct)
  case (1 name j)
  then have h: "calc_bson_entry_header_size name = Inr (length name + 2)" by (simp add: header_size_Inr)
  show ?case
  proof (cases j)
    case (JObj m)
    with 1 h show ?thesis
      by (auto simp: calc_bson_element_size.simps [of name "JObj m"] write_bson_element.simps [of E name "JObj m"]
          bson_size_defs document_size_def write_document_def bson_ok_object)
  next
    case (JArr xs)
    with 1 h show ?thesis
      by (auto simp: calc_bson_element_size.simps [of name "JArr xs"] write_bson_element.simps [of E name "JArr xs"]
          bson_size_defs document_size_def write_document_def bson_ok_array)
  qed (use 1 h in \<open>auto simp: calc_bson_element_size.simps write_bson_element.simps write_bson_unsigned_def\<close>)
next
  case (3 k v es)
  then show ?case by fastforce
qed simp

section \<open>What cannot be written\<close>

text \<open>A predicate on every value inside a value.\<close>

function (sequential) json_all :: "(json \<Rightarrow> bool) \<Rightarrow> json \<Rightarrow> bool" where
  "json_all P (JArr xs) = (P (JArr xs) \<and> (\<forall>x \<in> set xs. json_all P x))"
| "json_all P (JObj m) = (P (JObj m) \<and> (\<forall>kv \<in> set (sorted_list_of_fmap m). json_all P (snd kv)))"
| "json_all P j = P j"
  by pat_completeness auto
termination
proof (relation "measure (\<lambda>(_, j). size j)")
  show "((P, snd kv), (P, JObj m)) \<in> measure (\<lambda>(_, j). size j)" if "kv \<in> set (sorted_list_of_fmap m)" for P m kv
    using size_sorted_entries [of m] member_le_sum_list [of "Suc (size (snd kv))" "map (\<lambda>kv. Suc (size (snd kv))) (sorted_list_of_fmap m)"] that
    by (auto simp del: json.size)
next
  show "((P, x), (P, JArr xs)) \<in> measure (\<lambda>(_, j). size j)" if "x \<in> set xs" for P xs x
    using that by (auto simp: size_list_estimation' less_Suc_eq_le)
qed simp

definition keys_ok :: "json \<Rightarrow> bool" where
  "keys_ok j = json_all (\<lambda>j. case j of JObj m \<Rightarrow> (\<forall>kv \<in> set (sorted_list_of_fmap m). bson_key_ok (fst kv)) | _ \<Rightarrow> True) j"

fun number_ok :: "json \<Rightarrow> bool" where
  "number_ok (JInt i) \<longleftrightarrow> i < 2 ^ 63"
| "number_ok _ \<longleftrightarrow> True"

definition numbers_ok :: "json \<Rightarrow> bool" where
  "numbers_ok j = json_all number_ok j"

definition none_discarded :: "json \<Rightarrow> bool" where
  "none_discarded j = json_all (\<lambda>j. j \<noteq> JDiscarded) j"

definition entries_all :: "(json \<Rightarrow> bool) \<Rightarrow> (string \<times> json) list \<Rightarrow> bool" where
  "entries_all P es \<longleftrightarrow> (\<forall>kv \<in> set es. P (snd kv))"

definition entry_keys :: "(string \<times> json) list \<Rightarrow> bool" where
  "entry_keys es \<longleftrightarrow> (\<forall>kv \<in> set es. bson_key_ok (fst kv))"

lemma entries_all_simps [simp]:
  "entries_all P []" "entries_all P ((k, v) # es) \<longleftrightarrow> P v \<and> entries_all P es"
  "entry_keys []" "entry_keys ((k, v) # es) \<longleftrightarrow> bson_key_ok k \<and> entry_keys es"
  by (auto simp: entries_all_def entry_keys_def)

lemma entries_all_array: "entries_all P (array_entries xs) \<longleftrightarrow> (\<forall>x \<in> set xs. P x)" "entry_keys (array_entries xs)"
proof -
  have "set xs = snd ` set (array_entries xs)" by (metis array_entries_snd set_map)
  then show "entries_all P (array_entries xs) \<longleftrightarrow> (\<forall>x \<in> set xs. P x)" by (simp add: entries_all_def)
  show "entry_keys (array_entries xs)" by (auto simp: entry_keys_def array_entries_key)
qed

lemma writable_simps [simp]:
  "keys_ok (JObj m) \<longleftrightarrow> entry_keys (sorted_list_of_fmap m) \<and> entries_all keys_ok (sorted_list_of_fmap m)"
  "keys_ok (JArr xs) \<longleftrightarrow> entries_all keys_ok (array_entries xs)"
  "numbers_ok (JObj m) \<longleftrightarrow> entries_all numbers_ok (sorted_list_of_fmap m)"
  "numbers_ok (JArr xs) \<longleftrightarrow> entries_all numbers_ok (array_entries xs)"
  "none_discarded (JObj m) \<longleftrightarrow> entries_all none_discarded (sorted_list_of_fmap m)"
  "none_discarded (JArr xs) \<longleftrightarrow> entries_all none_discarded (array_entries xs)"
  "keys_ok JNull" "keys_ok (JBool b)" "keys_ok (JInt i)" "keys_ok (JFloat r)" "keys_ok (JStr s)" "keys_ok (JBin t bs)"
  "numbers_ok JNull" "numbers_ok (JBool b)" "numbers_ok (JInt i) \<longleftrightarrow> i < 2 ^ 63" "numbers_ok (JFloat r)" "numbers_ok (JStr s)" "numbers_ok (JBin t bs)"
  "\<not> none_discarded JDiscarded"
  unfolding entries_all_array(1)
  by (auto simp: keys_ok_def numbers_ok_def none_discarded_def entries_all_def entry_keys_def)

lemma bson_size_errors:
  "none_discarded j \<Longrightarrow> if bson_key_ok name \<and> keys_ok j then \<exists>n. calc_bson_element_size name j = Inr n
     else calc_bson_element_size name j = Inl Json_out_of_range"
  "entries_all none_discarded es \<Longrightarrow> if entry_keys es \<and> entries_all keys_ok es then \<exists>n. calc_bson_entries_size es = Inr n
     else calc_bson_entries_size es = Inl Json_out_of_range"
proof (induction name j and es rule: calc_bson_element_size_calc_bson_entries_size.induct)
  case (1 name j)
  have h: "calc_bson_entry_header_size name = (if bson_key_ok name then Inr (length name + 2) else Inl Json_out_of_range)"
    by (simp add: calc_bson_entry_header_size_def bson_key_ok_def)
  show ?case
  proof (cases j)
    case (JObj m)
    with 1 h show ?thesis
      by (auto simp: calc_bson_element_size.simps [of name "JObj m"] document_size_def split: if_splits)
  next
    case (JArr xs)
    with 1 h show ?thesis
      by (auto simp: calc_bson_element_size.simps [of name "JArr xs"] document_size_def entries_all_array split: if_splits)
  qed (use 1 h in \<open>auto simp: calc_bson_element_size.simps split: if_splits\<close>)
next
  case (3 k v es)
  then show ?case by (cases "calc_bson_element_size k v") (auto split: if_splits)
qed simp

lemma bson_write_errors:
  "none_discarded j \<Longrightarrow> if keys_ok j \<and> numbers_ok j then \<exists>bs. write_bson_element E name j = Inr bs
     else write_bson_element E name j = Inl Json_out_of_range"
  "entries_all none_discarded es \<Longrightarrow> if entries_all keys_ok es \<and> entries_all numbers_ok es
     then \<exists>bs. write_bson_elements E es = Inr bs else write_bson_elements E es = Inl Json_out_of_range"
proof (induction E name j and E es rule: write_bson_element_write_bson_elements.induct)
  case (1 E name j)
  show ?case
  proof (cases j)
    case (JObj m)
    with 1 bson_size_errors(2) [of "sorted_list_of_fmap m"] show ?thesis
      by (auto simp: write_bson_element.simps [of E name "JObj m"] calc_bson_object_size_def document_size_def write_document_def
          split: if_splits)
  next
    case (JArr xs)
    with 1 bson_size_errors(2) [of "array_entries xs"] show ?thesis
      by (auto simp: write_bson_element.simps [of E name "JArr xs"] calc_bson_array_size_def document_size_def write_document_def
          entries_all_array(2) split: if_splits)
  qed (use 1 in \<open>auto simp: write_bson_element.simps write_bson_unsigned_def\<close>)
next
  case (3 E k v es)
  then show ?case by (cases "write_bson_element E k v") (auto split: if_splits)
qed simp

section \<open>Reading back\<close>

text \<open>What the element list adds to the open container.\<close>

fun put_entries :: "(string \<times> json) list \<Rightarrow> frame \<Rightarrow> frame" where
  "put_entries es (F_array xs) = F_array (xs @ map snd es)"
| "put_entries [] (F_object m k) = F_object m k"
| "put_entries ((k, v) # es) (F_object m _) = put_entries es (F_object (fmupd k v m) (Some k))"

definition frame_is_array :: "frame \<Rightarrow> bool" where
  "frame_is_array f = (case f of F_array _ \<Rightarrow> True | F_object _ _ \<Rightarrow> False)"

lemma put_entries_object: "\<exists>k'. put_entries es (F_object m k) = F_object (fold (\<lambda>(k, v). fmupd k v) es m) k'"
  by (induction es arbitrary: m k) auto

lemma fmlookup_fold_upd: "fmlookup (fold (\<lambda>(k, v). fmupd k v) es m) = fmlookup m ++ map_of (rev es)"
  by (induction es arbitrary: m) (auto simp: fun_eq_iff map_add_def split: option.splits)

lemma fold_sorted_list: "fold (\<lambda>(k, v). fmupd k v) (sorted_list_of_fmap m) fmempty = m"
proof (rule fmap_ext)
  fix k
  have "distinct (map fst (sorted_list_of_fmap m))"
    by (simp add: sorted_list_of_fmap_def comp_def sorted_list_of_fset.rep_eq)
  then have "map_of (rev (sorted_list_of_fmap m)) = map_of (sorted_list_of_fmap m)"
    by (subst map_of_inject_set) (simp_all add: rev_map [symmetric])
  then show "fmlookup (fold (\<lambda>(k, v). fmupd k v) (sorted_list_of_fmap m) fmempty) k = fmlookup m k"
    by (simp add: fmlookup_fold_upd map_add_def split: option.splits)
qed

lemma put_entries_step:
  assumes "dp_stack d = f # st" and "bson_key_ok k"
  shows "\<exists>d1 d2. (if frame_is_array f then Inr d else dom_key k d) = Inr d1 \<and> handle_value v d1 = Inr d2 \<and>
    dp_root d2 = dp_root d \<and> dp_stack d2 = put_entries [(k, v)] f # st"
  using assms by (cases f) (auto simp: dom_key_def handle_value_def frame_is_array_def)

lemma put_entries_Cons: "put_entries ((k, v) # es) f = put_entries es (put_entries [(k, v)] f)"
  by (cases f) auto

text \<open>
  What a reader of element lists must do on the bytes of the entries \<open>es\<close>, and what the reader of
  one element must do on the bytes of the element \<open>j\<close>.
\<close>

definition list_reads :: "element_list_reader \<Rightarrow> nat \<Rightarrow> (string \<times> json) list \<Rightarrow> byte list \<Rightarrow> bool" where
  "list_reads parse_list n es bs \<longleftrightarrow>
     (\<forall>rest d f st. length (bs @ 0 # rest) < n \<longrightarrow> dp_stack d = f # st \<longrightarrow>
        parse_list (frame_is_array f) (bs @ 0 # rest) d =
          Inr (Some (rest, d\<lparr>dp_stack := put_entries es f # st\<rparr>)))"

definition element_reads :: "ext \<Rightarrow> string \<Rightarrow> json \<Rightarrow> byte list \<Rightarrow> bool" where
  "element_reads E name j bs \<longleftrightarrow>
     (\<exists>t payload. t \<noteq> 0 \<and> bs = write_bson_entry_header name t @ payload \<and>
        (\<forall>n rest d d'. handle_value j d = Inr d' \<longrightarrow> length (payload @ rest) < n \<longrightarrow>
           parse_bson_element_internal E (parse_bson_element_list E n) t (payload @ rest) d = Inr (Some (rest, d'))))"

lemma bind_sax_simps [simp]:
  "bind_sax (Inl e) f = Inl e" "bind_sax (Inr None) f = Inr None" "bind_sax (Inr (Some v)) f = f v"
  by (simp_all add: bind_sax_def)

lemma put_scalar_ok: "handle_value j d = Inr d' \<Longrightarrow> put_scalar d (j, r) = Inr (Some (r, d'))"
  by (simp add: put_scalar_def)

lemma get_number_4: "- (2 ^ 31) \<le> v \<Longrightarrow> v < 2 ^ 31 \<Longrightarrow> get_number 4 (write_number 4 v @ r) = Inr (v, r)"
  by (rule get_number_write) auto

lemma get_number_8: "- (2 ^ 63) \<le> v \<Longrightarrow> v < 2 ^ 63 \<Longrightarrow> get_number 8 (write_number 8 v @ r) = Inr (v, r)"
  by (rule get_number_write) auto

text \<open>The length of a document is read whatever it is.\<close>

lemma get_number_any: "\<exists>v. get_number n (write_number n k @ r) = Inr (v, r)"
  by (simp add: get_number_def get_bytes_append)

lemma element_reads_scalar:
  assumes "t \<noteq> 0" and "\<And>parse_list rest d d'. handle_value j d = Inr d' \<Longrightarrow>
     parse_bson_element_internal E parse_list t (payload @ rest) d = Inr (Some (rest, d'))"
  shows "element_reads E name j (write_bson_entry_header name t @ payload)"
  using assms by (auto simp: element_reads_def)

lemma element_reads_object:
  assumes "\<And>n. list_reads (parse_bson_element_list E n) n (sorted_list_of_fmap m) es"
  shows "element_reads E name (JObj m) (write_bson_entry_header name 3 @ write_number 4 k @ es @ [0])"
  unfolding element_reads_def
proof (intro exI conjI allI impI)
  fix n :: nat and rest d d'
  assume d': "handle_value (JObj m) d = Inr d'" and n: "length ((write_number 4 k @ es @ [0]) @ rest) < n"
  obtain v where v: "get_number 4 (write_number 4 k @ (es @ 0 # rest)) = Inr (v, es @ 0 # rest)"
    using get_number_any by blast
  obtain k' where k': "put_entries (sorted_list_of_fmap m) (F_object fmempty None) = F_object m k'"
    using put_entries_object fold_sorted_list by metis
  have "parse_bson_element_list E n False (es @ 0 # rest) (dom_start_object d) =
      Inr (Some (rest, d\<lparr>dp_stack := F_object m k' # dp_stack d\<rparr>))"
    using assms [of n] n k' unfolding list_reads_def
    by (auto simp: dom_start_object_def frame_is_array_def dest!: spec [of _ rest] spec [of _ "dom_start_object d"])
  then show "parse_bson_element_internal E (parse_bson_element_list E n) 3 ((write_number 4 k @ es @ [0]) @ rest) d = Inr (Some (rest, d'))"
    using v d' by (simp add: parse_bson_element_internal_def parse_bson_internal_def dom_end_object_def)
qed simp_all

lemma element_reads_array:
  assumes "\<And>n. list_reads (parse_bson_element_list E n) n (array_entries xs) es"
  shows "element_reads E name (JArr xs) (write_bson_entry_header name 4 @ write_number 4 k @ es @ [0])"
  unfolding element_reads_def
proof (intro exI conjI allI impI)
  fix n :: nat and rest d d'
  assume d': "handle_value (JArr xs) d = Inr d'" and n: "length ((write_number 4 k @ es @ [0]) @ rest) < n"
  obtain v where v: "get_number 4 (write_number 4 k @ (es @ 0 # rest)) = Inr (v, es @ 0 # rest)"
    using get_number_any by blast
  have "parse_bson_element_list E n True (es @ 0 # rest) (dom_start_array d) =
      Inr (Some (rest, d\<lparr>dp_stack := F_array xs # dp_stack d\<rparr>))"
    using assms [of n] n unfolding list_reads_def
    by (auto simp: dom_start_array_def frame_is_array_def dest!: spec [of _ rest] spec [of _ "dom_start_array d"])
  then show "parse_bson_element_internal E (parse_bson_element_list E n) 4 ((write_number 4 k @ es @ [0]) @ rest) d = Inr (Some (rest, d'))"
    using v d' by (simp add: parse_bson_element_internal_def parse_bson_array_def dom_end_array_def)
qed simp_all

lemma element_reads_string: "length s + 1 < 2 ^ 31 \<Longrightarrow> element_reads E name (JStr s) (write_bson_string name s)"
  unfolding write_bson_string_def
  by (intro element_reads_scalar)
    (simp_all add: parse_bson_element_internal_def get_number_4 get_bson_string_def get_string_def
      get_bytes_append reader_get_def put_scalar_ok)

lemma element_reads_binary:
  "length bs < 2 ^ 31 \<Longrightarrow> s < 256 \<Longrightarrow> element_reads E name (JBin (Some s) bs) (write_bson_binary name (Some s) bs)"
  unfolding write_bson_binary_def
  by (intro element_reads_scalar)
    (simp_all add: parse_bson_element_internal_def get_number_4 get_bson_binary_def get_binary_def
      reader_get_def unexpect_eof_def get_bytes_append put_scalar_ok unat_of_nat)

lemma element_reads_integer:
  "- (2 ^ 63) \<le> i \<Longrightarrow> i < 2 ^ 63 \<Longrightarrow> element_reads E name (JInt i) (write_bson_integer name i)"
  by (cases "- (2 ^ 31) \<le> i \<and> i < 2 ^ 31")
    (auto simp: write_bson_integer_def parse_bson_element_internal_def get_number_4 get_number_8
      put_scalar_ok intro!: element_reads_scalar)

text \<open>The writers of signed and unsigned numbers agree where both apply.\<close>

lemma write_bson_signs: "0 \<le> i \<Longrightarrow> i < 2 ^ 63 \<Longrightarrow> write_bson_unsigned name i = Inr (write_bson_integer name i)"
  by (simp add: write_bson_unsigned_def write_bson_integer_def)

lemma element_reads_simple:
  "element_reads E name JNull (write_bson_null name)"
  "element_reads E name (JBool b) (write_bson_boolean name b)"
  "bson_ok E (JFloat r) \<Longrightarrow> element_reads E name (JFloat r) (write_bson_double E name r)"
  unfolding write_bson_null_def write_bson_boolean_def write_bson_double_def
  using element_reads_scalar [of "0x0A" JNull E "[]" name]
  by (auto intro!: element_reads_scalar simp: parse_bson_element_internal_def reader_get_def get_bytes_append put_scalar_ok)

lemma list_reads_Nil: "list_reads (parse_bson_element_list E n) n [] []"
  unfolding list_reads_def
proof (intro allI impI)
  fix rest :: "byte list" and d :: dom_parser and f st
  assume n: "length ([] @ 0 # rest) < n" and "dp_stack d = f # st"
  then obtain n' where "n = Suc n'" by (cases n) auto
  moreover have "d\<lparr>dp_stack := put_entries [] f # st\<rparr> = d" using \<open>dp_stack d = f # st\<close> by (cases f) simp_all
  ultimately show "parse_bson_element_list E n (frame_is_array f) ([] @ 0 # rest) d =
      Inr (Some (rest, d\<lparr>dp_stack := put_entries [] f # st\<rparr>))"
    by (simp add: reader_get_def)
qed

lemma list_reads_Cons:
  assumes el: "element_reads E k v b1" and key: "bson_key_ok k"
    and es: "\<And>n. list_reads (parse_bson_element_list E n) n es b2"
  shows "list_reads (parse_bson_element_list E n) n ((k, v) # es) (b1 @ b2)"
  unfolding list_reads_def
proof (intro allI impI)
  fix rest :: "byte list" and d :: dom_parser and f st
  assume n: "length ((b1 @ b2) @ 0 # rest) < n" and d: "dp_stack d = f # st"
  obtain t payload where t: "t \<noteq> 0" "b1 = write_bson_entry_header k t @ payload"
    and read: "\<And>n rest d d'. handle_value v d = Inr d' \<Longrightarrow> length (payload @ rest) < n \<Longrightarrow>
      parse_bson_element_internal E (parse_bson_element_list E n) t (payload @ rest) d = Inr (Some (rest, d'))"
    using el by (auto simp: element_reads_def)
  obtain n' where n': "n = Suc n'" using n by (cases n) auto
  obtain d1 d2 where d1: "(if frame_is_array f then Inr d else dom_key k d) = Inr d1" "handle_value v d1 = Inr d2"
    "dp_root d2 = dp_root d" "dp_stack d2 = put_entries [(k, v)] f # st"
    using put_entries_step [OF d key] by blast
  have cstr: "get_bson_cstr (chars_of k @ 0 # r) = Inr (k, r)" for r
    using key by (simp add: get_bson_cstr_write bson_key_ok_def)
  have lengths: "length (payload @ b2 @ 0 # rest) < n'" "length (b2 @ 0 # rest) < n'"
    using n n' t by simp_all
  have "parse_bson_element_list E n' (frame_is_array (put_entries [(k, v)] f)) (b2 @ 0 # rest) d2 =
      Inr (Some (rest, d2\<lparr>dp_stack := put_entries es (put_entries [(k, v)] f) # st\<rparr>))"
    using es [of n'] lengths(2) d1(4) unfolding list_reads_def by blast
  moreover have "frame_is_array (put_entries [(k, v)] f) = frame_is_array f"
    by (cases f) (simp_all add: frame_is_array_def)
  moreover have "d2\<lparr>dp_stack := put_entries es (put_entries [(k, v)] f) # st\<rparr> =
      d\<lparr>dp_stack := put_entries ((k, v) # es) f # st\<rparr>"
    using d1(3) put_entries_Cons [of k v es f] by simp
  ultimately show "parse_bson_element_list E n (frame_is_array f) ((b1 @ b2) @ 0 # rest) d =
      Inr (Some (rest, d\<lparr>dp_stack := put_entries ((k, v) # es) f # st\<rparr>))"
    using read [OF d1(2), of "b2 @ 0 # rest" n'] lengths(1) d1(1) t n'
    by (simp add: write_bson_entry_header_def reader_get_def cstr)
qed

lemma bson_reads:
  "double_ok E \<Longrightarrow> bson_ok E j \<Longrightarrow> write_bson_element E name j = Inr bs \<Longrightarrow> element_reads E name j bs"
  "double_ok E \<Longrightarrow> entries_ok E es \<Longrightarrow> write_bson_elements E es = Inr bs \<Longrightarrow>
     list_reads (parse_bson_element_list E n) n es bs"
proof (induction E name j and E es arbitrary: bs and bs n rule: write_bson_element_write_bson_elements.induct)
  case (1 E name j)
  show ?case
  proof (cases j)
    case (JObj m)
    with 1 show ?thesis
      by (auto simp: write_bson_element.simps [of E name "JObj m"] res_inv write_document_Inr bson_ok_object
          intro!: element_reads_object)
  next
    case (JArr xs)
    with 1 show ?thesis
      by (auto simp: write_bson_element.simps [of E name "JArr xs"] res_inv write_document_Inr bson_ok_array
          intro!: element_reads_array)
  next
    case (JInt i)
    with 1 show ?thesis
      by (auto simp: write_bson_element.simps write_bson_signs element_reads_integer split: if_splits)
  qed (use 1 in \<open>auto simp: write_bson_element.simps element_reads_simple element_reads_string element_reads_binary\<close>)
next
  case (3 E k v es)
  then show ?case by (auto simp: res_inv intro!: list_reads_Cons)
qed (simp_all add: list_reads_Nil)

text \<open>The encoding of an object, and what follows it in the input.\<close>

lemma bson_roundtrip_append:
  assumes "double_ok E" and "bson_ok E (JObj m)"
  shows "\<exists>bs. to_bson E (JObj m) = Inr bs \<and> calc_bson_object_size m = Inr (length bs) \<and>
    take 4 bs = write_number 4 (int (length bs)) \<and>
    (\<forall>rest. from_bson E (bs @ rest) = (if rest = [] then Inr (JObj m) else Inl Json_parse_error))"
proof -
  obtain k es where k: "calc_bson_entries_size (sorted_list_of_fmap m) = Inr k"
    "write_bson_elements E (sorted_list_of_fmap m) = Inr es"
    using bson_writes(2) [OF assms(1), of "sorted_list_of_fmap m"] assms(2) by (auto simp: bson_ok_object)
  let ?bs = "write_number 4 (int (k + 5)) @ es @ [0]" and ?d = "\<lparr>dp_root = JNull, dp_stack = []\<rparr>"
  have w: "to_bson E (JObj m) = Inr ?bs"
    using k by (simp add: to_bson_def write_bson_object_def write_document_def calc_bson_object_size_def document_size_def add.commute)
  have len: "length es = k" using bson_sizes(2) [OF assms(1) k] .
  have el: "element_reads E [] (JObj m) (write_bson_entry_header [] 3 @ ?bs)"
    using bson_reads(2) [OF assms(1) _ k(2)] assms(2) by (auto simp: bson_ok_object intro!: element_reads_object)
  have "from_bson E (?bs @ rest) = (if rest = [] then Inr (JObj m) else Inl Json_parse_error)" for rest
  proof -
    have "parse_bson_element_internal E (parse_bson_element_list E (Suc (length (?bs @ rest)))) 3 (?bs @ rest) ?d =
        Inr (Some (rest, \<lparr>dp_root = JObj m, dp_stack = []\<rparr>))"
      using el unfolding element_reads_def
      by (auto simp: write_bson_entry_header_def handle_value_def chars_of_def
          dest!: spec [of _ "Suc (length (?bs @ rest))"] spec [of _ rest] spec [of _ ?d])
    then show ?thesis
      by (cases rest) (simp_all add: from_bson_def sax_parse_def parse_bson_element_internal_def reader_get_def)
  qed
  then show ?thesis
    using w k len by (intro exI [of _ ?bs]) (simp add: calc_bson_object_size_def document_size_def add.commute)
qed

lemma bson_roundtrip_object:
  assumes "double_ok E" and "bson_ok E (JObj m)"
  shows "\<exists>bs. to_bson E (JObj m) = Inr bs \<and> from_bson E bs = Inr (JObj m) \<and>
    calc_bson_object_size m = Inr (length bs)"
  using bson_roundtrip_append [OF assms] by (metis append_Nil2)

section \<open>Every input\<close>

text \<open>
  A result of the reader on the input \<open>inp\<close>: a parse error, the answer false, or a shorter rest of
  the input and a parser that satisfies \<open>P\<close>.
\<close>

definition sax_post :: "byte list \<Rightarrow> (dom_parser \<Rightarrow> bool) \<Rightarrow> (byte list \<times> dom_parser) sax \<Rightarrow> bool" where
  "sax_post inp P res \<longleftrightarrow>
     (case res of
        Inl e \<Rightarrow> e = Json_parse_error
      | Inr None \<Rightarrow> True
      | Inr (Some (r, d)) \<Rightarrow> length r \<le> length inp \<and> P d)"

lemma sax_post_bind:
  assumes "sax_post inp P m" and "\<And>r d. length r \<le> length inp \<Longrightarrow> P d \<Longrightarrow> sax_post r Q (f (r, d))"
  shows "sax_post inp Q (bind_sax m f)"
  using assms by (fastforce simp: sax_post_def split: sum.splits option.splits prod.splits)

lemma sax_post_shorter: "sax_post r P m \<Longrightarrow> length r \<le> length inp \<Longrightarrow> sax_post inp P m"
  by (auto simp: sax_post_def split: sum.splits option.splits)

text \<open>What is under construction can be written: the innermost container holds encodable elements.\<close>

definition frame_ok :: "ext \<Rightarrow> frame \<Rightarrow> bool" where
  "frame_ok E f = (case f of F_object m k \<Rightarrow> bson_ok E (JObj m) \<and> (\<forall>s. k = Some s \<longrightarrow> bson_key_ok s) | F_array xs \<Rightarrow> bson_ok E (JArr xs))"

definition ready :: "frame \<Rightarrow> bool" where
  "ready f = (case f of F_object m k \<Rightarrow> k \<noteq> None | F_array xs \<Rightarrow> True)"

text \<open>The parser stands inside a container of the given kind, in the same surroundings as \<open>d\<close>.\<close>

definition inside :: "ext \<Rightarrow> dom_parser \<Rightarrow> bool \<Rightarrow> dom_parser \<Rightarrow> bool" where
  "inside E d is_array d' \<longleftrightarrow>
     dp_root d' = dp_root d \<and>
     (\<exists>f. dp_stack d' = f # tl (dp_stack d) \<and> frame_ok E f \<and> frame_is_array f = is_array)"

lemma unat_byte_less: "unat (b :: byte) < 256"
  using unsigned_less [of b] by simp

lemma get_bson_cstr_Inr: "get_bson_cstr inp = Inr (s, r) \<Longrightarrow> bson_key_ok s \<and> length r < length inp"
proof (induction inp arbitrary: s)
  case (Cons b inp)
  have "char_of (unat b) \<noteq> CHR 0x00" if "b \<noteq> 0"
  proof
    assume "char_of (unat b) = CHR 0x00"
    then have "(of_char (char_of (unat b)) :: nat) = 0" by simp
    then have "unat b mod 256 = 0" by simp
    moreover have "unat b < 256" by (rule unat_byte_less)
    ultimately show False using that by (simp add: unat_eq_zero)
  qed
  then show ?case using Cons by (fastforce simp: res_inv bson_key_ok_def split: if_splits)
qed simp

lemma get_bson_cstr_Inl: "get_bson_cstr inp = Inl e \<Longrightarrow> e = Json_parse_error"
proof (induction inp)
  case (Cons b inp)
  then show ?case by (cases "get_bson_cstr inp") (auto split: if_splits)
qed simp

lemma handle_value_inside:
  assumes "dp_stack d = f # st" and "frame_ok E f" and "ready f" and "bson_ok E v"
  shows "\<exists>d'. handle_value v d = Inr d' \<and> inside E d (frame_is_array f) d'"
proof (cases f)
  case (F_array xs)
  with assms show ?thesis by (auto simp: handle_value_def inside_def frame_ok_def frame_is_array_def bson_ok.simps(6))
next
  case (F_object m k)
  with assms obtain s where "k = Some s" "bson_key_ok s" by (auto simp: ready_def frame_ok_def)
  with F_object assms show ?thesis
    by (auto simp: handle_value_def inside_def frame_ok_def frame_is_array_def bson_ok_fields split: if_splits)
qed

lemma put_scalar_post:
  assumes "dp_stack d = f # st" and "frame_ok E f" and "ready f" and "bson_ok E v" and "length r \<le> length inp"
  shows "sax_post inp (inside E d (frame_is_array f)) (put_scalar d (v, r))"
  using handle_value_inside [OF assms(1-4)] assms(5) by (auto simp: put_scalar_def sax_post_def)

lemma get_bytes_post:
  assumes "\<And>v r. length v = n \<Longrightarrow> inp = v @ r \<Longrightarrow> sax_post inp P (f (v, r))"
  shows "sax_post inp P (bind_res (get_bytes n inp) f)"
  using assms get_bytes_Inr [of n inp] get_bytes_Inl [of n inp]
  by (cases "get_bytes n inp") (auto simp: sax_post_def)

lemma get_number_post:
  assumes "\<And>v r. - (2 ^ (8 * n)) \<le> 2 * v \<Longrightarrow> 2 * v < 2 ^ (8 * n) \<Longrightarrow> length inp = n + length r \<Longrightarrow> sax_post r P (f (v, r))"
    and "0 < n"
  shows "sax_post inp P (bind_res (get_number n inp) f)"
proof -
  have "bind_res (get_number n inp) f = bind_res (get_bytes n inp) (\<lambda>(v, r). f (le_signed v, r))"
    by (cases "get_bytes n inp") (auto simp: get_number_def)
  moreover have "sax_post inp P (f (le_signed v, r))" if "length v = n" "inp = v @ r" for v r
    using assms(1) [of "le_signed v" r] le_signed_bounds [of v] that assms(2)
    by (auto intro: sax_post_shorter)
  ultimately show ?thesis by (auto intro!: get_bytes_post)
qed

definition list_post :: "ext \<Rightarrow> element_list_reader \<Rightarrow> nat \<Rightarrow> bool" where
  "list_post E parse_list n \<longleftrightarrow>
     (\<forall>inp d is_array. length inp < n \<longrightarrow> inside E d is_array d \<longrightarrow>
        sax_post inp (inside E d is_array) (parse_list is_array inp d))"

lemma parse_object_post:
  assumes "list_post E pl n" and "length inp < n"
    and "dp_stack d = f # st" and "frame_ok E f" and "ready f"
  shows "sax_post inp (inside E d (frame_is_array f)) (parse_bson_internal pl inp d)"
  unfolding parse_bson_internal_def
proof (intro get_number_post, clarsimp)
  fix r :: "byte list"
  assume "length inp = 4 + length r"
  have "inside E (dom_start_object d) False (dom_start_object d)"
    by (simp add: inside_def dom_start_object_def frame_ok_def frame_is_array_def bson_ok_fields)
  then have "sax_post r (inside E (dom_start_object d) False) (pl False r (dom_start_object d))"
    using assms(1,2) \<open>length inp = 4 + length r\<close> by (simp add: list_post_def)
  then show "sax_post r (inside E d (frame_is_array f))
      (bind_sax (pl False r (dom_start_object d)) (\<lambda>(r', d'). map_res (\<lambda>d''. Some (r', d'')) (dom_end_object d')))"
  proof (rule sax_post_bind, clarify)
    fix r' d'
    assume "inside E (dom_start_object d) False d'"
    then obtain g where g: "dp_stack d' = g # dp_stack d" "frame_ok E g" "\<not> frame_is_array g" "dp_root d' = dp_root d"
      by (auto simp: inside_def dom_start_object_def)
    then obtain m k where m: "dp_stack d' = F_object m k # dp_stack d" "dp_root d' = dp_root d" "bson_ok E (JObj m)"
      by (cases g) (auto simp: frame_ok_def frame_is_array_def)
    then have "d'\<lparr>dp_stack := dp_stack d\<rparr> = d" by simp
    then show "sax_post r' (inside E d (frame_is_array f)) (map_res (\<lambda>d''. Some (r', d'')) (dom_end_object d'))"
      using handle_value_inside [OF assms(3-5) m(3)] m(1) by (auto simp: dom_end_object_def sax_post_def)
  qed
qed simp

lemma parse_array_post:
  assumes "list_post E pl n" and "length inp < n"
    and "dp_stack d = f # st" and "frame_ok E f" and "ready f"
  shows "sax_post inp (inside E d (frame_is_array f)) (parse_bson_array pl inp d)"
  unfolding parse_bson_array_def
proof (intro get_number_post, clarsimp)
  fix r :: "byte list"
  assume "length inp = 4 + length r"
  have "inside E (dom_start_array d) True (dom_start_array d)"
    by (simp add: inside_def dom_start_array_def frame_ok_def frame_is_array_def bson_ok.simps(6))
  then have "sax_post r (inside E (dom_start_array d) True) (pl True r (dom_start_array d))"
    using assms(1,2) \<open>length inp = 4 + length r\<close> by (simp add: list_post_def)
  then show "sax_post r (inside E d (frame_is_array f))
      (bind_sax (pl True r (dom_start_array d)) (\<lambda>(r', d'). map_res (\<lambda>d''. Some (r', d'')) (dom_end_array d')))"
  proof (rule sax_post_bind, clarify)
    fix r' d'
    assume "inside E (dom_start_array d) True d'"
    then obtain g where g: "dp_stack d' = g # dp_stack d" "frame_ok E g" "frame_is_array g" "dp_root d' = dp_root d"
      by (auto simp: inside_def dom_start_array_def)
    then obtain xs where m: "dp_stack d' = F_array xs # dp_stack d" "dp_root d' = dp_root d" "bson_ok E (JArr xs)"
      by (cases g) (auto simp: frame_ok_def frame_is_array_def)
    then have "d'\<lparr>dp_stack := dp_stack d\<rparr> = d" by simp
    then show "sax_post r' (inside E d (frame_is_array f)) (map_res (\<lambda>d''. Some (r', d'')) (dom_end_array d'))"
      using handle_value_inside [OF assms(3-5) m(3)] m(1) by (auto simp: dom_end_array_def sax_post_def)
  qed
qed simp

lemma get_bson_string_post:
  assumes "len < 2 ^ 31"
    and "\<And>s r. length s + 1 < 2 ^ 31 \<Longrightarrow> length r \<le> length inp \<Longrightarrow> sax_post r P (f (s, r))"
  shows "sax_post inp P (bind_sax (get_bson_string len inp) f)"
proof (cases "len < 1")
  case False
  have "bind_sax (get_bson_string len inp) f = bind_res (get_bytes (nat (len - 1)) inp) (\<lambda>(v, r).
      case r of [] \<Rightarrow> Inr None | _ # r' \<Rightarrow> f (string_of v, r'))"
    using False
    by (cases "get_bytes (nat (len - 1)) inp")
      (auto simp: get_bson_string_def get_string_def reader_get_def split: list.splits)
  moreover have "sax_post inp P (f (string_of v, r))"
    if "length v = nat (len - 1)" "length r \<le> length inp" for v r
    using that assms(1) False by (intro sax_post_shorter [OF assms(2)]) (simp_all add: string_of_def)
  moreover have "sax_post inp P (Inr None)" by (simp add: sax_post_def)
  ultimately show ?thesis by (auto intro!: get_bytes_post split: list.splits)
qed (simp add: get_bson_string_def sax_post_def)

lemma get_bson_binary_post:
  assumes "len < 2 ^ 31"
    and "\<And>s bs r. length bs < 2 ^ 31 \<Longrightarrow> s < 256 \<Longrightarrow> length r \<le> length inp \<Longrightarrow> sax_post r P (f (JBin (Some s) bs, r))"
  shows "sax_post inp P (bind_res (get_bson_binary len inp) f)"
proof (cases "len < 0")
  case False
  have "bind_res (get_bson_binary len inp) f =
      bind_res (get_bytes 1 inp) (\<lambda>(t, r). bind_res (get_bytes (nat len) r) (\<lambda>(bs, r'). f (JBin (Some (unat (hd t))) bs, r')))"
    using False
    by (cases "get_bytes 1 inp"; cases "get_bytes (nat len) (snd (projr (get_bytes 1 inp)))")
      (auto simp: get_bson_binary_def get_binary_def)
  moreover have "sax_post inp P (f (JBin (Some (unat (hd t))) bs, r))"
    if "length bs = nat len" "length r \<le> length inp" for t :: "byte list" and bs r
    using that assms(1) False unat_byte_less [of "hd t"] by (intro sax_post_shorter [OF assms(2)]) simp_all
  then have "sax_post inp P (bind_res (get_bytes (nat len) r) (\<lambda>(bs, r'). f (JBin (Some (unat (hd t))) bs, r')))"
    if "inp = t @ r" for t r
    using that get_bytes_Inr [of "nat len" r] get_bytes_Inl [of "nat len" r]
    by (cases "get_bytes (nat len) r") (auto simp: sax_post_def)
  ultimately show ?thesis
    by (auto intro!: get_bytes_post simp del: get_bytes.simps One_nat_def)
qed (simp add: get_bson_binary_def sax_post_def)

lemma parse_element_post:
  assumes "double_ok E" and "list_post E pl n" and "length inp < n"
    and "dp_stack d = f # st" and "frame_ok E f" and "ready f"
  shows "sax_post inp (inside E d (frame_is_array f)) (parse_bson_element_internal E pl t inp d)"
proof -
  note put = put_scalar_post [OF assms(4-6)]
  have int_ok: "bson_ok E (JInt v)" if "- (2 ^ 64) \<le> 2 * v" "2 * v < 2 ^ 64" for v
    using that by simp
  have float: "bson_ok E (JFloat (x_double_value E bs))" if "length bs = 8" for bs
    using assms(1) that by (simp add: double_ok_def)
  have "sax_post inp (inside E d (frame_is_array f))
      (bind_res (get_bytes 8 inp) (\<lambda>(bs, r). put_scalar d (JFloat (x_double_value E bs), r)))"
    by (rule get_bytes_post) (auto intro!: put float)
  moreover have "sax_post inp (inside E d (frame_is_array f)) (bind_res (get_number 4 inp) (\<lambda>(len, r).
      bind_sax (get_bson_string len r) (\<lambda>(s, r'). put_scalar d (JStr s, r'))))"
    by (rule get_number_post) (auto intro!: get_bson_string_post put)
  moreover have "sax_post inp (inside E d (frame_is_array f))
      (bind_res (get_number 4 inp) (\<lambda>(len, r). bind_res (get_bson_binary len r) (put_scalar d)))"
    by (rule get_number_post) (auto intro!: get_bson_binary_post put)
  moreover have "sax_post inp (inside E d (frame_is_array f))
      (bind_res (get_number k inp) (\<lambda>(v, r). put_scalar d (JInt v, r)))" if "k = 4 \<or> k = 8" for k
    using that by (intro get_number_post) (auto intro!: put)
  moreover have "sax_post inp (inside E d (frame_is_array f))
      (let (current, r) = reader_get inp in put_scalar d (JBool (current \<noteq> Some 0), r))"
    by (cases inp) (auto simp: reader_get_def intro!: put)
  moreover have "sax_post inp (inside E d (frame_is_array f)) (put_scalar d (JNull, inp))"
    by (rule put) simp_all
  ultimately show ?thesis
    using parse_object_post [OF assms(2-6)] parse_array_post [OF assms(2-6)]
    unfolding parse_bson_element_internal_def
    by (simp add: sax_post_def [of _ _ "Inl Json_parse_error"])
qed

text \<open>After the key of an element the parser is ready to take its value, in the same container.\<close>

lemma dom_key_ready:
  assumes "inside E d is_array d" and "bson_key_ok k"
  obtains d1 f1 st where "(if is_array then Inr d else dom_key k d) = Inr d1" and "dp_stack d1 = f1 # st"
    and "frame_ok E f1" and "ready f1" and "frame_is_array f1 = is_array" and "inside E d1 is_array = inside E d is_array"
proof -
  obtain f st where f: "dp_stack d = f # st" "frame_ok E f" "frame_is_array f = is_array"
    using assms(1) by (auto simp: inside_def)
  obtain d1 f1 where d1: "(if is_array then Inr d else dom_key k d) = Inr d1" "dp_stack d1 = f1 # st"
    "frame_ok E f1" "ready f1" "frame_is_array f1 = is_array" "dp_root d1 = dp_root d"
    using f assms(2) by (cases f)
      (auto simp: dom_key_def frame_ok_def frame_is_array_def ready_def bson_ok_fields split: if_splits)
  moreover have "inside E d1 is_array = inside E d is_array" using d1 f by (simp add: inside_def fun_eq_iff)
  ultimately show ?thesis by (intro that)
qed

lemma parse_list_post: "double_ok E \<Longrightarrow> list_post E (parse_bson_element_list E n) n"
proof (induction n)
  case (Suc n)
  show ?case
    unfolding list_post_def
  proof (intro allI impI)
    fix inp :: "byte list" and d :: dom_parser and is_array
    assume n: "length inp < Suc n" and ins: "inside E d is_array d"
    show "sax_post inp (inside E d is_array) (parse_bson_element_list E (Suc n) is_array inp d)"
    proof (cases inp)
      case (Cons t r)
      show ?thesis
      proof (cases "t = 0 \<or> (\<exists>e. get_bson_cstr r = Inl e)")
        case True
        then show ?thesis using Cons ins get_bson_cstr_Inl by (auto simp: reader_get_def sax_post_def)
      next
        case False
        then obtain k r1 where k: "t \<noteq> 0" "get_bson_cstr r = Inr (k, r1)" by (cases "get_bson_cstr r") auto
        have r1: "bson_key_ok k" "length r1 < length r" using get_bson_cstr_Inr [OF k(2)] by auto
        from dom_key_ready [OF ins r1(1)] obtain d1 f1 st where
          d1: "(if is_array then Inr d else dom_key k d) = Inr d1" "dp_stack d1 = f1 # st" "frame_ok E f1" "ready f1"
            "frame_is_array f1 = is_array" and same: "inside E d1 is_array = inside E d is_array" .
        have "sax_post r1 (inside E d1 (frame_is_array f1))
            (parse_bson_element_internal E (parse_bson_element_list E n) t r1 d1)"
          by (rule parse_element_post [OF Suc.prems Suc.IH [OF Suc.prems] _ d1(2,3,4)]) (use r1 n Cons in simp)
        then have "sax_post r1 (inside E d is_array)
            (bind_sax (parse_bson_element_internal E (parse_bson_element_list E n) t r1 d1)
              (\<lambda>(r2, d2). parse_bson_element_list E n is_array r2 d2))"
        proof (rule sax_post_bind, clarify)
          fix r2 :: "byte list" and d2 :: dom_parser
          assume "length r2 \<le> length r1" and "inside E d1 (frame_is_array f1) d2"
          then have i2: "inside E d is_array d2" using same d1(5) by simp
          then have "inside E d2 is_array d2" "inside E d2 is_array = inside E d is_array"
            by (auto simp: inside_def fun_eq_iff)
          moreover have "length r2 < n" using \<open>length r2 \<le> length r1\<close> r1 n Cons by simp
          ultimately show "sax_post r2 (inside E d is_array) (parse_bson_element_list E n is_array r2 d2)"
            using Suc.IH [OF Suc.prems] unfolding list_post_def by metis
        qed
        then show ?thesis
          using k d1(1) Cons r1 by (auto simp: reader_get_def intro: sax_post_shorter)
      qed
    qed (simp add: reader_get_def sax_post_def)
  qed
qed (simp add: list_post_def)

lemma from_bson_cases:
  assumes "double_ok E"
  shows "from_bson E bs = Inl Json_parse_error \<or> from_bson E bs = Inr JDiscarded \<or>
    (\<exists>m. from_bson E bs = Inr (JObj m) \<and> bson_ok E (JObj m))"
proof -
  let ?d = "\<lparr>dp_root = JNull, dp_stack = []\<rparr>"
  let ?d1 = "dom_start_object ?d"
  let ?pl = "parse_bson_element_list E (Suc (length bs))"
  have "inside E ?d1 False ?d1"
    by (simp add: inside_def dom_start_object_def frame_ok_def frame_is_array_def bson_ok_fields)
  then have post: "sax_post r (inside E ?d1 False) (?pl False r ?d1)" if "length r \<le> length bs" for r
    using parse_list_post [OF assms, of "Suc (length bs)"] that by (simp add: list_post_def)
  show ?thesis
  proof (cases "get_bytes 4 bs")
    case (Inl e)
    then show ?thesis
      using get_bytes_Inl [OF Inl]
      by (simp add: from_bson_def sax_parse_def parse_bson_internal_def get_number_def)
  next
    case (Inr vr)
    then obtain v r where vr: "vr = (v, r)" "length r \<le> length bs"
      using get_bytes_Inr [of 4 bs "fst vr" "snd vr"] by (cases vr) auto
    have eq: "from_bson E bs = map_res (\<lambda>res. case res of Some d \<Rightarrow> dp_root d | None \<Rightarrow> JDiscarded)
       (bind_sax (bind_sax (?pl False r ?d1) (\<lambda>(r', d'). map_res (\<lambda>d''. Some (r', d'')) (dom_end_object d')))
         (\<lambda>(r, d'). case reader_get r of (None, _) \<Rightarrow> Inr (Some d') | (Some _, _) \<Rightarrow> Inl Json_parse_error))"
      using Inr vr by (simp add: from_bson_def sax_parse_def parse_bson_internal_def get_number_def)
    show ?thesis
    proof (cases "?pl False r ?d1")
      case (Inl e)
      then show ?thesis using post [OF vr(2)] by (simp add: eq sax_post_def)
    next
      case pl: (Inr res)
      show ?thesis
      proof (cases res)
        case (Some rd)
        then have "inside E ?d1 False (snd rd)" using post [OF vr(2)] pl by (cases rd) (simp add: sax_post_def)
        then obtain g where g: "dp_stack (snd rd) = [g]" "frame_ok E g" "\<not> frame_is_array g"
          by (auto simp: inside_def dom_start_object_def)
        then obtain m k where m: "dp_stack (snd rd) = [F_object m k]" "bson_ok E (JObj m)"
          by (cases g) (auto simp: frame_ok_def frame_is_array_def)
        then show ?thesis
          using pl Some by (cases "fst rd") (simp_all add: eq split_beta dom_end_object_def handle_value_def reader_get_def)
      qed (use pl eq in simp)
    qed
  qed
qed

declare bson_ok_list [simp]

end
