(* ===== verification/SS_Message.thy ===== *)
theory SS_Message
  imports SS_Io SS_BsonRoundtrip
begin

text \<open>
  \<open>message.hpp\<close>, \<open>message.cpp\<close> and \<open>sender.hpp\<close>, \<open>sender.cpp\<close>: a message is a JSON object with one
  field per application, encoded as BSON. \<open>async_send_to\<close> hands the datagram to the socket before
  it returns; of the completion handlers only \<open>signaling_request::on_traversal_done\<close> has an effect,
  and the caller queues it.
\<close>

type_synonym message = json

text \<open>\<open>std::array<char, 8>\<close> as JSON: an array of eight signed numbers.\<close>

definition app_id_json :: "string \<Rightarrow> json" where
  "app_id_json i = JArr (map (\<lambda>c. JInt (sint (of_char c :: byte))) i)"

definition message_set_app_id :: "string \<Rightarrow> message \<Rightarrow> message result" where
  "message_set_app_id i body = json_set ''app_id'' (app_id_json i) body"

definition message_of_app_id :: "string \<Rightarrow> message result" where
  "message_of_app_id i = message_set_app_id i JNull"

definition message_of_json :: "json \<Rightarrow> message" where
  "message_of_json j = j"

text \<open>A null \<open>shared_ptr\<close> is \<open>None\<close>; the pointee is a copy of the field.\<close>

definition message_get_param :: "string \<Rightarrow> message \<Rightarrow> json option" where
  "message_get_param param body =
     (if json_contains body param then
        (case json_index param body of Inr (v, _) \<Rightarrow> Some v | Inl _ \<Rightarrow> None)
      else None)"

definition message_set_param :: "string \<Rightarrow> json \<Rightarrow> message \<Rightarrow> message result" where
  "message_set_param key value body = json_set key value body"

definition message_is_contain_param :: "string \<Rightarrow> message \<Rightarrow> bool" where
  "message_is_contain_param param body = json_contains body param"

definition message_encode :: "ext \<Rightarrow> message \<Rightarrow> byte list result" where
  "message_encode E body = to_bson E body"

definition message_decode :: "ext \<Rightarrow> byte list \<Rightarrow> message result" where
  "message_decode E bytes = map_res message_of_json (from_bson E bytes)"

section \<open>The sender\<close>

definition sender_async_send_message ::
  "ext \<Rightarrow> endpoint \<Rightarrow> message \<Rightarrow> 'a io_world_scheme \<Rightarrow> 'a io_world_scheme result" where
  "sender_async_send_message E dest_ep msg w =
     bind_res (message_encode E msg) (\<lambda>enc_msg. Inr (socket_send dest_ep enc_msg w))"

definition sender_async_send ::
  "ext \<Rightarrow> endpoint \<Rightarrow> string \<Rightarrow> json \<Rightarrow> 'a io_world_scheme \<Rightarrow> 'a io_world_scheme result" where
  "sender_async_send E dest_ep param payload w =
     bind_res (message_of_app_id (w_app_id w)) (\<lambda>m.
       bind_res (message_set_param param payload m) (\<lambda>msg.
         bind_res (message_encode E msg) (\<lambda>enc_msg.
           Inr (socket_send dest_ep enc_msg w))))"

text \<open>The synchronous forms take the socket's answer: \<open>ok\<close> when the error code is clear.\<close>

definition sender_sync_send_message ::
  "ext \<Rightarrow> bool \<Rightarrow> endpoint \<Rightarrow> message \<Rightarrow> 'a io_world_scheme \<Rightarrow> (bool \<times> 'a io_world_scheme) result" where
  "sender_sync_send_message E ok dest_ep msg w =
     bind_res (message_encode E msg) (\<lambda>enc_msg.
       Inr (if ok then (True, socket_send dest_ep enc_msg w) else (False, w)))"

definition sender_sync_send ::
  "ext \<Rightarrow> bool \<Rightarrow> endpoint \<Rightarrow> string \<Rightarrow> json \<Rightarrow> 'a io_world_scheme \<Rightarrow> (bool \<times> 'a io_world_scheme) result" where
  "sender_sync_send E ok dest_ep param payload w =
     bind_res (message_of_app_id (w_app_id w)) (\<lambda>m.
       bind_res (message_set_param param payload m) (\<lambda>msg.
         bind_res (message_encode E msg) (\<lambda>enc_msg.
           Inr (if ok then (True, socket_send dest_ep enc_msg w) else (False, w)))))"

section \<open>The wire\<close>

text \<open>
  What the exchanges below need of the codec: \<open>bson_rt E j\<close>, the value \<open>j\<close> encodes, and its encoding
  decodes to it. \<open>payload_body\<close> is the object one datagram of the sender carries.
\<close>

definition bson_rt :: "ext \<Rightarrow> json \<Rightarrow> bool" where
  "bson_rt E j \<longleftrightarrow>
     (case to_bson E j of Inr bs \<Rightarrow> from_bson E bs = Inr j | Inl _ \<Rightarrow> False)"

definition payload_body :: "string \<Rightarrow> string \<Rightarrow> json \<Rightarrow> json" where
  "payload_body i param payload =
     JObj (fmupd param payload (fmupd ''app_id'' (app_id_json i) fmempty))"

definition datagram :: "ext \<Rightarrow> string \<Rightarrow> string \<Rightarrow> json \<Rightarrow> byte list" where
  "datagram E i param payload =
     (case to_bson E (payload_body i param payload) of Inr bs \<Rightarrow> bs | Inl _ \<Rightarrow> [])"

lemma message_of_app_id_Inr [simp]:
  "message_of_app_id i = Inr (JObj (fmupd ''app_id'' (app_id_json i) fmempty))"
  by (simp add: message_of_app_id_def message_set_app_id_def)

text \<open>What a send does, whatever the codec: it throws what the encoder throws, or one datagram goes out.\<close>

lemma sender_async_send_eq:
  "sender_async_send E dest param payload w =
     map_res (\<lambda>bs. socket_send dest bs w) (to_bson E (payload_body (w_app_id w) param payload))"
  by (cases "to_bson E (payload_body (w_app_id w) param payload)")
    (simp_all add: sender_async_send_def message_set_param_def message_encode_def payload_body_def)

lemma sender_async_send_ok:
  "bson_rt E (payload_body (w_app_id w) param payload) \<Longrightarrow>
   sender_async_send E dest param payload w = Inr (socket_send dest (datagram E (w_app_id w) param payload) w)"
  by (auto simp: sender_async_send_eq bson_rt_def datagram_def split: sum.splits)

lemma datagram_decode:
  "bson_rt E (payload_body i param payload) \<Longrightarrow>
   message_decode E (datagram E i param payload) = Inr (payload_body i param payload)"
  by (auto simp: bson_rt_def datagram_def message_decode_def message_of_json_def split: sum.splits)

lemma bson_rt_ok: "double_ok E \<Longrightarrow> bson_ok E (JObj m) \<Longrightarrow> bson_rt E (JObj m)"
  using bson_roundtrip_object [of E m] by (auto simp: bson_rt_def)

lemma app_id_ok: "bson_ok E (app_id_json i)"
proof -
  have "- (2 ^ 63) \<le> sint b \<and> sint b < 2 ^ 63" for b :: byte
    using sint_range_size [of b] by (simp add: word_size)
  then show ?thesis by (auto simp: app_id_json_def)
qed

lemma payload_rt:
  assumes "double_ok E" and "bson_key_ok param" and "bson_ok E payload"
  shows "bson_rt E (payload_body i param payload)"
  unfolding payload_body_def using assms
  by (intro bson_rt_ok bson_ok_upd) (simp_all add: app_id_ok bson_key_ok_def)

lemma message_get_param_fields: "message_get_param p b = fmlookup (json_fields b) p"
  by (cases b) (auto simp: message_get_param_def)

lemma payload_body_param [simp]:
  "message_get_param param (payload_body i param payload) = Some payload"
  "message_is_contain_param param (payload_body i param payload)"
  by (simp_all add: message_get_param_fields payload_body_def message_is_contain_param_def)

lemma payload_body_other:
  "p \<noteq> param \<Longrightarrow> p \<noteq> ''app_id'' \<Longrightarrow> \<not> message_is_contain_param p (payload_body i param payload)"
  by (simp add: message_is_contain_param_def payload_body_def)

lemma sender_async_send_frame:
  assumes "sender_async_send E dest param payload w = Inr w'"
  shows "\<exists>bs. w' = socket_send dest bs w"
  using assms by (auto simp: sender_async_send_eq map_res_Inr)

section \<open>Properties of the wire format\<close>

text \<open>
  C22. A message is encoded and decoded to itself if, at every depth, its keys have no zero character, its
  integers fit 64 signed bits, its texts are shorter than \<open>2 ^ 31 - 1\<close>, its binary values have a subtype
  below 256 and less than \<open>2 ^ 31\<close> bytes, its floating-point numbers come back from their eight bytes, and
  no value is discarded. The encoding has the size computed in advance, and as long as that fits 32 signed
  bits its first four bytes announce it.
\<close>

theorem message_roundtrip:
  assumes "double_ok E" and "bson_ok E (JObj m)"
  shows "\<exists>bs. message_encode E (JObj m) = Inr bs \<and> message_decode E bs = Inr (JObj m) \<and>
    calc_bson_object_size m = Inr (length bs) \<and>
    (length bs < 2 ^ 31 \<longrightarrow> le_signed (take 4 bs) = int (length bs))"
proof -
  obtain bs where bs: "to_bson E (JObj m) = Inr bs" "calc_bson_object_size m = Inr (length bs)"
    "take 4 bs = write_number 4 (int (length bs))"
    "\<forall>rest. from_bson E (bs @ rest) = (if rest = [] then Inr (JObj m) else Inl Json_parse_error)"
    using bson_roundtrip_append [OF assms] by blast
  have "from_bson E bs = Inr (JObj m)" using bs(4) [rule_format, of "[]"] by simp
  moreover have "le_signed (take 4 bs) = int (length bs)" if "length bs < 2 ^ 31"
    using that unfolding bs(3) write_number_def by (intro le_signed_bytes) simp_all
  ultimately show ?thesis using bs(1,2) by (simp add: message_encode_def message_decode_def message_of_json_def)
qed

text \<open>
  C23. Decoding ends on every input, and only in these ways: the exception of a parse error, the
  discarded value, or an object, and the object is one that can be encoded again and read back.
\<close>

theorem decode_outcomes:
  assumes "double_ok E"
  shows "message_decode E bs = Inl Json_parse_error \<or> message_decode E bs = Inr JDiscarded \<or>
    (\<exists>m bs'. message_decode E bs = Inr (JObj m) \<and> message_encode E (JObj m) = Inr bs' \<and>
      message_decode E bs' = Inr (JObj m))"
  using from_bson_cases [OF assms, of bs] bson_roundtrip_object [OF assms]
  by (fastforce simp: message_encode_def message_decode_def message_of_json_def)

text \<open>
  C24. What encoding does with every value that holds no discarded one: a message that is not an
  object throws a type error; an object is encoded exactly when no key at any depth has a zero
  character and every number is below \<open>2 ^ 63\<close>, and throws out of range otherwise.
\<close>

theorem encode_outcomes:
  assumes "none_discarded j"
  shows "message_encode E j =
    (if \<not> is_object j then Inl Json_type_error
     else if keys_ok j \<and> numbers_ok j then Inr (projr (message_encode E j)) else Inl Json_out_of_range)"
proof (cases j)
  case (JObj m)
  then show ?thesis
    using bson_write_errors(2) [of "sorted_list_of_fmap m" E] bson_size_errors(2) [of "sorted_list_of_fmap m"] assms
    by (auto simp: message_encode_def to_bson_def write_bson_object_def calc_bson_object_size_def document_size_def
        write_document_def split: if_splits)
qed (simp_all add: message_encode_def to_bson_def)

theorem message_roundtrip_witness:
  "\<exists>bs. message_encode sample_ext (payload_body ''abcdefgh'' ''messenger'' (JStr ''hi'')) = Inr bs \<and>
     message_decode sample_ext bs = Inr (payload_body ''abcdefgh'' ''messenger'' (JStr ''hi''))"
proof -
  have "bson_ok sample_ext (payload_body ''abcdefgh'' ''messenger'' (JStr ''hi''))"
    unfolding payload_body_def by (intro bson_ok_upd app_id_ok) (simp_all add: bson_key_ok_def)
  then show ?thesis
    unfolding payload_body_def using message_roundtrip [OF sample_double_ok] by blast
qed

theorem decode_outcomes_witness:
  "message_decode sample_ext [] = Inl Json_parse_error \<or> message_decode sample_ext [] = Inr JDiscarded \<or>
   (\<exists>m. message_decode sample_ext [] = Inr (JObj m))"
  using decode_outcomes [OF sample_double_ok, of "[]"] by blast

theorem encode_outcomes_witness:
  "message_encode sample_ext (JStr ''hi'') = Inl Json_type_error"
proof -
  have "none_discarded (JStr ''hi'')" by (simp add: none_discarded_def)
  from encode_outcomes [OF this, of sample_ext] show ?thesis by simp
qed

end
