(* ===== verification/SS_KMessage.thy ===== *)
theory SS_KMessage
  imports SS_Message
begin

text \<open>
  \<open>kademlia/k_message.hpp\<close>, \<open>kademlia/k_message.cpp\<close>: the messages of the Kademlia layer, a JSON
  body with the fields \<open>type\<close>, \<open>rpc\<close>, \<open>observer_id\<close> and, for \<open>find_node\<close>, two lists of endpoints
  in text form.
\<close>

datatype k_rpc = rpc_ping | rpc_find_node | rpc_none
datatype k_message_type = type_request | type_response

type_synonym k_message = json

definition k_message_new :: "string \<Rightarrow> k_message result" where
  "k_message_new message_type =
     (if message_type = ''request'' then
        bind_res (json_set ''type'' (JStr ''request'') JNull) (json_set ''rpc'' (JObj fmempty))
      else if message_type = ''response'' then
        bind_res (json_set ''type'' (JStr ''response'') JNull) (json_set ''rpc'' (JObj fmempty))
      else Inr JNull)"

definition k_message_of_json :: "json \<Rightarrow> k_message" where
  "k_message_of_json k_msg = k_msg"

definition k_set_param :: "string \<Rightarrow> string \<Rightarrow> k_message \<Rightarrow> k_message result" where
  "k_set_param key value body = json_set key (JStr value) body"

definition k_set_rpc :: "k_rpc \<Rightarrow> k_message \<Rightarrow> k_message result" where
  "k_set_rpc r body =
     (case r of
        rpc_ping \<Rightarrow> json_set ''rpc'' (JStr ''ping'') body
      | rpc_find_node \<Rightarrow> json_set ''rpc'' (JStr ''find_node'') body
      | rpc_none \<Rightarrow> json_set ''rpc'' (JStr ''none'') body)"

definition k_request :: "k_rpc \<Rightarrow> k_message result" where
  "k_request r = bind_res (k_message_new ''request'') (k_set_rpc r)"

definition k_response :: "k_rpc \<Rightarrow> k_message result" where
  "k_response r = bind_res (k_message_new ''response'') (k_set_rpc r)"

definition k_get_rpc :: "k_message \<Rightarrow> k_rpc result" where
  "k_get_rpc body =
     map_res (\<lambda>v. if v = JStr ''ping'' then rpc_ping else rpc_find_node) (json_index_const ''rpc'' body)"

definition k_get_message_type :: "k_message \<Rightarrow> k_message_type result" where
  "k_get_message_type body =
     map_res (\<lambda>v. if v = JStr ''request'' then type_request else type_response)
       (json_index_const ''type'' body)"

text \<open>No case of the switch ends with \<open>break\<close>: the request case runs into the response case.\<close>

definition k_set_message_type :: "k_message_type \<Rightarrow> k_message \<Rightarrow> k_message result" where
  "k_set_message_type t body =
     (case t of
        type_request \<Rightarrow>
          bind_res (json_set ''type'' (JStr ''request'') body) (json_set ''type'' (JStr ''response''))
      | type_response \<Rightarrow> json_set ''type'' (JStr ''response'') body)"

definition k_is_request :: "k_message \<Rightarrow> bool result" where
  "k_is_request body = map_res (\<lambda>v. v = JStr ''request'') (json_index_const ''type'' body)"

definition k_validate :: "k_message \<Rightarrow> bool" where
  "k_validate body =
     (if \<not> json_contains body ''type'' then False
      else if \<not> json_contains body ''rpc'' then False else True)"

definition k_encode :: "k_message \<Rightarrow> json" where
  "k_encode body = body"

section \<open>The find-node fields\<close>

text \<open>
  \<open>_body[key].get<std::vector<std::string>>()\<close>, then \<open>str_to_endpoint\<close> of each text. A missing key is
  inserted as null, which is not an array, so the call throws.
\<close>

definition k_get_endpoints :: "ext \<Rightarrow> string \<Rightarrow> k_message \<Rightarrow> endpoint list result" where
  "k_get_endpoints E key body =
     bind_res (json_index key body) (\<lambda>(v, _).
       bind_res (json_get_strings v) (\<lambda>texts.
         fold_res (\<lambda>itr ret. map_res (\<lambda>ep. ret @ [ep]) (str_to_endpoint E itr)) texts []))"

definition k_set_endpoints :: "ext \<Rightarrow> string \<Rightarrow> endpoint list \<Rightarrow> k_message \<Rightarrow> k_message result" where
  "k_set_endpoints E key eps body =
     bind_res (json_set key (JArr []) body)
       (fold_res (\<lambda>itr b. json_push_at key (JStr (endpoint_to_str E itr)) b) eps)"

definition k_get_ignore_endpoint :: "ext \<Rightarrow> k_message \<Rightarrow> endpoint list result" where
  "k_get_ignore_endpoint E body = k_get_endpoints E ''ignore_eps'' body"

definition k_set_ignore_endpoint :: "ext \<Rightarrow> endpoint list \<Rightarrow> k_message \<Rightarrow> k_message result" where
  "k_set_ignore_endpoint E eps body = k_set_endpoints E ''ignore_eps'' eps body"

definition k_get_finded_endpoint :: "ext \<Rightarrow> k_message \<Rightarrow> endpoint list result" where
  "k_get_finded_endpoint E body = k_get_endpoints E ''finded_eps'' body"

definition k_set_finded_endpoint :: "ext \<Rightarrow> endpoint list \<Rightarrow> k_message \<Rightarrow> k_message result" where
  "k_set_finded_endpoint E eps body = k_set_endpoints E ''finded_eps'' eps body"

section \<open>The observer identifier\<close>

definition str_to_observer_id :: "ext \<Rightarrow> string \<Rightarrow> uuid result" where
  "str_to_observer_id E s = of_option Runtime_error (x_uuid_from_string E s)"

definition observer_id_to_str :: "ext \<Rightarrow> uuid \<Rightarrow> string" where
  "observer_id_to_str E u = x_uuid_to_string E u"

text \<open>\<open>get_param<observer_id>\<close>: the non-const index, \<open>get<std::string>\<close>, the UUID text.\<close>

definition get_param_observer_id :: "ext \<Rightarrow> string \<Rightarrow> json \<Rightarrow> uuid result" where
  "get_param_observer_id E key body =
     bind_res (json_index key body) (\<lambda>(value, _).
       bind_res (json_get_string value) (str_to_observer_id E))"

definition k_get_observer_id :: "ext \<Rightarrow> k_message \<Rightarrow> uuid result" where
  "k_get_observer_id E body = get_param_observer_id E ''observer_id'' body"

definition k_set_observer_id :: "ext \<Rightarrow> uuid \<Rightarrow> k_message \<Rightarrow> k_message result" where
  "k_set_observer_id E u body = k_set_param ''observer_id'' (observer_id_to_str E u) body"

section \<open>Lemmas\<close>

abbreviation texts_of :: "ext \<Rightarrow> endpoint list \<Rightarrow> json" where
  "texts_of E eps \<equiv> JArr (map (\<lambda>ep. JStr (endpoint_to_str E ep)) eps)"

text \<open>An endpoint whose text is read back as the endpoint: version 4 ones are.\<close>

definition text_ep :: "ext \<Rightarrow> endpoint \<Rightarrow> bool" where
  "text_ep E ep \<longleftrightarrow> str_to_endpoint E (endpoint_to_str E ep) = Inr ep"

lemma text_ep_v4: "ip_text_ok E \<Longrightarrow> v4_no_colon E \<Longrightarrow> text_ep E (Endpoint (V4 a) p)"
  by (simp add: text_ep_def str_to_endpoint_v4)

lemma push_texts:
  "fmlookup m key = Some (JArr xs) \<Longrightarrow>
   fold_res (\<lambda>itr b. json_push_at key (JStr (endpoint_to_str E itr)) b) eps (JObj m) =
     Inr (JObj (fmupd key (JArr (xs @ map (\<lambda>ep. JStr (endpoint_to_str E ep)) eps)) m))"
proof (induction eps arbitrary: m xs)
  case Nil
  then show ?case by (simp add: fmupd_same)
next
  case (Cons ep eps)
  have "json_push_at key (JStr (endpoint_to_str E ep)) (JObj m) =
      Inr (JObj (fmupd key (JArr (xs @ [JStr (endpoint_to_str E ep)])) m))"
    using Cons.prems by (subst json_push_at_arr) auto
  then show ?case using Cons.IH [of "fmupd key (JArr (xs @ [JStr (endpoint_to_str E ep)])) m"] by simp
qed

lemma k_set_endpoints_obj:
  "k_set_endpoints E key eps (JObj m) = Inr (JObj (fmupd key (texts_of E eps) m))"
  by (simp add: k_set_endpoints_def push_texts)

lemma read_texts:
  "list_all (text_ep E) eps \<Longrightarrow>
   fold_res (\<lambda>itr ret. map_res (\<lambda>ep. ret @ [ep]) (str_to_endpoint E itr)) (map (endpoint_to_str E) eps) acc
     = Inr (acc @ eps)"
  by (induction eps arbitrary: acc) (auto simp: text_ep_def)

lemma k_get_endpoints_obj:
  assumes "fmlookup m key = Some (texts_of E eps)" and "list_all (text_ep E) eps"
  shows "k_get_endpoints E key (JObj m) = Inr eps"
proof -
  have "json_get_strings (texts_of E eps) = Inr (map (endpoint_to_str E) eps)"
    using json_get_strings_map [of "map (endpoint_to_str E) eps"] by (simp add: comp_def)
  then show ?thesis using assms by (simp add: k_get_endpoints_def read_texts)
qed

lemma get_observer_id_obj:
  assumes "uuid_text_ok E" and "fmlookup m key = Some (JStr (observer_id_to_str E u))"
  shows "get_param_observer_id E key (JObj m) = Inr u"
  using assms by (simp add: get_param_observer_id_def str_to_observer_id_def observer_id_to_str_def uuid_text_ok_def)

text \<open>The bodies the RPC layer builds.\<close>

definition ping_body :: "ext \<Rightarrow> string \<Rightarrow> uuid \<Rightarrow> json" where
  "ping_body E t u = JObj (fmupd ''observer_id'' (JStr (observer_id_to_str E u))
     (fmupd ''rpc'' (JStr ''ping'') (fmupd ''type'' (JStr t) fmempty)))"

definition find_body :: "ext \<Rightarrow> uuid \<Rightarrow> endpoint list \<Rightarrow> json" where
  "find_body E u ign = JObj (fmupd ''ignore_eps'' (texts_of E ign)
     (fmupd ''observer_id'' (JStr (observer_id_to_str E u))
       (fmupd ''rpc'' (JStr ''find_node'') (fmupd ''type'' (JStr ''request'') fmempty))))"

lemma ping_request_body:
  "bind_res (k_request rpc_ping) (k_set_observer_id E u) = Inr (ping_body E ''request'' u)"
  by (simp add: k_request_def k_message_new_def k_set_rpc_def k_set_observer_id_def k_set_param_def
      ping_body_def)

lemma find_request_body:
  "bind_res (k_request rpc_find_node) (\<lambda>m. bind_res (k_set_observer_id E u m) (k_set_ignore_endpoint E ign))
     = Inr (find_body E u ign)"
  by (simp add: k_request_def k_message_new_def k_set_rpc_def k_set_observer_id_def k_set_param_def
      find_body_def k_set_ignore_endpoint_def k_set_endpoints_obj)

lemma k_get_rpc_obj:
  "fmlookup m ''rpc'' = Some v \<Longrightarrow> k_get_rpc (JObj m) = Inr (if v = JStr ''ping'' then rpc_ping else rpc_find_node)"
  by (simp add: k_get_rpc_def)

lemma k_get_message_type_obj:
  "fmlookup m ''type'' = Some v \<Longrightarrow>
   k_get_message_type (JObj m) = Inr (if v = JStr ''request'' then type_request else type_response)"
  by (simp add: k_get_message_type_def)

text \<open>Whatever message type is asked for, the message becomes a response.\<close>

lemma k_set_message_type_obj:
  "k_set_message_type t (JObj m) = Inr (JObj (fmupd ''type'' (JStr ''response'') m))"
  by (cases t) (simp_all add: k_set_message_type_def)

section \<open>Properties\<close>

text \<open>
  The two lists of endpoints of a \<open>find_node\<close> message are read back as they were written,
  independently of each other and of the other fields, for endpoints with a readable text.
\<close>

theorem find_node_lists_roundtrip:
  assumes "is_object body" and "list_all (text_ep E) ign" and "list_all (text_ep E) found"
    and "k_set_ignore_endpoint E ign body = Inr b1" and "k_set_finded_endpoint E found b1 = Inr b2"
  shows "k_get_ignore_endpoint E b2 = Inr ign \<and> k_get_finded_endpoint E b2 = Inr found"
proof -
  obtain m where m: "body = JObj m" using assms(1) by (cases body) auto
  have b1: "b1 = JObj (fmupd ''ignore_eps'' (texts_of E ign) m)"
    using assms(4) by (simp add: m k_set_ignore_endpoint_def k_set_endpoints_obj)
  have b2: "b2 = JObj (fmupd ''finded_eps'' (texts_of E found) (fmupd ''ignore_eps'' (texts_of E ign) m))"
    using assms(5) by (simp add: b1 k_set_finded_endpoint_def k_set_endpoints_obj)
  show ?thesis
    unfolding b2 k_get_ignore_endpoint_def k_get_finded_endpoint_def
    using assms(2,3) by (auto intro!: k_get_endpoints_obj)
qed

theorem find_node_lists_roundtrip_witness:
  "let E = sample_ext; a = Endpoint (V4 16909060) 8100; b = Endpoint (V4 16909061) 8200 in
     \<exists>b1 b2. k_set_ignore_endpoint E [a] (JObj fmempty) = Inr b1 \<and> k_set_finded_endpoint E [b, a] b1 = Inr b2
       \<and> k_get_ignore_endpoint E b2 = Inr [a] \<and> k_get_finded_endpoint E b2 = Inr [b, a]"
proof -
  let ?E = sample_ext and ?a = "Endpoint (V4 16909060) 8100" and ?b = "Endpoint (V4 16909061) 8200"
  obtain b1 where b1: "k_set_ignore_endpoint ?E [?a] (JObj fmempty) = Inr b1" "is_object b1"
    by (simp add: k_set_ignore_endpoint_def k_set_endpoints_obj)
  then obtain b2 where b2: "k_set_finded_endpoint ?E [?b, ?a] b1 = Inr b2"
    by (cases b1) (auto simp: k_set_finded_endpoint_def k_set_endpoints_obj)
  have "list_all (text_ep ?E) [?a]" "list_all (text_ep ?E) [?b, ?a]"
    by (simp_all add: text_ep_v4 sample_ext_ok)
  from find_node_lists_roundtrip [OF _ this b1(1) b2] b1(1) b2 show ?thesis
    unfolding Let_def by auto
qed

text \<open>
  \<open>set_message_type\<close> on any object yields a response, also when a request is asked for.
\<close>

lemma set_message_type_always_response:
  "bind_res (k_set_message_type t (JObj m)) k_is_request = Inr False"
  by (simp add: k_set_message_type_obj k_is_request_def)

end
