(* ===== verification/SS_NodeId.thy ===== *)
theory SS_NodeId
  imports SS_Utils
begin

text \<open>
  Kademlia identifiers: \<open>kademlia/node_id.hpp\<close>, \<open>kademlia/node_id.cpp\<close> and \<open>kademlia/k_node.cpp\<close>.
  The array of 20 bytes is a 160-bit word whose byte \<open>i\<close> is bits \<open>8 i\<close> to \<open>8 i + 7\<close>, so equality of
  arrays is equality of words; \<open>nid_nth\<close> is \<open>operator[]\<close> and \<open>nid_of_bytes\<close> the constructor that
  copies bytes in.
\<close>

type_synonym node_id = "160 word"

abbreviation K_NODE_ID_LENGTH :: nat where
  "K_NODE_ID_LENGTH \<equiv> 20"

fun nid_of_bytes :: "byte list \<Rightarrow> node_id" where
  "nid_of_bytes [] = 0"
| "nid_of_bytes (b # bs) = ucast b OR push_bit 8 (nid_of_bytes bs)"

definition nid_nth :: "node_id \<Rightarrow> nat \<Rightarrow> byte" where
  "nid_nth nid idx = ucast (drop_bit (8 * idx) nid)"

definition node_id_none :: node_id where
  "node_id_none = 0"

section \<open>The distance loop\<close>

text \<open>
  The first loop writes the exclusive or byte by byte; the second counts bit positions until the
  first set one, bit 0 of each byte first, and stops at 160.
\<close>

definition xor_bytes :: "node_id \<Rightarrow> node_id \<Rightarrow> byte list" where
  "xor_bytes nid_1 nid_2 = map (\<lambda>i. nid_nth nid_1 i XOR nid_nth nid_2 i) [0 ..< K_NODE_ID_LENGTH]"

function prefix_scan :: "byte list \<Rightarrow> nat \<Rightarrow> nat \<Rightarrow> nat" where
  "prefix_scan xorDistance i prefixZeroCount =
     (if i < K_NODE_ID_LENGTH * 8 then
        if (drop_bit (i mod 8) (xorDistance ! (i div 8))) AND 1 = 1 then prefixZeroCount
        else prefix_scan xorDistance (Suc i) (Suc prefixZeroCount)
      else prefixZeroCount)"
  by pat_completeness auto
termination
  by (relation "measure (\<lambda>(d, i, c). 160 - i)") auto

declare prefix_scan.simps [simp del]

definition calc_node_xor_distance :: "node_id \<Rightarrow> node_id \<Rightarrow> nat" where
  "calc_node_xor_distance nid_1 nid_2 = prefix_scan (xor_bytes nid_1 nid_2) 0 0"

text \<open>The identifier of an endpoint is the digest of its binary form.\<close>

definition calc_node_id :: "ext \<Rightarrow> endpoint \<Rightarrow> node_id" where
  "calc_node_id E ep = nid_of_bytes (take K_NODE_ID_LENGTH (x_sha1 E (endpoint_to_binary E ep)))"

section \<open>Nodes\<close>

record k_node =
  kn_ep :: endpoint
  kn_id :: node_id

definition k_node_of :: "ext \<Rightarrow> endpoint \<Rightarrow> k_node" where
  "k_node_of E ep = \<lparr>kn_ep = ep, kn_id = calc_node_id E ep\<rparr>"

definition k_node_eq :: "k_node \<Rightarrow> k_node \<Rightarrow> bool" where
  "k_node_eq a b \<longleftrightarrow> kn_id a = kn_id b"

definition k_node_ne :: "k_node \<Rightarrow> k_node \<Rightarrow> bool" where
  "k_node_ne a b \<longleftrightarrow> kn_id a \<noteq> kn_id b"

definition k_node_blank :: "ext \<Rightarrow> k_node" where
  "k_node_blank E = (k_node_of E any_endpoint)\<lparr>kn_id := node_id_none\<rparr>"

text \<open>\<open>node_id::to_str\<close> returns the empty string.\<close>

definition k_node_to_str :: "ext \<Rightarrow> k_node \<Rightarrow> string" where
  "k_node_to_str E kn = endpoint_to_str E (kn_ep kn) @ ''|'' @ ''''"

lemma k_node_of_simps [simp]: "kn_ep (k_node_of E ep) = ep" "kn_id (k_node_of E ep) = calc_node_id E ep"
  by (simp_all add: k_node_of_def)

section \<open>Bits of identifiers\<close>

lemma bit_nid_nth: "j < 8 \<Longrightarrow> bit (nid_nth nid i) j = bit nid (8 * i + j)"
  by (simp add: nid_nth_def bit_simps)

lemma bit_nid_of_bytes:
  "j < 8 \<Longrightarrow> 8 * i + j < 160 \<Longrightarrow> bit (nid_of_bytes bs) (8 * i + j) = (i < length bs \<and> bit (bs ! i) j)"
proof (induction bs arbitrary: i)
  case Nil
  then show ?case by simp
next
  case (Cons b bs)
  show ?case
  proof (cases i)
    case 0
    with Cons.prems show ?thesis by (simp add: bit_simps)
  next
    case (Suc k)
    have "\<not> bit b (8 + (8 * k + j))"
      using bit_imp_le_length [of b "8 + (8 * k + j)"] by auto
    with Suc Cons show ?thesis by (simp add: bit_simps algebra_simps)
  qed
qed

lemma nid_nth_of_bytes: "length bs = 20 \<Longrightarrow> i < 20 \<Longrightarrow> nid_nth (nid_of_bytes bs) i = bs ! i"
  by (rule bit_word_eqI) (simp add: bit_nid_nth bit_nid_of_bytes)

lemma xor_bytes_bit:
  assumes "i < 160"
  shows "(drop_bit (i mod 8) (xor_bytes a b ! (i div 8))) AND 1 = 1 \<longleftrightarrow> bit a i \<noteq> bit b i"
proof -
  have "i div 8 < 20" using assms by simp
  then have "xor_bytes a b ! (i div 8) = nid_nth a (i div 8) XOR nid_nth b (i div 8)"
    by (simp add: xor_bytes_def)
  then have "bit (xor_bytes a b ! (i div 8)) (i mod 8) \<longleftrightarrow> bit a i \<noteq> bit b i"
    by (simp add: bit_simps bit_nid_nth)
  then show ?thesis
    by (simp add: bit_iff_and_drop_bit_eq_1)
qed

section \<open>What the distance is\<close>

text \<open>The first bit position at or after \<open>i\<close> where two identifiers differ, 160 if there is none.\<close>

lemma prefix_scan_spec:
  assumes "i \<le> 160"
  shows "\<exists>d. prefix_scan (xor_bytes a b) i (i + c) = d + c \<and> i \<le> d \<and> d \<le> 160 \<and>
    (\<forall>k. i \<le> k \<and> k < d \<longrightarrow> bit a k = bit b k) \<and> (d < 160 \<longrightarrow> bit a d \<noteq> bit b d)"
  using assms
proof (induction "160 - i" arbitrary: i)
  case 0
  then have "i = 160" by simp
  then show ?case by (subst prefix_scan.simps) auto
next
  case (Suc n)
  then have i: "i < 160" by simp
  show ?case
  proof (cases "bit a i = bit b i")
    case True
    have step: "prefix_scan (xor_bytes a b) i (i + c) = prefix_scan (xor_bytes a b) (Suc i) (Suc i + c)"
      using i True xor_bytes_bit [OF i, of a b] by (subst prefix_scan.simps) simp
    have "n = 160 - Suc i" and "Suc i \<le> 160" using Suc.hyps(2) i by auto
    from Suc.hyps(1) [OF this] obtain d where
      "prefix_scan (xor_bytes a b) (Suc i) (Suc i + c) = d + c" "Suc i \<le> d" "d \<le> 160"
      "\<forall>k. Suc i \<le> k \<and> k < d \<longrightarrow> bit a k = bit b k" "d < 160 \<longrightarrow> bit a d \<noteq> bit b d" by blast
    with step True show ?thesis
      by (intro exI [of _ d]) (auto simp: le_Suc_eq Suc_le_eq dest: le_neq_implies_less)
  next
    case False
    have "prefix_scan (xor_bytes a b) i (i + c) = i + c"
      using i False xor_bytes_bit [OF i, of a b] by (subst prefix_scan.simps) simp
    with i False show ?thesis by (intro exI [of _ i]) auto
  qed
qed

lemma distance_le [simp]: "calc_node_xor_distance a b \<le> 160"
  using prefix_scan_spec [of 0 a b 0] by (auto simp: calc_node_xor_distance_def)

lemma distance_agree: "k < calc_node_xor_distance a b \<Longrightarrow> bit a k = bit b k"
  using prefix_scan_spec [of 0 a b 0] by (auto simp: calc_node_xor_distance_def)

lemma distance_differ:
  "calc_node_xor_distance a b < 160 \<Longrightarrow>
   bit a (calc_node_xor_distance a b) \<noteq> bit b (calc_node_xor_distance a b)"
  using prefix_scan_spec [of 0 a b 0] by (auto simp: calc_node_xor_distance_def)

lemma distance_unique:
  assumes "d \<le> 160" and "\<And>k. k < d \<Longrightarrow> bit a k = bit b k" and "d < 160 \<Longrightarrow> bit a d \<noteq> bit b d"
  shows "calc_node_xor_distance a b = d"
proof (rule linorder_cases)
  assume "calc_node_xor_distance a b < d"
  with assms show ?thesis using distance_differ [of a b] by simp
next
  assume "d < calc_node_xor_distance a b"
  moreover then have "d < 160" using distance_le [of a b] by linarith
  ultimately show ?thesis using assms(3) distance_agree [of d a b] by simp
qed simp

lemma distance_sym: "calc_node_xor_distance a b = calc_node_xor_distance b a"
  by (rule distance_unique) (auto dest: distance_agree distance_differ)

lemma distance_eq_160_iff [simp]: "calc_node_xor_distance a b = 160 \<longleftrightarrow> a = b"
proof
  assume "calc_node_xor_distance a b = 160"
  then have "bit a k = bit b k" if "k < 160" for k
    using distance_agree [of k a b] that by simp
  then show "a = b" by (intro bit_word_eqI) simp
next
  assume "a = b"
  then show "calc_node_xor_distance a b = 160" by (intro distance_unique) auto
qed

lemma distance_min: "min (calc_node_xor_distance a b) (calc_node_xor_distance b c) \<le> calc_node_xor_distance a c"
proof (rule ccontr)
  let ?d = "calc_node_xor_distance a c"
  assume "\<not> ?thesis"
  then have less: "?d < calc_node_xor_distance a b" "?d < calc_node_xor_distance b c" by auto
  then have "bit a ?d = bit c ?d" by (auto dest: distance_agree)
  moreover have "?d < 160" using less(1) distance_le [of a b] by linarith
  ultimately show False using distance_differ by blast
qed

end
