(* ===== verification/SS_KBucket.thy ===== *)
theory SS_KBucket
  imports SS_NodeId
begin

text \<open>
  A k-bucket (\<open>kademlia/k_bucket.cpp\<close>): a vector of at most \<open>DEFAULT_K\<close> nodes, the least recently
  seen one in front. Nodes are compared by identifier. The invariant is \<open>bucket_wf\<close>; the locale
  \<open>bucket_op\<close> is what the routing table needs of an operation it applies to a bucket, and every
  mutating operation of the class is an interpretation of it.
\<close>

type_synonym k_bucket = "k_node list"

abbreviation DEFAULT_K :: nat where
  "DEFAULT_K \<equiv> 4"

datatype update_state = added_back | moved_back | not_found | overflow | update_error

definition bucket_empty :: k_bucket where
  "bucket_empty = []"

definition bucket_is_exist :: "k_node \<Rightarrow> k_bucket \<Rightarrow> bool" where
  "bucket_is_exist kn nodes \<longleftrightarrow> find (\<lambda>n. k_node_eq kn n) nodes \<noteq> None"

definition bucket_is_full :: "k_bucket \<Rightarrow> bool" where
  "bucket_is_full nodes \<longleftrightarrow> length nodes \<ge> DEFAULT_K"

definition bucket_get_node_count :: "k_bucket \<Rightarrow> nat" where
  "bucket_get_node_count nodes = length nodes"

definition bucket_get_nodes :: "k_bucket \<Rightarrow> k_node list" where
  "bucket_get_nodes nodes = nodes"

definition bucket_add_back :: "k_node \<Rightarrow> k_bucket \<Rightarrow> k_bucket" where
  "bucket_add_back kn nodes =
     (if bucket_is_full nodes then nodes
      else if bucket_is_exist kn nodes then nodes
      else nodes @ [kn])"

definition bucket_move_back :: "k_node \<Rightarrow> k_bucket \<Rightarrow> k_bucket" where
  "bucket_move_back kn nodes =
     (case find (\<lambda>n. k_node_eq kn n) nodes of
        None \<Rightarrow> nodes
      | Some target_node \<Rightarrow> erase_first (\<lambda>n. k_node_eq kn n) nodes @ [target_node])"

definition bucket_delete_node :: "k_node \<Rightarrow> k_bucket \<Rightarrow> k_bucket" where
  "bucket_delete_node kn nodes =
     (case find (\<lambda>n. k_node_eq n kn) nodes of
        None \<Rightarrow> nodes
      | Some _ \<Rightarrow> erase_first (\<lambda>n. k_node_eq n kn) nodes)"

definition bucket_swap_node :: "k_node \<Rightarrow> k_node \<Rightarrow> k_bucket \<Rightarrow> k_bucket" where
  "bucket_swap_node node_src node_dest nodes =
     (if find (\<lambda>n. k_node_eq n node_src) nodes = None then nodes
      else if find (\<lambda>n. k_node_eq n node_dest) nodes \<noteq> None then nodes
      else replace_first (\<lambda>n. k_node_eq n node_src) node_dest nodes)"

definition bucket_auto_update :: "k_node \<Rightarrow> k_bucket \<Rightarrow> update_state \<times> k_bucket" where
  "bucket_auto_update kn nodes =
     (if bucket_is_exist kn nodes then (moved_back, bucket_move_back kn nodes)
      else if bucket_is_full nodes then (overflow, nodes)
      else (added_back, bucket_add_back kn nodes))"

text \<open>
  The common loop of \<open>get_node_front\<close> and \<open>get_node_back\<close>: the size test follows the push, so a
  count of 0 still yields a node.
\<close>

fun pick_nodes :: "nat \<Rightarrow> k_node list \<Rightarrow> k_node list \<Rightarrow> k_node list \<Rightarrow> k_node list" where
  "pick_nodes cnt ignore_nodes [] ret = ret"
| "pick_nodes cnt ignore_nodes (n # ns) ret =
     (if find (\<lambda>kn. k_node_eq n kn) ignore_nodes \<noteq> None then pick_nodes cnt ignore_nodes ns ret
      else let ret' = ret @ [n] in
        if length ret' \<ge> cnt then ret' else pick_nodes cnt ignore_nodes ns ret')"

definition bucket_get_node_front :: "nat \<Rightarrow> k_node list \<Rightarrow> k_bucket \<Rightarrow> k_node list" where
  "bucket_get_node_front cnt ignore_nodes nodes = pick_nodes cnt ignore_nodes nodes []"

definition bucket_get_node_back :: "nat \<Rightarrow> k_node list \<Rightarrow> k_bucket \<Rightarrow> k_node list" where
  "bucket_get_node_back cnt ignore_nodes nodes = pick_nodes cnt ignore_nodes (rev nodes) []"

section \<open>Identifiers of a bucket\<close>

definition ids :: "k_node list \<Rightarrow> node_id set" where
  "ids nodes = kn_id ` set nodes"

definition bucket_wf :: "k_bucket \<Rightarrow> bool" where
  "bucket_wf nodes \<longleftrightarrow> length nodes \<le> DEFAULT_K \<and> distinct (map kn_id nodes)"

lemma ids_simps [simp]: "ids [] = {}" "ids (x # xs) = insert (kn_id x) (ids xs)"
    "ids (xs @ ys) = ids xs \<union> ids ys" "ids (rev xs) = ids xs"
  by (auto simp: ids_def)

lemma in_idsI: "t \<in> set nodes \<Longrightarrow> kn_id t = i \<Longrightarrow> i \<in> ids nodes"
  by (auto simp: ids_def)

lemma in_idsE: "i \<in> ids nodes \<Longrightarrow> (\<And>t. t \<in> set nodes \<Longrightarrow> kn_id t = i \<Longrightarrow> P) \<Longrightarrow> P"
  by (auto simp: ids_def)

text \<open>Both orders in which the code compares a stored node with the one asked for.\<close>

lemma search_flip:
  "find (\<lambda>n. i = kn_id n) ns = find (\<lambda>n. kn_id n = i) ns"
  "erase_first (\<lambda>n. i = kn_id n) ns = erase_first (\<lambda>n. kn_id n = i) ns"
  "replace_first (\<lambda>n. i = kn_id n) y ns = replace_first (\<lambda>n. kn_id n = i) y ns"
  by (simp_all add: eq_commute)

lemma k_node_eq_eta: "k_node_eq kn = (\<lambda>n. kn_id kn = kn_id n)"
  by (simp add: k_node_eq_def fun_eq_iff)

lemmas node_eq_simps = k_node_eq_eta search_flip

lemma find_id_absent [simp]: "i \<notin> ids nodes \<Longrightarrow> find (\<lambda>n. kn_id n = i) nodes = None"
  by (auto simp: find_None_set ids_def)

lemma find_id_None [simp]: "find (\<lambda>n. kn_id n = i) nodes = None \<longleftrightarrow> i \<notin> ids nodes"
  by (auto simp: find_None_set ids_def)

lemma find_id_Some: "i \<in> ids nodes \<Longrightarrow> \<exists>t. find (\<lambda>n. kn_id n = i) nodes = Some t \<and> t \<in> set nodes \<and> kn_id t = i"
  using find_id_None [of i nodes] by (metis (mono_tags, lifting) find_Some_set not_None_eq)

lemma exist_ids [bucket_ops]: "bucket_is_exist kn nodes \<longleftrightarrow> kn_id kn \<in> ids nodes"
  by (simp add: bucket_is_exist_def node_eq_simps)

lemma erase_id:
  "distinct (map kn_id nodes) \<Longrightarrow> erase_first (\<lambda>n. kn_id n = i) nodes = filter (\<lambda>n. kn_id n \<noteq> i) nodes"
  by (rule erase_first_filter)

lemma filter_id_absent [simp]: "i \<notin> ids nodes \<Longrightarrow> filter (\<lambda>n. kn_id n \<noteq> i) nodes = nodes"
  by (auto intro!: filter_True simp: ids_def)

text \<open>Moving back keeps the stored node, not the one passed in.\<close>

lemma move_back_known [bucket_ops]:
  assumes "bucket_wf nodes" and "t \<in> set nodes" and "kn_id t = kn_id kn"
  shows "bucket_move_back kn nodes = filter (\<lambda>n. kn_id n \<noteq> kn_id kn) nodes @ [t]"
proof -
  have d: "distinct (map kn_id nodes)" using assms(1) by (simp add: bucket_wf_def)
  have "kn_id kn \<in> ids nodes" using assms(2,3) by (rule in_idsI)
  then obtain t' where t': "find (\<lambda>n. kn_id n = kn_id kn) nodes = Some t'" "t' \<in> set nodes" "kn_id t' = kn_id kn"
    by (auto dest: find_id_Some)
  then have "t' = t" using distinct_map_eqD [OF d t'(2) assms(2)] assms(3) by simp
  then show ?thesis using t'(1) d by (simp add: bucket_move_back_def erase_id node_eq_simps)
qed

lemma move_back_unknown [bucket_ops]: "kn_id kn \<notin> ids nodes \<Longrightarrow> bucket_move_back kn nodes = nodes"
  by (simp add: bucket_move_back_def node_eq_simps)

lemma add_back_eq [bucket_ops]:
  "bucket_add_back kn nodes = (if length nodes < DEFAULT_K \<and> kn_id kn \<notin> ids nodes then nodes @ [kn] else nodes)"
  by (auto simp: bucket_add_back_def bucket_is_full_def exist_ids)

lemma delete_node_eq [bucket_ops]:
  assumes "bucket_wf nodes"
  shows "bucket_delete_node kn nodes = filter (\<lambda>n. kn_id n \<noteq> kn_id kn) nodes"
proof (cases "kn_id kn \<in> ids nodes")
  case True
  then show ?thesis
    using assms by (auto simp: bucket_delete_node_def node_eq_simps erase_id bucket_wf_def dest!: find_id_Some)
next
  case False
  then show ?thesis by (simp add: bucket_delete_node_def node_eq_simps)
qed

lemma pick_nodes_take:
  "length ret < max 1 cnt \<Longrightarrow>
   pick_nodes cnt ign ns ret = ret @ take (max 1 cnt - length ret) (filter (\<lambda>n. kn_id n \<notin> ids ign) ns)"
proof (induction ns arbitrary: ret)
  case (Cons n ns)
  then show ?case
    by (auto simp: Let_def node_eq_simps take_Cons' not_le Suc_diff_Suc split: if_splits)
qed simp

lemma get_node_front_eq [bucket_ops]:
  "bucket_get_node_front cnt ign nodes = take (max 1 cnt) (filter (\<lambda>n. kn_id n \<notin> ids ign) nodes)"
  by (simp add: bucket_get_node_front_def pick_nodes_take)

lemma get_node_back_eq [bucket_ops]:
  "bucket_get_node_back cnt ign nodes = take (max 1 cnt) (filter (\<lambda>n. kn_id n \<notin> ids ign) (rev nodes))"
  by (simp add: bucket_get_node_back_def pick_nodes_take)

section \<open>Operations on one bucket, as the routing table sees them\<close>

text \<open>
  A bucket operation works for a key node: it keeps the invariant and brings no identifier into
  the bucket but the key's. \<open>update_array\<close> is a client that holds an array of buckets and a slot
  for every identifier.
\<close>

locale bucket_op =
  fixes upd :: "k_node \<Rightarrow> k_bucket \<Rightarrow> k_bucket"
  assumes upd_wf: "bucket_wf b \<Longrightarrow> bucket_wf (upd kn b)"
    and upd_ids: "bucket_wf b \<Longrightarrow> ids (upd kn b) \<subseteq> insert (kn_id kn) (ids b)"
begin

lemma fold_wf: "bucket_wf b \<Longrightarrow> bucket_wf (fold upd kns b)"
  by (induction kns arbitrary: b) (auto intro: upd_wf)

lemma fold_ids: "bucket_wf b \<Longrightarrow> ids (fold upd kns b) \<subseteq> ids kns \<union> ids b"
proof (induction kns arbitrary: b)
  case (Cons kn kns)
  then have "ids (fold upd kns (upd kn b)) \<subseteq> ids kns \<union> ids (upd kn b)"
    by (auto intro: upd_wf)
  with upd_ids [OF Cons.prems, of kn] show ?case by auto
qed simp

end

lemma bucket_wf_filter [wf_ops]: "bucket_wf b \<Longrightarrow> bucket_wf (filter P b)"
  by (auto simp: bucket_wf_def distinct_map_filter intro: order_trans [OF length_filter_le])

lemma bucket_wf_Nil [wf_ops, simp]: "bucket_wf []"
  by (simp add: bucket_wf_def)

lemma move_back_mset:
  "mset (bucket_move_back kn nodes) = mset nodes"
proof (cases "find (k_node_eq kn) nodes")
  case (Some t)
  moreover have "find P xs = Some t \<Longrightarrow> add_mset t (mset (erase_first P xs)) = mset xs" for P and xs :: "k_node list"
    by (induction xs) (auto split: if_splits)
  ultimately show ?thesis by (simp add: bucket_move_back_def)
qed (simp add: bucket_move_back_def)

lemma move_back_set [simp]: "set (bucket_move_back kn nodes) = set nodes"
  using move_back_mset [of kn nodes] by (metis set_mset_mset)

lemma move_back_wf [wf_ops]: "bucket_wf b \<Longrightarrow> bucket_wf (bucket_move_back kn b)"
  using move_back_mset [of kn b]
  by (metis bucket_wf_def mset_eq_length mset_eq_imp_distinct_iff mset_map)

lemma add_back_wf [wf_ops]: "bucket_wf b \<Longrightarrow> bucket_wf (bucket_add_back kn b)"
  by (auto simp: add_back_eq bucket_wf_def ids_def)

lemma auto_update_wf [wf_ops]: "bucket_wf b \<Longrightarrow> bucket_wf (snd (bucket_auto_update kn b))"
  by (auto simp: bucket_auto_update_def wf_ops)

lemma delete_node_wf [wf_ops]: "bucket_wf b \<Longrightarrow> bucket_wf (bucket_delete_node kn b)"
  by (simp add: delete_node_eq wf_ops)

lemma auto_update_ids [bucket_ops]:
  "ids (snd (bucket_auto_update kn b)) =
     (if kn_id kn \<in> ids b \<or> length b < DEFAULT_K then insert (kn_id kn) (ids b) else ids b)"
proof -
  have "ids (bucket_move_back kn b) = ids b" by (simp add: ids_def)
  then show ?thesis
    by (auto simp: bucket_auto_update_def exist_ids add_back_eq bucket_is_full_def)
qed

interpretation au: bucket_op "\<lambda>kn b. snd (bucket_auto_update kn b)"
  by unfold_locales (auto simp: auto_update_ids wf_ops split: if_splits)

interpretation mb: bucket_op bucket_move_back
  by unfold_locales (auto simp: wf_ops ids_def)

interpretation dn: bucket_op bucket_delete_node
  by unfold_locales (auto simp: wf_ops delete_node_eq ids_def)

interpretation ab: bucket_op bucket_add_back
proof
  show "bucket_wf (bucket_add_back kn b)" if "bucket_wf b" for b kn using that by (rule add_back_wf)
  show "ids (bucket_add_back kn b) \<subseteq> insert (kn_id kn) (ids b)" for b kn by (auto simp: add_back_eq)
qed

lemma swap_node_eq:
  "bucket_swap_node src dst nodes =
     (if kn_id src \<in> ids nodes \<and> kn_id dst \<notin> ids nodes
      then replace_first (\<lambda>n. kn_id n = kn_id src) dst nodes else nodes)"
  by (simp add: bucket_swap_node_def node_eq_simps)

lemma swap_node_wf [wf_ops]: "bucket_wf b \<Longrightarrow> bucket_wf (bucket_swap_node src dst b)"
  by (auto simp: swap_node_eq bucket_wf_def ids_def intro!: distinct_map_replace_first)

lemma replace_first_ids:
  "distinct (map kn_id ns) \<Longrightarrow> kn_id src \<in> ids ns \<Longrightarrow>
   ids (replace_first (\<lambda>n. kn_id n = kn_id src) dst ns) = insert (kn_id dst) (ids ns - {kn_id src})"
proof (induction ns)
  case (Cons n ns)
  have "kn_id n \<notin> ids ns" using Cons.prems(1) by (simp add: ids_def)
  then show ?case
  proof (cases "kn_id n = kn_id src")
    case True
    with \<open>kn_id n \<notin> ids ns\<close> show ?thesis by simp
  next
    case False
    with Cons show ?thesis by (simp add: insert_Diff_if insert_commute)
  qed
qed simp

section \<open>The branches of \<open>auto_update\<close>\<close>

text \<open>
  Every branch of \<open>auto_update\<close>: a known node moves to the back (and the stored node stays,
  not the one passed in), an unknown node is appended while there is room, and a full bucket is
  left as it is and answers \<open>overflow\<close>.
\<close>

lemma bucket_auto_update_branches:
  assumes "bucket_wf nodes"
  shows "(case find (\<lambda>n. kn_id n = kn_id kn) nodes of
       Some t \<Rightarrow> bucket_auto_update kn nodes = (moved_back, filter (\<lambda>n. kn_id n \<noteq> kn_id kn) nodes @ [t])
     | None \<Rightarrow> bucket_auto_update kn nodes =
         (if length nodes < 4 then (added_back, nodes @ [kn]) else (overflow, nodes)))"
proof (cases "kn_id kn \<in> ids nodes")
  case False
  then show ?thesis
    by (auto simp: bucket_auto_update_def exist_ids bucket_is_full_def add_back_eq)
next
  case True
  then obtain t where t: "find (\<lambda>n. kn_id n = kn_id kn) nodes = Some t" "t \<in> set nodes" "kn_id t = kn_id kn"
    by (auto dest: find_id_Some)
  with True show ?thesis
    using move_back_known [OF assms t(2,3)] by (simp add: bucket_auto_update_def exist_ids)
qed

definition sample_node :: "nat \<Rightarrow> k_node" where
  "sample_node n = \<lparr>kn_ep = Endpoint (V4 (word_of_nat n)) 8000, kn_id = word_of_nat n\<rparr>"

end
