(* ===== verification/SS_RoutingTable.thy ===== *)
theory SS_RoutingTable
  imports SS_KBucket
begin

text \<open>
  The routing table (\<open>kademlia/k_routing_table.cpp\<close>): 160 buckets and the identifier of the node
  itself. A node belongs to the bucket of its branch, 160 minus its distance from the node itself;
  branches are counted from 1, bucket indices from 0. The invariant \<open>rt_wf\<close> says that every bucket
  is well formed and holds only nodes of its own branch.
\<close>

abbreviation K_BUCKET_COUNT :: nat where
  "K_BUCKET_COUNT \<equiv> 160"

record k_routing_table =
  rt_table :: "k_bucket list"
  rt_self_id :: node_id

definition rt_new :: "node_id \<Rightarrow> k_routing_table" where
  "rt_new self_id = \<lparr>rt_table = replicate K_BUCKET_COUNT bucket_empty, rt_self_id = self_id\<rparr>"

definition calc_branch :: "k_routing_table \<Rightarrow> k_node \<Rightarrow> nat" where
  "calc_branch rt kn = K_NODE_ID_LENGTH * 8 - calc_node_xor_distance (rt_self_id rt) (kn_id kn)"

text \<open>\<open>std::max(branch - 1, 0)\<close>.\<close>

definition calc_branch_index :: "k_routing_table \<Rightarrow> k_node \<Rightarrow> nat" where
  "calc_branch_index rt kn = nat (max (int (calc_branch rt kn) - 1) 0)"

definition rt_get_bucket :: "k_routing_table \<Rightarrow> k_node \<Rightarrow> k_bucket" where
  "rt_get_bucket rt kn = rt_table rt ! calc_branch_index rt kn"

definition rt_get_bucket_at :: "k_routing_table \<Rightarrow> nat \<Rightarrow> k_bucket" where
  "rt_get_bucket_at rt branch = rt_table rt ! nat (max (int branch - 1) 0)"

text \<open>An operation applied in place to the bucket of index \<open>i\<close>.\<close>

definition rt_modify :: "nat \<Rightarrow> (k_bucket \<Rightarrow> k_bucket) \<Rightarrow> k_routing_table \<Rightarrow> k_routing_table" where
  "rt_modify i f rt = rt\<lparr>rt_table := (rt_table rt)[i := f (rt_table rt ! i)]\<rparr>"

definition rt_swap_node :: "k_node \<Rightarrow> k_node \<Rightarrow> k_routing_table \<Rightarrow> k_routing_table" where
  "rt_swap_node node_src node_dest rt =
     rt_modify (calc_branch_index rt node_src) (bucket_swap_node node_src node_dest) rt"

definition rt_auto_update :: "k_node \<Rightarrow> k_routing_table \<Rightarrow> update_state \<times> k_routing_table" where
  "rt_auto_update kn rt =
     (let branch_idx = calc_branch_index rt kn;
          r = bucket_auto_update kn (rt_table rt ! branch_idx)
      in (fst r, rt_modify branch_idx (\<lambda>_. snd r) rt))"

definition rt_get_node_front :: "k_routing_table \<Rightarrow> k_node \<Rightarrow> nat \<Rightarrow> k_node list \<Rightarrow> k_node list" where
  "rt_get_node_front rt root_node cnt ignore_nodes =
     bucket_get_node_front cnt ignore_nodes (rt_get_bucket rt root_node)"

definition rt_get_node_back :: "k_routing_table \<Rightarrow> k_node \<Rightarrow> nat \<Rightarrow> k_node list \<Rightarrow> k_node list" where
  "rt_get_node_back rt root_node cnt ignore_nodes =
     bucket_get_node_back cnt ignore_nodes (rt_get_bucket rt root_node)"

definition rt_is_exist :: "k_routing_table \<Rightarrow> k_node \<Rightarrow> bool" where
  "rt_is_exist rt kn = bucket_is_exist kn (rt_get_bucket rt kn)"

definition rt_get_node_count :: "k_routing_table \<Rightarrow> nat" where
  "rt_get_node_count rt = fold (\<lambda>b ret. ret + bucket_get_node_count b) (rt_table rt) 0"

text \<open>
  The loop of \<open>collect_node\<close>: the bucket \<open>cnt\<close> branches above the root's, then the one \<open>cnt\<close>
  branches below, each asked for what is still missing. \<open>cnt\<close> is an \<open>unsigned short\<close>: with a root
  branch of at most 160 both flags are set once it reaches 161, so it does not wrap.
\<close>

function collect_loop ::
  "k_routing_table \<Rightarrow> nat \<Rightarrow> nat \<Rightarrow> k_node list \<Rightarrow> nat \<Rightarrow> bool \<Rightarrow> bool \<Rightarrow> k_node list \<Rightarrow> k_node list" where
  "collect_loop rt root_branch max_count ignore_nodes cnt upper_flag lower_flag ret =
     (if max_count > length ret \<and> \<not> (upper_flag \<and> lower_flag) then
        let upper = int root_branch - int cnt \<ge> 1;
            ret1 = (if upper
                    then ret @ bucket_get_node_back (max_count - length ret) ignore_nodes
                                 (rt_get_bucket_at rt (root_branch - cnt))
                    else ret);
            lower = root_branch + cnt \<le> 160;
            ret2 = (if lower
                    then ret1 @ bucket_get_node_back (max_count - length ret1) ignore_nodes
                                  (rt_get_bucket_at rt (root_branch + cnt))
                    else ret1)
        in collect_loop rt root_branch max_count ignore_nodes (Suc cnt)
             (upper_flag \<or> \<not> upper) (lower_flag \<or> \<not> lower) ret2
      else ret)"
  by pat_completeness auto
termination
  by (relation "measure (\<lambda>(rt, rb, mx, ign, c, u, l, ret). if u \<and> l then 0 else Suc (rb + 162 - c))")
    (auto simp: Let_def)

declare collect_loop.simps [simp del]

definition rt_collect_node :: "k_routing_table \<Rightarrow> k_node \<Rightarrow> nat \<Rightarrow> k_node list \<Rightarrow> k_node list" where
  "rt_collect_node rt root_node max_count ignore_nodes =
     (let root_branch = calc_branch rt root_node;
          ret = bucket_get_node_back max_count ignore_nodes (rt_get_bucket_at rt root_branch)
      in collect_loop rt root_branch max_count ignore_nodes 1 False False ret)"

section \<open>Bucket iterators\<close>

text \<open>
  \<open>k_bucket_iterator\<close> carries a position in the array and the branch it believes to be at. The
  decrement operators move the position forward, as the code does. Dereferencing a position outside
  the array is undefined.
\<close>

record k_bucket_iterator =
  it_bucket :: int
  it_branch :: int

definition rt_get_begin_bucket_iterator :: k_bucket_iterator where
  "rt_get_begin_bucket_iterator = \<lparr>it_bucket = 0, it_branch = 1\<rparr>"

definition it_is_invalid :: "k_bucket_iterator \<Rightarrow> bool" where
  "it_is_invalid it \<longleftrightarrow> it_branch it \<le> 0 \<or> it_branch it \<ge> 161"

definition it_pre_inc :: "k_bucket_iterator \<Rightarrow> k_bucket_iterator" where
  "it_pre_inc it =
     (let it1 = it\<lparr>it_branch := it_branch it + 1\<rparr>
      in if it_is_invalid it1 then it1\<lparr>it_branch := int K_BUCKET_COUNT + 1\<rparr>
         else it1\<lparr>it_bucket := it_bucket it1 + 1\<rparr>)"

text \<open>The postfix operators return the iterator as it was, with the new one.\<close>

definition it_post_inc :: "k_bucket_iterator \<Rightarrow> k_bucket_iterator \<times> k_bucket_iterator" where
  "it_post_inc it =
     (let ret = it; it1 = it\<lparr>it_branch := it_branch it + 1\<rparr>
      in if it_is_invalid it1 then (ret, it1\<lparr>it_branch := int K_BUCKET_COUNT + 1\<rparr>)
         else (ret, it1\<lparr>it_bucket := it_bucket it1 + 1\<rparr>))"

definition it_pre_dec :: "k_bucket_iterator \<Rightarrow> k_bucket_iterator" where
  "it_pre_dec it =
     (let it1 = it\<lparr>it_branch := it_branch it - 1\<rparr>
      in if it_is_invalid it1 then it1\<lparr>it_branch := 0\<rparr>
         else it1\<lparr>it_bucket := it_bucket it1 + 1\<rparr>)"

definition it_post_dec :: "k_bucket_iterator \<Rightarrow> k_bucket_iterator \<times> k_bucket_iterator" where
  "it_post_dec it =
     (let ret = it; it1 = it\<lparr>it_branch := it_branch it - 1\<rparr>
      in if it_is_invalid it1 then (ret, it1\<lparr>it_branch := 0\<rparr>)
         else (ret, it1\<lparr>it_bucket := it_bucket it1 + 1\<rparr>))"

definition it_deref :: "k_routing_table \<Rightarrow> k_bucket_iterator \<Rightarrow> k_bucket result" where
  "it_deref rt it =
     (if 0 \<le> it_bucket it \<and> it_bucket it < int (length (rt_table rt))
      then Inr (rt_table rt ! nat (it_bucket it)) else Inl Undefined)"

text \<open>\<open>std::advance(_bucket_itr, -_branch - 1)\<close>: a position before the array is undefined.\<close>

definition it_to_begin :: "k_bucket_iterator \<Rightarrow> k_bucket_iterator result" where
  "it_to_begin it =
     (let p = it_bucket it + (- it_branch it - 1)
      in if p < 0 then Inl Undefined else Inr \<lparr>it_bucket = p, it_branch = 1\<rparr>)"

text \<open>The branch as an \<open>unsigned short\<close>.\<close>

definition it_get_branch :: "k_bucket_iterator \<Rightarrow> u16" where
  "it_get_branch it = word_of_int (it_branch it)"

definition it_get_nodes :: "k_routing_table \<Rightarrow> k_bucket_iterator \<Rightarrow> k_node list result" where
  "it_get_nodes rt it =
     (if it_is_invalid it then Inr [] else map_res bucket_get_nodes (it_deref rt it))"

section \<open>The invariant\<close>

definition rt_wf :: "k_routing_table \<Rightarrow> bool" where
  "rt_wf rt \<longleftrightarrow> length (rt_table rt) = K_BUCKET_COUNT \<and>
     (\<forall>i < K_BUCKET_COUNT. bucket_wf (rt_table rt ! i) \<and>
        (\<forall>kn \<in> set (rt_table rt ! i). calc_branch_index rt kn = i))"

lemma rt_wfI:
  assumes "length (rt_table rt) = 160"
    and "\<And>i. i < 160 \<Longrightarrow> bucket_wf (rt_table rt ! i)"
    and "\<And>i kn. i < 160 \<Longrightarrow> kn \<in> set (rt_table rt ! i) \<Longrightarrow> calc_branch_index rt kn = i"
  shows "rt_wf rt"
  using assms by (simp add: rt_wf_def)

lemma rt_wfD:
  assumes "rt_wf rt"
  shows "length (rt_table rt) = 160"
    and "i < 160 \<Longrightarrow> bucket_wf (rt_table rt ! i)"
    and "i < 160 \<Longrightarrow> kn \<in> set (rt_table rt ! i) \<Longrightarrow> calc_branch_index rt kn = i"
  using assms by (auto simp: rt_wf_def)

lemma calc_branch_le [simp]: "calc_branch rt kn \<le> 160"
  by (simp add: calc_branch_def)

lemma nat_max_pred: "nat (max (int n - 1) 0) = n - 1"
  by (cases n) auto

lemma calc_branch_index_eq: "calc_branch_index rt kn = calc_branch rt kn - 1"
  by (simp add: calc_branch_index_def nat_max_pred)

lemma calc_branch_index_less [simp]: "calc_branch_index rt kn < 160"
  using calc_branch_le [of rt kn] by (simp add: calc_branch_index_eq del: calc_branch_le)

lemma rt_get_bucket_at_eq: "rt_get_bucket_at rt branch = rt_table rt ! (branch - 1)"
  by (simp add: rt_get_bucket_at_def nat_max_pred)

lemma rt_get_bucket_eq: "rt_get_bucket rt kn = rt_get_bucket_at rt (calc_branch rt kn)"
  by (simp add: rt_get_bucket_def calc_branch_index_eq rt_get_bucket_at_eq)

lemma calc_branch_cong:
  "kn_id a = kn_id b \<Longrightarrow> rt_self_id rt = rt_self_id rt' \<Longrightarrow> calc_branch_index rt a = calc_branch_index rt' b"
  by (simp add: calc_branch_index_def calc_branch_def)

lemma calc_branch_0_iff: "calc_branch rt kn = 0 \<longleftrightarrow> kn_id kn = rt_self_id rt"
proof -
  let ?d = "calc_node_xor_distance (rt_self_id rt) (kn_id kn)"
  have "?d \<le> 160" by simp
  then have "calc_branch rt kn = 0 \<longleftrightarrow> ?d = 160" unfolding calc_branch_def by linarith
  then show ?thesis by auto
qed

lemma rt_modify_simps [simp]:
  "rt_self_id (rt_modify i f rt) = rt_self_id rt"
  "length (rt_table (rt_modify i f rt)) = length (rt_table rt)"
  by (simp_all add: rt_modify_def)

lemma rt_modify_nth:
  "j < length (rt_table rt) \<Longrightarrow>
   rt_table (rt_modify i f rt) ! j = (if i = j then f (rt_table rt ! i) else rt_table rt ! j)"
  by (auto simp: rt_modify_def)

lemma rt_modify_branch [simp]: "calc_branch_index (rt_modify i f rt) kn = calc_branch_index rt kn"
  by (simp add: calc_branch_index_def calc_branch_def)

lemma rt_new_wf [wf_ops]: "rt_wf (rt_new self_id)"
  by (rule rt_wfI) (simp_all add: rt_new_def bucket_empty_def)

text \<open>
  A bucket operation applied at the slot of its key node keeps the table well formed; what the
  bucket's interface promises is all the proof needs.
\<close>

context bucket_op
begin

lemma modify_wf:
  assumes "rt_wf rt" and "calc_branch_index rt kn = i"
  shows "rt_wf (rt_modify i (upd kn) rt)"
proof (rule rt_wfI)
  have i: "i < 160" using assms(2) by auto
  have len: "length (rt_table rt) = 160" using rt_wfD(1) [OF assms(1)] .
  show "length (rt_table (rt_modify i (upd kn) rt)) = 160" using len by simp
  show "bucket_wf (rt_table (rt_modify i (upd kn) rt) ! j)" if "j < 160" for j
    using that len rt_wfD(2) [OF assms(1)] by (auto simp: rt_modify_nth intro: upd_wf)
  show "calc_branch_index (rt_modify i (upd kn) rt) n = j"
    if j: "j < 160" and n: "n \<in> set (rt_table (rt_modify i (upd kn) rt) ! j)" for j n
  proof (cases "i = j")
    case True
    with n len j have "kn_id n \<in> ids (upd kn (rt_table rt ! i))"
      by (auto simp: rt_modify_nth intro: in_idsI)
    with upd_ids [OF rt_wfD(2) [OF assms(1) i], of kn]
    have "kn_id n = kn_id kn \<or> kn_id n \<in> ids (rt_table rt ! i)" by auto
    then show ?thesis
    proof
      assume "kn_id n = kn_id kn"
      then have "calc_branch_index rt n = calc_branch_index rt kn" by (rule calc_branch_cong) simp
      then show ?thesis using True assms(2) by simp
    next
      assume "kn_id n \<in> ids (rt_table rt ! i)"
      then obtain m where "m \<in> set (rt_table rt ! i)" "kn_id m = kn_id n" by (rule in_idsE) auto
      then show ?thesis using rt_wfD(3) [OF assms(1) i] True calc_branch_cong [of n m rt rt] by simp
    qed
  next
    case False
    with n len j have "n \<in> set (rt_table rt ! j)" by (simp add: rt_modify_nth)
    then show ?thesis using rt_wfD(3) [OF assms(1) j] by simp
  qed
qed

end

lemma rt_auto_update_snd:
  "snd (rt_auto_update kn rt) = rt_modify (calc_branch_index rt kn) (\<lambda>b. snd (bucket_auto_update kn b)) rt"
  by (simp add: rt_auto_update_def Let_def rt_modify_def)

lemma rt_auto_update_wf [wf_ops]: "rt_wf rt \<Longrightarrow> rt_wf (snd (rt_auto_update kn rt))"
  by (simp add: rt_auto_update_snd au.modify_wf)

lemma rt_auto_update_self [frame_ops, simp]: "rt_self_id (snd (rt_auto_update kn rt)) = rt_self_id rt"
  by (simp add: rt_auto_update_snd)

text \<open>Where a node belongs: one place before the last for every bit it shares with the node itself.\<close>

lemma branch_of_prefix:
  assumes "m \<le> 160" and "\<And>k. k < m \<Longrightarrow> bit (kn_id kn) k = bit (rt_self_id rt) k"
    and "m < 160 \<Longrightarrow> bit (kn_id kn) m \<noteq> bit (rt_self_id rt) m"
  shows "calc_branch_index rt kn = 159 - m"
proof -
  have "calc_node_xor_distance (rt_self_id rt) (kn_id kn) = m" using assms by (intro distance_unique) auto
  then show ?thesis by (simp add: calc_branch_index_eq calc_branch_def)
qed

text \<open>
  C38. Where \<open>auto_update\<close> puts a node. Count the bits that its identifier shares with the table's own, bit 0
  of each byte first, up to the first that differs: with \<open>m\<close> of them, only bucket \<open>159 - m\<close> changes, bucket 0
  for the own identifier too. If a node of that bucket has the identifier, that node moves to the back, and
  what was stored of it stays; otherwise the new node enters at the back if there are less than four, and a
  full bucket is left as it is. The result says which of the three happened, and the table stays well formed.
\<close>

theorem table_update:
  assumes "rt_wf rt" and "m \<le> 160" and "\<forall>k < m. bit (kn_id kn) k = bit (rt_self_id rt) k"
    and "m < 160 \<longrightarrow> bit (kn_id kn) m \<noteq> bit (rt_self_id rt) m" and "b = rt_table rt ! (159 - m)"
  shows "(case find (\<lambda>n. kn_id n = kn_id kn) b of
      Some t \<Rightarrow> rt_auto_update kn rt =
        (moved_back, rt\<lparr>rt_table := (rt_table rt)[159 - m := filter (\<lambda>n. kn_id n \<noteq> kn_id kn) b @ [t]]\<rparr>)
    | None \<Rightarrow> rt_auto_update kn rt =
        (if length b < 4 then (added_back, rt\<lparr>rt_table := (rt_table rt)[159 - m := b @ [kn]]\<rparr>)
         else (overflow, rt))) \<and>
    rt_wf (snd (rt_auto_update kn rt))"
proof
  have i: "calc_branch_index rt kn = 159 - m" using assms(2-4) by (intro branch_of_prefix) simp_all
  have "bucket_wf b" using rt_wfD(2) [OF assms(1), of "159 - m"] assms(5) by simp
  note branches = bucket_auto_update_branches [OF this, of kn]
  have "rt\<lparr>rt_table := (rt_table rt)[159 - m := b]\<rparr> = rt" by (simp add: assms(5))
  then show "case find (\<lambda>n. kn_id n = kn_id kn) b of
      Some t \<Rightarrow> rt_auto_update kn rt =
        (moved_back, rt\<lparr>rt_table := (rt_table rt)[159 - m := filter (\<lambda>n. kn_id n \<noteq> kn_id kn) b @ [t]]\<rparr>)
    | None \<Rightarrow> rt_auto_update kn rt =
        (if length b < 4 then (added_back, rt\<lparr>rt_table := (rt_table rt)[159 - m := b @ [kn]]\<rparr>)
         else (overflow, rt))"
    using branches assms(5)
    by (cases "find (\<lambda>n. kn_id n = kn_id kn) b")
      (simp_all add: rt_auto_update_def rt_modify_def i Let_def del: find_id_None)
  show "rt_wf (snd (rt_auto_update kn rt))" using assms(1) by (rule rt_auto_update_wf)
qed

theorem table_update_witness:
  "rt_auto_update (sample_node 6) (rt_new 2) =
     (added_back, (rt_new 2)\<lparr>rt_table := (rt_table (rt_new 2))[157 := [sample_node 6]]\<rparr>)"
proof -
  have bits: "\<forall>k < 2. bit (kn_id (sample_node 6)) k = bit (rt_self_id (rt_new 2)) k"
    "2 < (160 :: nat) \<longrightarrow> bit (kn_id (sample_node 6)) 2 \<noteq> bit (rt_self_id (rt_new 2)) 2"
    by code_simp+
  have "rt_table (rt_new 2) ! 157 = []" by (simp add: rt_new_def bucket_empty_def)
  then show ?thesis using table_update [OF rt_new_wf _ bits refl] by simp
qed

end
