(* ===== verification/SS_Collect.thy ===== *)
theory SS_Collect
  imports SS_RoutingTable "HOL-Library.Sublist"
begin

text \<open>
  What the lookups of the routing table return. \<open>rt_full_order\<close> is the specification of
  \<open>collect_node\<close>: every admissible node of the table, bucket after bucket by the distance of the
  bucket from the root's (the upper neighbour before the lower one), the most recently seen node of
  a bucket first.
\<close>

definition admissible :: "k_routing_table \<Rightarrow> k_node list \<Rightarrow> nat \<Rightarrow> k_node list" where
  "admissible rt ign branch = filter (\<lambda>n. kn_id n \<notin> ids ign) (rev (rt_get_bucket_at rt branch))"

definition ring_at :: "nat \<Rightarrow> nat \<Rightarrow> nat list" where
  "ring_at rb c = (if c < rb then [rb - c] else []) @ (if rb + c \<le> 160 then [rb + c] else [])"

definition ring_from :: "nat \<Rightarrow> nat \<Rightarrow> nat list" where
  "ring_from rb c = concat (map (ring_at rb) [c ..< 162])"

definition branches_from :: "k_routing_table \<Rightarrow> k_node list \<Rightarrow> nat list \<Rightarrow> k_node list" where
  "branches_from rt ign bs = concat (map (admissible rt ign) bs)"

definition rt_full_order :: "k_routing_table \<Rightarrow> k_node \<Rightarrow> k_node list \<Rightarrow> k_node list" where
  "rt_full_order rt rn ign = branches_from rt ign (calc_branch rt rn # ring_from (calc_branch rt rn) 1)"

lemma get_node_back_admissible:
  "bucket_get_node_back k ign (rt_get_bucket_at rt b) = take (max 1 k) (admissible rt ign b)"
  by (simp add: get_node_back_eq admissible_def)

lemma branches_from_simps [simp]:
  "branches_from rt ign [] = []"
  "branches_from rt ign (b # bs) = admissible rt ign b @ branches_from rt ign bs"
  "branches_from rt ign (bs @ cs) = branches_from rt ign bs @ branches_from rt ign cs"
  by (simp_all add: branches_from_def)

lemma ring_from_step: "c \<le> 161 \<Longrightarrow> ring_from rb c = ring_at rb c @ ring_from rb (Suc c)"
  by (simp add: ring_from_def upt_conv_Cons)

lemma ring_from_done: "rb \<le> c \<Longrightarrow> 160 < rb + c \<Longrightarrow> ring_from rb c = []"
  by (auto simp: ring_from_def ring_at_def)

section \<open>The collecting loop against its specification\<close>

text \<open>
  \<open>short_of mx full r\<close>: the vector \<open>r\<close> is the first \<open>mx\<close> nodes of \<open>full\<close>, possibly with one node
  too many.
\<close>

definition short_of :: "nat \<Rightarrow> k_node list \<Rightarrow> k_node list \<Rightarrow> bool" where
  "short_of mx full r \<longleftrightarrow> take mx r = take mx full \<and> length r \<le> Suc mx"

lemma push_step:
  fixes r xs :: "'a list"
  assumes "length r \<le> mx" and "r' = r @ take (max 1 (mx - length r)) xs"
  shows "take mx r' = take mx (r @ xs)" and "length r' \<le> Suc mx"
    and "length r' < mx \<Longrightarrow> r' = r @ xs" and "length r < mx \<Longrightarrow> length r' \<le> mx"
  using assms by (auto simp: max_def not_le split: if_splits)

lemma take_full_append:
  assumes "length r = mx" and "take mx r = take mx s"
  shows "take mx (r @ ys) = take mx (s @ ys)"
proof -
  have "r = take mx s" using assms by simp
  then have "mx \<le> length s" using assms(1) by (metis length_take min.cobounded1)
  with assms show ?thesis by simp
qed

text \<open>Two pushes in a row, the second asking for what the first left missing.\<close>

lemma push_push:
  fixes r xs ys :: "'a list"
  assumes "length r < mx"
    and r1: "r1 = r @ take (max 1 (mx - length r)) xs"
    and r2: "r2 = r1 @ take (max 1 (mx - length r1)) ys"
  shows "take mx r2 = take mx (r @ xs @ ys)" and "length r2 \<le> Suc mx"
    and "length r2 < mx \<Longrightarrow> r2 = r @ xs @ ys"
proof -
  have r: "length r \<le> mx" using assms(1) by simp
  have le: "length r1 \<le> mx" by (rule push_step(4) [OF r r1 assms(1)])
  show "length r2 \<le> Suc mx" by (rule push_step(2) [OF le r2])
  have eq: "take mx (r1 @ ys) = take mx ((r @ xs) @ ys)"
  proof (cases "length r1 < mx")
    case True
    then show ?thesis using push_step(3) [OF r r1] by simp
  next
    case False
    then have "length r1 = mx" using le by simp
    then show ?thesis using push_step(1) [OF r r1] by (rule take_full_append)
  qed
  show "take mx r2 = take mx (r @ xs @ ys)" using push_step(1) [OF le r2] eq by simp
  show "r2 = r @ xs @ ys" if "length r2 < mx"
  proof -
    have "length r1 < mx" using that r2 by simp
    then show ?thesis using push_step(3) [OF r r1] push_step(3) [OF le r2 that] by simp
  qed
qed

lemma collect_loop_done:
  "\<not> (length ret < mx \<and> \<not> (u \<and> l)) \<Longrightarrow> collect_loop rt rb mx ign c u l ret = ret"
  by (subst collect_loop.simps) auto

text \<open>One round of the loop pushes the next two buckets of the ring.\<close>

definition round1 :: "k_routing_table \<Rightarrow> nat \<Rightarrow> nat \<Rightarrow> k_node list \<Rightarrow> nat \<Rightarrow> k_node list \<Rightarrow> k_node list" where
  "round1 rt rb mx ign c ret =
     (if c < rb then ret @ take (max 1 (mx - length ret)) (admissible rt ign (rb - c)) else ret)"

definition round2 :: "k_routing_table \<Rightarrow> nat \<Rightarrow> nat \<Rightarrow> k_node list \<Rightarrow> nat \<Rightarrow> k_node list \<Rightarrow> k_node list" where
  "round2 rt rb mx ign c ret =
     (if rb + c \<le> 160 then ret @ take (max 1 (mx - length ret)) (admissible rt ign (rb + c)) else ret)"

lemma collect_loop_round:
  assumes "length ret < mx" and "\<not> (u \<and> l)"
  shows "collect_loop rt rb mx ign c u l ret =
    collect_loop rt rb mx ign (Suc c) (u \<or> \<not> c < rb) (l \<or> \<not> rb + c \<le> 160)
      (round2 rt rb mx ign c (round1 rt rb mx ign c ret))"
proof -
  have "(int rb - int c \<ge> 1) = (c < rb)" by linarith
  with assms show ?thesis
    by (subst collect_loop.simps)
      (simp add: Let_def get_node_back_admissible round1_def round2_def)
qed

lemma round_short:
  assumes "length ret < mx"
    and ret2: "ret2 = round2 rt rb mx ign c (round1 rt rb mx ign c ret)"
  shows "take mx ret2 = take mx (ret @ branches_from rt ign (ring_at rb c))"
    and "length ret2 \<le> Suc mx"
    and "length ret2 < mx \<Longrightarrow> ret2 = ret @ branches_from rt ign (ring_at rb c)"
proof -
  define A where "A = (if c < rb then admissible rt ign (rb - c) else [])"
  define B where "B = (if rb + c \<le> 160 then admissible rt ign (rb + c) else [])"
  define r1 where "r1 = ret @ take (max 1 (mx - length ret)) A"
  have "round1 rt rb mx ign c ret = r1" by (simp add: round1_def r1_def A_def)
  then have "ret2 = r1 @ take (max 1 (mx - length r1)) B"
    by (simp add: ret2 round2_def B_def)
  note pp = push_push [OF assms(1) r1_def this]
  have pair: "branches_from rt ign (ring_at rb c) = A @ B" by (simp add: ring_at_def A_def B_def)
  show "take mx ret2 = take mx (ret @ branches_from rt ign (ring_at rb c))"
    and "length ret2 \<le> Suc mx"
    and "length ret2 < mx \<Longrightarrow> ret2 = ret @ branches_from rt ign (ring_at rb c)"
    using pp pair by simp_all
qed

lemma collect_loop_short:
  assumes "length ret \<le> Suc mx" and "1 \<le> c" and "u \<longrightarrow> rb \<le> c" and "l \<longrightarrow> 160 < rb + c" and "rb \<le> 160"
    and "161 < c \<longrightarrow> u \<and> l"
  shows "short_of mx (ret @ branches_from rt ign (ring_from rb c)) (collect_loop rt rb mx ign c u l ret)"
  using assms
proof (induction "162 - c" arbitrary: c u l ret rule: less_induct)
  case less
  consider (full) "mx \<le> length ret" | (flags) "length ret < mx" "u \<and> l" | (go) "length ret < mx" "\<not> (u \<and> l)"
    by linarith
  then show ?case
  proof cases
    case full
    then show ?thesis using less.prems(1) by (simp add: collect_loop_done short_of_def)
  next
    case flags
    then have "ring_from rb c = []" using less.prems by (intro ring_from_done) auto
    then show ?thesis using flags by (simp add: collect_loop_done short_of_def)
  next
    case go
    let ?ret2 = "round2 rt rb mx ign c (round1 rt rb mx ign c ret)"
    note rs = round_short [OF go(1) refl, of rt rb ign c]
    have "c \<le> 161" using go(2) less.prems by auto
    then have rest: "ring_from rb c = ring_at rb c @ ring_from rb (Suc c)" by (rule ring_from_step)
    let ?R = "collect_loop rt rb mx ign c u l ret"
    have R: "?R = collect_loop rt rb mx ign (Suc c) (u \<or> \<not> c < rb) (l \<or> \<not> rb + c \<le> 160) ?ret2"
      by (rule collect_loop_round [OF go])
    show ?thesis
    proof (cases "length ?ret2 < mx")
      case True
      have ret2: "?ret2 = ret @ branches_from rt ign (ring_at rb c)" by (rule rs(3) [OF True])
      have IH: "short_of mx (?ret2 @ branches_from rt ign (ring_from rb (Suc c))) ?R"
        unfolding R using \<open>c \<le> 161\<close> less.prems rs(2) by (intro less.hyps) auto
      then show ?thesis using ret2 rest by simp
    next
      case False
      then have "?R = ?ret2" unfolding R by (intro collect_loop_done) simp
      moreover have "take mx (ret @ branches_from rt ign (ring_from rb c)) = take mx ?ret2"
      proof -
        have "mx \<le> length (ret @ branches_from rt ign (ring_at rb c))"
          using False rs(1) by (metis length_take linorder_not_less min.absorb_iff2 min.cobounded1 take_all_iff)
        then show ?thesis using rs(1) rest by simp
      qed
      ultimately show ?thesis using rs(2) by (simp add: short_of_def)
    qed
  qed
qed

lemma collect_node_short: "short_of mx (rt_full_order rt rn ign) (rt_collect_node rt rn mx ign)"
proof -
  let ?rb = "calc_branch rt rn"
  let ?ret = "[] @ take (max 1 (mx - length ([] :: k_node list))) (admissible rt ign ?rb)"
  note ps = push_step [OF _ refl, of "[]" mx "admissible rt ign ?rb"]
  have "rt_collect_node rt rn mx ign = collect_loop rt ?rb mx ign 1 False False ?ret"
    by (simp add: rt_collect_node_def get_node_back_admissible Let_def)
  moreover have "short_of mx (?ret @ branches_from rt ign (ring_from ?rb 1))
      (collect_loop rt ?rb mx ign 1 False False ?ret)"
    by (rule collect_loop_short) (use ps(2) in auto)
  moreover have "take mx (?ret @ branches_from rt ign (ring_from ?rb 1)) = take mx (rt_full_order rt rn ign)"
  proof (cases "length ?ret < mx")
    case True
    then show ?thesis using ps(3) by (simp add: rt_full_order_def)
  next
    case False
    then show ?thesis by (auto simp: rt_full_order_def max_def min_def not_less split: if_splits)
  qed
  ultimately show ?thesis by (simp add: short_of_def)
qed

lemma short_complete:
  assumes "short_of mx full r" and "length r < mx"
  shows "r = full"
proof -
  have r: "r = take mx full" using assms by (simp add: short_of_def)
  then have "min (length full) mx < mx" using assms(2) by simp
  then have "length full \<le> mx" by linarith
  then show ?thesis using r by simp
qed

section \<open>The order of the branches\<close>

lemma ring_from_spec:
  assumes "rb \<le> 160" and "1 \<le> c" and "c \<le> 162"
  shows "distinct (ring_from rb c) \<and>
    set (ring_from rb c) = {x. 1 \<le> x \<and> x \<le> 160 \<and> (x + c \<le> rb \<or> rb + c \<le> x)}"
  using assms
proof (induction "162 - c" arbitrary: c rule: less_induct)
  case less
  show ?case
  proof (cases "c = 162")
    case True
    then show ?thesis using less.prems by (auto simp: ring_from_def)
  next
    case False
    then have c: "c \<le> 161" using less.prems by simp
    have "distinct (ring_from rb (Suc c)) \<and>
      set (ring_from rb (Suc c)) = {x. 1 \<le> x \<and> x \<le> 160 \<and> (x + Suc c \<le> rb \<or> rb + Suc c \<le> x)}"
      using c less.prems by (intro less.hyps) auto
    then have d: "distinct (ring_from rb (Suc c))"
      and e: "\<And>x. x \<in> set (ring_from rb (Suc c)) \<longleftrightarrow> 1 \<le> x \<and> x \<le> 160 \<and> (x + Suc c \<le> rb \<or> rb + Suc c \<le> x)"
      by auto
    have r: "distinct (ring_at rb c)"
      "\<And>x. x \<in> set (ring_at rb c) \<longleftrightarrow> 1 \<le> x \<and> x \<le> 160 \<and> (x + c = rb \<or> rb + c = x)"
      using less.prems by (cases "c < rb"; cases "rb + c \<le> 160"; force simp: ring_at_def)+
    have "x \<notin> set (ring_from rb (Suc c))" if "x \<in> set (ring_at rb c)" for x
      using that unfolding e r(2) by linarith
    then have "distinct (ring_from rb c)"
      unfolding ring_from_step [OF c, of rb] using d r(1) by auto
    moreover have "x \<in> set (ring_from rb c) \<longleftrightarrow> 1 \<le> x \<and> x \<le> 160 \<and> (x + c \<le> rb \<or> rb + c \<le> x)" for x
      unfolding ring_from_step [OF c, of rb] set_append Un_iff e r(2) by arith
    ultimately show ?thesis by (intro conjI set_eqI) simp_all
  qed
qed

lemma ring_all:
  assumes "1 \<le> rb" and "rb \<le> 160"
  shows "distinct (rb # ring_from rb 1) \<and> set (rb # ring_from rb 1) = {1 .. 160}"
proof -
  note s = ring_from_spec [of rb 1, OF assms(2)]
  have m: "x \<in> set (ring_from rb 1) \<longleftrightarrow> 1 \<le> x \<and> x \<le> 160 \<and> (x + 1 \<le> rb \<or> rb + 1 \<le> x)" for x
    using s by simp
  then have "rb \<notin> set (ring_from rb 1)" by simp
  moreover have "x \<in> set (rb # ring_from rb 1) \<longleftrightarrow> x \<in> {1 .. 160}" for x
    unfolding list.set insert_iff m atLeastAtMost_iff using assms by arith
  ultimately show ?thesis using s by (auto simp del: list.set)
qed

section \<open>What is in the table\<close>

definition rt_nodes :: "k_routing_table \<Rightarrow> k_node set" where
  "rt_nodes rt = (\<Union>b \<in> set (rt_table rt). set b)"

lemma rt_nodes_nth: "n \<in> rt_nodes rt \<longleftrightarrow> (\<exists>i < length (rt_table rt). n \<in> set (rt_table rt ! i))"
  unfolding rt_nodes_def UN_iff set_conv_nth [of "rt_table rt"] by blast

lemma rt_nodesI: "rt_wf rt \<Longrightarrow> n \<in> set (rt_table rt ! calc_branch_index rt m) \<Longrightarrow> n \<in> rt_nodes rt"
  unfolding rt_nodes_nth by (rule exI [of _ "calc_branch_index rt m"]) (simp add: rt_wfD(1))

lemma rt_nodes_slot:
  assumes "rt_wf rt"
  shows "n \<in> rt_nodes rt \<longleftrightarrow> n \<in> set (rt_table rt ! calc_branch_index rt n)"
proof
  assume "n \<in> rt_nodes rt"
  then obtain i where "i < 160" "n \<in> set (rt_table rt ! i)"
    using rt_wfD(1) [OF assms] by (auto simp: rt_nodes_nth)
  then show "n \<in> set (rt_table rt ! calc_branch_index rt n)" using rt_wfD(3) [OF assms] by simp
qed (rule rt_nodesI [OF assms])

lemma rt_nodes_ids:
  assumes "rt_wf rt" and "a \<in> rt_nodes rt" and "b \<in> rt_nodes rt" and "kn_id a = kn_id b"
  shows "a = b"
proof -
  let ?i = "calc_branch_index rt a"
  have same: "calc_branch_index rt b = ?i" using assms(4) by (intro calc_branch_cong) auto
  have "bucket_wf (rt_table rt ! ?i)" by (rule rt_wfD(2) [OF assms(1)]) simp
  then have d: "distinct (map kn_id (rt_table rt ! ?i))" by (simp add: bucket_wf_def)
  have "a \<in> set (rt_table rt ! ?i)" "b \<in> set (rt_table rt ! ?i)"
    using assms(2,3) rt_nodes_slot [OF assms(1)] same by auto
  then show ?thesis using distinct_map_eqD [OF d] assms(4) by blast
qed

lemma rt_is_exist_nodes:
  assumes "rt_wf rt"
  shows "rt_is_exist rt kn \<longleftrightarrow> kn_id kn \<in> kn_id ` rt_nodes rt"
proof
  assume "rt_is_exist rt kn"
  then obtain t where t: "t \<in> set (rt_table rt ! calc_branch_index rt kn)" "kn_id t = kn_id kn"
    by (auto simp: rt_is_exist_def exist_ids rt_get_bucket_def elim: in_idsE)
  then have "t \<in> rt_nodes rt" using rt_nodesI [OF assms] by blast
  then show "kn_id kn \<in> kn_id ` rt_nodes rt" using t(2) by (metis imageI)
next
  assume "kn_id kn \<in> kn_id ` rt_nodes rt"
  then obtain t where t: "t \<in> rt_nodes rt" "kn_id t = kn_id kn" by auto
  have "calc_branch_index rt kn = calc_branch_index rt t" using t(2) by (intro calc_branch_cong) auto
  then show "rt_is_exist rt kn"
    using t rt_nodes_slot [OF assms] by (auto simp: rt_is_exist_def exist_ids rt_get_bucket_def intro: in_idsI)
qed

text \<open>The nodes of branch \<open>b\<close> that the caller did not ask to leave out.\<close>

lemma admissible_set: "set (admissible rt ign b) = {n \<in> set (rt_get_bucket_at rt b). kn_id n \<notin> ids ign}"
  by (auto simp: admissible_def)

lemma branch_bucket_nodes:
  assumes "rt_wf rt"
  shows "(\<Union>b \<in> {1 .. 160}. set (rt_get_bucket_at rt b)) = rt_nodes rt"
proof -
  have "(\<lambda>b. b - 1) ` {1 .. 160 :: nat} = {0 ..< 160}"
  proof
    show "{0 ..< 160} \<subseteq> (\<lambda>b. b - 1) ` {1 .. 160 :: nat}"
    proof
      fix x :: nat
      assume "x \<in> {0 ..< 160}"
      then show "x \<in> (\<lambda>b. b - 1) ` {1 .. 160}" by (intro image_eqI [of _ _ "Suc x"]) auto
    qed
  qed auto
  moreover have "(\<Union>b \<in> {1 .. 160}. set (rt_get_bucket_at rt b)) = (\<Union>i \<in> (\<lambda>b. b - 1) ` {1 .. 160}. set (rt_table rt ! i))"
    by (simp add: rt_get_bucket_at_eq)
  moreover have "rt_nodes rt = (\<Union>i \<in> {0 ..< 160}. set (rt_table rt ! i))"
    by (rule set_eqI) (simp add: rt_nodes_nth rt_wfD(1) [OF assms] Bex_def)
  ultimately show ?thesis by simp
qed

lemma full_order_set:
  assumes "rt_wf rt" and "kn_id rn \<noteq> rt_self_id rt"
  shows "set (rt_full_order rt rn ign) = {n \<in> rt_nodes rt. kn_id n \<notin> ids ign}"
proof -
  have "1 \<le> calc_branch rt rn" using assms(2) calc_branch_0_iff [of rt rn] by linarith
  then have "set (calc_branch rt rn # ring_from (calc_branch rt rn) 1) = {1 .. 160}"
    using ring_all [of "calc_branch rt rn"] by simp
  moreover have "set (rt_full_order rt rn ign) =
      (\<Union>b \<in> set (calc_branch rt rn # ring_from (calc_branch rt rn) 1). set (admissible rt ign b))"
    unfolding rt_full_order_def branches_from_def by simp
  ultimately show ?thesis using branch_bucket_nodes [OF assms(1)] by (auto simp: admissible_set)
qed

section \<open>The result is a subsequence of the specification\<close>

lemma subseq_push: "subseq r s \<Longrightarrow> subseq (r @ take k xs) (s @ xs)"
  by (rule list_emb_append_mono [OF _ prefix_imp_subseq [OF take_is_prefix]])

lemma subseq_set: "subseq xs ys \<Longrightarrow> set xs \<subseteq> set ys"
  by (induction rule: list_emb.induct) auto

lemma subseq_distinct: "subseq xs ys \<Longrightarrow> distinct ys \<Longrightarrow> distinct xs"
  by (induction rule: list_emb.induct) (auto dest: subseq_set)

lemma subseq_sorted:
  fixes xs ys :: "'a :: linorder list"
  shows "subseq xs ys \<Longrightarrow> sorted ys \<Longrightarrow> sorted xs"
  by (induction rule: list_emb.induct) (auto dest: subseq_set)

lemma round_subseq:
  assumes "subseq ret s"
  shows "subseq (round2 rt rb mx ign c (round1 rt rb mx ign c ret)) (s @ branches_from rt ign (ring_at rb c))"
proof -
  have "subseq (round1 rt rb mx ign c ret) (s @ branches_from rt ign (if c < rb then [rb - c] else []))"
    using assms by (auto simp: round1_def intro: subseq_push)
  then have "subseq (round2 rt rb mx ign c (round1 rt rb mx ign c ret))
    ((s @ branches_from rt ign (if c < rb then [rb - c] else [])) @
     branches_from rt ign (if rb + c \<le> 160 then [rb + c] else []))"
    by (cases "rb + c \<le> 160") (simp_all add: round2_def subseq_push del: append_assoc)
  then show ?thesis by (simp add: ring_at_def)
qed

lemma collect_loop_subseq:
  assumes "subseq ret s" and "1 \<le> c" and "u \<longrightarrow> rb \<le> c" and "l \<longrightarrow> 160 < rb + c" and "rb \<le> 160"
    and "161 < c \<longrightarrow> u \<and> l"
  shows "subseq (collect_loop rt rb mx ign c u l ret) (s @ branches_from rt ign (ring_from rb c))"
  using assms
proof (induction "162 - c" arbitrary: c u l ret s rule: less_induct)
  case less
  show ?case
  proof (cases "length ret < mx \<and> \<not> (u \<and> l)")
    case False
    then show ?thesis using subseq_push [OF less.prems(1), of 0] by (simp add: collect_loop_done)
  next
    case True
    let ?ret2 = "round2 rt rb mx ign c (round1 rt rb mx ign c ret)"
    have "c \<le> 161" using True less.prems by auto
    then have rest: "ring_from rb c = ring_at rb c @ ring_from rb (Suc c)" by (rule ring_from_step)
    have "subseq (collect_loop rt rb mx ign (Suc c) (u \<or> \<not> c < rb) (l \<or> \<not> rb + c \<le> 160) ?ret2)
      ((s @ branches_from rt ign (ring_at rb c)) @ branches_from rt ign (ring_from rb (Suc c)))"
      using less.prems \<open>c \<le> 161\<close> by (intro less.hyps round_subseq) auto
    then show ?thesis using collect_loop_round [of ret mx u l rt rb ign c] True rest by simp
  qed
qed

lemma collect_node_subseq: "subseq (rt_collect_node rt rn mx ign) (rt_full_order rt rn ign)"
proof -
  let ?rb = "calc_branch rt rn"
  have "subseq (collect_loop rt ?rb mx ign 1 False False (take (max 1 mx) (admissible rt ign ?rb)))
    (admissible rt ign ?rb @ branches_from rt ign (ring_from ?rb 1))"
    by (rule collect_loop_subseq) (auto intro: prefix_imp_subseq take_is_prefix)
  then show ?thesis
    by (simp add: rt_collect_node_def get_node_back_admissible Let_def rt_full_order_def)
qed


section \<open>The specification has no duplicates and is ordered\<close>

lemma admissible_branch:
  assumes "rt_wf rt" and "1 \<le> b" and "b \<le> 160" and "n \<in> set (admissible rt ign b)"
  shows "calc_branch_index rt n = b - 1"
  using assms rt_wfD(3) [OF assms(1), of "b - 1" n] by (auto simp: admissible_def rt_get_bucket_at_eq)

lemma admissible_distinct:
  assumes "rt_wf rt" and "1 \<le> b" and "b \<le> 160"
  shows "distinct (map kn_id (admissible rt ign b))"
  using assms rt_wfD(2) [OF assms(1), of "b - 1"]
  by (auto simp: admissible_def rt_get_bucket_at_eq bucket_wf_def distinct_map_filter rev_map [symmetric])

lemma branches_distinct:
  assumes "rt_wf rt" and "distinct bs" and "set bs \<subseteq> {1 .. 160}"
  shows "distinct (map kn_id (branches_from rt ign bs))"
  using assms(2,3)
proof (induction bs)
  case (Cons b bs)
  have b: "1 \<le> b" "b \<le> 160" using Cons.prems by auto
  have "kn_id m \<noteq> kn_id n" if m: "m \<in> set (admissible rt ign b)" and n: "n \<in> set (branches_from rt ign bs)" for m n
  proof
    assume "kn_id m = kn_id n"
    then have "calc_branch_index rt m = calc_branch_index rt n" by (rule calc_branch_cong) simp
    moreover obtain c where c: "c \<in> set bs" "n \<in> set (admissible rt ign c)"
      using n by (auto simp: branches_from_def)
    then have "1 \<le> c" "c \<le> 160" using Cons.prems by auto
    then have "calc_branch_index rt n = c - 1" using admissible_branch [OF assms(1) _ _ c(2)] by simp
    ultimately have "b = c" using admissible_branch [OF assms(1) b m] b \<open>1 \<le> c\<close> by simp
    then show False using c Cons.prems by auto
  qed
  then show ?case using Cons admissible_distinct [OF assms(1) b] by fastforce
qed simp

text \<open>How far the bucket of a node is from the bucket of the root.\<close>

definition bucket_gap :: "k_routing_table \<Rightarrow> k_node \<Rightarrow> k_node \<Rightarrow> int" where
  "bucket_gap rt rn n = \<bar>int (calc_branch_index rt n) - int (calc_branch_index rt rn)\<bar>"

lemma ring_at_gap: "b \<in> set (ring_at rb c) \<Longrightarrow> \<bar>int b - int rb\<bar> = int c"
  by (auto simp: ring_at_def split: if_splits)

lemma sorted_branches:
  assumes "rt_wf rt" and "set bs \<subseteq> {1 .. 160}" and "sorted (map (\<lambda>b. \<bar>int b - int (calc_branch rt rn)\<bar>) bs)"
    and "1 \<le> calc_branch rt rn"
  shows "sorted (map (bucket_gap rt rn) (branches_from rt ign bs))"
  using assms(2,3)
proof (induction bs)
  case (Cons b bs)
  have gap: "bucket_gap rt rn n = \<bar>int c - int (calc_branch rt rn)\<bar>"
    if "c \<in> set (b # bs)" "n \<in> set (admissible rt ign c)" for c n
  proof -
    have c: "1 \<le> c" "c \<le> 160" using that(1) Cons.prems(1) by auto
    show ?thesis
      using admissible_branch [OF assms(1) c that(2)] c assms(4) by (simp add: bucket_gap_def calc_branch_index_eq of_nat_diff)
  qed
  then have "map (bucket_gap rt rn) (admissible rt ign b) =
      replicate (length (admissible rt ign b)) \<bar>int b - int (calc_branch rt rn)\<bar>"
    by (intro replicate_eqI) auto
  moreover have "bucket_gap rt rn n \<ge> \<bar>int b - int (calc_branch rt rn)\<bar>" if n: "n \<in> set (branches_from rt ign bs)" for n
  proof -
    obtain c where c: "c \<in> set bs" "n \<in> set (admissible rt ign c)" using n by (auto simp: branches_from_def)
    then have "bucket_gap rt rn n = \<bar>int c - int (calc_branch rt rn)\<bar>" by (intro gap) auto
    then show ?thesis using Cons.prems(2) c(1) by simp
  qed
  ultimately show ?case using Cons by (simp add: sorted_append)
qed simp

lemma sorted_ring: "sorted (map (\<lambda>b. \<bar>int b - int rb\<bar>) (ring_from rb c))"
proof (induction "162 - c" arbitrary: c)
  case 0
  then show ?case by (simp add: ring_from_def)
next
  case (Suc k)
  then have c: "c \<le> 161" by simp
  have "int c \<le> \<bar>int b - int rb\<bar>" if b: "b \<in> set (ring_from rb (Suc c))" for b
  proof -
    obtain d where "Suc c \<le> d" "b \<in> set (ring_at rb d)" using b by (auto simp: ring_from_def)
    then show ?thesis using ring_at_gap by fastforce
  qed
  moreover have "map (\<lambda>b. \<bar>int b - int rb\<bar>) (ring_at rb c) = replicate (length (ring_at rb c)) (int c)"
    by (intro replicate_eqI) (auto dest: ring_at_gap)
  ultimately show ?case using Suc.hyps c by (simp add: ring_from_step [OF c] sorted_append)
qed

lemma full_order_sorted:
  assumes "rt_wf rt" and "kn_id rn \<noteq> rt_self_id rt"
  shows "sorted (map (bucket_gap rt rn) (rt_full_order rt rn ign))" and "distinct (map kn_id (rt_full_order rt rn ign))"
proof -
  have rb: "1 \<le> calc_branch rt rn" using assms(2) calc_branch_0_iff [of rt rn] by linarith
  note all = ring_all [OF rb calc_branch_le]
  have sub: "set (calc_branch rt rn # ring_from (calc_branch rt rn) 1) \<subseteq> {1 .. 160}" using all by blast
  show "distinct (map kn_id (rt_full_order rt rn ign))"
    unfolding rt_full_order_def using all sub by (intro branches_distinct [OF assms(1)]) simp_all
  show "sorted (map (bucket_gap rt rn) (rt_full_order rt rn ign))"
    unfolding rt_full_order_def by (intro sorted_branches [OF assms(1) sub _ rb]) (simp add: sorted_ring)
qed

text \<open>
  C4. What \<open>collect_node\<close> returns for a root other than the node itself: its first \<open>max\<close> nodes are
  the first \<open>max\<close> of all admissible nodes of the table ordered by the distance of their bucket from
  the root's, the most recently seen first; no identifier comes twice and none of the ignored ones
  comes; at most one node too many comes, and if fewer than \<open>max\<close> come they are all there are.
\<close>

theorem collect_node_spec:
  assumes "rt_wf rt" and "kn_id rn \<noteq> rt_self_id rt" and "r = rt_collect_node rt rn mx ign"
  shows "take mx r = take mx (rt_full_order rt rn ign) \<and> length r \<le> mx + 1 \<and>
    sorted (map (bucket_gap rt rn) r) \<and> distinct (map kn_id r) \<and>
    set r \<subseteq> {n \<in> rt_nodes rt. kn_id n \<notin> ids ign} \<and>
    (length r < mx \<longrightarrow> set r = {n \<in> rt_nodes rt. kn_id n \<notin> ids ign})"
proof -
  have short: "short_of mx (rt_full_order rt rn ign) r" unfolding assms(3) by (rule collect_node_short)
  have sub: "subseq r (rt_full_order rt rn ign)" unfolding assms(3) by (rule collect_node_subseq)
  note full = full_order_sorted [OF assms(1,2)] full_order_set [OF assms(1,2)]
  have "sorted (map (bucket_gap rt rn) r)" "distinct (map kn_id r)"
    using full(1,2) subseq_map [OF sub] by (blast intro: subseq_sorted subseq_distinct)+
  moreover have "set r \<subseteq> {n \<in> rt_nodes rt. kn_id n \<notin> ids ign}"
    using subseq_set [OF sub] full(3) by simp
  moreover have "set r = {n \<in> rt_nodes rt. kn_id n \<notin> ids ign}" if "length r < mx"
    using short_complete [OF short that] full(3) by simp
  ultimately show ?thesis using short by (auto simp: short_of_def)
qed

definition sample_table :: k_routing_table where
  "sample_table = fold (\<lambda>n t. snd (rt_auto_update (sample_node n) t)) [1, 4] (rt_new 0)"

lemma sample_table_wf: "rt_wf sample_table"
  by (simp add: sample_table_def rt_auto_update_wf rt_new_wf)

theorem collect_node_spec_witness:
  "length (rt_collect_node sample_table (sample_node 2) 5 [sample_node 4]) < 5 \<and>
   set (rt_collect_node sample_table (sample_node 2) 5 [sample_node 4]) = {n \<in> rt_nodes sample_table. kn_id n \<noteq> 4}"
proof -
  have "kn_id (sample_node 2) \<noteq> rt_self_id sample_table" by code_simp
  note c = collect_node_spec [OF sample_table_wf this refl, of 5 "[sample_node 4]"]
  have "length (rt_collect_node sample_table (sample_node 2) 5 [sample_node 4]) < 5" by code_simp
  moreover have "ids [sample_node 4] = {4}" by (simp add: sample_node_def)
  ultimately show ?thesis using c by (simp only: singleton_iff)
qed

text \<open>
  For the own identifier as root (branch 0) the first bucket is read as the bucket of the root and
  again as the bucket of branch 1, so its nodes come twice.
\<close>

lemma full_order_self:
  assumes "kn_id rn = rt_self_id rt"
  shows "rt_full_order rt rn ign = admissible rt ign 1 @ admissible rt ign 1 @ branches_from rt ign [2 ..< 161]"
proof -
  have "calc_branch rt rn = 0" using assms by (simp add: calc_branch_0_iff)
  moreover have "ring_from 0 1 = [1 ..< 161]"
  proof -
    have "ring_from 0 c = [c ..< 161]" if "1 \<le> c" "c \<le> 161" for c
      using that
    proof (induction "161 - c" arbitrary: c)
      case 0
      then show ?case by (simp add: ring_from_def ring_at_def)
    next
      case (Suc k)
      then have c: "c \<le> 161" "c < 161" by simp_all
      have "ring_from 0 (Suc c) = [Suc c ..< 161]" using Suc by (intro Suc.hyps(1)) simp_all
      moreover have "ring_at 0 c = [c]" using c by (simp add: ring_at_def)
      ultimately show ?case using ring_from_step [OF c(1), of 0] upt_conv_Cons [OF c(2)] by simp
    qed
    then show ?thesis by simp
  qed
  moreover have "admissible rt ign 0 = admissible rt ign 1"
    by (simp add: admissible_def rt_get_bucket_at_eq)
  moreover have "[1 ..< 161] = 1 # [2 ..< 161 :: nat]" using upt_conv_Cons [of 1 161] by (simp only: Suc_1)
  ultimately show ?thesis by (simp add: rt_full_order_def del: upt.simps)
qed

section \<open>Iterating over the buckets\<close>

text \<open>
  The postfix increment walks the array in step with the branch: after \<open>k < 160\<close> increments of
  the begin iterator it stands on bucket \<open>k\<close> and branch \<open>k + 1\<close> and is valid, and one more after the
  last makes it invalid, so a loop over it visits each of the 160 buckets once.
\<close>

theorem bucket_iterator_walk:
  "(k < 160 \<longrightarrow> ((\<lambda>it. snd (it_post_inc it)) ^^ k) rt_get_begin_bucket_iterator = \<lparr>it_bucket = int k, it_branch = int k + 1\<rparr> \<and>
      \<not> it_is_invalid \<lparr>it_bucket = int k, it_branch = int k + 1\<rparr>) \<and>
   it_is_invalid (((\<lambda>it. snd (it_post_inc it)) ^^ 160) rt_get_begin_bucket_iterator)"
proof -
  have walk: "((\<lambda>it. snd (it_post_inc it)) ^^ k) rt_get_begin_bucket_iterator = \<lparr>it_bucket = int k, it_branch = int k + 1\<rparr>"
    if "k < 160" for k :: nat
    using that
  proof (induction k)
    case (Suc k)
    then have "it_post_inc \<lparr>it_bucket = int k, it_branch = int k + 1\<rparr> =
        (\<lparr>it_bucket = int k, it_branch = int k + 1\<rparr>, \<lparr>it_bucket = int k + 1, it_branch = int k + 2\<rparr>)"
      by (simp add: it_post_inc_def it_is_invalid_def Let_def)
    with Suc show ?case by simp
  qed (simp add: rt_get_begin_bucket_iterator_def)
  have "((\<lambda>it. snd (it_post_inc it)) ^^ Suc 159) rt_get_begin_bucket_iterator = \<lparr>it_bucket = 159, it_branch = 161\<rparr>"
    using walk [of 159] by (simp only: funpow.simps comp_apply) (simp add: it_post_inc_def it_is_invalid_def Let_def)
  then have "it_is_invalid (((\<lambda>it. snd (it_post_inc it)) ^^ 160) rt_get_begin_bucket_iterator)"
    by (simp only: eval_nat_numeral) (simp add: it_is_invalid_def)
  then show ?thesis using walk [of k] by (simp add: it_is_invalid_def)
qed

theorem bucket_iterator_walk_witness:
  "((\<lambda>it. snd (it_post_inc it)) ^^ 7) rt_get_begin_bucket_iterator = \<lparr>it_bucket = 7, it_branch = 8\<rparr>"
  using bucket_iterator_walk [of 7] by simp

text \<open>
  The decrement operators move the branch back and the array position forward: after one
  increment and one decrement the iterator says branch 1 and stands on bucket 2, so it yields the
  nodes of another bucket. \<open>to_begin\<close> moves before the array from every position an iterator can
  reach by increments.
\<close>

theorem bucket_iterator_decrement_defect:
  "it_pre_dec (it_pre_inc rt_get_begin_bucket_iterator) = \<lparr>it_bucket = 2, it_branch = 1\<rparr> \<and>
   it_to_begin \<lparr>it_bucket = int k, it_branch = int k + 1\<rparr> = Inl Undefined"
  by (simp add: it_pre_dec_def it_pre_inc_def rt_get_begin_bucket_iterator_def it_is_invalid_def
      it_to_begin_def Let_def)

end
