(* ===== verification/SS_DirectTable.thy ===== *)
theory SS_DirectTable
  imports SS_Collect
begin

text \<open>
  \<open>kademlia/direct_routing_table_controller\<close>: the routing table seen through endpoints. A caller
  gives endpoints and gets endpoints back; the identifiers are recomputed from the endpoints.
\<close>

definition drt_collect_node :: "k_routing_table \<Rightarrow> k_node \<Rightarrow> nat \<Rightarrow> k_node list \<Rightarrow> k_node list" where
  "drt_collect_node rt root_node max_count ignore_nodes = rt_collect_node rt root_node max_count ignore_nodes"

definition drt_collect_endpoint ::
  "ext \<Rightarrow> k_routing_table \<Rightarrow> endpoint \<Rightarrow> nat \<Rightarrow> endpoint list \<Rightarrow> endpoint list" where
  "drt_collect_endpoint E rt root_ep max_count ignore_eps =
     (let root_node = k_node_of E root_ep;
          ignore_nodes = fold (\<lambda>itr acc. acc @ [k_node_of E itr]) ignore_eps [];
          geted_nodes = drt_collect_node rt root_node max_count ignore_nodes
      in fold (\<lambda>itr ret. ret @ [kn_ep itr]) geted_nodes [])"

definition drt_is_exist :: "ext \<Rightarrow> k_routing_table \<Rightarrow> endpoint \<Rightarrow> bool" where
  "drt_is_exist E rt ep = rt_is_exist rt (k_node_of E ep)"

definition drt_is_exist_node :: "k_routing_table \<Rightarrow> k_node \<Rightarrow> bool" where
  "drt_is_exist_node rt kn = rt_is_exist rt kn"

definition drt_auto_update :: "ext \<Rightarrow> endpoint \<Rightarrow> k_routing_table \<Rightarrow> k_routing_table" where
  "drt_auto_update E ep rt = snd (rt_auto_update (k_node_of E ep) rt)"

definition drt_auto_update_batch :: "ext \<Rightarrow> endpoint list \<Rightarrow> k_routing_table \<Rightarrow> k_routing_table" where
  "drt_auto_update_batch E eps rt = fold (\<lambda>itr t. snd (rt_auto_update (k_node_of E itr) t)) eps rt"

definition drt_get_node_count :: "k_routing_table \<Rightarrow> nat" where
  "drt_get_node_count rt = rt_get_node_count rt"

definition drt_get_begin_bucket_iterator :: k_bucket_iterator where
  "drt_get_begin_bucket_iterator = rt_get_begin_bucket_iterator"

section \<open>Lemmas\<close>

lemma push_back_loop: "fold (\<lambda>x acc. acc @ [f x]) xs ys = ys @ map f xs"
  by (induction xs arbitrary: ys) auto

lemma collect_endpoint_eq:
  "drt_collect_endpoint E rt root_ep mx ign =
   map kn_ep (rt_collect_node rt (k_node_of E root_ep) mx (map (k_node_of E) ign))"
  by (simp add: drt_collect_endpoint_def drt_collect_node_def push_back_loop Let_def)

lemma auto_update_batch_simps [simp]:
  "drt_auto_update_batch E [] rt = rt"
  "drt_auto_update_batch E (ep # eps) rt = drt_auto_update_batch E eps (drt_auto_update E ep rt)"
  by (simp_all add: drt_auto_update_batch_def drt_auto_update_def)

lemma drt_auto_update_wf [wf_ops]: "rt_wf rt \<Longrightarrow> rt_wf (drt_auto_update E ep rt)"
  by (simp add: drt_auto_update_def rt_auto_update_wf)

lemma drt_auto_update_batch_wf [wf_ops]: "rt_wf rt \<Longrightarrow> rt_wf (drt_auto_update_batch E eps rt)"
  by (induction eps arbitrary: rt) (auto intro: drt_auto_update_wf)

lemma drt_auto_update_self [frame_ops, simp]: "rt_self_id (drt_auto_update E ep rt) = rt_self_id rt"
  by (simp add: drt_auto_update_def)

lemma drt_auto_update_batch_self [frame_ops, simp]:
  "rt_self_id (drt_auto_update_batch E eps rt) = rt_self_id rt"
  by (induction eps arbitrary: rt) auto

section \<open>What a lookup by endpoint returns\<close>

text \<open>Every node of the table carries the identifier of its endpoint.\<close>

definition rt_named :: "ext \<Rightarrow> k_routing_table \<Rightarrow> bool" where
  "rt_named E rt \<longleftrightarrow> (\<forall>n \<in> rt_nodes rt. kn_id n = calc_node_id E (kn_ep n))"

lemma full_order_subset:
  assumes "rt_wf rt"
  shows "set (rt_full_order rt rn ign) \<subseteq> {n \<in> rt_nodes rt. kn_id n \<notin> ids ign}"
proof
  fix n
  assume "n \<in> set (rt_full_order rt rn ign)"
  then obtain b where b: "b = calc_branch rt rn \<or> b \<in> set (ring_from (calc_branch rt rn) 1)"
    and n: "n \<in> set (admissible rt ign b)"
    by (auto simp: rt_full_order_def branches_from_def)
  have "b \<le> 160" using b calc_branch_le [of rt rn]
    by (auto simp: ring_from_def ring_at_def simp del: calc_branch_le split: if_splits)
  then have "b - 1 < 160" by simp
  moreover have "n \<in> set (rt_table rt ! (b - 1))" "kn_id n \<notin> ids ign"
    using n by (simp_all add: admissible_set rt_get_bucket_at_eq)
  ultimately show "n \<in> {n \<in> rt_nodes rt. kn_id n \<notin> ids ign}"
    using rt_wfD(1) [OF assms] by (auto simp: rt_nodes_nth)
qed

lemma collect_endpoint_facts:
  assumes "rt_wf rt" and "rt_named E rt"
  shows "length (drt_collect_endpoint E rt root_ep mx ign) \<le> mx + 1"
    and "set (drt_collect_endpoint E rt root_ep mx ign) \<subseteq> kn_ep ` rt_nodes rt"
    and "set (drt_collect_endpoint E rt root_ep mx ign) \<inter> set ign = {}"
proof -
  let ?ign = "map (k_node_of E) ign"
  let ?r = "rt_collect_node rt (k_node_of E root_ep) mx ?ign"
  have sub: "set ?r \<subseteq> {n \<in> rt_nodes rt. kn_id n \<notin> ids ?ign}"
    using subseq_set [OF collect_node_subseq] full_order_subset [OF assms(1)] by blast
  show "length (drt_collect_endpoint E rt root_ep mx ign) \<le> mx + 1"
    using collect_node_short [of mx rt "k_node_of E root_ep" ?ign] by (simp add: collect_endpoint_eq short_of_def)
  show "set (drt_collect_endpoint E rt root_ep mx ign) \<subseteq> kn_ep ` rt_nodes rt"
    using sub by (auto simp: collect_endpoint_eq)
  have "kn_ep n \<notin> set ign" if n: "n \<in> set ?r" for n
  proof
    assume "kn_ep n \<in> set ign"
    then have "calc_node_id E (kn_ep n) \<in> ids ?ign" by (auto simp: ids_def image_iff)
    then show False using n sub assms(2) by (auto simp: rt_named_def)
  qed
  then show "set (drt_collect_endpoint E rt root_ep mx ign) \<inter> set ign = {}"
    by (auto simp: collect_endpoint_eq)
qed

end
