(* ===== verification/SS_KObserver.thy ===== *)
theory SS_KObserver
  imports SS_ObserverStorage SS_KMessage SS_DirectTable
begin

text \<open>
  \<open>kademlia/k_observer.hpp\<close>, \<open>kademlia/k_observer.cpp\<close> and the state of the Kademlia layer. The
  \<open>std::function\<close> objects the program binds to an observer are values of \<open>k_handler\<close>: a bucket
  operation on the bucket at an index of the table with a node, \<open>auto_update\<close> of the endpoint passed
  in, nothing, or the lambda of \<open>get_remote_nodes\<close>, which pings the endpoint passed in.
\<close>

datatype k_handler =
    H_move_back nat k_node
  | H_delete_node nat k_node
  | H_auto_update
  | H_null
  | H_ping_auto_update

abbreviation DEFAULT_PING_RESPONSE_TIMEOUT_s :: int where
  "DEFAULT_PING_RESPONSE_TIMEOUT_s \<equiv> 5"

record ping = base_observer +
  pg_dest_ep :: endpoint
  pg_pong_handler :: k_handler
  pg_timeout_handler :: k_handler
  pg_is_pong_arrived :: bool

record find_node = base_observer +
  fn_response_handler :: k_handler

record kad_world = io_world +
  kd_self_ep :: endpoint
  kd_self_id :: node_id
  kd_table :: k_routing_table
  kd_pings :: "ping list"
  kd_finds :: "find_node list"
  kd_requires_tick :: bool

section \<open>Ping\<close>

definition ping_new ::
  "ext \<Rightarrow> endpoint \<Rightarrow> k_handler \<Rightarrow> k_handler \<Rightarrow> 'a io_world_scheme \<Rightarrow> ping \<times> 'a io_world_scheme" where
  "ping_new E ep pong_handler timeout_handler w =
     (let (b, w1) = base_observer_new E ''k_observer:ping'' w
      in (base_observer.extend b
            \<lparr>pg_dest_ep = ep, pg_pong_handler = pong_handler, pg_timeout_handler = timeout_handler,
             pg_is_pong_arrived = False\<rparr>, w1))"

definition ping_init :: "ping \<Rightarrow> 'a io_world_scheme \<Rightarrow> ping \<times> 'a io_world_scheme" where
  "ping_init obs w =
     (let w1 = timer_set (T_ping_timeout (bo_id obs)) (DEFAULT_PING_RESPONSE_TIMEOUT_s - 1) w
      in (extend_expire_at (w_now w1) (DEFAULT_PING_RESPONSE_TIMEOUT_s + 1) obs, w1))"

definition modify_ping :: "uuid \<Rightarrow> (ping \<Rightarrow> ping) \<Rightarrow> 'a kad_world_scheme \<Rightarrow> 'a kad_world_scheme" where
  "modify_ping i f w = w\<lparr>kd_pings := os_modify i f (kd_pings w)\<rparr>"

definition ping_timeout :: "uuid \<Rightarrow> 'a kad_world_scheme \<Rightarrow> 'a kad_world_scheme result" where
  "ping_timeout i w =
     bind_res (os_deref i (kd_pings w)) (\<lambda>obs.
       if pg_is_pong_arrived obs then Inr w
       else Inr (modify_ping i destruct_self (io_post (T_call_timeout i) w)))"

definition ping_income_message :: "uuid \<Rightarrow> 'a kad_world_scheme \<Rightarrow> 'a kad_world_scheme result" where
  "ping_income_message i w =
     bind_res (os_deref i (kd_pings w)) (\<lambda>obs.
       let w1 = modify_ping i (\<lambda>p. p\<lparr>pg_is_pong_arrived := True\<rparr>) w;
           w2 = io_post (T_call_pong i) w1;
           w3 = timer_cancel (T_ping_timeout i) w2
       in Inr (modify_ping i destruct_self w3))"

section \<open>Find node\<close>

definition find_node_new :: "ext \<Rightarrow> k_handler \<Rightarrow> 'a io_world_scheme \<Rightarrow> find_node \<times> 'a io_world_scheme" where
  "find_node_new E response_handler w =
     (let (b, w1) = base_observer_new E ''k_observer:find_node'' w
      in (base_observer.extend b \<lparr>fn_response_handler = response_handler\<rparr>, w1))"

definition find_node_init :: "find_node \<Rightarrow> find_node" where
  "find_node_init obs = obs"

definition modify_find :: "uuid \<Rightarrow> (find_node \<Rightarrow> find_node) \<Rightarrow> 'a kad_world_scheme \<Rightarrow> 'a kad_world_scheme" where
  "modify_find i f w = w\<lparr>kd_finds := os_modify i f (kd_finds w)\<rparr>"

definition find_node_income_message ::
  "ext \<Rightarrow> uuid \<Rightarrow> message \<Rightarrow> 'a kad_world_scheme \<Rightarrow> 'a kad_world_scheme result" where
  "find_node_income_message E i msg w =
     (case message_get_param ''kademlia'' msg of
        None \<Rightarrow> Inr w
      | Some k \<Rightarrow>
          bind_res (k_get_finded_endpoint E (k_message_of_json k)) (\<lambda>finded_eps.
            Inr (modify_find i destruct_self (fold (\<lambda>itr. io_post (T_call_find i itr)) finded_eps w))))"

section \<open>The clean-up of the storage\<close>

text \<open>
  The destructor of an erased ping cancels its timer, which queues the pending wait of a handler
  whose \<open>this\<close> is gone. \<open>refresh_tick\<close> ignores its error code and sets the timer again.
\<close>

definition erase_pings :: "'a kad_world_scheme \<Rightarrow> 'a kad_world_scheme" where
  "erase_pings w =
     fold (\<lambda>obs. timer_cancel (T_ping_timeout (bo_id obs))) (filter (is_expired (w_now w)) (kd_pings w))
       (w\<lparr>kd_pings := os_delete_expires (w_now w) (kd_pings w)\<rparr>)"

definition kad_call_tick :: "'a kad_world_scheme \<Rightarrow> 'a kad_world_scheme" where
  "kad_call_tick w = timer_set T_kad_refresh OBSERVER_STRAGE_TICK_TIME_s w"

definition kad_refresh_tick :: "'a kad_world_scheme \<Rightarrow> 'a kad_world_scheme" where
  "kad_refresh_tick w =
     (let w1 = erase_pings w;
          w2 = w1\<lparr>kd_finds := os_delete_expires (w_now w1) (kd_finds w1)\<rparr>
      in kad_call_tick w2)"

section \<open>Which part of the world each operation touches\<close>

lemma base_observer_new_simps [simp]:
  "bo_expire_flag (fst (base_observer_new E t w)) = False"
  "bo_expire_at (fst (base_observer_new E t w)) = w_now w + 20"
  "bo_type_name (fst (base_observer_new E t w)) = t"
  by (auto simp: base_observer_new_def fresh_uuid_def Let_def)

lemma base_observer_new_world:
  "\<exists>n. snd (base_observer_new E t w) = w\<lparr>w_uuids := n\<rparr>"
  by (auto simp: base_observer_new_def fresh_uuid_def Let_def)

text \<open>The kad-layer view of an io-layer operation.\<close>

definition kad_same :: "'a kad_world_scheme \<Rightarrow> 'a kad_world_scheme \<Rightarrow> bool" where
  "kad_same w w' \<longleftrightarrow> kd_self_ep w' = kd_self_ep w \<and> kd_self_id w' = kd_self_id w \<and>
     kd_table w' = kd_table w \<and> kd_pings w' = kd_pings w \<and> kd_finds w' = kd_finds w \<and>
     kd_requires_tick w' = kd_requires_tick w"

lemma kad_same_refl [simp, intro]: "kad_same w w"
  by (simp add: kad_same_def)

lemma kad_same_trans [trans]: "kad_same u v \<Longrightarrow> kad_same v w \<Longrightarrow> kad_same u w"
  by (simp add: kad_same_def)

lemma kad_same_io [simp, intro]:
  "kad_same w (io_post t w)" "kad_same w (timer_cancel t w)" "kad_same w (timer_set t s w)"
  "kad_same w (socket_send d b w)" "kad_same w (w\<lparr>w_uuids := n\<rparr>)" "kad_same w (w\<lparr>w_now := k\<rparr>)"
  "kad_same w (w\<lparr>w_queue := q\<rparr>)" "kad_same w (w\<lparr>w_timers := ts\<rparr>)"
  by (simp_all add: kad_same_def io_post_def timer_cancel_def timer_set_def socket_send_def Let_def)

lemma kad_same_fold: "(\<And>x w. kad_same w (f x w)) \<Longrightarrow> kad_same w (fold f xs w)"
proof (induction xs arbitrary: w)
  case (Cons x xs)
  then have "kad_same w (f x w)" "kad_same (f x w) (fold f xs (f x w))" by blast+
  then show ?case by (simp add: kad_same_def)
qed simp

lemma kad_fields_io [simp]:
  "kd_table (io_post t w) = kd_table w" "kd_pings (io_post t w) = kd_pings w" "kd_finds (io_post t w) = kd_finds w"
  "kd_table (timer_cancel t w) = kd_table w" "kd_pings (timer_cancel t w) = kd_pings w"
  "kd_finds (timer_cancel t w) = kd_finds w"
  "kd_table (timer_set t s w) = kd_table w" "kd_pings (timer_set t s w) = kd_pings w"
  "kd_finds (timer_set t s w) = kd_finds w"
  "kd_table (socket_send d b w) = kd_table w" "kd_pings (socket_send d b w) = kd_pings w"
  "kd_finds (socket_send d b w) = kd_finds w"
  by (simp_all add: io_post_def timer_cancel_def timer_set_def socket_send_def Let_def)

lemma modify_ping_simps [simp]:
  "kd_table (modify_ping i f w) = kd_table w" "kd_finds (modify_ping i f w) = kd_finds w"
  "kd_pings (modify_ping i f w) = os_modify i f (kd_pings w)"
  "w_queue (modify_ping i f w) = w_queue w" "w_timers (modify_ping i f w) = w_timers w"
  "w_now (modify_ping i f w) = w_now w" "w_net (modify_ping i f w) = w_net w"
  "kad_world.more (modify_ping i f w) = kad_world.more w"
  by (simp_all add: modify_ping_def)

lemma modify_find_simps [simp]:
  "kd_table (modify_find i f w) = kd_table w" "kd_pings (modify_find i f w) = kd_pings w"
  "kd_finds (modify_find i f w) = os_modify i f (kd_finds w)"
  "w_queue (modify_find i f w) = w_queue w" "w_timers (modify_find i f w) = w_timers w"
  "w_now (modify_find i f w) = w_now w" "w_net (modify_find i f w) = w_net w"
  "kad_world.more (modify_find i f w) = kad_world.more w"
  by (simp_all add: modify_find_def)

lemma kad_same_erase_timers:
  "kad_same w (fold (\<lambda>obs. timer_cancel (T_ping_timeout (bo_id obs))) xs w)"
  by (rule kad_same_fold) simp

lemma w_now_erase_timers [simp]:
  "w_now (fold (\<lambda>obs. timer_cancel (T_ping_timeout (bo_id obs))) xs w) = w_now w"
  by (induction xs arbitrary: w) auto

lemma erase_pings_simps [simp]:
  "kd_pings (erase_pings w) = os_delete_expires (w_now w) (kd_pings w)"
  "kd_table (erase_pings w) = kd_table w" "kd_finds (erase_pings w) = kd_finds w"
  "w_now (erase_pings w) = w_now w"
  using kad_same_erase_timers [of "w\<lparr>kd_pings := os_delete_expires (w_now w) (kd_pings w)\<rparr>"
      "filter (is_expired (w_now w)) (kd_pings w)"]
  by (simp_all add: erase_pings_def kad_same_def)

lemma kad_refresh_tick_simps [simp]:
  "kd_pings (kad_refresh_tick w) = os_delete_expires (w_now w) (kd_pings w)"
  "kd_finds (kad_refresh_tick w) = os_delete_expires (w_now w) (kd_finds w)"
  "kd_table (kad_refresh_tick w) = kd_table w"
  "w_now (kad_refresh_tick w) = w_now w"
  by (simp_all add: kad_refresh_tick_def kad_call_tick_def Let_def)

end
