(* ===== verification/SS_RpcManager.thy ===== *)
theory SS_RpcManager
  imports SS_KObserver
begin

text \<open>
  \<open>kademlia/rpc_manager.hpp\<close>, \<open>kademlia/rpc_manager.cpp\<close>: the requests, which store an observer
  before they send, the responses, and the dispatch of incoming requests. Requests go out through
  \<open>_s_send_func\<close>, which the node sets to \<open>signaling_server::signaling_send\<close>: the parameter \<open>send\<close>
  here, whose contract is the locale \<open>send_func\<close>. Responses go out through the plain sender. Every
  \<open>income_message\<close> returns 0, which the model leaves out.
\<close>

abbreviation DEFAULT_FIND_NODE_SIZE :: nat where
  "DEFAULT_FIND_NODE_SIZE \<equiv> 5"

type_synonym 'w send_function = "endpoint \<Rightarrow> string \<Rightarrow> json \<Rightarrow> 'w \<Rightarrow> 'w result"

section \<open>Requests\<close>

definition add_ping :: "ping \<Rightarrow> 'a kad_world_scheme \<Rightarrow> 'a kad_world_scheme" where
  "add_ping obs w = w\<lparr>kd_pings := snd (os_add obs (kd_pings w))\<rparr>"

definition add_find :: "find_node \<Rightarrow> 'a kad_world_scheme \<Rightarrow> 'a kad_world_scheme" where
  "add_find obs w = w\<lparr>kd_finds := snd (os_add obs (kd_finds w))\<rparr>"

definition ping_request ::
  "ext \<Rightarrow> 'a kad_world_scheme send_function \<Rightarrow> endpoint \<Rightarrow> k_handler \<Rightarrow> k_handler \<Rightarrow>
   'a kad_world_scheme \<Rightarrow> 'a kad_world_scheme result" where
  "ping_request E send ep pong_handler timeout_handler w =
     (let (ping_obs, w1) = ping_new E ep pong_handler timeout_handler w;
          (ping_obs, w2) = ping_init ping_obs w1;
          w3 = add_ping ping_obs w2
      in bind_res (k_request rpc_ping) (\<lambda>m.
           bind_res (k_set_observer_id E (bo_id ping_obs) m) (\<lambda>k_msg.
             send ep ''kademlia'' (k_encode k_msg) w3)))"

definition find_node_request ::
  "ext \<Rightarrow> 'a kad_world_scheme send_function \<Rightarrow> endpoint \<Rightarrow> endpoint list \<Rightarrow> k_handler \<Rightarrow>
   'a kad_world_scheme \<Rightarrow> 'a kad_world_scheme result" where
  "find_node_request E send ep ignore_eps response_handler w =
     (let (obs, w1) = find_node_new E response_handler w;
          find_node_obs = find_node_init obs;
          w2 = add_find find_node_obs w1
      in bind_res (k_request rpc_find_node) (\<lambda>m.
           bind_res (k_set_observer_id E (bo_id find_node_obs) m) (\<lambda>m'.
             bind_res (k_set_ignore_endpoint E ignore_eps m') (\<lambda>k_msg.
               send ep ''kademlia'' (k_encode k_msg) w2))))"

section \<open>Responses\<close>

definition ping_response ::
  "ext \<Rightarrow> k_message \<Rightarrow> endpoint \<Rightarrow> 'a kad_world_scheme \<Rightarrow> 'a kad_world_scheme result" where
  "ping_response E k_msg ep w =
     bind_res (k_set_message_type type_response k_msg) (\<lambda>k_msg'.
       bind_res (sender_async_send E ep ''kademlia'' (k_encode k_msg') w) (\<lambda>w'.
         Inr (w'\<lparr>kd_table := drt_auto_update_batch E [ep] (kd_table w')\<rparr>)))"

definition find_node_response ::
  "ext \<Rightarrow> k_message \<Rightarrow> endpoint \<Rightarrow> 'a kad_world_scheme \<Rightarrow> 'a kad_world_scheme result" where
  "find_node_response E k_msg ep w =
     bind_res (k_get_ignore_endpoint E k_msg) (\<lambda>ignores.
       let ignore_eps = ignores @ [ep];
           eps = drt_collect_endpoint E (kd_table w) ep DEFAULT_FIND_NODE_SIZE ignore_eps
       in bind_res (k_set_finded_endpoint E eps k_msg) (\<lambda>k_msg1.
            bind_res (k_set_message_type type_response k_msg1) (\<lambda>k_msg2.
              sender_async_send E ep ''kademlia'' (k_encode k_msg2) w)))"

section \<open>Dispatch\<close>

definition income_request ::
  "ext \<Rightarrow> k_message \<Rightarrow> endpoint \<Rightarrow> 'a kad_world_scheme \<Rightarrow> 'a kad_world_scheme result" where
  "income_request E k_msg ep w =
     bind_res (k_get_rpc k_msg) (\<lambda>rpc.
       case rpc of
         rpc_ping \<Rightarrow> ping_response E k_msg ep w
       | rpc_find_node \<Rightarrow> find_node_response E k_msg ep w
       | rpc_none \<Rightarrow> Inr w)"

definition income_response :: "k_message \<Rightarrow> endpoint \<Rightarrow> 'a kad_world_scheme \<Rightarrow> 'a kad_world_scheme result" where
  "income_response k_msg ep w = Inr w"

definition rpc_income_message ::
  "ext \<Rightarrow> message \<Rightarrow> endpoint \<Rightarrow> 'a kad_world_scheme \<Rightarrow> 'a kad_world_scheme result" where
  "rpc_income_message E msg ep w =
     (case message_get_param ''kademlia'' msg of
        None \<Rightarrow> Inr w
      | Some k \<Rightarrow>
          let k_msg = k_message_of_json k
          in bind_res (k_get_message_type k_msg) (\<lambda>t.
               case t of
                 type_request \<Rightarrow> income_request E k_msg ep w
               | type_response \<Rightarrow> income_response k_msg ep w))"

section \<open>Handlers\<close>

definition null_handler :: "endpoint \<Rightarrow> 'a kad_world_scheme \<Rightarrow> 'a kad_world_scheme" where
  [simp]: "null_handler ep w = w"

text \<open>The lambda that \<open>get_remote_nodes\<close> passes for the endpoints a \<open>find_node\<close> brings.\<close>

definition ping_found_node ::
  "ext \<Rightarrow> 'a kad_world_scheme send_function \<Rightarrow> endpoint \<Rightarrow> 'a kad_world_scheme \<Rightarrow> 'a kad_world_scheme result" where
  [simp]: "ping_found_node E send ep w = ping_request E send ep H_auto_update H_null w"

text \<open>
  Calling a bound \<open>std::function\<close>: the two that \<open>send_refresh_ping\<close> binds to a bucket and a node, the
  \<open>auto_update\<close> and the \<open>null_handler\<close> bound by the lambda above, and that lambda.
\<close>

definition run_handler ::
  "ext \<Rightarrow> 'a kad_world_scheme send_function \<Rightarrow> k_handler \<Rightarrow> endpoint \<Rightarrow>
   'a kad_world_scheme \<Rightarrow> 'a kad_world_scheme result" where
  "run_handler E send h ep w =
     (case h of
        H_move_back i kn \<Rightarrow> Inr (w\<lparr>kd_table := rt_modify i (bucket_move_back kn) (kd_table w)\<rparr>)
      | H_delete_node i kn \<Rightarrow> Inr (w\<lparr>kd_table := rt_modify i (bucket_delete_node kn) (kd_table w)\<rparr>)
      | H_auto_update \<Rightarrow> Inr (w\<lparr>kd_table := drt_auto_update E ep (kd_table w)\<rparr>)
      | H_null \<Rightarrow> Inr (null_handler ep w)
      | H_ping_auto_update \<Rightarrow> ping_found_node E send ep w)"

text \<open>The lambdas posted by the observers.\<close>

definition call_pong_handler ::
  "ext \<Rightarrow> 'a kad_world_scheme send_function \<Rightarrow> uuid \<Rightarrow> 'a kad_world_scheme \<Rightarrow> 'a kad_world_scheme result" where
  "call_pong_handler E send i w =
     bind_res (os_deref i (kd_pings w)) (\<lambda>obs.
       run_handler E send (pg_pong_handler obs) (pg_dest_ep obs) w)"

definition call_timeout_handler ::
  "ext \<Rightarrow> 'a kad_world_scheme send_function \<Rightarrow> uuid \<Rightarrow> 'a kad_world_scheme \<Rightarrow> 'a kad_world_scheme result" where
  "call_timeout_handler E send i w =
     bind_res (os_deref i (kd_pings w)) (\<lambda>obs.
       run_handler E send (pg_timeout_handler obs) (pg_dest_ep obs) w)"

definition call_find_handler ::
  "ext \<Rightarrow> 'a kad_world_scheme send_function \<Rightarrow> uuid \<Rightarrow> endpoint \<Rightarrow>
   'a kad_world_scheme \<Rightarrow> 'a kad_world_scheme result" where
  "call_find_handler E send i ep w =
     bind_res (os_deref i (kd_finds w)) (\<lambda>obs.
       run_handler E send (fn_response_handler obs) ep w)"

section \<open>The layer's invariant\<close>

text \<open>A handler that names a bucket names the bucket its node belongs to.\<close>

definition handler_ok :: "k_routing_table \<Rightarrow> k_handler \<Rightarrow> bool" where
  "handler_ok rt h =
     (case h of
        H_move_back i kn \<Rightarrow> calc_branch_index rt kn = i
      | H_delete_node i kn \<Rightarrow> calc_branch_index rt kn = i
      | _ \<Rightarrow> True)"

definition kad_inv :: "'a kad_world_scheme \<Rightarrow> bool" where
  "kad_inv w \<longleftrightarrow> rt_wf (kd_table w) \<and> os_unique (kd_pings w) \<and> os_unique (kd_finds w) \<and>
     (\<forall>p \<in> set (kd_pings w). handler_ok (kd_table w) (pg_pong_handler p) \<and>
        handler_ok (kd_table w) (pg_timeout_handler p)) \<and>
     (\<forall>f \<in> set (kd_finds w). handler_ok (kd_table w) (fn_response_handler f))"

lemma handler_ok_self: "rt_self_id rt' = rt_self_id rt \<Longrightarrow> handler_ok rt' h = handler_ok rt h"
  by (cases h) (auto simp: handler_ok_def calc_branch_index_def calc_branch_def)

lemma handler_ok_simps [simp]: "handler_ok rt H_auto_update" "handler_ok rt H_null" "handler_ok rt H_ping_auto_update"
  by (simp_all add: handler_ok_def)

lemma kad_inv_same: "kad_same w w' \<Longrightarrow> kad_inv w \<Longrightarrow> kad_inv w'"
  by (simp add: kad_inv_def kad_same_def)

text \<open>A change of the table that keeps it well formed and keeps the own identifier.\<close>

lemma kad_inv_table:
  assumes "kad_inv w" and "rt_wf rt" and "rt_self_id rt = rt_self_id (kd_table w)"
  shows "kad_inv (w\<lparr>kd_table := rt\<rparr>)"
  using assms handler_ok_self [OF assms(3)] by (simp add: kad_inv_def)

lemma kad_inv_add_ping:
  assumes "kad_inv w" and "handler_ok (kd_table w) (pg_pong_handler p)"
    and "handler_ok (kd_table w) (pg_timeout_handler p)"
  shows "kad_inv (add_ping p w)"
  using assms by (auto simp: kad_inv_def add_ping_def os_add_def os_unique_def)

lemma kad_inv_add_find:
  assumes "kad_inv w" and "handler_ok (kd_table w) (fn_response_handler f)"
  shows "kad_inv (add_find f w)"
  using assms by (auto simp: kad_inv_def add_find_def os_add_def os_unique_def)

lemma kad_inv_modify_ping:
  assumes "kad_inv w"
    and "\<And>p. bo_id (f p) = bo_id p \<and> pg_pong_handler (f p) = pg_pong_handler p \<and> pg_timeout_handler (f p) = pg_timeout_handler p"
  shows "kad_inv (modify_ping i f w)"
  using assms by (auto simp: kad_inv_def set_os_modify os_modify_unique)

lemma kad_inv_modify_find:
  assumes "kad_inv w" and "\<And>p. bo_id (f p) = bo_id p \<and> fn_response_handler (f p) = fn_response_handler p"
  shows "kad_inv (modify_find i f w)"
  using assms by (auto simp: kad_inv_def set_os_modify os_modify_unique)

lemma destruct_self_simps [simp]:
  "bo_id (destruct_self obs) = bo_id obs" "bo_expire_at (destruct_self obs) = 0"
  "bo_expire_flag (destruct_self obs) = bo_expire_flag obs"
  "base_observer.more (destruct_self obs) = base_observer.more obs"
  by (simp_all add: destruct_self_def)

lemma destruct_self_ping [simp]:
  fixes p :: ping
  shows "pg_dest_ep (destruct_self p) = pg_dest_ep p" "pg_pong_handler (destruct_self p) = pg_pong_handler p"
    "pg_timeout_handler (destruct_self p) = pg_timeout_handler p"
    "pg_is_pong_arrived (destruct_self p) = pg_is_pong_arrived p"
  by (simp_all add: destruct_self_def)

lemma destruct_self_find [simp]:
  fixes f :: find_node
  shows "fn_response_handler (destruct_self f) = fn_response_handler f"
  by (simp add: destruct_self_def)

lemma extend_expire_simps [simp]:
  "bo_id (extend_expire_at n t obs) = bo_id obs" "bo_expire_at (extend_expire_at n t obs) = n + t"
  "bo_expire_flag (extend_expire_at n t obs) = bo_expire_flag obs"
  by (simp_all add: extend_expire_at_def)

lemma extend_expire_ping [simp]:
  fixes p :: ping
  shows "pg_dest_ep (extend_expire_at n t p) = pg_dest_ep p"
    "pg_pong_handler (extend_expire_at n t p) = pg_pong_handler p"
    "pg_timeout_handler (extend_expire_at n t p) = pg_timeout_handler p"
    "pg_is_pong_arrived (extend_expire_at n t p) = pg_is_pong_arrived p"
  by (simp_all add: extend_expire_at_def)

lemma ping_new_simps [simp]:
  "pg_dest_ep (fst (ping_new E ep ph th w)) = ep" "pg_pong_handler (fst (ping_new E ep ph th w)) = ph"
  "pg_timeout_handler (fst (ping_new E ep ph th w)) = th"
  "pg_is_pong_arrived (fst (ping_new E ep ph th w)) = False"
  "bo_expire_flag (fst (ping_new E ep ph th w)) = False"
  "snd (ping_new E ep ph th w) = snd (base_observer_new E ''k_observer:ping'' w)"
  "bo_id (fst (ping_new E ep ph th w)) = bo_id (fst (base_observer_new E ''k_observer:ping'' w))"
  by (auto simp: ping_new_def base_observer.defs ping.defs Let_def split: prod.splits)
    (auto simp: base_observer_new_def fresh_uuid_def Let_def split: if_splits)

lemma kad_same_new [simp, intro]: "kad_same w (snd (base_observer_new E t w))"
  using base_observer_new_world [of E t w] by auto


text \<open>A request, as the message it sends and the world it sends it in.\<close>

lemma ping_request_eq:
  "ping_request E send ep ph th w =
     (let b = fst (ping_new E ep ph th w); w1 = snd (ping_new E ep ph th w)
      in send ep ''kademlia'' (ping_body E ''request'' (bo_id b))
           (add_ping (extend_expire_at (w_now w1) 6 b) (timer_set (T_ping_timeout (bo_id b)) 4 w1)))"
proof (cases "ping_new E ep ph th w")
  case (Pair b w1)
  have "bind_res (k_request rpc_ping) (\<lambda>m. bind_res (k_set_observer_id E i m) F) = F (ping_body E ''request'' i)"
    for i and F :: "k_message \<Rightarrow> 'b result"
    using ping_request_body [of E i] bind_res_assoc [of "k_request rpc_ping" "k_set_observer_id E i" F] by simp
  then show ?thesis by (simp add: ping_request_def Pair ping_init_def Let_def k_encode_def)
qed

lemma find_node_request_eq:
  "find_node_request E send ep ign h w =
     (let b = fst (find_node_new E h w); w1 = snd (find_node_new E h w)
      in send ep ''kademlia'' (find_body E (bo_id b) ign) (add_find b w1))"
proof (cases "find_node_new E h w")
  case (Pair b w1)
  have "bind_res (k_request rpc_find_node) (\<lambda>m. bind_res (k_set_observer_id E i m)
      (\<lambda>m'. bind_res (k_set_ignore_endpoint E ign m') F)) = F (find_body E i ign)"
    for i and F :: "k_message \<Rightarrow> 'b result"
  proof -
    have "bind_res (k_request rpc_find_node) (\<lambda>m. bind_res (k_set_observer_id E i m)
      (\<lambda>m'. bind_res (k_set_ignore_endpoint E ign m') F)) =
      bind_res (bind_res (k_request rpc_find_node)
        (\<lambda>m. bind_res (k_set_observer_id E i m) (k_set_ignore_endpoint E ign))) F"
      by (simp add: bind_res_assoc)
    then show ?thesis by (simp add: find_request_body)
  qed
  then show ?thesis by (simp add: find_node_request_def Pair find_node_init_def Let_def k_encode_def)
qed

lemma find_node_new_simps [simp]:
  "fn_response_handler (fst (find_node_new E h w)) = h"
  "snd (find_node_new E h w) = snd (base_observer_new E ''k_observer:find_node'' w)"
  by (auto simp: find_node_new_def base_observer.defs find_node.defs Let_def split: prod.splits)

section \<open>The interface the RPC layer sends through\<close>

text \<open>
  Whatever a send function does below, it does not touch the Kademlia layer and takes no turn of the
  event loop.
\<close>

locale send_func =
  fixes send :: "'w kad_world_scheme send_function"
  assumes send_kad: "send ep param payload w = Inr w' \<Longrightarrow> kad_same w w'"
    and send_io: "send ep param payload w = Inr w' \<Longrightarrow>
      w_now w' = w_now w \<and> w_queue w' = w_queue w \<and> w_timers w' = w_timers w"
begin

text \<open>What a ping request leaves behind: its observer, with a timer 4 s ahead and an expiry 6 s ahead.\<close>

lemma ping_request_state:
  assumes "ping_request E send ep ph th w = Inr w'"
  defines "b \<equiv> fst (ping_new E ep ph th w)"
  shows "kd_pings w' = snd (os_add (extend_expire_at (w_now w) 6 b) (kd_pings w))"
    and "kd_table w' = kd_table w" and "kd_finds w' = kd_finds w"
    and "kd_requires_tick w' = kd_requires_tick w" and "w_now w' = w_now w"
    and "w_timers w' = filter (\<lambda>(_, u). u \<noteq> T_ping_timeout (bo_id b)) (w_timers w)
           @ [(w_now w + 4, T_ping_timeout (bo_id b))]"
    and "w_queue w' = w_queue w @ map snd (filter (\<lambda>(_, u). u = T_ping_timeout (bo_id b)) (w_timers w))"
proof -
  let ?w1 = "snd (ping_new E ep ph th w)"
  let ?w2 = "timer_set (T_ping_timeout (bo_id b)) 4 ?w1"
  obtain n where n: "?w1 = w\<lparr>w_uuids := n\<rparr>"
    using base_observer_new_world [of E _ w] by auto
  have "send ep ''kademlia'' (ping_body E ''request'' (bo_id b)) (add_ping (extend_expire_at (w_now w) 6 b) ?w2) = Inr w'"
    using assms(1) n unfolding ping_request_eq Let_def b_def by simp
  note k = send_kad [OF this] send_io [OF this]
  show "kd_pings w' = snd (os_add (extend_expire_at (w_now w) 6 b) (kd_pings w))"
    and "kd_table w' = kd_table w" and "kd_finds w' = kd_finds w"
    and "kd_requires_tick w' = kd_requires_tick w" and "w_now w' = w_now w"
    and "w_timers w' = filter (\<lambda>(_, u). u \<noteq> T_ping_timeout (bo_id b)) (w_timers w)
           @ [(w_now w + 4, T_ping_timeout (bo_id b))]"
    and "w_queue w' = w_queue w @ map snd (filter (\<lambda>(_, u). u = T_ping_timeout (bo_id b)) (w_timers w))"
    using k n kad_same_io(3) [of ?w1 "T_ping_timeout (bo_id b)" 4]
    by (simp_all add: kad_same_def add_ping_def)
qed

lemma ping_request_inv [wf_ops]:
  assumes "ping_request E send ep ph th w = Inr w'" and "kad_inv w"
    and "handler_ok (kd_table w) ph" and "handler_ok (kd_table w) th"
  shows "kad_inv w'"
proof -
  let ?p = "extend_expire_at (w_now w) 6 (fst (ping_new E ep ph th w))"
  have "kad_inv (add_ping ?p w)" using assms by (intro kad_inv_add_ping) simp_all
  then show ?thesis using ping_request_state(1-3) [OF assms(1)] by (simp add: kad_inv_def add_ping_def)
qed

lemma find_node_request_state:
  assumes "find_node_request E send ep ign h w = Inr w'"
  defines "b \<equiv> fst (find_node_new E h w)"
  shows "kd_finds w' = snd (os_add b (kd_finds w))"
    and "kd_table w' = kd_table w" and "kd_pings w' = kd_pings w"
    and "kd_requires_tick w' = kd_requires_tick w" and "w_now w' = w_now w"
    and "w_timers w' = w_timers w" and "w_queue w' = w_queue w"
proof -
  let ?w1 = "snd (find_node_new E h w)"
  obtain n where n: "?w1 = w\<lparr>w_uuids := n\<rparr>"
    using base_observer_new_world [of E _ w] by auto
  have "send ep ''kademlia'' (find_body E (bo_id b) ign) (add_find b ?w1) = Inr w'"
    using assms(1) unfolding find_node_request_eq Let_def b_def .
  note k = send_kad [OF this] send_io [OF this]
  show "kd_finds w' = snd (os_add b (kd_finds w))"
    and "kd_table w' = kd_table w" and "kd_pings w' = kd_pings w"
    and "kd_requires_tick w' = kd_requires_tick w" and "w_now w' = w_now w"
    and "w_timers w' = w_timers w" and "w_queue w' = w_queue w"
    using k n by (simp_all add: kad_same_def add_find_def)
qed

lemma find_node_request_inv [wf_ops]:
  assumes "find_node_request E send ep ign h w = Inr w'" and "kad_inv w" and "handler_ok (kd_table w) h"
  shows "kad_inv w'"
proof -
  have "kad_inv (add_find (fst (find_node_new E h w)) w)" using assms by (intro kad_inv_add_find) simp_all
  then show ?thesis using find_node_request_state [OF assms(1)] by (simp add: kad_inv_def add_find_def)
qed

lemma run_handler_inv [wf_ops]:
  assumes "run_handler E send h ep w = Inr w'" and "kad_inv w" and "handler_ok (kd_table w) h"
  shows "kad_inv w'"
proof (cases h)
  case (H_move_back i kn)
  then have "w' = w\<lparr>kd_table := rt_modify i (bucket_move_back kn) (kd_table w)\<rparr>"
    using assms(1) by (simp add: run_handler_def)
  moreover have "rt_wf (rt_modify i (bucket_move_back kn) (kd_table w))"
    using assms(2,3) H_move_back by (intro mb.modify_wf) (auto simp: kad_inv_def handler_ok_def)
  ultimately show ?thesis using kad_inv_table [OF assms(2)] by simp
next
  case (H_delete_node i kn)
  then have "w' = w\<lparr>kd_table := rt_modify i (bucket_delete_node kn) (kd_table w)\<rparr>"
    using assms(1) by (simp add: run_handler_def)
  moreover have "rt_wf (rt_modify i (bucket_delete_node kn) (kd_table w))"
    using assms(2,3) H_delete_node by (intro dn.modify_wf) (auto simp: kad_inv_def handler_ok_def)
  ultimately show ?thesis using kad_inv_table [OF assms(2)] by simp
next
  case H_auto_update
  then have "w' = w\<lparr>kd_table := drt_auto_update E ep (kd_table w)\<rparr>"
    using assms(1) by (simp add: run_handler_def)
  moreover have "rt_wf (drt_auto_update E ep (kd_table w))"
    using assms(2) by (simp add: kad_inv_def drt_auto_update_wf)
  ultimately show ?thesis using kad_inv_table [OF assms(2)] by simp
next
  case H_null
  then show ?thesis using assms(1,2) by (simp add: run_handler_def)
next
  case H_ping_auto_update
  then have "ping_request E send ep H_auto_update H_null w = Inr w'"
    using assms(1) by (simp add: run_handler_def)
  then show ?thesis using assms(2) by (rule ping_request_inv) simp_all
qed

lemma call_handlers_inv [wf_ops]:
  "call_pong_handler E send i w = Inr w' \<Longrightarrow> kad_inv w \<Longrightarrow> kad_inv w'"
  "call_timeout_handler E send i w = Inr w' \<Longrightarrow> kad_inv w \<Longrightarrow> kad_inv w'"
  "call_find_handler E send i ep w = Inr w' \<Longrightarrow> kad_inv w \<Longrightarrow> kad_inv w'"
proof -
  have ok: "handler_ok (kd_table w) (pg_pong_handler p)" "handler_ok (kd_table w) (pg_timeout_handler p)"
    if "os_deref i (kd_pings w) = Inr p" "kad_inv w" for p
    using that by (auto simp: kad_inv_def dest!: os_deref_Inr)
  have ok': "handler_ok (kd_table w) (fn_response_handler f)"
    if "os_deref i (kd_finds w) = Inr f" "kad_inv w" for f
    using that by (auto simp: kad_inv_def dest!: os_deref_Inr)
  show "call_pong_handler E send i w = Inr w' \<Longrightarrow> kad_inv w \<Longrightarrow> kad_inv w'"
    unfolding call_pong_handler_def bind_res_Inr using run_handler_inv ok(1) by blast
  show "call_timeout_handler E send i w = Inr w' \<Longrightarrow> kad_inv w \<Longrightarrow> kad_inv w'"
    unfolding call_timeout_handler_def bind_res_Inr using run_handler_inv ok(2) by blast
  show "call_find_handler E send i ep w = Inr w' \<Longrightarrow> kad_inv w \<Longrightarrow> kad_inv w'"
    unfolding call_find_handler_def bind_res_Inr using run_handler_inv ok' by blast
qed

end

lemma sender_frame:
  assumes "sender_async_send E dest param payload w = Inr w'"
  shows "kad_same w w'" and "w_now w' = w_now w \<and> w_queue w' = w_queue w \<and> w_timers w' = w_timers w"
  using sender_async_send_frame [OF assms] by auto

text \<open>The plain sender meets the contract.\<close>

interpretation plain: send_func "sender_async_send E"
  by unfold_locales (auto dest: sender_frame)

end
