(* ===== verification/SS_DhtManager.thy ===== *)
theory SS_DhtManager
  imports SS_RpcManager
begin

text \<open>
  \<open>kademlia/dht_manager.hpp\<close>, \<open>kademlia/dht_manager.cpp\<close> and \<open>kademlia/connection_maintainer.cpp\<close>:
  the entry point of Kademlia messages, and the periodic maintenance: ping every node of the table,
  6 s later ask for nodes when fewer than five are left, then wait for the next round.
\<close>

abbreviation MINIMUM_NODES :: nat where
  "MINIMUM_NODES \<equiv> 5"

lemma bind_res_cong [fundef_cong]:
  "m = m' \<Longrightarrow> (\<And>x. m' = Inr x \<Longrightarrow> f x = g x) \<Longrightarrow> bind_res m f = bind_res m' g"
  by (cases m') auto

section \<open>Incoming messages\<close>

definition dht_income_message ::
  "ext \<Rightarrow> message \<Rightarrow> endpoint \<Rightarrow> 'a kad_world_scheme \<Rightarrow> 'a kad_world_scheme result" where
  "dht_income_message E msg ep w =
     (case message_get_param ''kademlia'' msg of
        None \<Rightarrow> Inr w
      | Some k \<Rightarrow>
          let k_msg = k_message_of_json k
          in bind_res (k_get_rpc k_msg) (\<lambda>rpc.
               bind_res (k_get_observer_id E k_msg) (\<lambda>obs_id.
                 case rpc of
                   rpc_ping \<Rightarrow>
                     (case os_find obs_id (kd_pings w) of
                        obs # _ \<Rightarrow> ping_income_message (bo_id obs) w
                      | [] \<Rightarrow> rpc_income_message E msg ep w)
                 | rpc_find_node \<Rightarrow>
                     (case os_find obs_id (kd_finds w) of
                        obs # _ \<Rightarrow> find_node_income_message E (bo_id obs) msg w
                      | [] \<Rightarrow> rpc_income_message E msg ep w)
                 | rpc_none \<Rightarrow> rpc_income_message E msg ep w)))"

text \<open>The routing table keeps the identifier it was built with.\<close>

definition dht_update_global_self_endpoint ::
  "ext \<Rightarrow> endpoint \<Rightarrow> 'a kad_world_scheme \<Rightarrow> 'a kad_world_scheme" where
  "dht_update_global_self_endpoint E ep w = w\<lparr>kd_self_ep := ep, kd_self_id := calc_node_id E ep\<rparr>"

section \<open>The connection maintainer\<close>

text \<open>One timer serves both \<open>tick\<close> and \<open>get_remote_nodes\<close>.\<close>

definition maintainer_timer_set :: "task \<Rightarrow> int \<Rightarrow> 'a io_world_scheme \<Rightarrow> 'a io_world_scheme" where
  "maintainer_timer_set t secs w =
     timer_set t secs (timer_cancel T_get_remote_nodes (timer_cancel T_maintainer_tick w))"

definition ping_bucket_nodes ::
  "ext \<Rightarrow> 'a kad_world_scheme send_function \<Rightarrow> nat \<Rightarrow> k_node list \<Rightarrow>
   'a kad_world_scheme \<Rightarrow> 'a kad_world_scheme result" where
  "ping_bucket_nodes E send idx nodes w =
     fold_res (\<lambda>itr. ping_request E send (kn_ep itr) (H_move_back idx itr) (H_delete_node idx itr)) nodes w"

function refresh_loop ::
  "ext \<Rightarrow> 'a kad_world_scheme send_function \<Rightarrow> k_bucket_iterator \<Rightarrow>
   'a kad_world_scheme \<Rightarrow> 'a kad_world_scheme result" where
  "refresh_loop E send bucket_itr w =
     (if it_is_invalid bucket_itr then Inr w
      else bind_res (it_get_nodes (kd_table w) bucket_itr) (\<lambda>bucket_nodes.
             bind_res (ping_bucket_nodes E send (nat (it_bucket bucket_itr)) bucket_nodes w) (\<lambda>w1.
               refresh_loop E send (snd (it_post_inc bucket_itr)) w1)))"
  by pat_completeness auto
termination
  by (relation "measure (\<lambda>(E, send, it, w). nat (161 - it_branch it))")
    (auto simp: it_is_invalid_def it_post_inc_def Let_def)

declare refresh_loop.simps [simp del]

definition send_refresh_ping ::
  "ext \<Rightarrow> 'a kad_world_scheme send_function \<Rightarrow> 'a kad_world_scheme \<Rightarrow> (int \<times> 'a kad_world_scheme) result" where
  "send_refresh_ping E send w =
     map_res (\<lambda>w1. (DEFAULT_PING_RESPONSE_TIMEOUT_s, w1))
       (refresh_loop E send drt_get_begin_bucket_iterator w)"

definition maintainer_tick ::
  "ext \<Rightarrow> 'a kad_world_scheme send_function \<Rightarrow> 'a kad_world_scheme \<Rightarrow> 'a kad_world_scheme result" where
  "maintainer_tick E send w =
     (if \<not> kd_requires_tick w then Inr w
      else bind_res (send_refresh_ping E send w) (\<lambda>(refresh_ping_done_time, w1).
             Inr (maintainer_timer_set T_get_remote_nodes (refresh_ping_done_time + 1) w1)))"

definition maintainer_tick_done :: "'a kad_world_scheme \<Rightarrow> 'a kad_world_scheme" where
  "maintainer_tick_done w =
     (let node_count = drt_get_node_count (kd_table w);
          next_tick_time_s = (if node_count < MINIMUM_NODES then 10 else int node_count * 20)
      in if \<not> kd_requires_tick w then w
         else maintainer_timer_set T_maintainer_tick next_tick_time_s w)"

definition get_remote_nodes ::
  "ext \<Rightarrow> 'a kad_world_scheme send_function \<Rightarrow> 'a kad_world_scheme \<Rightarrow> 'a kad_world_scheme result" where
  "get_remote_nodes E send w =
     map_res maintainer_tick_done
       (if drt_get_node_count (kd_table w) < MINIMUM_NODES then
          let request_eps = drt_collect_endpoint E (kd_table w) any_endpoint 5 []
          in fold_res (\<lambda>itr. find_node_request E send itr request_eps H_ping_auto_update) request_eps w
        else Inr w)"

section \<open>Start, stop, and the tasks of the layer\<close>

definition dht_manager_new :: "ext \<Rightarrow> endpoint \<Rightarrow> 'a kad_world_scheme \<Rightarrow> 'a kad_world_scheme" where
  "dht_manager_new E ep w =
     kad_call_tick (w\<lparr>kd_self_ep := ep, kd_self_id := calc_node_id E ep,
       kd_table := rt_new (calc_node_id E ep), kd_pings := [], kd_finds := [], kd_requires_tick := False\<rparr>)"

definition dht_start ::
  "ext \<Rightarrow> 'a kad_world_scheme send_function \<Rightarrow> 'a kad_world_scheme \<Rightarrow> 'a kad_world_scheme result" where
  "dht_start E send w = maintainer_tick E send (w\<lparr>kd_requires_tick := True\<rparr>)"

definition dht_stop :: "'a kad_world_scheme \<Rightarrow> 'a kad_world_scheme" where
  "dht_stop w = w\<lparr>kd_requires_tick := False\<rparr>"

text \<open>Running a task of this layer; the tasks of the others leave it alone.\<close>

definition kad_task ::
  "ext \<Rightarrow> 'a kad_world_scheme send_function \<Rightarrow> task \<Rightarrow> 'a kad_world_scheme \<Rightarrow> 'a kad_world_scheme result" where
  "kad_task E send t w =
     (case t of
        T_ping_timeout i \<Rightarrow> ping_timeout i w
      | T_call_timeout i \<Rightarrow> call_timeout_handler E send i w
      | T_call_pong i \<Rightarrow> call_pong_handler E send i w
      | T_call_find i ep \<Rightarrow> call_find_handler E send i ep w
      | T_get_remote_nodes \<Rightarrow> get_remote_nodes E send w
      | T_maintainer_tick \<Rightarrow> maintainer_tick E send w
      | T_kad_refresh \<Rightarrow> Inr (kad_refresh_tick w)
      | _ \<Rightarrow> Inr w)"

section \<open>Every operation keeps the invariant\<close>

lemma kad_inv_flag [simp]: "kad_inv (w\<lparr>kd_requires_tick := b\<rparr>) = kad_inv w"
  "kad_inv (w\<lparr>kd_self_ep := ep\<rparr>) = kad_inv w" "kad_inv (w\<lparr>kd_self_id := i\<rparr>) = kad_inv w"
  by (simp_all add: kad_inv_def)

lemma kad_inv_io [simp]:
  "kad_inv (io_post t w) = kad_inv w" "kad_inv (timer_cancel t w) = kad_inv w"
  "kad_inv (timer_set t s w) = kad_inv w" "kad_inv (socket_send d b w) = kad_inv w"
  "kad_inv (maintainer_timer_set t s w) = kad_inv w"
  by (simp_all add: kad_inv_def maintainer_timer_set_def)

lemma kad_inv_queue [simp]: "kad_inv (w\<lparr>w_queue := q\<rparr>) = kad_inv w"
  "kad_inv (w\<lparr>w_timers := ts\<rparr>) = kad_inv w" "kad_inv (w\<lparr>w_now := n\<rparr>) = kad_inv w"
  by (simp_all add: kad_inv_def)

lemma kad_inv_posts [simp]: "kad_inv (fold (\<lambda>itr. io_post (f itr)) xs w) = kad_inv w"
  by (induction xs arbitrary: w) auto

lemma kad_refresh_inv [wf_ops]: "kad_inv w \<Longrightarrow> kad_inv (kad_refresh_tick w)"
  by (auto simp: kad_inv_def os_delete_expires_filter os_filter_unique)

lemma ping_income_inv [wf_ops]: "ping_income_message i w = Inr w' \<Longrightarrow> kad_inv w \<Longrightarrow> kad_inv w'"
  by (auto simp: ping_income_message_def res_inv Let_def intro!: kad_inv_modify_ping)

lemma ping_timeout_inv [wf_ops]: "ping_timeout i w = Inr w' \<Longrightarrow> kad_inv w \<Longrightarrow> kad_inv w'"
  by (auto simp: ping_timeout_def res_inv intro!: kad_inv_modify_ping split: if_splits)

lemma find_node_income_inv [wf_ops]: "find_node_income_message E i m w = Inr w' \<Longrightarrow> kad_inv w \<Longrightarrow> kad_inv w'"
  by (auto simp: find_node_income_message_def res_inv intro!: kad_inv_modify_find split: option.splits)

lemma ping_response_inv [wf_ops]:
  assumes "ping_response E k ep w = Inr w'" and "kad_inv w"
  shows "kad_inv w'"
proof -
  obtain k' w1 where "sender_async_send E ep ''kademlia'' k' w = Inr w1"
    and w': "w' = w1\<lparr>kd_table := drt_auto_update_batch E [ep] (kd_table w1)\<rparr>"
    using assms(1) by (auto simp: ping_response_def res_inv)
  then have inv: "kad_inv w1" using sender_frame(1) kad_inv_same assms(2) by blast
  then have "rt_wf (drt_auto_update_batch E [ep] (kd_table w1))"
    by (intro drt_auto_update_batch_wf) (simp add: kad_inv_def)
  then show ?thesis unfolding w' using inv by (intro kad_inv_table) simp_all
qed

lemma find_node_response_inv [wf_ops]: "find_node_response E k ep w = Inr w' \<Longrightarrow> kad_inv w \<Longrightarrow> kad_inv w'"
  by (auto simp: find_node_response_def res_inv Let_def dest: sender_frame(1) kad_inv_same)

lemma rpc_income_inv [wf_ops]: "rpc_income_message E m ep w = Inr w' \<Longrightarrow> kad_inv w \<Longrightarrow> kad_inv w'"
  by (auto simp: rpc_income_message_def income_request_def income_response_def res_inv Let_def
      intro: ping_response_inv find_node_response_inv
      split: option.splits k_message_type.splits k_rpc.splits)
    (meson k_rpc.exhaust k_message_type.exhaust)+

lemma dht_income_inv [wf_ops]: "dht_income_message E m ep w = Inr w' \<Longrightarrow> kad_inv w \<Longrightarrow> kad_inv w'"
  by (auto simp: dht_income_message_def res_inv Let_def
      intro: rpc_income_inv ping_income_inv find_node_income_inv
      split: option.splits k_rpc.splits list.splits)
    (meson k_rpc.exhaust)+

lemma dht_manager_new_inv [wf_ops]: "kad_inv (dht_manager_new E ep w)"
  by (simp add: dht_manager_new_def kad_call_tick_def kad_inv_def rt_new_wf)

lemma tick_done_inv [simp]: "kad_inv (maintainer_tick_done w) = kad_inv w"
  by (simp add: maintainer_tick_done_def Let_def)

context send_func
begin

lemma ping_nodes_inv:
  assumes "ping_bucket_nodes E send i nodes w = Inr w'" and "kad_inv w"
    and "\<forall>n \<in> set nodes. calc_branch_index (kd_table w) n = i"
  shows "kad_inv w' \<and> kd_table w' = kd_table w"
  using assms unfolding ping_bucket_nodes_def
proof (induction nodes arbitrary: w)
  case (Cons n nodes)
  then obtain w1 where w1: "ping_request E send (kn_ep n) (H_move_back i n) (H_delete_node i n) w = Inr w1"
    and rest: "fold_res (\<lambda>itr. ping_request E send (kn_ep itr) (H_move_back i itr) (H_delete_node i itr)) nodes w1 = Inr w'"
    by (auto simp: res_inv)
  have "kad_inv w1"
    using Cons.prems(3) by (intro ping_request_inv [OF w1 Cons.prems(2)]) (simp_all add: handler_ok_def)
  moreover have "kd_table w1 = kd_table w" by (rule ping_request_state(2) [OF w1])
  ultimately show ?case using Cons.IH [OF rest] Cons.prems(3) by simp
qed simp

lemma refresh_loop_step:
  assumes "refresh_loop E send it w = Inr w'" and "rt_wf (kd_table w)" and "\<not> it_is_invalid it"
    and "it_bucket it = it_branch it - 1"
  defines "i \<equiv> nat (it_bucket it)"
  obtains w1 where "ping_bucket_nodes E send i (rt_table (kd_table w) ! i) w = Inr w1"
    and "refresh_loop E send (snd (it_post_inc it)) w1 = Inr w'" and "i < 160"
proof -
  have it: "1 \<le> it_branch it" "it_branch it \<le> 160" using assms(3) by (auto simp: it_is_invalid_def)
  then have "it_get_nodes (kd_table w) it = Inr (rt_table (kd_table w) ! i)"
    using assms(3,4) rt_wfD(1) [OF assms(2)] by (simp add: it_get_nodes_def it_deref_def bucket_get_nodes_def i_def)
  with assms(1,3) obtain w1 where "ping_bucket_nodes E send i (rt_table (kd_table w) ! i) w = Inr w1"
    and "refresh_loop E send (snd (it_post_inc it)) w1 = Inr w'"
    by (subst (asm) refresh_loop.simps) (auto simp: res_inv i_def)
  moreover have "i < 160" using it assms(4) by (simp add: i_def)
  ultimately show ?thesis by (rule that)
qed

lemma refresh_loop_inv:
  assumes "refresh_loop E send it w = Inr w'" and "kad_inv w"
    and "it_bucket it = it_branch it - 1 \<or> it_is_invalid it"
  shows "kad_inv w' \<and> kd_table w' = kd_table w"
  using assms
proof (induction "nat (161 - it_branch it)" arbitrary: it w rule: less_induct)
  case less
  show ?case
  proof (cases "it_is_invalid it")
    case True
    then show ?thesis using less.prems by (simp add: refresh_loop.simps)
  next
    case False
    then have b: "it_bucket it = it_branch it - 1" using less.prems(3) by simp
    have wf: "rt_wf (kd_table w)" using less.prems(2) by (simp add: kad_inv_def)
    from refresh_loop_step [OF less.prems(1) wf False b] obtain w1 where
      w1: "ping_bucket_nodes E send (nat (it_bucket it)) (rt_table (kd_table w) ! nat (it_bucket it)) w = Inr w1"
      and rest: "refresh_loop E send (snd (it_post_inc it)) w1 = Inr w'" and i: "nat (it_bucket it) < 160" .
    have inv: "kad_inv w1 \<and> kd_table w1 = kd_table w"
      using rt_wfD(3) [OF wf i] by (intro ping_nodes_inv [OF w1 less.prems(2)]) blast
    have "kad_inv w' \<and> kd_table w' = kd_table w1"
    proof (rule less.hyps [OF _ rest])
      show "nat (161 - it_branch (snd (it_post_inc it))) < nat (161 - it_branch it)"
        using False by (auto simp: it_is_invalid_def it_post_inc_def Let_def)
      show "it_bucket (snd (it_post_inc it)) = it_branch (snd (it_post_inc it)) - 1 \<or> it_is_invalid (snd (it_post_inc it))"
        using b by (auto simp: it_post_inc_def it_is_invalid_def Let_def)
    qed (use inv in blast)
    then show ?thesis using inv by simp
  qed
qed

lemma send_refresh_ping_inv:
  "send_refresh_ping E send w = Inr (t, w') \<Longrightarrow> kad_inv w \<Longrightarrow> kad_inv w' \<and> kd_table w' = kd_table w \<and> t = 5"
  using refresh_loop_inv [of E drt_get_begin_bucket_iterator w]
  by (auto simp: send_refresh_ping_def res_inv drt_get_begin_bucket_iterator_def rt_get_begin_bucket_iterator_def)

lemma maintainer_tick_inv [wf_ops]:
  "maintainer_tick E send w = Inr w' \<Longrightarrow> kad_inv w \<Longrightarrow> kad_inv w'"
  using send_refresh_ping_inv [of E w] by (auto simp: maintainer_tick_def res_inv split: if_splits)

lemma get_remote_nodes_inv [wf_ops]:
  assumes "get_remote_nodes E send w = Inr w'" and "kad_inv w"
  shows "kad_inv w'"
proof -
  let ?eps = "drt_collect_endpoint E (kd_table w) any_endpoint 5 []"
  obtain w1 where w': "w' = maintainer_tick_done w1"
    and w1: "fold_res (\<lambda>itr. find_node_request E send itr ?eps H_ping_auto_update) ?eps w = Inr w1 \<or> w1 = w"
    using assms(1) by (auto simp: get_remote_nodes_def res_inv Let_def split: if_splits)
  have "kad_inv w1"
    using w1
  proof
    assume "fold_res (\<lambda>itr. find_node_request E send itr ?eps H_ping_auto_update) ?eps w = Inr w1"
    then show ?thesis
      by (rule fold_res_invariant [where P = kad_inv]) (use assms(2) find_node_request_inv in auto)
  qed (use assms(2) in simp)
  then show ?thesis using w' by simp
qed

lemma kad_task_inv [wf_ops]: "kad_task E send t w = Inr w' \<Longrightarrow> kad_inv w \<Longrightarrow> kad_inv w'"
  unfolding kad_task_def
  by (cases t) (auto intro: ping_timeout_inv call_handlers_inv get_remote_nodes_inv maintainer_tick_inv kad_refresh_inv)

lemma dht_start_inv [wf_ops]: "dht_start E send w = Inr w' \<Longrightarrow> kad_inv w \<Longrightarrow> kad_inv w'"
  by (auto simp: dht_start_def dest: maintainer_tick_inv)

end

end
