(* ===== verification/SS_IceMessage.thy ===== *)
theory SS_IceMessage
  imports SS_KMessage
begin

text \<open>
  \<open>ice_agent/ice_message.hpp\<close>, \<open>ice_agent/ice_message.cpp\<close>: the messages of signaling and STUN. The
  controllers hold a reference to the body, so their setters change the message; a field is read
  through the non-const \<open>operator[]\<close>, which inserts a null for a missing key. Where the inserted null
  makes the same expression throw, the model returns the error only.
\<close>

datatype ice_protocol = protocol_signaling | protocol_stun | protocol_none

text \<open>The enums, by their numbers: they travel as numbers.\<close>

abbreviation STUN_BINDING_REQUEST :: int where "STUN_BINDING_REQUEST \<equiv> 0"
abbreviation STUN_BINDING_RESPONSE :: int where "STUN_BINDING_RESPONSE \<equiv> 1"
abbreviation SIGNALING_REQUEST :: int where "SIGNALING_REQUEST \<equiv> 0"
abbreviation SIGNALING_RESPONSE :: int where "SIGNALING_RESPONSE \<equiv> 1"
abbreviation SIGNALING_RELAY :: int where "SIGNALING_RELAY \<equiv> 2"

record ice_message =
  im_body :: json
  im_protocol :: ice_protocol

definition im_set :: "string \<Rightarrow> json \<Rightarrow> ice_message \<Rightarrow> ice_message result" where
  "im_set k v m = map_res (\<lambda>b. m\<lparr>im_body := b\<rparr>) (json_set k v (im_body m))"

definition ice_set_protocol :: "ice_protocol \<Rightarrow> ice_message \<Rightarrow> ice_message result" where
  "ice_set_protocol p m =
     map_res (\<lambda>m'. m'\<lparr>im_protocol := p\<rparr>)
       (case p of
          protocol_signaling \<Rightarrow> im_set ''protocol'' (JStr ''signaling'') m
        | protocol_stun \<Rightarrow> im_set ''protocol'' (JStr ''stun'') m
        | protocol_none \<Rightarrow> im_set ''protocol'' (JStr ''none'') m)"

definition ice_message_new :: "ice_protocol \<Rightarrow> ice_message result" where
  "ice_message_new p =
     bind_res (ice_set_protocol p \<lparr>im_body = JNull, im_protocol = p\<rparr>) (\<lambda>m.
       bind_res (im_set ''relay_eps'' (JArr []) m) (im_set ''ttl'' (JInt 5)))"

definition ice_signaling :: "ice_message result" where
  "ice_signaling = ice_message_new protocol_signaling"

definition ice_stun :: "ice_message result" where
  "ice_stun = ice_message_new protocol_stun"

definition ice_message_of_json :: "json \<Rightarrow> ice_message result" where
  "ice_message_of_json from =
     map_res (\<lambda>(v, b).
       \<lparr>im_body = b,
        im_protocol = (if v = JStr ''signaling'' then protocol_signaling
                       else if v = JStr ''stun'' then protocol_stun else protocol_none)\<rparr>)
       (json_index ''protocol'' from)"

definition ice_get_protocol :: "ice_message \<Rightarrow> ice_protocol" where
  "ice_get_protocol m = im_protocol m"

definition ice_encode :: "ice_message \<Rightarrow> json" where
  "ice_encode m = im_body m"

definition ice_set_param :: "string \<Rightarrow> string \<Rightarrow> ice_message \<Rightarrow> ice_message result" where
  "ice_set_param key value m = im_set key (JStr value) m"

definition ice_set_observer_id :: "ext \<Rightarrow> uuid \<Rightarrow> ice_message \<Rightarrow> ice_message result" where
  "ice_set_observer_id E u m = ice_set_param ''observer_id'' (observer_id_to_str E u) m"

definition ice_get_observer_id :: "ext \<Rightarrow> ice_message \<Rightarrow> uuid result" where
  "ice_get_observer_id E m = get_param_observer_id E ''observer_id'' (im_body m)"

section \<open>Both controllers: the sub-protocol\<close>

definition ice_set_sub_protocol :: "int \<Rightarrow> ice_message \<Rightarrow> ice_message result" where
  "ice_set_sub_protocol p m = im_set ''sub_protocol'' (JInt p) m"

definition ice_get_sub_protocol :: "ice_message \<Rightarrow> int result" where
  "ice_get_sub_protocol m = bind_res (json_index ''sub_protocol'' (im_body m)) (\<lambda>(v, _). json_get_enum v)"

text \<open>An address and a port under two keys.\<close>

definition im_set_endpoint :: "ext \<Rightarrow> string \<Rightarrow> string \<Rightarrow> endpoint \<Rightarrow> ice_message \<Rightarrow> ice_message result" where
  "im_set_endpoint E kip kport ep m =
     bind_res (im_set kip (JStr (x_ip_to_string E (ep_address ep))) m)
       (im_set kport (JInt (uint (ep_port ep))))"

definition im_get_endpoint :: "ext \<Rightarrow> string \<Rightarrow> string \<Rightarrow> ice_message \<Rightarrow> endpoint result" where
  "im_get_endpoint E kip kport m =
     bind_res (json_index kip (im_body m)) (\<lambda>(v, _).
       bind_res (json_get_string v) (\<lambda>ip.
         bind_res (json_index kport (im_body m)) (\<lambda>(v', _).
           bind_res (json_get_ushort v') (addr_pair_to_endpoint E ip))))"

section \<open>The STUN controller\<close>

definition stun_set_global_ep :: "ext \<Rightarrow> endpoint \<Rightarrow> ice_message \<Rightarrow> ice_message result" where
  "stun_set_global_ep E ep m = im_set_endpoint E ''global_ip'' ''global_port'' ep m"

text \<open>The optional is always set.\<close>

definition stun_get_global_ep :: "ext \<Rightarrow> ice_message \<Rightarrow> endpoint option result" where
  "stun_get_global_ep E m = map_res Some (im_get_endpoint E ''global_ip'' ''global_port'' m)"

section \<open>The signaling controller\<close>

definition sgnl_set_dest_endpoint :: "ext \<Rightarrow> endpoint \<Rightarrow> ice_message \<Rightarrow> ice_message result" where
  "sgnl_set_dest_endpoint E ep m = im_set_endpoint E ''dest_ip'' ''dest_port'' ep m"

definition sgnl_set_src_endpoint :: "ext \<Rightarrow> endpoint \<Rightarrow> ice_message \<Rightarrow> ice_message result" where
  "sgnl_set_src_endpoint E ep m = im_set_endpoint E ''src_ip'' ''src_port'' ep m"

definition sgnl_get_dest_endpoint :: "ext \<Rightarrow> ice_message \<Rightarrow> endpoint result" where
  "sgnl_get_dest_endpoint E m = im_get_endpoint E ''dest_ip'' ''dest_port'' m"

definition sgnl_get_src_endpoint :: "ext \<Rightarrow> ice_message \<Rightarrow> endpoint result" where
  "sgnl_get_src_endpoint E m = im_get_endpoint E ''src_ip'' ''src_port'' m"

definition sgnl_add_relay_endpoint :: "ext \<Rightarrow> endpoint \<Rightarrow> ice_message \<Rightarrow> ice_message result" where
  "sgnl_add_relay_endpoint E ep m =
     map_res (\<lambda>b. m\<lparr>im_body := b\<rparr>) (json_push_at ''relay_eps'' (JStr (endpoint_to_str E ep)) (im_body m))"

text \<open>A loop over \<open>size()\<close> elements: only an array has elements to index.\<close>

definition sgnl_get_relay_endpoints :: "ext \<Rightarrow> ice_message \<Rightarrow> endpoint list result" where
  "sgnl_get_relay_endpoints E m =
     bind_res (json_index ''relay_eps'' (im_body m)) (\<lambda>(v, _).
       if json_size v = 0 then Inr []
       else (case v of
               JArr xs \<Rightarrow>
                 fold_res (\<lambda>x ret. bind_res (json_get_string x) (\<lambda>ep_str.
                   map_res (\<lambda>ep. ret @ [ep]) (str_to_endpoint E ep_str))) xs []
             | _ \<Rightarrow> Inl Json_type_error))"

definition sgnl_get_ttl :: "ice_message \<Rightarrow> int result" where
  "sgnl_get_ttl m = bind_res (json_index ''ttl'' (im_body m)) (\<lambda>(v, _). json_get_int v)"

definition sgnl_decrement_ttl :: "ice_message \<Rightarrow> ice_message result" where
  "sgnl_decrement_ttl m = bind_res (sgnl_get_ttl m) (\<lambda>t. im_set ''ttl'' (JInt (t - 1)) m)"

section \<open>Lemmas\<close>

lemma im_set_obj:
  "im_body m = JObj b \<Longrightarrow> im_set k v m = Inr (m\<lparr>im_body := JObj (fmupd k v b)\<rparr>)"
  by (simp add: im_set_def)

lemma im_set_endpoint_obj:
  "im_body m = JObj b \<Longrightarrow> im_set_endpoint E kip kport ep m =
     Inr (m\<lparr>im_body := JObj (fmupd kport (JInt (uint (ep_port ep)))
       (fmupd kip (JStr (x_ip_to_string E (ep_address ep))) b))\<rparr>)"
  by (simp add: im_set_endpoint_def im_set_obj)

lemma im_get_endpoint_obj:
  assumes "ip_text_ok E" and "im_body m = JObj b"
    and "fmlookup b kip = Some (JStr (x_ip_to_string E (ep_address ep)))"
    and "fmlookup b kport = Some (JInt (uint (ep_port ep)))"
  shows "im_get_endpoint E kip kport m = Inr ep"
  using assms by (cases ep) (simp add: im_get_endpoint_def addr_pair_to_endpoint_def ip_text_ok_def)

lemma ice_new_body:
  "ice_message_new p = Inr \<lparr>im_body = JObj (fmupd ''ttl'' (JInt 5) (fmupd ''relay_eps'' (JArr [])
     (fmupd ''protocol'' (JStr (case p of protocol_signaling \<Rightarrow> ''signaling'' | protocol_stun \<Rightarrow> ''stun''
        | protocol_none \<Rightarrow> ''none'')) fmempty))), im_protocol = p\<rparr>"
  by (cases p) (simp_all add: ice_message_new_def ice_set_protocol_def im_set_def)

lemma ice_of_json_obj:
  "fmlookup b ''protocol'' = Some v \<Longrightarrow>
   ice_message_of_json (JObj b) = Inr \<lparr>im_body = JObj b,
     im_protocol = (if v = JStr ''signaling'' then protocol_signaling
                    else if v = JStr ''stun'' then protocol_stun else protocol_none)\<rparr>"
  by (simp add: ice_message_of_json_def)

lemma ice_get_sub_protocol_obj:
  "im_body m = JObj b \<Longrightarrow> fmlookup b ''sub_protocol'' = Some (JInt p) \<Longrightarrow> 0 \<le> p \<Longrightarrow> p < 2 ^ 32 \<Longrightarrow>
   ice_get_sub_protocol m = Inr p"
  by (simp add: ice_get_sub_protocol_def uint_word_of_int)

lemma sgnl_relays_obj:
  assumes "im_body m = JObj b" and "fmlookup b ''relay_eps'' = Some (texts_of E eps)" and "list_all (text_ep E) eps"
  shows "sgnl_get_relay_endpoints E m = Inr eps"
proof -
  have "fold_res (\<lambda>x ret. bind_res (json_get_string x) (\<lambda>ep_str.
      map_res (\<lambda>ep. ret @ [ep]) (str_to_endpoint E ep_str))) (map (\<lambda>ep. JStr (endpoint_to_str E ep)) eps) acc
    = Inr (acc @ eps)" for acc
    using assms(3) by (induction eps arbitrary: acc) (auto simp: text_ep_def)
  then show ?thesis using assms(1,2) by (auto simp: sgnl_get_relay_endpoints_def)
qed

lemma sgnl_add_relay_obj:
  assumes "im_body m = JObj b" and "fmlookup b ''relay_eps'' = Some (texts_of E eps)"
  shows "sgnl_add_relay_endpoint E ep m = Inr (m\<lparr>im_body := JObj (fmupd ''relay_eps'' (texts_of E (eps @ [ep])) b)\<rparr>)"
  using json_push_at_arr [of "JObj b" "''relay_eps''"] assms by (simp add: sgnl_add_relay_endpoint_def)

end
