(* ===== verification/SS_IceObserver.thy ===== *)
theory SS_IceObserver
  imports SS_DhtManager SS_IceMessage
begin

text \<open>
  \<open>ice_agent/ice_sender\<close>, \<open>ice_agent/ice_observer\<close> and the \<open>sr_object\<close> of
  \<open>ice_agent/stun_server\<close>: the observers of signaling and of STUN binding requests, and the object a
  binding request reports to. An \<open>sr_object\<close> is shared by pointers: its address is its position in
  \<open>iw_srs\<close>, and the objects are not freed.
\<close>

section \<open>The state of the layer\<close>

datatype sr_state = sr_done | sr_pending | sr_notfound

text \<open>The one handler the program installs: update the own global endpoint.\<close>

datatype sr_handler = SR_update_global_self_endpoint

record sr_object =
  sr_state :: sr_state
  sr_global_ep :: endpoint
  sr_is_async :: bool
  sr_handler :: "sr_handler option"

record signaling_request = base_observer +
  sq_cache_ep :: endpoint
  sq_cache_param :: string
  sq_cache_payload :: json
  sq_done :: bool

type_synonym signaling_response = base_observer
type_synonym signaling_relay = base_observer

record binding_request = base_observer +
  br_responses :: "(endpoint \<times> endpoint option) list"
  br_sr :: nat
  br_is_handler_called :: bool
  br_is_timeout :: bool

record ice_world = kad_world +
  iw_glob_self_ep :: endpoint
  iw_requests :: "signaling_request list"
  iw_responses :: "signaling_response list"
  iw_relays :: "signaling_relay list"
  iw_bindings :: "binding_request list"
  iw_srs :: "sr_object list"

section \<open>The sender\<close>

definition ice_async_send ::
  "ext \<Rightarrow> endpoint \<Rightarrow> string \<Rightarrow> json \<Rightarrow> 'a io_world_scheme \<Rightarrow> 'a io_world_scheme result" where
  "ice_async_send E dest_ep param payload w =
     bind_res (message_of_app_id (w_app_id w)) (\<lambda>m.
       bind_res (message_set_param param payload m) (\<lambda>msg.
         bind_res (message_encode E msg) (\<lambda>enc_msg. Inr (socket_send dest_ep enc_msg w))))"

definition ice_async_ice_send ::
  "ext \<Rightarrow> endpoint \<Rightarrow> ice_message \<Rightarrow> 'a io_world_scheme \<Rightarrow> 'a io_world_scheme result" where
  "ice_async_ice_send E dest_ep ice_msg w =
     bind_res (message_of_app_id (w_app_id w)) (\<lambda>m.
       bind_res (message_set_param ''ice_agent'' (ice_encode ice_msg) m) (\<lambda>msg.
         bind_res (message_encode E msg) (\<lambda>enc_msg. Inr (socket_send dest_ep enc_msg w))))"

text \<open>The synchronous forms return the bytes sent, 0 when the socket reports an error.\<close>

definition ice_sync_send ::
  "ext \<Rightarrow> bool \<Rightarrow> endpoint \<Rightarrow> string \<Rightarrow> json \<Rightarrow> 'a io_world_scheme \<Rightarrow> (nat \<times> 'a io_world_scheme) result" where
  "ice_sync_send E ok dest_ep param payload w =
     bind_res (message_of_app_id (w_app_id w)) (\<lambda>m.
       bind_res (message_set_param param payload m) (\<lambda>msg.
         bind_res (message_encode E msg) (\<lambda>enc_msg.
           Inr (if ok then (length enc_msg, socket_send dest_ep enc_msg w) else (0, w)))))"

definition ice_sync_ice_send ::
  "ext \<Rightarrow> bool \<Rightarrow> endpoint \<Rightarrow> ice_message \<Rightarrow> 'a io_world_scheme \<Rightarrow> (nat \<times> 'a io_world_scheme) result" where
  "ice_sync_ice_send E ok dest_ep ice_msg w =
     bind_res (message_of_app_id (w_app_id w)) (\<lambda>m.
       bind_res (message_set_param ''ice_agent'' (ice_encode ice_msg) m) (\<lambda>msg.
         bind_res (message_encode E msg) (\<lambda>enc_msg.
           Inr (if ok then (length enc_msg, socket_send dest_ep enc_msg w) else (0, w)))))"

definition ice_get_self_endpoint :: "'a ice_world_scheme \<Rightarrow> endpoint" where
  "ice_get_self_endpoint w = iw_glob_self_ep w"

section \<open>The reserved object\<close>

definition sr_new :: sr_object where
  "sr_new = \<lparr>sr_state = sr_notfound, sr_global_ep = any_endpoint, sr_is_async = False, sr_handler = None\<rparr>"

definition sr_error :: sr_object where
  "sr_error = sr_new\<lparr>sr_state := sr_notfound\<rparr>"

definition sr_pending_object :: sr_object where
  "sr_pending_object = sr_new\<lparr>sr_state := sr_pending\<rparr>"

text \<open>
  Whatever state other than \<open>done\<close> with an endpoint is asked for, the object becomes \<open>notfound\<close>. The
  second component says whether waiting threads are notified.
\<close>

definition sr_update_state :: "sr_state \<Rightarrow> endpoint option \<Rightarrow> sr_object \<Rightarrow> sr_object \<times> bool" where
  "sr_update_state s ep sr =
     (case ep of
        Some e \<Rightarrow> if s = sr_done then (sr\<lparr>sr_state := sr_done, sr_global_ep := e\<rparr>, \<not> sr_is_async sr)
                  else (sr\<lparr>sr_state := sr_notfound\<rparr>, \<not> sr_is_async sr)
      | None \<Rightarrow> (sr\<lparr>sr_state := sr_notfound\<rparr>, \<not> sr_is_async sr))"

text \<open>
  \<open>sync_get\<close>: \<open>None\<close> when the call waits for a notification first, otherwise what it returns at once.
  \<open>sr_sync_result\<close> is what it returns after it was woken.
\<close>

definition sr_sync_result :: "sr_object \<Rightarrow> endpoint option" where
  "sr_sync_result sr = (if sr_state sr = sr_done then Some (sr_global_ep sr) else None)"

definition sr_sync_get :: "sr_object \<Rightarrow> endpoint option option" where
  "sr_sync_get sr = (if sr_state sr \<noteq> sr_pending then None else Some (sr_sync_result sr))"

definition sr_async_get :: "sr_handler \<Rightarrow> sr_object \<Rightarrow> sr_object" where
  "sr_async_get handler sr = sr\<lparr>sr_handler := Some handler, sr_is_async := True\<rparr>"

definition modify_sr :: "nat \<Rightarrow> (sr_object \<Rightarrow> sr_object) \<Rightarrow> 'a ice_world_scheme \<Rightarrow> 'a ice_world_scheme" where
  "modify_sr a f w = w\<lparr>iw_srs := (iw_srs w)[a := f (iw_srs w ! a)]\<rparr>"

section \<open>Signaling observers\<close>

definition modify_request ::
  "uuid \<Rightarrow> (signaling_request \<Rightarrow> signaling_request) \<Rightarrow> 'a ice_world_scheme \<Rightarrow> 'a ice_world_scheme" where
  "modify_request i f w = w\<lparr>iw_requests := os_modify i f (iw_requests w)\<rparr>"

definition signaling_request_new ::
  "ext \<Rightarrow> 'a io_world_scheme \<Rightarrow> signaling_request \<times> 'a io_world_scheme" where
  "signaling_request_new E w =
     (let (b, w1) = base_observer_new E ''signaling:signaling_request'' w
      in (base_observer.extend b
            \<lparr>sq_cache_ep = any_endpoint, sq_cache_param = [], sq_cache_payload = JNull, sq_done = False\<rparr>, w1))"

definition send_dummy_message :: "ext \<Rightarrow> endpoint \<Rightarrow> 'a io_world_scheme \<Rightarrow> 'a io_world_scheme result" where
  "send_dummy_message E ep w = sender_async_send E ep ''dummy'' (JStr ''signaling dummy'') w"

definition signaling_request_msg ::
  "ext \<Rightarrow> uuid \<Rightarrow> endpoint \<Rightarrow> endpoint \<Rightarrow> ice_message result" where
  "signaling_request_msg E i dest_ep src_ep =
     bind_res ice_signaling (\<lambda>m0.
       bind_res (ice_set_observer_id E i m0) (\<lambda>m1.
         bind_res (ice_set_sub_protocol SIGNALING_REQUEST m1) (\<lambda>m2.
           bind_res (sgnl_set_dest_endpoint E dest_ep m2) (sgnl_set_src_endpoint E src_ep))))"

definition signaling_request_init ::
  "ext \<Rightarrow> endpoint \<Rightarrow> string \<Rightarrow> json \<Rightarrow> signaling_request \<Rightarrow>
   'a ice_world_scheme \<Rightarrow> (signaling_request \<times> 'a ice_world_scheme) result" where
  "signaling_request_init E dest_ep param payload obs w =
     bind_res (send_dummy_message E dest_ep w) (\<lambda>w1.
       let obs1 = obs\<lparr>sq_cache_ep := dest_ep, sq_cache_param := param, sq_cache_payload := payload\<rparr>
       in bind_res (signaling_request_msg E (bo_id obs1) dest_ep (iw_glob_self_ep w1)) (\<lambda>ice_msg.
            let forward_eps = drt_collect_endpoint E (kd_table w1) dest_ep 3 []
            in map_res (Pair obs1) (fold_res (\<lambda>itr. ice_async_ice_send E itr ice_msg) forward_eps w1)))"

text \<open>\<open>on_traversal_done\<close>, called when the cached message was sent.\<close>

definition on_traversal_done :: "uuid \<Rightarrow> 'a ice_world_scheme \<Rightarrow> 'a ice_world_scheme result" where
  "on_traversal_done i w =
     bind_res (os_deref i (iw_requests w)) (\<lambda>_. Inr (modify_request i (\<lambda>q. q\<lparr>sq_done := True\<rparr>) w))"

definition signaling_request_income_message ::
  "ext \<Rightarrow> uuid \<Rightarrow> message \<Rightarrow> 'a ice_world_scheme \<Rightarrow> 'a ice_world_scheme result" where
  "signaling_request_income_message E i msg w =
     bind_res (os_deref i (iw_requests w)) (\<lambda>obs.
       if sq_done obs then Inr w
       else bind_res (of_option Undefined (message_get_param ''ice_agent'' msg)) (\<lambda>j.
         bind_res (ice_message_of_json j) (\<lambda>ice_msg.
           bind_res (ice_get_sub_protocol ice_msg) (\<lambda>sub.
             if sub = SIGNALING_RESPONSE then
               map_res (io_post (T_traversal_done i))
                 (ice_async_send E (sq_cache_ep obs) (sq_cache_param obs) (sq_cache_payload obs) w)
             else bind_res (sgnl_get_dest_endpoint E ice_msg) (\<lambda>dest_ep.
               if dest_ep \<noteq> ice_get_self_endpoint w then Inr w
               else bind_res ice_signaling (\<lambda>res.
                 bind_res (ice_set_sub_protocol SIGNALING_RESPONSE res) (\<lambda>ice_res_msg.
                   map_res (io_post (T_traversal_done i))
                     (ice_async_send E (sq_cache_ep obs) (sq_cache_param obs) (sq_cache_payload obs) w))))))))"

text \<open>A repeated message to a relay or a responder only extends its life.\<close>

definition signaling_response_income_message :: "uuid \<Rightarrow> 'a ice_world_scheme \<Rightarrow> 'a ice_world_scheme" where
  "signaling_response_income_message i w =
     w\<lparr>iw_responses := os_modify i (extend_expire_at (w_now w) 20) (iw_responses w)\<rparr>"

definition signaling_relay_income_message :: "uuid \<Rightarrow> 'a ice_world_scheme \<Rightarrow> 'a ice_world_scheme" where
  "signaling_relay_income_message i w =
     w\<lparr>iw_relays := os_modify i (extend_expire_at (w_now w) 20) (iw_relays w)\<rparr>"

text \<open>
  The two \<open>init\<close> functions are bound to a copy of the observer, so what they extend is the copy: the
  result, a changed observer, goes nowhere.
\<close>

definition signaling_response_init :: "int \<Rightarrow> bool \<Rightarrow> signaling_response \<Rightarrow> signaling_response" where
  "signaling_response_init now ec obs = (if \<not> ec then extend_expire_at now 30 obs else obs)"

definition signaling_relay_init :: "int \<Rightarrow> signaling_relay \<Rightarrow> signaling_relay" where
  "signaling_relay_init now obs = extend_expire_at now 20 obs"

section \<open>The binding request\<close>

abbreviation DEFAULT_BINDING_REQUEST_TIMEOUT_s :: int where
  "DEFAULT_BINDING_REQUEST_TIMEOUT_s \<equiv> 4"

definition modify_binding ::
  "uuid \<Rightarrow> (binding_request \<Rightarrow> binding_request) \<Rightarrow> 'a ice_world_scheme \<Rightarrow> 'a ice_world_scheme" where
  "modify_binding i f w = w\<lparr>iw_bindings := os_modify i f (iw_bindings w)\<rparr>"

definition binding_request_new ::
  "ext \<Rightarrow> 'a io_world_scheme \<Rightarrow> binding_request \<times> 'a io_world_scheme" where
  "binding_request_new E w =
     (let (b, w1) = base_observer_new E ''stun_observer:binding_request'' w
      in (base_observer.extend b
            \<lparr>br_responses = [], br_sr = 0, br_is_handler_called = False, br_is_timeout = False\<rparr>, w1))"

definition binding_request_init ::
  "nat \<Rightarrow> binding_request \<Rightarrow> 'a ice_world_scheme \<Rightarrow> binding_request \<times> 'a ice_world_scheme" where
  "binding_request_init sr obs w =
     (let obs1 = obs\<lparr>br_sr := sr\<rparr>;
          w1 = modify_sr sr (\<lambda>s. fst (sr_update_state sr_pending None s)) w
      in (obs1, timer_set (T_binding_timeout (bo_id obs1)) DEFAULT_BINDING_REQUEST_TIMEOUT_s w1))"

definition add_requested_ep :: "endpoint \<Rightarrow> binding_request \<Rightarrow> binding_request" where
  "add_requested_ep ep obs = obs\<lparr>br_responses := br_responses obs @ [(ep, None)]\<rparr>"

text \<open>The first entry of the endpoint asked takes the answer; an answer of another is ignored.\<close>

fun set_response :: "endpoint \<Rightarrow> endpoint \<Rightarrow> (endpoint \<times> endpoint option) list \<Rightarrow> (endpoint \<times> endpoint option) list" where
  "set_response src_ep r [] = []"
| "set_response src_ep r ((ep, v) # es) =
     (if ep = src_ep then (ep, Some r) # es else (ep, v) # set_response src_ep r es)"

definition add_response :: "endpoint \<Rightarrow> endpoint \<Rightarrow> binding_request \<Rightarrow> binding_request" where
  "add_response src_ep response_ep obs =
     obs\<lparr>br_responses := set_response src_ep response_ep (br_responses obs)\<rparr>"

datatype consensus_state = cc_done | cc_on_handling | cc_error_done

text \<open>
  \<open>std::map<endpoint, unsigned short>\<close> filled by \<open>counter_m[itr]++\<close>: the distinct endpoints in their
  order, each with its count in 16 bits. \<open>std::sort\<close> does not say which of several entries with the
  same count comes first; the model keeps the map's order.
\<close>

definition count_votes :: "endpoint list \<Rightarrow> (endpoint \<times> u16) list" where
  "count_votes eps = map (\<lambda>k. (k, word_of_nat (count_list eps k))) (sorted_list_of_set (set eps))"

definition vote_key :: "endpoint \<times> u16 \<Rightarrow> int" where
  "vote_key v = - int (unat (snd v))"

definition sort_votes :: "(endpoint \<times> u16) list \<Rightarrow> (endpoint \<times> u16) list" where
  "sort_votes cs = sort_key vote_key cs"

text \<open>How many of the nodes asked have answered.\<close>

definition answered :: "(endpoint \<times> endpoint option) list \<Rightarrow> nat" where
  "answered rs = length (filter (\<lambda>(_, v). v \<noteq> None) rs)"

text \<open>The endpoints answered, without loopback ones.\<close>

definition valid_answers :: "ext \<Rightarrow> (endpoint \<times> endpoint option) list \<Rightarrow> endpoint list" where
  "valid_answers E rs =
     concat (map (\<lambda>(_, v). case v of Some e \<Rightarrow> if x_is_loopback E (ep_address e) then [] else [e] | None \<Rightarrow> []) rs)"

definition global_ep_consensus ::
  "ext \<Rightarrow> bool \<Rightarrow> (endpoint \<times> endpoint option) list \<Rightarrow> consensus_state \<times> endpoint option" where
  "global_ep_consensus E is_force responses =
     (let response_count = answered responses mod 2 ^ 16;
          vli_global_eps = valid_answers E responses;
          vote = (case sort_votes (count_votes vli_global_eps) of
                    (k, _) # _ \<Rightarrow> (cc_done, Some k)
                  | [] \<Rightarrow> (cc_done, None))
      in if 5 * response_count < 2 * length responses then (cc_on_handling, None)
         else if \<not> is_force then
           (if length vli_global_eps < max (response_count div 3) 1 then (cc_on_handling, None) else vote)
         else if vli_global_eps = [] then (cc_error_done, None) else vote)"

definition update_sr :: "nat \<Rightarrow> consensus_state \<times> endpoint option \<Rightarrow> 'a ice_world_scheme \<Rightarrow> 'a ice_world_scheme" where
  "update_sr a cctx w =
     (case fst cctx of
        cc_done \<Rightarrow> modify_sr a (\<lambda>s. fst (sr_update_state sr_done (snd cctx) s)) w
      | cc_error_done \<Rightarrow> modify_sr a (\<lambda>s. fst (sr_update_state sr_notfound None s)) w
      | cc_on_handling \<Rightarrow> modify_sr a (\<lambda>s. fst (sr_update_state sr_pending None s)) w)"

definition async_call_sr_handler :: "uuid \<Rightarrow> endpoint option \<Rightarrow> 'a ice_world_scheme \<Rightarrow> 'a ice_world_scheme" where
  "async_call_sr_handler i ep w =
     modify_binding i (\<lambda>b. b\<lparr>br_is_handler_called := True\<rparr>) (io_post (T_sr_handler i ep) w)"

definition binding_request_income_message ::
  "ext \<Rightarrow> uuid \<Rightarrow> message \<Rightarrow> endpoint \<Rightarrow> 'a ice_world_scheme \<Rightarrow> 'a ice_world_scheme result" where
  "binding_request_income_message E i msg ep w =
     bind_res (os_deref i (iw_bindings w)) (\<lambda>obs0.
       bind_res (of_option Undefined (message_get_param ''ice_agent'' msg)) (\<lambda>j.
         bind_res (ice_message_of_json j) (\<lambda>ice_msg.
           bind_res (stun_get_global_ep E ice_msg) (\<lambda>global_ep.
             case global_ep of
               None \<Rightarrow> Inr w
             | Some g \<Rightarrow>
                 let w1 = modify_binding i (add_response ep g) w;
                     obs = add_response ep g obs0;
                     cctx = global_ep_consensus E False (br_responses obs)
                 in if fst cctx = cc_on_handling then Inr w1
                    else
                      let w2 = update_sr (br_sr obs) cctx w1;
                          w3 = (if sr_is_async (iw_srs w2 ! br_sr obs) \<and> \<not> br_is_handler_called obs
                                then async_call_sr_handler i (snd cctx) w2 else w2);
                          w4 = timer_cancel (T_binding_timeout i) w3
                      in Inr (modify_binding i destruct_self w4)))))"

definition binding_on_timeout :: "ext \<Rightarrow> uuid \<Rightarrow> 'a ice_world_scheme \<Rightarrow> 'a ice_world_scheme result" where
  "binding_on_timeout E i w =
     bind_res (os_deref i (iw_bindings w)) (\<lambda>obs.
       let cctx = global_ep_consensus E False (br_responses obs);
           w1 = update_sr (br_sr obs) cctx w;
           w2 = (if sr_is_async (iw_srs w1 ! br_sr obs) \<and> \<not> br_is_handler_called obs
                 then async_call_sr_handler i (snd cctx) w1 else w1)
       in Inr (modify_binding i (\<lambda>b. b\<lparr>br_is_timeout := True\<rparr>) w2))"

section \<open>The clean-up of the storage\<close>

definition erase_bindings :: "'a ice_world_scheme \<Rightarrow> 'a ice_world_scheme" where
  "erase_bindings w =
     fold (\<lambda>obs. timer_cancel (T_binding_timeout (bo_id obs))) (filter (is_expired (w_now w)) (iw_bindings w))
       (w\<lparr>iw_bindings := os_delete_expires (w_now w) (iw_bindings w)\<rparr>)"

definition ice_call_tick :: "'a ice_world_scheme \<Rightarrow> 'a ice_world_scheme" where
  "ice_call_tick w = timer_set T_ice_refresh OBSERVER_STRAGE_TICK_TIME_s w"

definition ice_refresh_tick :: "'a ice_world_scheme \<Rightarrow> 'a ice_world_scheme" where
  "ice_refresh_tick w =
     ice_call_tick (erase_bindings
       (w\<lparr>iw_requests := os_delete_expires (w_now w) (iw_requests w),
          iw_responses := os_delete_expires (w_now w) (iw_responses w),
          iw_relays := os_delete_expires (w_now w) (iw_relays w)\<rparr>))"

end
