(* ===== verification/SS_Stun.thy ===== *)
theory SS_Stun
  imports SS_IceObserver
begin

text \<open>
  \<open>ice_agent/stun_server\<close>: sending binding requests, answering them, and what the vote over the
  answers decides.
\<close>

section \<open>The server\<close>

definition sr_alloc :: "sr_object \<Rightarrow> 'a ice_world_scheme \<Rightarrow> nat \<times> 'a ice_world_scheme" where
  "sr_alloc sr w = (length (iw_srs w), w\<lparr>iw_srs := iw_srs w @ [sr]\<rparr>)"

definition add_binding :: "binding_request \<Rightarrow> 'a ice_world_scheme \<Rightarrow> 'a ice_world_scheme" where
  "add_binding obs w = w\<lparr>iw_bindings := snd (os_add obs (iw_bindings w))\<rparr>"

text \<open>The nodes to ask: the given ones, filled up from the table to \<open>max 1 (reliability / 10)\<close>.\<close>

definition binding_targets :: "ext \<Rightarrow> k_routing_table \<Rightarrow> endpoint list \<Rightarrow> nat \<Rightarrow> endpoint list" where
  "binding_targets E rt target_nodes reliability =
     (let request_node_count = max (max 1 (length target_nodes)) (reliability div 10)
      in if request_node_count > length target_nodes then
           target_nodes @ drt_collect_endpoint E rt any_endpoint (request_node_count - length target_nodes) target_nodes
         else target_nodes)"

definition stun_request_msg :: "ext \<Rightarrow> uuid \<Rightarrow> ice_message result" where
  "stun_request_msg E i =
     bind_res ice_stun (\<lambda>m0.
       bind_res (ice_set_observer_id E i m0) (ice_set_sub_protocol STUN_BINDING_REQUEST))"

text \<open>The result is the address of the reserved object.\<close>

definition stun_binding_request ::
  "ext \<Rightarrow> endpoint list \<Rightarrow> nat \<Rightarrow> 'a ice_world_scheme \<Rightarrow> (nat \<times> 'a ice_world_scheme) result" where
  "stun_binding_request E target_nodes reliability w =
     (let request_nodes = binding_targets E (kd_table w) target_nodes reliability
      in if request_nodes = [] then Inr (sr_alloc sr_error w)
         else
           let (sr, w1) = sr_alloc sr_new w;
               (obs0, w2) = binding_request_new E w1;
               (binding_req_obs, w3) = binding_request_init sr obs0 w2
           in bind_res (stun_request_msg E (bo_id binding_req_obs)) (\<lambda>ice_msg.
                map_res (Pair sr)
                  (fold_res (\<lambda>itr v.
                     map_res (modify_binding (bo_id binding_req_obs) (add_requested_ep itr))
                       (ice_async_ice_send E itr ice_msg v))
                     request_nodes (add_binding binding_req_obs w3))))"

text \<open>A binding request is answered with the endpoint its datagram came from.\<close>

definition stun_income_message ::
  "ext \<Rightarrow> message \<Rightarrow> endpoint \<Rightarrow> 'a ice_world_scheme \<Rightarrow> 'a ice_world_scheme result" where
  "stun_income_message E msg ep w =
     bind_res (of_option Undefined (message_get_param ''ice_agent'' msg)) (\<lambda>j.
       bind_res (ice_message_of_json j) (\<lambda>ice_msg.
         bind_res (ice_get_sub_protocol ice_msg) (\<lambda>sub.
           if sub = STUN_BINDING_REQUEST then
             bind_res (ice_set_sub_protocol STUN_BINDING_RESPONSE ice_msg) (\<lambda>m1.
               bind_res (stun_set_global_ep E ep m1) (\<lambda>m2. ice_async_ice_send E ep m2 w))
           else Inr w)))"

section \<open>Counting votes\<close>












section \<open>Properties\<close>




end
