(* ===== verification/SS_Signaling.thy ===== *)
theory SS_Signaling
  imports SS_Stun
begin

text \<open>
  \<open>ice_agent/signaling_server\<close> and \<open>ice_agent/ice_agent\<close>: sending to an endpoint directly when the
  table knows it and through a signaling request otherwise, answering and relaying signaling messages,
  and the dispatch of the ICE messages.
\<close>

section \<open>Sending\<close>

definition add_request :: "signaling_request \<Rightarrow> 'a ice_world_scheme \<Rightarrow> 'a ice_world_scheme" where
  "add_request obs w = w\<lparr>iw_requests := snd (os_add obs (iw_requests w))\<rparr>"

definition add_responder :: "signaling_response \<Rightarrow> 'a ice_world_scheme \<Rightarrow> 'a ice_world_scheme" where
  "add_responder obs w = w\<lparr>iw_responses := snd (os_add obs (iw_responses w))\<rparr>"

definition add_relay :: "signaling_relay \<Rightarrow> 'a ice_world_scheme \<Rightarrow> 'a ice_world_scheme" where
  "add_relay obs w = w\<lparr>iw_relays := snd (os_add obs (iw_relays w))\<rparr>"

definition signaling_send ::
  "ext \<Rightarrow> endpoint \<Rightarrow> string \<Rightarrow> json \<Rightarrow> 'a ice_world_scheme \<Rightarrow> 'a ice_world_scheme result" where
  "signaling_send E dest_ep root_param payload w =
     (if drt_is_exist E (kd_table w) dest_ep then sender_async_send E dest_ep root_param payload w
      else
        let (sgnl_req_obs, w1) = signaling_request_new E w
        in bind_res (signaling_request_init E dest_ep root_param payload sgnl_req_obs w1) (\<lambda>(obs1, w2).
             Inr (add_request obs1 w2)))"

section \<open>Incoming signaling messages\<close>

definition signaling_income_message ::
  "ext \<Rightarrow> message \<Rightarrow> endpoint \<Rightarrow> 'a ice_world_scheme \<Rightarrow> 'a ice_world_scheme result" where
  "signaling_income_message E msg ep w =
     bind_res (of_option Undefined (message_get_param ''ice_agent'' msg)) (\<lambda>j.
       bind_res (ice_message_of_json j) (\<lambda>ice_msg.
         bind_res (sgnl_get_dest_endpoint E ice_msg) (\<lambda>dest_ep.
           if dest_ep = ice_get_self_endpoint w then
             bind_res (sgnl_get_src_endpoint E ice_msg) (\<lambda>src_ep.
               bind_res (ice_set_sub_protocol SIGNALING_RESPONSE ice_msg) (\<lambda>ice_msg1.
                 let (sgnl_response_obs, w1) = base_observer_new E ''signaling_response'' w
                 in bind_res (sender_async_send E src_ep ''ice_agent'' (ice_encode ice_msg1) w1) (\<lambda>w2.
                      Inr (add_responder sgnl_response_obs w2))))
           else
             let (sgnl_relay_obs, w1) = base_observer_new E ''signaling_observer:signaling_relay'' w
             in bind_res (sgnl_add_relay_endpoint E (ice_get_self_endpoint w1) ice_msg) (\<lambda>ice_msg1.
                  bind_res (ice_set_sub_protocol SIGNALING_RELAY ice_msg1) (\<lambda>ice_msg2.
                    if drt_is_exist E (kd_table w1) dest_ep then
                      map_res (add_relay sgnl_relay_obs) (ice_async_ice_send E dest_ep ice_msg2 w1)
                    else bind_res (sgnl_get_relay_endpoints E ice_msg2) (\<lambda>relay_eps.
                      bind_res (sgnl_get_ttl ice_msg2) (\<lambda>ttl.
                        if ttl \<le> 0 then Inr w1
                        else
                          let forward_eps = drt_collect_endpoint E (kd_table w1) dest_ep 3 relay_eps
                          in bind_res (fold_res (sgnl_add_relay_endpoint E) forward_eps ice_msg2) (\<lambda>ice_msg3.
                               map_res (add_relay sgnl_relay_obs)
                                 (fold_res (\<lambda>itr. ice_async_ice_send E itr ice_msg3) forward_eps w1)))))))))"

definition format_relay_msg :: "ext \<Rightarrow> ice_message \<Rightarrow> 'a ice_world_scheme \<Rightarrow> ice_message result" where
  "format_relay_msg E base_msg w = sgnl_add_relay_endpoint E (ice_get_self_endpoint w) base_msg"

section \<open>The agent\<close>

definition ice_agent_new :: "endpoint \<Rightarrow> 'a ice_world_scheme \<Rightarrow> 'a ice_world_scheme" where
  "ice_agent_new glob_self_ep w =
     ice_call_tick (w\<lparr>iw_glob_self_ep := glob_self_ep, iw_requests := [], iw_responses := [], iw_relays := [],
       iw_bindings := [], iw_srs := []\<rparr>)"

definition ice_update_global_self_endpoint :: "endpoint \<Rightarrow> 'a ice_world_scheme \<Rightarrow> 'a ice_world_scheme" where
  "ice_update_global_self_endpoint ep w = w\<lparr>iw_glob_self_ep := ep\<rparr>"

text \<open>The observers are searched in the order relay, request, response; every branch returns 0.\<close>

definition ice_income_message ::
  "ext \<Rightarrow> message \<Rightarrow> endpoint \<Rightarrow> 'a ice_world_scheme \<Rightarrow> 'a ice_world_scheme result" where
  "ice_income_message E msg ep w =
     (case message_get_param ''ice_agent'' msg of
        None \<Rightarrow> Inr w
      | Some j \<Rightarrow>
          bind_res (ice_message_of_json j) (\<lambda>ice_msg.
            case ice_get_protocol ice_msg of
              protocol_signaling \<Rightarrow>
                bind_res (ice_get_observer_id E ice_msg) (\<lambda>obs_id.
                  case os_find obs_id (iw_relays w) of
                    obs # _ \<Rightarrow> Inr (signaling_relay_income_message (bo_id obs) w)
                  | [] \<Rightarrow> (case os_find obs_id (iw_requests w) of
                      obs # _ \<Rightarrow> signaling_request_income_message E (bo_id obs) msg w
                    | [] \<Rightarrow> (case os_find obs_id (iw_responses w) of
                        obs # _ \<Rightarrow> Inr (signaling_response_income_message (bo_id obs) w)
                      | [] \<Rightarrow> signaling_income_message E msg ep w)))
            | protocol_stun \<Rightarrow>
                bind_res (ice_get_observer_id E ice_msg) (\<lambda>obs_id.
                  case os_find obs_id (iw_bindings w) of
                    obs # _ \<Rightarrow> binding_request_income_message E (bo_id obs) msg ep w
                  | [] \<Rightarrow> stun_income_message E msg ep w)
            | protocol_none \<Rightarrow> Inr w))"

definition ice_task :: "ext \<Rightarrow> task \<Rightarrow> 'a ice_world_scheme \<Rightarrow> 'a ice_world_scheme result" where
  "ice_task E t w =
     (case t of
        T_binding_timeout i \<Rightarrow> binding_on_timeout E i w
      | T_traversal_done i \<Rightarrow> on_traversal_done i w
      | T_ice_refresh \<Rightarrow> Inr (ice_refresh_tick w)
      | _ \<Rightarrow> Inr w)"

section \<open>The ICE layer leaves the Kademlia layer alone\<close>

lemma ice_async_send_eq: "ice_async_send E dest param payload w = sender_async_send E dest param payload w"
  by (simp add: ice_async_send_def sender_async_send_def)

lemma ice_async_ice_send_eq: "ice_async_ice_send E dest m w = sender_async_send E dest ''ice_agent'' (ice_encode m) w"
  by (simp add: ice_async_ice_send_def sender_async_send_def)

lemma kad_same_ice [simp, intro]:
  "kad_same w (w\<lparr>iw_requests := a\<rparr>)" "kad_same w (w\<lparr>iw_responses := b\<rparr>)" "kad_same w (w\<lparr>iw_relays := c\<rparr>)"
  "kad_same w (w\<lparr>iw_bindings := d\<rparr>)" "kad_same w (w\<lparr>iw_srs := s\<rparr>)" "kad_same w (w\<lparr>iw_glob_self_ep := e\<rparr>)"
  by (simp_all add: kad_same_def)

lemma kad_same_ice_ops [simp, intro]:
  "kad_same w (modify_sr a f w)" "kad_same w (modify_binding i g w)" "kad_same w (modify_request i h w)"
  "kad_same w (add_request q w)" "kad_same w (add_responder r w)" "kad_same w (add_relay l w)"
  "kad_same w (add_binding b w)"
  by (simp_all add: modify_sr_def modify_binding_def modify_request_def add_request_def add_responder_def
      add_relay_def add_binding_def kad_same_def)

text \<open>What a send may change besides: the network, the identifiers drawn and the observers of signaling.\<close>

definition loop_same :: "'a io_world_scheme \<Rightarrow> 'a io_world_scheme \<Rightarrow> bool" where
  "loop_same w w' \<longleftrightarrow> w_now w' = w_now w \<and> w_queue w' = w_queue w \<and> w_timers w' = w_timers w"

lemma fold_res_related:
  assumes "fold_res f xs w = Inr w'" and "\<And>x v v'. f x v = Inr v' \<Longrightarrow> R v v'"
    and "\<And>v. R v v" and "\<And>u v x. R u v \<Longrightarrow> R v x \<Longrightarrow> R u x"
  shows "R w w'"
  using assms(1)
proof (induction xs arbitrary: w)
  case (Cons x xs)
  then obtain v where "f x w = Inr v" "fold_res f xs v = Inr w'" by (auto simp: res_inv)
  then show ?case using Cons.IH assms(2,4) by blast
qed (use assms(3) in simp)

lemma ice_send_frame:
  assumes "ice_async_ice_send E itr m v = Inr v'"
  shows "kad_same v v' \<and> loop_same v v'"
  using sender_frame [OF assms [unfolded ice_async_ice_send_eq]] by (simp add: loop_same_def)

lemma ice_sends_frame:
  assumes "fold_res (\<lambda>itr. ice_async_ice_send E itr m) eps v = Inr v'"
  shows "kad_same v v' \<and> loop_same v v'"
  by (rule fold_res_related [OF assms]) (auto simp: loop_same_def dest: ice_send_frame intro: kad_same_trans)

lemma signaling_request_init_frame:
  assumes "signaling_request_init E dest param payload obs w = Inr (obs', w')"
  shows "kad_same w w' \<and> loop_same w w'"
proof -
  obtain w1 m where "send_dummy_message E dest w = Inr w1"
    and "fold_res (\<lambda>itr. ice_async_ice_send E itr m) (drt_collect_endpoint E (kd_table w1) dest 3 []) w1 = Inr w'"
    using assms by (auto simp: signaling_request_init_def Let_def res_inv)
  then show ?thesis
    using sender_frame [of E dest "''dummy''" "JStr ''signaling dummy''" w w1] ice_sends_frame [of E m _ w1 w']
    by (auto simp: send_dummy_message_def loop_same_def intro: kad_same_trans)
qed

lemma signaling_request_new_frame: "\<exists>n. snd (signaling_request_new E w) = w\<lparr>w_uuids := n\<rparr>"
  using base_observer_new_world [of E "''signaling:signaling_request''" w]
  by (auto simp: signaling_request_new_def Let_def split: prod.splits)

lemma signaling_send_frame:
  assumes "signaling_send E dest param payload w = Inr w'"
  shows "kad_same w w' \<and> loop_same w w'"
proof (cases "drt_is_exist E (kd_table w) dest")
  case True
  then show ?thesis using assms sender_frame [of E dest param payload w w'] by (simp add: signaling_send_def loop_same_def)
next
  case False
  obtain n where n: "snd (signaling_request_new E w) = w\<lparr>w_uuids := n\<rparr>" using signaling_request_new_frame by blast
  then obtain obs1 w2 where i: "signaling_request_init E dest param payload (fst (signaling_request_new E w)) (w\<lparr>w_uuids := n\<rparr>) = Inr (obs1, w2)"
    and w': "w' = add_request obs1 w2"
    using assms False by (auto simp: signaling_send_def Let_def res_inv split: prod.splits)
  have "kad_same w (w\<lparr>w_uuids := n\<rparr>)" by simp
  moreover have "kad_same w2 w'" unfolding w' by simp
  ultimately have "kad_same w w'" using signaling_request_init_frame [OF i] kad_same_trans by blast
  then show ?thesis
    using signaling_request_init_frame [OF i] by (simp add: w' loop_same_def add_request_def)
qed

text \<open>The node's send function meets the contract of the RPC layer.\<close>

interpretation sgnl: send_func "signaling_send E"
  by unfold_locales (auto dest: signaling_send_frame simp: loop_same_def)

end
