(* ===== verification/SS_KadProtocol.thy ===== *)
theory SS_KadProtocol
  imports SS_DhtManager
begin

text \<open>
  The properties of the Kademlia layer: what a pong and a timeout do to the table, the window in which a
  clean-up of the storage frees an observer whose handler is queued, and what the two requests and their
  answers put on the wire (the exchanges between two nodes are in \<open>SS_KadExchange\<close>).
\<close>

section \<open>Table updates as sets of nodes\<close>

lemma rt_bucket_nodes:
  assumes "rt_wf rt" and "i < 160"
  shows "set (rt_table rt ! i) = {n \<in> rt_nodes rt. calc_branch_index rt n = i}"
  using rt_wfD(1,3) [OF assms(1)] assms(2) by (auto simp: rt_nodes_nth)

lemma rt_nodes_modify:
  assumes "rt_wf rt" and "i < 160"
  shows "rt_nodes (rt_modify i f rt) = set (f (rt_table rt ! i)) \<union> {n \<in> rt_nodes rt. calc_branch_index rt n \<noteq> i}"
proof -
  have len: "length (rt_table rt) = 160" using rt_wfD(1) [OF assms(1)] .
  have nth: "rt_table (rt_modify i f rt) ! j = (if i = j then f (rt_table rt ! i) else rt_table rt ! j)"
    if "j < 160" for j
    using that len by (simp add: rt_modify_nth)
  have "n \<in> rt_nodes (rt_modify i f rt) \<longleftrightarrow>
      n \<in> set (f (rt_table rt ! i)) \<or> n \<in> rt_nodes rt \<and> calc_branch_index rt n \<noteq> i" for n
  proof
    assume "n \<in> rt_nodes (rt_modify i f rt)"
    then obtain j where j: "j < 160" "n \<in> set (rt_table (rt_modify i f rt) ! j)"
      using len by (auto simp: rt_nodes_nth)
    show "n \<in> set (f (rt_table rt ! i)) \<or> n \<in> rt_nodes rt \<and> calc_branch_index rt n \<noteq> i"
      using j(2) rt_bucket_nodes [OF assms(1) j(1)] nth [OF j(1)] by (cases "i = j") auto
  next
    assume "n \<in> set (f (rt_table rt ! i)) \<or> n \<in> rt_nodes rt \<and> calc_branch_index rt n \<noteq> i"
    then obtain j where j: "j < 160" "n \<in> set (if i = j then f (rt_table rt ! i) else rt_table rt ! j)"
    proof
      assume "n \<in> set (f (rt_table rt ! i))"
      then show thesis by (intro that [OF assms(2)]) simp
    next
      assume n: "n \<in> rt_nodes rt \<and> calc_branch_index rt n \<noteq> i"
      then have "n \<in> set (rt_table rt ! calc_branch_index rt n)" using rt_nodes_slot [OF assms(1)] by simp
      then show thesis using n by (intro that [of "calc_branch_index rt n"]) auto
    qed
    then show "n \<in> rt_nodes (rt_modify i f rt)"
      unfolding rt_nodes_nth using len nth [OF j(1)] by (intro exI [of _ j]) simp
  qed
  then show ?thesis by auto
qed

lemma rt_nodes_delete:
  assumes "rt_wf rt" and "calc_branch_index rt kn = i"
  shows "rt_nodes (rt_modify i (bucket_delete_node kn) rt) = {n \<in> rt_nodes rt. kn_id n \<noteq> kn_id kn}"
proof -
  have i: "i < 160" using assms(2) by auto
  have "calc_branch_index rt n = i" if "kn_id n = kn_id kn" for n
    using calc_branch_cong [OF that, of rt rt] assms(2) by simp
  then show ?thesis
    unfolding rt_nodes_modify [OF assms(1) i] delete_node_eq [OF rt_wfD(2) [OF assms(1) i]]
    using rt_bucket_nodes [OF assms(1) i] by auto
qed

lemma rt_nodes_move_back:
  assumes "rt_wf rt" and "i < 160"
  shows "rt_nodes (rt_modify i (bucket_move_back kn) rt) = rt_nodes rt"
  unfolding rt_nodes_modify [OF assms] using rt_bucket_nodes [OF assms] by auto

lemma os_deref_modify:
  "(\<And>obs. bo_id (f obs) = bo_id obs) \<Longrightarrow> os_deref i e = Inr obs \<Longrightarrow> os_deref i (os_modify i f e) = Inr (f obs)"
  by (induction e) (auto simp: os_deref_def os_modify_def split: if_splits)

lemma destructed_is_cleaned:
  "0 \<le> now \<Longrightarrow> i \<notin> os_ids (os_delete_expires now (os_modify i destruct_self e))"
  by (induction e) (auto simp: os_modify_def is_expired_def)

section \<open>Sample worlds\<close>

definition sample_kad :: "k_routing_table \<Rightarrow> ping list \<Rightarrow> kad_world" where
  "sample_kad rt ps =
     \<lparr>w_now = 100, w_uuids = 0, w_app_id = ''abcdefgh'', w_net = [], w_queue = [], w_timers = [],
      kd_self_ep = any_endpoint, kd_self_id = rt_self_id rt, kd_table = rt, kd_pings = ps, kd_finds = [],
      kd_requires_tick = True\<rparr>"

definition sample_ping :: "k_node \<Rightarrow> ping" where
  "sample_ping kn =
     \<lparr>bo_id = 7, bo_expire_at = 106, bo_expire_flag = False, bo_type_name = ''k_observer:ping'',
      pg_dest_ep = kn_ep kn, pg_pong_handler = H_move_back (calc_branch_index sample_table kn) kn,
      pg_timeout_handler = H_delete_node (calc_branch_index sample_table kn) kn, pg_is_pong_arrived = False\<rparr>"

lemma sample_kad_simps [simp]:
  "w_now (sample_kad rt ps) = 100" "w_uuids (sample_kad rt ps) = 0" "w_app_id (sample_kad rt ps) = ''abcdefgh''"
  "w_net (sample_kad rt ps) = []" "w_queue (sample_kad rt ps) = []" "w_timers (sample_kad rt ps) = []"
  "kd_table (sample_kad rt ps) = rt" "kd_pings (sample_kad rt ps) = ps" "kd_finds (sample_kad rt ps) = []"
  by (simp_all add: sample_kad_def)

lemma sample_kad_inv: "kad_inv (sample_kad sample_table [sample_ping kn])"
  by (simp add: kad_inv_def sample_table_wf os_unique_def sample_ping_def handler_ok_def)

lemma sample_deref: "os_deref 7 (kd_pings (sample_kad sample_table [sample_ping kn])) = Inr (sample_ping kn)"
  by (simp add: sample_ping_def)

lemma sample_node_in: "sample_node 4 \<in> rt_nodes sample_table"
proof -
  have "\<exists>b \<in> set (rt_table sample_table). sample_node 4 \<in> set b" by code_simp
  then show ?thesis by (auto simp: rt_nodes_def)
qed

section \<open>Properties\<close>

text \<open>
  C8. A ping sent by the maintenance whose timer fires before a pong posts its timeout handler,
  expires at once, and the handler takes exactly the pinged node out of the table.
\<close>

theorem ping_timeout_evicts:
  assumes "kad_inv w" and "os_deref u (kd_pings w) = Inr obs" and "\<not> pg_is_pong_arrived obs"
    and "pg_timeout_handler obs = H_delete_node i kn"
  shows "\<exists>w1 w2. ping_timeout u w = Inr w1 \<and> w_queue w1 = w_queue w @ [T_call_timeout u] \<and>
    os_deref u (kd_pings w1) = Inr (destruct_self obs) \<and>
    call_timeout_handler E send u w1 = Inr w2 \<and>
    rt_nodes (kd_table w2) = {n \<in> rt_nodes (kd_table w). kn_id n \<noteq> kn_id kn} \<and>
    \<not> rt_is_exist (kd_table w2) kn \<and> kad_inv w2"
proof -
  let ?w1 = "modify_ping u destruct_self (io_post (T_call_timeout u) w)"
  let ?rt = "rt_modify i (bucket_delete_node kn) (kd_table w)"
  have "bo_id obs = u" "obs \<in> set (kd_pings w)" using os_deref_Inr [OF assms(2)] by simp_all
  then have wf: "rt_wf (kd_table w)" and i: "calc_branch_index (kd_table w) kn = i"
    using assms(1,4) by (auto simp: kad_inv_def handler_ok_def)
  have w1: "ping_timeout u w = Inr ?w1" using assms(2,3) by (simp add: ping_timeout_def)
  have d: "os_deref u (kd_pings ?w1) = Inr (destruct_self obs)"
    using os_deref_modify [of destruct_self, OF _ assms(2)] by simp
  have w2: "call_timeout_handler E send u ?w1 = Inr (?w1\<lparr>kd_table := ?rt\<rparr>)"
    using d assms(4) by (simp add: call_timeout_handler_def run_handler_def)
  have wf': "rt_wf ?rt" by (rule dn.modify_wf [OF wf i])
  have nodes: "rt_nodes ?rt = {n \<in> rt_nodes (kd_table w). kn_id n \<noteq> kn_id kn}"
    by (rule rt_nodes_delete [OF wf i])
  have "kad_inv ?w1" using w1 assms(1) by (rule ping_timeout_inv)
  then have "kad_inv (?w1\<lparr>kd_table := ?rt\<rparr>)" using wf' by (intro kad_inv_table) simp_all
  moreover have "\<not> rt_is_exist ?rt kn" using rt_is_exist_nodes [OF wf'] nodes by auto
  ultimately show ?thesis using w1 w2 d nodes by (intro exI [of _ ?w1] exI [of _ "?w1\<lparr>kd_table := ?rt\<rparr>"]) simp
qed

theorem ping_timeout_evicts_witness:
  "\<exists>w1 w2. ping_timeout 7 (sample_kad sample_table [sample_ping (sample_node 4)]) = Inr w1 \<and>
     call_timeout_handler sample_ext (sender_async_send sample_ext) 7 w1 = Inr w2 \<and>
     \<not> rt_is_exist (kd_table w2) (sample_node 4)"
proof -
  have "\<not> pg_is_pong_arrived (sample_ping kn)" for kn by (simp add: sample_ping_def)
  moreover have "pg_timeout_handler (sample_ping kn) = H_delete_node (calc_branch_index sample_table kn) kn" for kn
    by (simp add: sample_ping_def)
  ultimately show ?thesis
    using ping_timeout_evicts [OF sample_kad_inv sample_deref] by blast
qed

text \<open>
  C9. A pong posts the pong handler and cancels the timer; the cancelled wait finds the pong and
  does nothing, and the handler of a maintenance ping leaves the nodes of the table as they are with
  the pinged node as the most recently seen of its bucket.
\<close>

theorem pong_refreshes:
  assumes "kad_inv w" and "os_deref u (kd_pings w) = Inr obs"
    and "pg_pong_handler obs = H_move_back i kn" and "kn \<in> rt_nodes (kd_table w)"
  shows "\<exists>w1 w2. ping_income_message u w = Inr w1 \<and>
    w_queue w1 = w_queue w @ T_call_pong u # map snd (filter (\<lambda>(_, t). t = T_ping_timeout u) (w_timers w)) \<and>
    T_ping_timeout u \<notin> snd ` set (w_timers w1) \<and>
    call_pong_handler E send u w1 = Inr w2 \<and> ping_timeout u w2 = Inr w2 \<and>
    rt_nodes (kd_table w2) = rt_nodes (kd_table w) \<and>
    last (rt_get_bucket (kd_table w2) kn) = kn \<and> kad_inv w2"
proof -
  let ?f = "\<lambda>p. p\<lparr>pg_is_pong_arrived := True\<rparr>"
  let ?w1 = "modify_ping u destruct_self (timer_cancel (T_ping_timeout u) (io_post (T_call_pong u) (modify_ping u ?f w)))"
  let ?rt = "rt_modify i (bucket_move_back kn) (kd_table w)"
  let ?w2 = "?w1\<lparr>kd_table := ?rt\<rparr>"
  have "bo_id obs = u" "obs \<in> set (kd_pings w)" using os_deref_Inr [OF assms(2)] by simp_all
  then have wf: "rt_wf (kd_table w)" and i: "calc_branch_index (kd_table w) kn = i"
    using assms(1,3) by (auto simp: kad_inv_def handler_ok_def)
  have i160: "i < 160" using i by auto
  have w1: "ping_income_message u w = Inr ?w1" using assms(2) by (simp add: ping_income_message_def Let_def)
  have d: "os_deref u (kd_pings ?w1) = Inr (destruct_self (?f obs))"
    using os_deref_modify [of destruct_self, OF _ os_deref_modify [of ?f, OF _ assms(2)]] by simp
  have w2: "call_pong_handler E send u ?w1 = Inr ?w2"
    using d assms(3) by (simp add: call_pong_handler_def run_handler_def)
  have "kn \<in> set (rt_table (kd_table w) ! i)" using rt_bucket_nodes [OF wf i160] assms(4) i by simp
  then have "last (bucket_move_back kn (rt_table (kd_table w) ! i)) = kn"
    using move_back_known [OF rt_wfD(2) [OF wf i160] _ refl] by simp
  moreover have "rt_get_bucket ?rt kn = bucket_move_back kn (rt_table (kd_table w) ! i)"
    using i i160 rt_wfD(1) [OF wf] by (simp add: rt_get_bucket_def rt_modify_nth)
  moreover have "kad_inv ?w1" using w1 assms(1) by (rule ping_income_inv)
  then have "kad_inv ?w2" using mb.modify_wf [OF wf i] by (intro kad_inv_table) simp_all
  moreover have "ping_timeout u ?w2 = Inr ?w2" using d by (simp add: ping_timeout_def)
  ultimately show ?thesis
    using w1 w2 rt_nodes_move_back [OF wf i160] by (intro exI [of _ ?w1] exI [of _ ?w2]) auto
qed

theorem pong_refreshes_witness:
  "\<exists>w1 w2. ping_income_message 7 (sample_kad sample_table [sample_ping (sample_node 4)]) = Inr w1 \<and>
     call_pong_handler sample_ext (sender_async_send sample_ext) 7 w1 = Inr w2 \<and>
     last (rt_get_bucket (kd_table w2) (sample_node 4)) = sample_node 4"
proof -
  have "pg_pong_handler (sample_ping kn) = H_move_back (calc_branch_index sample_table kn) kn" for kn
    by (simp add: sample_ping_def)
  moreover have "sample_node 4 \<in> rt_nodes (kd_table (sample_kad sample_table ps))" for ps
    using sample_node_in by simp
  ultimately show ?thesis
    using pong_refreshes [OF sample_kad_inv sample_deref] by blast
qed

text \<open>
  C28. A clean-up of the storage between a pong and the handler it posted frees the observer: the
  posted lambda then calls through a dangling pointer. \<open>destruct_self\<close> sets the expiry to 0, so any
  clean-up that runs in that window takes the observer.
\<close>

theorem pong_use_after_free:
  assumes "os_deref u (kd_pings w) = Inr obs" and "0 \<le> w_now w"
  shows "\<exists>w1. ping_income_message u w = Inr w1 \<and> T_call_pong u \<in> set (w_queue w1) \<and>
    kad_task E send (T_call_pong u) (kad_refresh_tick w1) = Inl Undefined"
proof -
  let ?f = "\<lambda>p. p\<lparr>pg_is_pong_arrived := True\<rparr>"
  let ?w1 = "modify_ping u destruct_self (timer_cancel (T_ping_timeout u) (io_post (T_call_pong u) (modify_ping u ?f w)))"
  have w1: "ping_income_message u w = Inr ?w1" using assms(1) by (simp add: ping_income_message_def Let_def)
  have "u \<notin> os_ids (os_delete_expires (w_now w) (kd_pings ?w1))"
    using destructed_is_cleaned [OF assms(2)] by simp
  then have "os_deref u (kd_pings (kad_refresh_tick ?w1)) = Inl Undefined"
    by (simp add: os_deref_absent)
  then have "kad_task E send (T_call_pong u) (kad_refresh_tick ?w1) = Inl Undefined"
    by (simp add: kad_task_def call_pong_handler_def)
  then show ?thesis using w1 by (intro exI [of _ ?w1]) simp
qed

theorem pong_use_after_free_witness:
  "\<exists>w1. ping_income_message 7 (sample_kad sample_table [sample_ping (sample_node 4)]) = Inr w1 \<and>
     kad_task sample_ext (sender_async_send sample_ext) (T_call_pong 7) (kad_refresh_tick w1) = Inl Undefined"
proof -
  have "0 \<le> w_now (sample_kad sample_table [sample_ping kn])" for kn by simp
  then show ?thesis using pong_use_after_free [OF sample_deref] by blast
qed

section \<open>The exchanges over the wire\<close>

lemma ping_body_fields:
  "k_get_rpc (ping_body E t u) = Inr rpc_ping"
  "uuid_text_ok E \<Longrightarrow> k_get_observer_id E (ping_body E t u) = Inr u"
  "k_get_message_type (ping_body E ''request'' u) = Inr type_request"
  "k_set_message_type ty (ping_body E t u) = Inr (ping_body E ''response'' u)"
  unfolding ping_body_def k_get_observer_id_def
  by (simp_all add: k_get_rpc_obj k_get_message_type_obj get_observer_id_obj k_set_message_type_obj)
    (rule fmap_ext, auto)

lemma find_body_fields:
  "k_get_rpc (find_body E u ign) = Inr rpc_find_node"
  "uuid_text_ok E \<Longrightarrow> k_get_observer_id E (find_body E u ign) = Inr u"
  "k_get_message_type (find_body E u ign) = Inr type_request"
  "list_all (text_ep E) ign \<Longrightarrow> k_get_ignore_endpoint E (find_body E u ign) = Inr ign"
  unfolding find_body_def k_get_observer_id_def k_get_ignore_endpoint_def
  by (auto simp: k_get_rpc_obj k_get_message_type_obj intro!: get_observer_id_obj k_get_endpoints_obj)

text \<open>The answer to a \<open>find_node\<close> request: the request with the found endpoints, as a response.\<close>

definition found_body :: "ext \<Rightarrow> uuid \<Rightarrow> endpoint list \<Rightarrow> endpoint list \<Rightarrow> json" where
  "found_body E u ign eps = JObj (fmupd ''type'' (JStr ''response'')
     (fmupd ''finded_eps'' (texts_of E eps) (json_fields (find_body E u ign))))"

lemma found_body_fields:
  "k_get_rpc (found_body E u ign eps) = Inr rpc_find_node"
  "uuid_text_ok E \<Longrightarrow> k_get_observer_id E (found_body E u ign eps) = Inr u"
  "list_all (text_ep E) eps \<Longrightarrow> k_get_finded_endpoint E (found_body E u ign eps) = Inr eps"
  "bind_res (k_set_finded_endpoint E eps (find_body E u ign)) (k_set_message_type ty) = Inr (found_body E u ign eps)"
  unfolding found_body_def find_body_def k_get_observer_id_def k_get_finded_endpoint_def k_set_finded_endpoint_def
  by (auto simp: k_get_rpc_obj k_set_endpoints_obj k_set_message_type_obj intro!: get_observer_id_obj k_get_endpoints_obj)

lemma text_lengths:
  assumes "codec_ok E"
  shows "length (observer_id_to_str E u) < 2147483647" and "length (endpoint_to_str E ep) < 2147483647"
    and "length (x_ip_to_string E a) < 2147483647"
proof -
  have "length (x_uuid_to_string E u) \<le> 45" "length (x_ip_to_string E a) \<le> 45" using assms by (simp_all add: codec_ok_def)
  then show "length (observer_id_to_str E u) < 2147483647" "length (x_ip_to_string E a) < 2147483647"
    by (simp_all add: observer_id_to_str_def)
  show "length (endpoint_to_str E ep) < 2147483647" using length_endpoint_to_str [OF assms, of ep] by simp
qed

text \<open>The bodies are in the range of the codec, so the exchanges need no assumption on it.\<close>

lemma kad_bodies_ok:
  assumes "codec_ok E"
  shows "length t + 1 < 2 ^ 31 \<Longrightarrow> bson_ok E (ping_body E t u)" and "bson_ok E (find_body E u ign)"
    and "bson_ok E (found_body E u ign eps)"
proof -
  show "length t + 1 < 2 ^ 31 \<Longrightarrow> bson_ok E (ping_body E t u)" "bson_ok E (find_body E u ign)" "bson_ok E (found_body E u ign eps)"
    by (simp_all add: ping_body_def find_body_def found_body_def bson_key_ok_def text_lengths [OF assms])
qed

lemma kad_bodies_rt:
  assumes "codec_ok E"
  shows "t \<in> {''request'', ''response''} \<Longrightarrow> bson_rt E (payload_body i ''kademlia'' (ping_body E t u))"
    and "bson_rt E (payload_body i ''kademlia'' (find_body E u ign))"
    and "bson_rt E (payload_body i ''kademlia'' (found_body E u ign eps))"
  using assms by (auto intro!: payload_rt kad_bodies_ok simp: bson_key_ok_def codec_ok_def)

lemmas body_simps = ping_body_fields find_body_fields found_body_fields(1-3) k_message_of_json_def k_encode_def

lemma os_find_Cons_present: "i \<in> os_ids e \<Longrightarrow> \<exists>obs rest. os_find i e = obs # rest \<and> bo_id obs = i"
  using os_find_empty_iff [of i e] os_find_set [of _ i e] by (cases "os_find i e") auto

lemma income_ping_request:
  assumes "uuid_text_ok E" and "u \<notin> os_ids (kd_pings w)"
    and "bson_rt E (payload_body (w_app_id w) ''kademlia'' (ping_body E ''response'' u))"
  shows "dht_income_message E (payload_body i ''kademlia'' (ping_body E ''request'' u)) ep w =
    Inr ((socket_send ep (datagram E (w_app_id w) ''kademlia'' (ping_body E ''response'' u)) w)
           \<lparr>kd_table := drt_auto_update E ep (kd_table w)\<rparr>)"
  using assms
  by (simp add: dht_income_message_def rpc_income_message_def income_request_def ping_response_def
      body_simps os_find_absent sender_async_send_ok)

lemma income_ping_answer:
  assumes "uuid_text_ok E" and "u \<in> os_ids (kd_pings w)"
  shows "dht_income_message E (payload_body i ''kademlia'' (ping_body E t u)) ep w = ping_income_message u w"
  using assms(1) os_find_Cons_present [OF assms(2)]
  by (auto simp: dht_income_message_def body_simps)

lemma income_find_request:
  fixes w :: "'a kad_world_scheme"
  assumes "uuid_text_ok E" and "u \<notin> os_ids (kd_finds w)" and "list_all (text_ep E) ign"
    and "eps = drt_collect_endpoint E (kd_table w) ep 5 (ign @ [ep])"
    and "bson_rt E (payload_body (w_app_id w) ''kademlia'' (found_body E u ign eps))"
  shows "dht_income_message E (payload_body i ''kademlia'' (find_body E u ign)) ep w =
    Inr (socket_send ep (datagram E (w_app_id w) ''kademlia'' (found_body E u ign eps)) w)"
proof -
  have set: "bind_res (k_set_finded_endpoint E eps (find_body E u ign)) (\<lambda>m. bind_res (k_set_message_type type_response m) F)
      = F (found_body E u ign eps)" for F :: "k_message \<Rightarrow> 'a kad_world_scheme result"
    by (simp add: found_body_fields(4) flip: bind_res_assoc)
  show ?thesis
    using assms(1-3,5)
    by (simp add: set assms(4) [symmetric] dht_income_message_def rpc_income_message_def income_request_def find_node_response_def
        body_simps os_find_absent sender_async_send_ok Let_def)
qed

lemma income_find_answer:
  assumes "uuid_text_ok E" and "u \<in> os_ids (kd_finds w)" and "list_all (text_ep E) eps"
  shows "dht_income_message E (payload_body i ''kademlia'' (found_body E u ign eps)) ep w =
    Inr (modify_find u destruct_self (fold (\<lambda>itr. io_post (T_call_find u itr)) eps w))"
  using assms(1,3) os_find_Cons_present [OF assms(2)]
  by (auto simp: dht_income_message_def find_node_income_message_def body_simps)

text \<open>What a request sends through the plain sender, and the observer it stores.\<close>

lemma plain_ping_request:
  assumes b_def: "b = fst (ping_new E ep ph th w)"
    and "bson_rt E (payload_body (w_app_id w) ''kademlia'' (ping_body E ''request'' (bo_id b)))"
    and "bo_id b \<notin> os_ids (kd_pings w)"
  obtains w' where "ping_request E (sender_async_send E) ep ph th w = Inr w'"
    and "w_net w' = w_net w @ [(ep, datagram E (w_app_id w) ''kademlia'' (ping_body E ''request'' (bo_id b)))]"
    and "kd_pings w' = kd_pings w @ [extend_expire_at (w_now w) 6 b]" and "w_app_id w' = w_app_id w"
    and "kd_table w' = kd_table w"
proof -
  obtain n where n: "snd (base_observer_new E ''k_observer:ping'' w) = w\<lparr>w_uuids := n\<rparr>"
    using base_observer_new_world by blast
  let ?w1 = "add_ping (extend_expire_at (w_now w) 6 b) (timer_set (T_ping_timeout (bo_id b)) 4 (w\<lparr>w_uuids := n\<rparr>))"
  have app: "w_app_id ?w1 = w_app_id w" by (simp add: add_ping_def)
  have "ping_request E (sender_async_send E) ep ph th w =
      Inr (socket_send ep (datagram E (w_app_id w) ''kademlia'' (ping_body E ''request'' (bo_id b))) ?w1)"
    using assms(2) n app unfolding ping_request_eq Let_def
    by (simp add: b_def [symmetric] sender_async_send_ok)
  then show ?thesis
    by (rule that) (simp_all add: add_ping_def os_add_fresh assms(3))
qed

lemma fold_post_simps [simp]:
  "w_queue (fold (\<lambda>itr. io_post (f itr)) xs w) = w_queue w @ map f xs"
  "kd_finds (fold (\<lambda>itr. io_post (f itr)) xs v) = kd_finds v"
  by (induction xs arbitrary: w v) auto

end
