(* ===== verification/SS_IceProtocol.thy ===== *)
theory SS_IceProtocol
  imports SS_Signaling SS_KadProtocol
begin

text \<open>
  The properties of the ICE layer: the STUN exchange, what a signaling send puts on the wire, how a
  relay forwards, and what the answer to a signaling request sets off.
\<close>

section \<open>Sending one message to several endpoints\<close>

definition send_all :: "byte list \<Rightarrow> endpoint list \<Rightarrow> 'a io_world_scheme \<Rightarrow> 'a io_world_scheme" where
  "send_all d eps w = fold (\<lambda>e. socket_send e d) eps w"

lemma send_all_simps [simp]:
  "send_all d [] w = w" "send_all d (e # eps) w = send_all d eps (socket_send e d w)"
  by (simp_all add: send_all_def)

lemma send_all_world [simp]:
  "w_net (send_all d eps w) = w_net w @ map (\<lambda>e. (e, d)) eps" "w_app_id (send_all d eps w) = w_app_id w"
  "w_now (send_all d eps w) = w_now w" "w_queue (send_all d eps w) = w_queue w"
  "w_timers (send_all d eps w) = w_timers w" "w_uuids (send_all d eps w) = w_uuids w"
  "io_world.more (send_all d eps w) = io_world.more w"
  by (induction eps arbitrary: w) auto

lemma ice_fields_io [simp]:
  "iw_glob_self_ep (socket_send d b w) = iw_glob_self_ep w" "iw_requests (socket_send d b w) = iw_requests w"
  "iw_bindings (socket_send d b w) = iw_bindings w" "iw_srs (socket_send d b w) = iw_srs w"
  "iw_relays (socket_send d b w) = iw_relays w" "iw_responses (socket_send d b w) = iw_responses w"
  "iw_glob_self_ep (timer_set t s w) = iw_glob_self_ep w" "iw_requests (timer_set t s w) = iw_requests w"
  "iw_bindings (timer_set t s w) = iw_bindings w" "iw_srs (timer_set t s w) = iw_srs w"
  "iw_glob_self_ep (timer_cancel t w) = iw_glob_self_ep w" "iw_requests (timer_cancel t w) = iw_requests w"
  "iw_bindings (timer_cancel t w) = iw_bindings w" "iw_srs (timer_cancel t w) = iw_srs w"
  "iw_glob_self_ep (io_post t w) = iw_glob_self_ep w" "iw_requests (io_post t w) = iw_requests w"
  "iw_bindings (io_post t w) = iw_bindings w" "iw_srs (io_post t w) = iw_srs w"
  by (simp_all add: socket_send_def timer_set_def timer_cancel_def io_post_def Let_def)

lemma send_all_ice [simp]:
  "iw_glob_self_ep (send_all d eps w) = iw_glob_self_ep w" "iw_requests (send_all d eps w) = iw_requests w"
  "iw_bindings (send_all d eps w) = iw_bindings w" "iw_srs (send_all d eps w) = iw_srs w"
  "iw_relays (send_all d eps w) = iw_relays w" "kd_table (send_all d eps w) = kd_table w"
  by (induction eps arbitrary: w) auto

lemma ice_sends_ok:
  assumes "bson_rt E (payload_body i ''ice_agent'' (ice_encode m))" and "w_app_id w = i"
  shows "fold_res (\<lambda>itr. ice_async_ice_send E itr m) eps w =
    Inr (send_all (datagram E i ''ice_agent'' (ice_encode m)) eps w)"
  using assms(2)
proof (induction eps arbitrary: w)
  case (Cons e eps)
  then show ?case using assms(1) by (simp add: ice_async_ice_send_eq sender_async_send_ok)
qed simp

lemma ice_payload_rt:
  "codec_ok E \<Longrightarrow> bson_ok E (JObj b) \<Longrightarrow> bson_rt E (payload_body i ''ice_agent'' (JObj b))"
  by (auto intro!: payload_rt simp: codec_ok_def bson_key_ok_def)

section \<open>Signaling messages\<close>

text \<open>The fields of a signaling message body.\<close>

definition sgnl_fields ::
  "ext \<Rightarrow> (string, json) fmap \<Rightarrow> endpoint \<Rightarrow> endpoint \<Rightarrow> endpoint list \<Rightarrow> int \<Rightarrow> bool" where
  "sgnl_fields E b dest src rs ttl \<longleftrightarrow>
     fmlookup b ''protocol'' = Some (JStr ''signaling'') \<and>
     fmlookup b ''dest_ip'' = Some (JStr (x_ip_to_string E (ep_address dest))) \<and>
     fmlookup b ''dest_port'' = Some (JInt (uint (ep_port dest))) \<and>
     fmlookup b ''src_ip'' = Some (JStr (x_ip_to_string E (ep_address src))) \<and>
     fmlookup b ''src_port'' = Some (JInt (uint (ep_port src))) \<and>
     fmlookup b ''relay_eps'' = Some (texts_of E rs) \<and> fmlookup b ''ttl'' = Some (JInt ttl)"

lemma sgnl_get_dest:
  "ip_text_ok E \<Longrightarrow> sgnl_fields E b dest src rs ttl \<Longrightarrow> im_body m = JObj b \<Longrightarrow> sgnl_get_dest_endpoint E m = Inr dest"
  unfolding sgnl_get_dest_endpoint_def sgnl_fields_def by (intro im_get_endpoint_obj [where b = b]) blast+

lemma sgnl_get_src:
  "ip_text_ok E \<Longrightarrow> sgnl_fields E b dest src rs ttl \<Longrightarrow> im_body m = JObj b \<Longrightarrow> sgnl_get_src_endpoint E m = Inr src"
  unfolding sgnl_get_src_endpoint_def sgnl_fields_def by (intro im_get_endpoint_obj [where b = b]) blast+

lemma sgnl_get_ttl_obj:
  "sgnl_fields E b dest src rs ttl \<Longrightarrow> im_body m = JObj b \<Longrightarrow> - (2 ^ 31) \<le> ttl \<Longrightarrow> ttl < 2 ^ 31 \<Longrightarrow> sgnl_get_ttl m = Inr ttl"
  by (simp add: sgnl_get_ttl_def sgnl_fields_def signed_of_int signed_take_bit_int_eq_self)

text \<open>The message a relay sends on: the received body as a relay message with a longer relay list.\<close>

definition relayed :: "ext \<Rightarrow> (string, json) fmap \<Rightarrow> endpoint list \<Rightarrow> (string, json) fmap" where
  "relayed E b rs = fmupd ''relay_eps'' (texts_of E rs) (fmupd ''sub_protocol'' (JInt SIGNALING_RELAY) b)"

lemma relayed_fields: "sgnl_fields E b dest src rs ttl \<Longrightarrow> sgnl_fields E (relayed E b rs') dest src rs' ttl"
  by (simp add: sgnl_fields_def relayed_def)

lemma relayed_ok: "codec_ok E \<Longrightarrow> bson_ok E (JObj b) \<Longrightarrow> bson_ok E (JObj (relayed E b rs))"
  by (simp add: relayed_def bson_key_ok_def text_lengths)

lemma relay_more:
  "fold_res (sgnl_add_relay_endpoint E) eps \<lparr>im_body = JObj (relayed E b rs), im_protocol = p\<rparr> =
     Inr \<lparr>im_body = JObj (relayed E b (rs @ eps)), im_protocol = p\<rparr>"
proof (induction eps arbitrary: rs)
  case (Cons e eps)
  have "sgnl_add_relay_endpoint E e \<lparr>im_body = JObj (relayed E b rs), im_protocol = p\<rparr> =
      Inr \<lparr>im_body = JObj (relayed E b (rs @ [e])), im_protocol = p\<rparr>"
    by (subst sgnl_add_relay_obj [of _ "relayed E b rs" E rs]) (simp_all add: relayed_def)
  then show ?case using Cons.IH [of "rs @ [e]"] by simp
qed simp

lemma relay_first:
  assumes "fmlookup b ''relay_eps'' = Some (texts_of E rs)"
  shows "bind_res (sgnl_add_relay_endpoint E s \<lparr>im_body = JObj b, im_protocol = p\<rparr>) (ice_set_sub_protocol SIGNALING_RELAY)
    = Inr \<lparr>im_body = JObj (relayed E b (rs @ [s])), im_protocol = p\<rparr>"
proof -
  have "fmupd ''sub_protocol'' v (fmupd ''relay_eps'' u b) = fmupd ''relay_eps'' u (fmupd ''sub_protocol'' v b)" for u v
    by (rule fmap_ext) auto
  then show ?thesis
    using sgnl_add_relay_obj [of "\<lparr>im_body = JObj b, im_protocol = p\<rparr>" b E rs s] assms
    by (simp add: ice_set_sub_protocol_def im_set_def relayed_def)
qed

lemma signaling_of_json:
  "sgnl_fields E b dest src rs ttl \<Longrightarrow>
   ice_message_of_json (JObj b) = Inr \<lparr>im_body = JObj b, im_protocol = protocol_signaling\<rparr>"
  by (subst ice_of_json_obj [of b "JStr ''signaling''"]) (simp_all add: sgnl_fields_def)

section \<open>What the operations leave behind\<close>

text \<open>A relay that knows the destination passes the message on to it, and nothing else.\<close>

lemma relay_known:
  assumes "ip_text_ok E" and "sgnl_fields E b dest src rs ttl" and "codec_ok E" and "bson_ok E (JObj b)"
    and "dest \<noteq> iw_glob_self_ep w" and "drt_is_exist E (kd_table w) dest"
  shows "\<exists>n obs. signaling_income_message E (payload_body i ''ice_agent'' (JObj b)) ep w =
    Inr (add_relay obs (socket_send dest
      (datagram E (w_app_id w) ''ice_agent'' (JObj (relayed E b (rs @ [iw_glob_self_ep w])))) (w\<lparr>w_uuids := n\<rparr>)))"
proof -
  obtain n where n: "snd (base_observer_new E ''signaling_observer:signaling_relay'' w) = w\<lparr>w_uuids := n\<rparr>"
    using base_observer_new_world by blast
  then obtain obs where new: "base_observer_new E ''signaling_observer:signaling_relay'' w = (obs, w\<lparr>w_uuids := n\<rparr>)"
    by (metis prod.collapse)
  let ?m0 = "\<lparr>im_body = JObj b, im_protocol = protocol_signaling\<rparr>"
  let ?m2 = "\<lparr>im_body = JObj (relayed E b (rs @ [iw_glob_self_ep w])), im_protocol = protocol_signaling\<rparr>"
  have relays: "fmlookup b ''relay_eps'' = Some (texts_of E rs)" using assms(2) by (simp add: sgnl_fields_def)
  have first: "bind_res (sgnl_add_relay_endpoint E (iw_glob_self_ep w) ?m0) (\<lambda>m. bind_res (ice_set_sub_protocol SIGNALING_RELAY m) F) = F ?m2"
    for F :: "ice_message \<Rightarrow> 'a ice_world_scheme result"
    by (simp add: relay_first [OF relays] flip: bind_res_assoc)
  have send: "ice_async_ice_send E dest ?m2 (w\<lparr>w_uuids := n\<rparr>) =
      Inr (socket_send dest (datagram E (w_app_id w) ''ice_agent'' (im_body ?m2)) (w\<lparr>w_uuids := n\<rparr>))"
    using ice_payload_rt [OF assms(3) relayed_ok [OF assms(3,4)]]
    by (simp add: ice_async_ice_send_eq ice_encode_def sender_async_send_ok)
  show ?thesis
    using assms(5,6) send
    by (intro exI [of _ n] exI [of _ obs])
      (simp add: signaling_income_message_def signaling_of_json [OF assms(2)] sgnl_get_dest [OF assms(1,2)]
        ice_get_self_endpoint_def new first Let_def)
qed

text \<open>The destination answers to the source.\<close>

lemma destination_state:
  assumes "ip_text_ok E" and "sgnl_fields E b dest src rs ttl" and "dest = iw_glob_self_ep w"
    and "bson_ok E (JObj b)" and "codec_ok E"
  shows "\<exists>n obs. signaling_income_message E (payload_body i ''ice_agent'' (JObj b)) ep w =
    Inr (add_responder obs (socket_send src
      (datagram E (w_app_id w) ''ice_agent'' (JObj (fmupd ''sub_protocol'' (JInt SIGNALING_RESPONSE) b))) (w\<lparr>w_uuids := n\<rparr>)))"
proof -
  have ok: "bson_ok E (JObj (fmupd ''sub_protocol'' (JInt SIGNALING_RESPONSE) b))"
    using assms(4) by (simp add: bson_key_ok_def)
  obtain n where n: "snd (base_observer_new E ''signaling_response'' w) = w\<lparr>w_uuids := n\<rparr>"
    using base_observer_new_world by blast
  then obtain obs where new: "base_observer_new E ''signaling_response'' w = (obs, w\<lparr>w_uuids := n\<rparr>)"
    by (metis prod.collapse)
  have "sender_async_send E src ''ice_agent'' (JObj (fmupd ''sub_protocol'' (JInt SIGNALING_RESPONSE) b)) (w\<lparr>w_uuids := n\<rparr>)
    = Inr (socket_send src (datagram E (w_app_id w) ''ice_agent'' (JObj (fmupd ''sub_protocol'' (JInt SIGNALING_RESPONSE) b)))
        (w\<lparr>w_uuids := n\<rparr>))"
    using ice_payload_rt [OF assms(5) ok] by (subst sender_async_send_ok) simp_all
  then show ?thesis
    by (intro exI [of _ n] exI [of _ obs])
      (simp add: signaling_income_message_def signaling_of_json [OF assms(2)] sgnl_get_dest [OF assms(1,2)]
        sgnl_get_src [OF assms(1,2)] ice_get_self_endpoint_def assms(3) [symmetric] new
        ice_set_sub_protocol_def im_set_def ice_encode_def Let_def)
qed

text \<open>The answer sends the kept payload and queues the completion of that send.\<close>

lemma signaling_answer_state:
  assumes "os_deref u (iw_requests w) = Inr obs" and "\<not> sq_done obs"
    and "message_get_param ''ice_agent'' msg = Some (JObj b)"
    and "fmlookup b ''protocol'' = Some (JStr ''signaling'')" and "fmlookup b ''sub_protocol'' = Some (JInt SIGNALING_RESPONSE)"
    and "bson_key_ok (sq_cache_param obs)" and "bson_ok E (sq_cache_payload obs)" and "double_ok E"
  shows "signaling_request_income_message E u msg w = Inr (io_post (T_traversal_done u)
    (socket_send (sq_cache_ep obs) (datagram E (w_app_id w) (sq_cache_param obs) (sq_cache_payload obs)) w))"
proof -
  have sub: "ice_get_sub_protocol \<lparr>im_body = JObj b, im_protocol = p\<rparr> = Inr SIGNALING_RESPONSE" for p
    using assms(5) by (intro ice_get_sub_protocol_obj [of _ b]) simp_all
  show ?thesis
    using assms payload_rt [OF assms(8,6,7)]
    by (simp add: signaling_request_income_message_def ice_of_json_obj sub ice_async_send_eq sender_async_send_ok)
qed

section \<open>Properties\<close>

text \<open>
  C11. Relaying. A node that is neither the destination of a signaling message nor knows it forwards
  a message whose TTL is positive and below 2 to the 31 to at most four nodes of its table, none of them itself or one of the nodes the message
  has passed, each with the same body: a relay message whose relay list now holds this node and all
  the nodes it was forwarded to. Destination, source and TTL are those received: the TTL does not go down.
  The node's own endpoint and those of the received relay list are ones whose text reads back as the same
  endpoint (\<open>text_ep\<close>), as that of every IPv4 endpoint does.
\<close>

theorem relay_forwards:
  assumes "ip_text_ok E" and "sgnl_fields E b dest src rs ttl" and "0 < ttl" and "ttl < 2 ^ 31"
    and "self = iw_glob_self_ep w" and "list_all (text_ep E) (rs @ [self])"
    and "dest \<noteq> self" and "\<not> drt_is_exist E (kd_table w) dest"
    and "rt_wf (kd_table w)" and "rt_named E (kd_table w)"
    and "eps = drt_collect_endpoint E (kd_table w) dest 3 (rs @ [self])"
    and "b' = relayed E b (rs @ [self] @ eps)"
    and "bson_ok E (JObj b)" and "codec_ok E"
  shows "\<exists>w'. signaling_income_message E (payload_body i ''ice_agent'' (JObj b)) ep w = Inr w' \<and>
    w_net w' = w_net w @ map (\<lambda>e. (e, datagram E (w_app_id w) ''ice_agent'' (JObj b'))) eps \<and>
    length eps \<le> 4 \<and> set eps \<subseteq> kn_ep ` rt_nodes (kd_table w) \<and> set eps \<inter> set (self # rs) = {} \<and>
    sgnl_fields E b' dest src (rs @ [self] @ eps) ttl"
proof -
  obtain n where n: "snd (base_observer_new E ''signaling_observer:signaling_relay'' w) = w\<lparr>w_uuids := n\<rparr>"
    using base_observer_new_world by blast
  let ?w1 = "w\<lparr>w_uuids := n\<rparr>"
  obtain obs where new: "base_observer_new E ''signaling_observer:signaling_relay'' w = (obs, ?w1)"
    using n by (metis prod.collapse)
  let ?m0 = "\<lparr>im_body = JObj b, im_protocol = protocol_signaling\<rparr>"
  let ?m2 = "\<lparr>im_body = JObj (relayed E b (rs @ [self])), im_protocol = protocol_signaling\<rparr>"
  let ?m3 = "\<lparr>im_body = JObj b', im_protocol = protocol_signaling\<rparr>"
  have relays: "fmlookup b ''relay_eps'' = Some (texts_of E rs)" using assms(2) by (simp add: sgnl_fields_def)
  have first: "bind_res (sgnl_add_relay_endpoint E self ?m0) (\<lambda>m. bind_res (ice_set_sub_protocol SIGNALING_RELAY m) F) = F ?m2"
    for F :: "ice_message \<Rightarrow> 'a ice_world_scheme result"
    by (simp add: relay_first [OF relays] flip: bind_res_assoc)
  have read: "sgnl_get_relay_endpoints E ?m2 = Inr (rs @ [self])"
    using assms(6) by (intro sgnl_relays_obj [of _ "relayed E b (rs @ [self])"]) (simp_all add: relayed_def)
  have ttl: "sgnl_get_ttl ?m2 = Inr ttl"
    using relayed_fields [OF assms(2), of "rs @ [self]"] assms(3,4) by (intro sgnl_get_ttl_obj) auto
  have more: "fold_res (sgnl_add_relay_endpoint E) eps ?m2 = Inr ?m3" by (simp add: relay_more assms(12))
  have sends: "fold_res (\<lambda>itr. ice_async_ice_send E itr ?m3) eps ?w1 =
      Inr (send_all (datagram E (w_app_id w) ''ice_agent'' (JObj b')) eps ?w1)"
    using ice_sends_ok [of E "w_app_id w" ?m3 ?w1 eps] ice_payload_rt [OF assms(14) relayed_ok [OF assms(14,13)]] assms(12) by (simp add: ice_encode_def)
  have "signaling_income_message E (payload_body i ''ice_agent'' (JObj b)) ep w =
      Inr (add_relay obs (send_all (datagram E (w_app_id w) ''ice_agent'' (JObj b')) eps ?w1))"
    using assms(3,7,8)
    by (simp add: signaling_income_message_def signaling_of_json [OF assms(2)] sgnl_get_dest [OF assms(1,2)]
        ice_get_self_endpoint_def assms(5) [symmetric] new first read ttl assms(11) [symmetric] more sends Let_def)
  moreover note facts = collect_endpoint_facts [OF assms(9,10), of dest 3 "rs @ [self]", folded assms(11)]
  moreover have "sgnl_fields E b' dest src (rs @ [self] @ eps) ttl"
    unfolding assms(12) by (rule relayed_fields [OF assms(2)])
  ultimately show ?thesis by (simp add: add_relay_def)
qed

text \<open>
  C12. The node a signaling message is for answers to the source the message names, with the received
  body as a response, whatever its table holds, and forwards nothing.
\<close>

theorem destination_answers:
  assumes "ip_text_ok E" and "sgnl_fields E b dest src rs ttl" and "dest = iw_glob_self_ep w"
    and "bson_ok E (JObj b)" and "codec_ok E"
  shows "\<exists>w'. signaling_income_message E (payload_body i ''ice_agent'' (JObj b)) ep w = Inr w' \<and>
    w_net w' = w_net w @ [(src, datagram E (w_app_id w) ''ice_agent'' (JObj (fmupd ''sub_protocol'' (JInt SIGNALING_RESPONSE) b)))] \<and>
    kd_table w' = kd_table w"
  using destination_state [OF assms, of i ep] by (auto simp: add_responder_def)

text \<open>The message of a signaling request.\<close>

definition sgnl_body :: "ext \<Rightarrow> uuid \<Rightarrow> endpoint \<Rightarrow> endpoint \<Rightarrow> (string, json) fmap" where
  "sgnl_body E u dest src =
     fmupd ''src_port'' (JInt (uint (ep_port src))) (fmupd ''src_ip'' (JStr (x_ip_to_string E (ep_address src)))
       (fmupd ''dest_port'' (JInt (uint (ep_port dest))) (fmupd ''dest_ip'' (JStr (x_ip_to_string E (ep_address dest)))
         (fmupd ''sub_protocol'' (JInt SIGNALING_REQUEST) (fmupd ''observer_id'' (JStr (observer_id_to_str E u))
           (fmupd ''ttl'' (JInt 5) (fmupd ''relay_eps'' (JArr [])
             (fmupd ''protocol'' (JStr ''signaling'') fmempty))))))))"

lemma signaling_request_msg_eq:
  "signaling_request_msg E u dest src = Inr \<lparr>im_body = JObj (sgnl_body E u dest src), im_protocol = protocol_signaling\<rparr>"
  by (simp add: signaling_request_msg_def ice_signaling_def ice_new_body ice_set_observer_id_def ice_set_param_def
      ice_set_sub_protocol_def sgnl_set_dest_endpoint_def sgnl_set_src_endpoint_def im_set_endpoint_def im_set_def
      sgnl_body_def)

lemma port_bounds: "- 9223372036854775808 \<le> uint (p :: u16)" "uint (p :: u16) < 9223372036854775808"
proof -
  show "- 9223372036854775808 \<le> uint p" by (rule order_trans [OF _ uint_ge_0]) simp
  show "uint p < 9223372036854775808" by (rule less_trans [OF uint_lt2p]) simp
qed

lemma sgnl_body_ok: "codec_ok E \<Longrightarrow> bson_ok E (JObj (sgnl_body E u dest src))"
  by (simp add: sgnl_body_def bson_key_ok_def text_lengths port_bounds)

lemma sgnl_body_fields: "sgnl_fields E (sgnl_body E u dest src) dest src [] 5"
  by (simp add: sgnl_fields_def sgnl_body_def)

lemma signaling_request_new_simps:
  assumes "signaling_request_new E w = (obs, w1)"
  shows "\<exists>n. w1 = w\<lparr>w_uuids := n\<rparr>" and "sq_done obs = False"
  using assms signaling_request_new_frame [of E w]
  by (auto simp: signaling_request_new_def base_observer.defs Let_def split: prod.splits)

lemma signaling_send_unknown:
  assumes "signaling_request_new E w = (obs, w1)" and "body = JObj (sgnl_body E (bo_id obs) dest (iw_glob_self_ep w))"
    and "codec_ok E" and "eps = drt_collect_endpoint E (kd_table w) dest 3 []" and "\<not> drt_is_exist E (kd_table w) dest"
  shows "signaling_send E dest param payload w =
    Inr (add_request (obs\<lparr>sq_cache_ep := dest, sq_cache_param := param, sq_cache_payload := payload\<rparr>)
      (send_all (datagram E (w_app_id w) ''ice_agent'' body) eps
        (socket_send dest (datagram E (w_app_id w) ''dummy'' (JStr ''signaling dummy'')) w1)))"
proof -
  obtain n where w1: "w1 = w\<lparr>w_uuids := n\<rparr>" using signaling_request_new_simps(1) [OF assms(1)] by blast
  let ?obs1 = "obs\<lparr>sq_cache_ep := dest, sq_cache_param := param, sq_cache_payload := payload\<rparr>"
  let ?w2 = "socket_send dest (datagram E (w_app_id w) ''dummy'' (JStr ''signaling dummy'')) w1"
  let ?m = "\<lparr>im_body = body, im_protocol = protocol_signaling\<rparr>"
  let ?w3 = "send_all (datagram E (w_app_id w) ''ice_agent'' body) eps ?w2"
  have dummy: "send_dummy_message E dest w1 = Inr ?w2"
    using assms(3) payload_rt [of E "''dummy''" "JStr ''signaling dummy''"]
    by (simp add: codec_ok_def bson_key_ok_def send_dummy_message_def w1 sender_async_send_ok)
  have sends: "fold_res (\<lambda>itr. ice_async_ice_send E itr ?m) eps ?w2 = Inr ?w3"
    using ice_sends_ok [of E "w_app_id w" ?m ?w2 eps] ice_payload_rt [OF assms(3) sgnl_body_ok [OF assms(3)]] assms(2)
    by (simp add: ice_encode_def w1)
  have "signaling_request_init E dest param payload obs w1 = Inr (?obs1, ?w3)"
    using sends unfolding assms(2,4)
    by (simp add: signaling_request_init_def dummy [unfolded w1] signaling_request_msg_eq Let_def w1)
  then show ?thesis using assms(5) by (simp add: signaling_send_def assms(1))
qed

text \<open>
  C10. What a send does. To an endpoint the table knows, one datagram with the payload goes out. To
  another, a dummy goes to the destination, to open the NAT for its answers, and a signaling request
  naming destination and source goes to at most four nodes of the table; the payload is kept in an
  observer under the identifier the request carries.
\<close>

theorem signaling_send_effect:
  assumes "signaling_request_new E w = (obs, w1)" and "bo_id obs \<notin> os_ids (iw_requests w)"
    and "bson_key_ok param" and "bson_ok E payload"
    and "body = JObj (sgnl_body E (bo_id obs) dest (iw_glob_self_ep w))"
    and "codec_ok E"
    and "eps = drt_collect_endpoint E (kd_table w) dest 3 []"
  shows "if drt_is_exist E (kd_table w) dest
    then signaling_send E dest param payload w = Inr (socket_send dest (datagram E (w_app_id w) param payload) w)
    else (\<exists>w'. signaling_send E dest param payload w = Inr w' \<and>
      w_net w' = w_net w @ (dest, datagram E (w_app_id w) ''dummy'' (JStr ''signaling dummy''))
        # map (\<lambda>e. (e, datagram E (w_app_id w) ''ice_agent'' body)) eps \<and>
      length eps \<le> 4 \<and>
      iw_requests w' = iw_requests w @
        [obs\<lparr>sq_cache_ep := dest, sq_cache_param := param, sq_cache_payload := payload\<rparr>])"
proof (cases "drt_is_exist E (kd_table w) dest")
  case True
  then show ?thesis
    using payload_rt [OF _ assms(3,4)] assms(6) by (simp add: signaling_send_def sender_async_send_ok codec_ok_def)
next
  case False
  obtain n where w1: "w1 = w\<lparr>w_uuids := n\<rparr>" using signaling_request_new_simps(1) [OF assms(1)] by blast
  have "length eps \<le> 4"
    using collect_node_short [of 3 "kd_table w" "k_node_of E dest" "[]"]
    by (simp add: assms(7) collect_endpoint_eq short_of_def)
  then show ?thesis
    using False assms(2) signaling_send_unknown [OF assms(1,5,6,7) False] by (simp add: add_request_def os_add_fresh w1)
qed

text \<open>
  C13. The answer to a signaling request sends the kept payload to the destination, once: the
  completion of that send marks the observer, and every later answer leaves the world as it is.
\<close>

theorem signaling_answer_sends_payload:
  assumes "os_deref u (iw_requests w) = Inr obs" and "\<not> sq_done obs"
    and "message_get_param ''ice_agent'' msg = Some (JObj b)"
    and "fmlookup b ''protocol'' = Some (JStr ''signaling'')" and "fmlookup b ''sub_protocol'' = Some (JInt SIGNALING_RESPONSE)"
    and "bson_key_ok (sq_cache_param obs)" and "bson_ok E (sq_cache_payload obs)" and "double_ok E"
  shows "\<exists>w1 w2. signaling_request_income_message E u msg w = Inr w1 \<and>
    w_net w1 = w_net w @ [(sq_cache_ep obs, datagram E (w_app_id w) (sq_cache_param obs) (sq_cache_payload obs))] \<and>
    w_queue w1 = w_queue w @ [T_traversal_done u] \<and>
    ice_task E (T_traversal_done u) w1 = Inr w2 \<and>
    signaling_request_income_message E u msg' w2 = Inr w2"
proof -
  let ?w1 = "io_post (T_traversal_done u)
    (socket_send (sq_cache_ep obs) (datagram E (w_app_id w) (sq_cache_param obs) (sq_cache_payload obs)) w)"
  let ?w2 = "modify_request u (\<lambda>q. q\<lparr>sq_done := True\<rparr>) ?w1"
  note w1 = signaling_answer_state [OF assms]
  have w2: "ice_task E (T_traversal_done u) ?w1 = Inr ?w2"
    using assms(1) by (simp add: ice_task_def on_traversal_done_def)
  have "os_deref u (iw_requests ?w2) = Inr (obs\<lparr>sq_done := True\<rparr>)"
    using os_deref_modify [of "\<lambda>q. q\<lparr>sq_done := True\<rparr>", OF _ assms(1)] by (simp add: modify_request_def)
  then have "signaling_request_income_message E u msg' ?w2 = Inr ?w2"
    by (simp add: signaling_request_income_message_def)
  then show ?thesis using w1 w2 by (intro exI [of _ ?w1] exI [of _ ?w2]) simp
qed

text \<open>
  A reserved object is never in the state \<open>pending\<close> once its request was started, so
  \<open>sync_get\<close> always waits for a notification, also on an object that is already done, and on the object returned
  when there is nobody to ask, which nothing will notify.
\<close>

theorem sync_get_always_waits:
  "sr_state (fst (sr_update_state s ep sr)) \<noteq> sr_pending \<and>
   sr_sync_get (fst (sr_update_state s ep sr)) = None \<and> sr_sync_get sr_error = None"
  by (auto simp: sr_update_state_def sr_sync_get_def sr_error_def sr_new_def split: option.splits)

section \<open>The STUN exchange\<close>

definition stun_body :: "ext \<Rightarrow> uuid \<Rightarrow> (string, json) fmap" where
  "stun_body E u =
     fmupd ''sub_protocol'' (JInt STUN_BINDING_REQUEST) (fmupd ''observer_id'' (JStr (observer_id_to_str E u))
       (fmupd ''ttl'' (JInt 5) (fmupd ''relay_eps'' (JArr []) (fmupd ''protocol'' (JStr ''stun'') fmempty))))"

text \<open>The answer: the request as a response, with the endpoint it came from.\<close>

definition stun_answer :: "ext \<Rightarrow> uuid \<Rightarrow> endpoint \<Rightarrow> (string, json) fmap" where
  "stun_answer E u ep =
     fmupd ''global_port'' (JInt (uint (ep_port ep))) (fmupd ''global_ip'' (JStr (x_ip_to_string E (ep_address ep)))
       (fmupd ''sub_protocol'' (JInt STUN_BINDING_RESPONSE) (stun_body E u)))"

lemma stun_bodies_ok:
  "codec_ok E \<Longrightarrow> bson_ok E (JObj (stun_body E u))" "codec_ok E \<Longrightarrow> bson_ok E (JObj (stun_answer E u ep))"
  by (simp_all add: stun_answer_def stun_body_def bson_key_ok_def text_lengths port_bounds)

abbreviation stun_im :: "(string, json) fmap \<Rightarrow> ice_message" where
  "stun_im b \<equiv> \<lparr>im_body = JObj b, im_protocol = protocol_stun\<rparr>"

lemma stun_request_msg_eq: "stun_request_msg E u = Inr (stun_im (stun_body E u))"
  by (simp add: stun_request_msg_def ice_stun_def ice_new_body ice_set_observer_id_def ice_set_param_def
      ice_set_sub_protocol_def im_set_def stun_body_def)

lemma stun_of_json:
  "ice_message_of_json (JObj (stun_body E u)) = Inr (stun_im (stun_body E u))"
  "ice_message_of_json (JObj (stun_answer E u ep)) = Inr (stun_im (stun_answer E u ep))"
  by (simp_all add: ice_of_json_obj [of _ "JStr ''stun''"] stun_body_def stun_answer_def)

lemma stun_reads:
  "ice_get_sub_protocol (stun_im (stun_body E u)) = Inr STUN_BINDING_REQUEST"
  "uuid_text_ok E \<Longrightarrow> ice_get_observer_id E (stun_im (stun_body E u)) = Inr u"
  "uuid_text_ok E \<Longrightarrow> ice_get_observer_id E (stun_im (stun_answer E u ep)) = Inr u"
  "ip_text_ok E \<Longrightarrow> stun_get_global_ep E (stun_im (stun_answer E u ep)) = Inr (Some ep)"
  "bind_res (ice_set_sub_protocol STUN_BINDING_RESPONSE (stun_im (stun_body E u))) (stun_set_global_ep E ep)
     = Inr (stun_im (stun_answer E u ep))"
proof -
  show "ice_get_sub_protocol (stun_im (stun_body E u)) = Inr STUN_BINDING_REQUEST"
    by (rule ice_get_sub_protocol_obj [of _ "stun_body E u"]) (simp_all add: stun_body_def)
  show "uuid_text_ok E \<Longrightarrow> ice_get_observer_id E (stun_im (stun_body E u)) = Inr u"
    and "uuid_text_ok E \<Longrightarrow> ice_get_observer_id E (stun_im (stun_answer E u ep)) = Inr u"
    by (simp_all add: ice_get_observer_id_def get_observer_id_obj stun_answer_def stun_body_def)
  show "ip_text_ok E \<Longrightarrow> stun_get_global_ep E (stun_im (stun_answer E u ep)) = Inr (Some ep)"
    by (simp add: stun_get_global_ep_def im_get_endpoint_obj [of E _ "stun_answer E u ep"] stun_answer_def)
  show "bind_res (ice_set_sub_protocol STUN_BINDING_RESPONSE (stun_im (stun_body E u))) (stun_set_global_ep E ep)
     = Inr (stun_im (stun_answer E u ep))"
    by (simp add: ice_set_sub_protocol_def im_set_def stun_set_global_ep_def im_set_endpoint_def stun_answer_def)
qed

lemma income_stun_request:
  fixes w :: "'a ice_world_scheme"
  assumes "uuid_text_ok E" and "u \<notin> os_ids (iw_bindings w)"
    and "bson_rt E (payload_body (w_app_id w) ''ice_agent'' (JObj (stun_answer E u ep)))"
  shows "ice_income_message E (payload_body i ''ice_agent'' (JObj (stun_body E u))) ep w =
    Inr (socket_send ep (datagram E (w_app_id w) ''ice_agent'' (JObj (stun_answer E u ep))) w)"
proof -
  have set: "bind_res (ice_set_sub_protocol STUN_BINDING_RESPONSE (stun_im (stun_body E u)))
      (\<lambda>m. bind_res (stun_set_global_ep E ep m) F) = F (stun_im (stun_answer E u ep))"
    for F :: "ice_message \<Rightarrow> 'a ice_world_scheme result"
    by (simp add: stun_reads(5) flip: bind_res_assoc)
  show ?thesis
    using assms
    by (simp add: ice_income_message_def stun_of_json ice_get_protocol_def stun_reads os_find_absent
        stun_income_message_def set ice_async_ice_send_eq ice_encode_def sender_async_send_ok)
qed

lemma income_stun_answer:
  assumes "uuid_text_ok E" and "ip_text_ok E" and "os_deref u (iw_bindings w) = Inr obs"
    and "global_ep_consensus E False (set_response src g (br_responses obs)) = (cc_done, Some v)"
    and "br_sr obs < length (iw_srs w)" and "sr_is_async (iw_srs w ! br_sr obs)" and "\<not> br_is_handler_called obs"
  shows "\<exists>w'. ice_income_message E (payload_body i ''ice_agent'' (JObj (stun_answer E u g))) src w = Inr w' \<and>
    sr_state (iw_srs w' ! br_sr obs) = sr_done \<and> sr_global_ep (iw_srs w' ! br_sr obs) = v \<and>
    T_sr_handler u (Some v) \<in> set (w_queue w') \<and> kd_table w' = kd_table w"
proof -
  have "u \<in> os_ids (iw_bindings w)" using os_deref_Inr [OF assms(3)] by (auto simp: os_ids_def)
  then have find: "\<exists>o' rest. os_find u (iw_bindings w) = o' # rest \<and> bo_id o' = u" by (rule os_find_Cons_present)
  have income: "ice_income_message E (payload_body i ''ice_agent'' (JObj (stun_answer E u g))) src w =
      binding_request_income_message E u (payload_body i ''ice_agent'' (JObj (stun_answer E u g))) src w"
    using find assms(1) by (auto simp: ice_income_message_def stun_of_json ice_get_protocol_def stun_reads)
  let ?w1 = "modify_binding u (add_response src g) w"
  let ?w2 = "update_sr (br_sr obs) (cc_done, Some v) ?w1"
  let ?w3 = "async_call_sr_handler u (Some v) ?w2"
  have sr: "iw_srs ?w2 ! br_sr obs = (iw_srs w ! br_sr obs)\<lparr>sr_state := sr_done, sr_global_ep := v\<rparr>"
    using assms(5) by (simp add: update_sr_def modify_sr_def sr_update_state_def modify_binding_def)
  have "binding_request_income_message E u (payload_body i ''ice_agent'' (JObj (stun_answer E u g))) src w =
      Inr (modify_binding u destruct_self (timer_cancel (T_binding_timeout u) ?w3))"
    using assms(2-4,6,7) sr
    by (simp add: binding_request_income_message_def stun_of_json stun_reads add_response_def Let_def)
  then show ?thesis
    using income sr
    by (simp add: async_call_sr_handler_def modify_binding_def)
      (simp add: update_sr_def modify_sr_def)
qed

text \<open>An answer that leaves the vote open is stored, and nothing else happens.\<close>

lemma income_stun_open:
  assumes "uuid_text_ok E" and "ip_text_ok E" and "os_deref u (iw_bindings w) = Inr obs"
    and "global_ep_consensus E False (set_response src g (br_responses obs)) = (cc_on_handling, v)"
  shows "ice_income_message E (payload_body i ''ice_agent'' (JObj (stun_answer E u g))) src w =
    Inr (modify_binding u (add_response src g) w)"
proof -
  have "u \<in> os_ids (iw_bindings w)" using os_deref_Inr [OF assms(3)] by (auto simp: os_ids_def)
  then have "\<exists>o' rest. os_find u (iw_bindings w) = o' # rest \<and> bo_id o' = u" by (rule os_find_Cons_present)
  then show ?thesis
    using assms
    by (auto simp: ice_income_message_def stun_of_json ice_get_protocol_def stun_reads
        binding_request_income_message_def add_response_def Let_def)
qed

text \<open>One node asked: the observer is stored, its timer runs, and one datagram goes out.\<close>

lemma stun_binding_one:
  assumes "binding_request_new E (snd (sr_alloc sr_new w)) = (b, w0)"
    and "bson_rt E (payload_body (w_app_id w) ''ice_agent'' (JObj (stun_body E (bo_id b))))"
  shows "stun_binding_request E [eb] 3 w = Inr (length (iw_srs w),
    modify_binding (bo_id b) (add_requested_ep eb)
      (socket_send eb (datagram E (w_app_id w) ''ice_agent'' (JObj (stun_body E (bo_id b))))
        (add_binding (b\<lparr>br_sr := length (iw_srs w)\<rparr>)
          (timer_set (T_binding_timeout (bo_id b)) 4
            (modify_sr (length (iw_srs w)) (\<lambda>s. fst (sr_update_state sr_pending None s)) w0)))))"
proof -
  obtain n where w0: "w0 = (w\<lparr>iw_srs := iw_srs w @ [sr_new]\<rparr>)\<lparr>w_uuids := n\<rparr>"
    using assms(1) base_observer_new_world [of E "''stun_observer:binding_request''" "snd (sr_alloc sr_new w)"]
    by (auto simp: binding_request_new_def sr_alloc_def Let_def split: prod.splits)
  let ?w4 = "add_binding (b\<lparr>br_sr := length (iw_srs w)\<rparr>) (timer_set (T_binding_timeout (bo_id b)) 4
    (modify_sr (length (iw_srs w)) (\<lambda>s. fst (sr_update_state sr_pending None s)) w0))"
  have "w_app_id ?w4 = w_app_id w" by (simp add: w0 add_binding_def modify_sr_def)
  then have "ice_async_ice_send E eb (stun_im (stun_body E (bo_id b))) ?w4 =
      Inr (socket_send eb (datagram E (w_app_id w) ''ice_agent'' (JObj (stun_body E (bo_id b)))) ?w4)"
    using assms(2) by (simp add: ice_async_ice_send_eq ice_encode_def sender_async_send_ok)
  then show ?thesis
    using assms(1)
    by (simp add: stun_binding_request_def binding_targets_def sr_alloc_def binding_request_init_def
        stun_request_msg_eq Let_def)
qed

text \<open>One node asked, one answer.\<close>

lemma single_vote:
  "global_ep_consensus E False [(eb, Some ea)] =
    (if x_is_loopback E (ep_address ea) then (cc_on_handling, None) else (cc_done, Some ea))"
proof -
  have "sort_votes (count_votes [ea]) = [(ea, 1)]" by (simp add: count_votes_def sort_votes_def)
  then show ?thesis by (simp add: global_ep_consensus_def answered_def valid_answers_def)
qed

text \<open>
  C7. The STUN exchange. Node A asks node B for its own endpoint and then registers the handler
  that updates it, as the node controller does; B answers to the endpoint the datagram came from with
  that endpoint; A decodes the answer, which reaches the observer of its request. Unless the endpoint B saw
  is a loopback address, the reserved object is done with it and the handler is queued with it. A loopback
  address leaves the vote open: the object is not done, and nothing is queued.
\<close>

theorem stun_exchange:
  assumes "binding_request_new E (snd (sr_alloc sr_new wa)) = (b, w0)"
    and "uuid_text_ok E" and "ip_text_ok E"
    and "bo_id b \<notin> os_ids (iw_bindings wa)" and "bo_id b \<notin> os_ids (iw_bindings wb)"
    and "codec_ok E"
  shows "\<exists>a wa1 d wb1 r wa2. stun_binding_request E [eb] 3 wa = Inr (a, wa1) \<and> w_net wa1 = w_net wa @ [(eb, d)] \<and>
    bind_res (message_decode E d) (\<lambda>m. ice_income_message E m ea wb) = Inr wb1 \<and> w_net wb1 = w_net wb @ [(ea, r)] \<and>
    bind_res (message_decode E r)
      (\<lambda>m. ice_income_message E m eb (modify_sr a (sr_async_get SR_update_global_self_endpoint) wa1)) = Inr wa2 \<and>
    (if x_is_loopback E (ep_address ea)
     then sr_state (iw_srs wa2 ! a) \<noteq> sr_done \<and> w_queue wa2 = w_queue wa1
     else sr_state (iw_srs wa2 ! a) = sr_done \<and> sr_global_ep (iw_srs wa2 ! a) = ea \<and>
       T_sr_handler (bo_id b) (Some ea) \<in> set (w_queue wa2))"
proof -
  note rt = ice_payload_rt [OF assms(6) stun_bodies_ok(1) [OF assms(6)]] ice_payload_rt [OF assms(6) stun_bodies_ok(2) [OF assms(6)]]
  let ?u = "bo_id b" and ?a = "length (iw_srs wa)"
  let ?d = "datagram E (w_app_id wa) ''ice_agent'' (JObj (stun_body E ?u))"
  let ?r = "datagram E (w_app_id wb) ''ice_agent'' (JObj (stun_answer E ?u ea))"
  obtain n where w0: "w0 = (wa\<lparr>iw_srs := iw_srs wa @ [sr_new]\<rparr>)\<lparr>w_uuids := n\<rparr>"
    using assms(1) base_observer_new_world [of E "''stun_observer:binding_request''" "snd (sr_alloc sr_new wa)"]
    by (auto simp: binding_request_new_def sr_alloc_def Let_def split: prod.splits)
  have b: "br_responses b = []" "\<not> br_is_handler_called b"
    using assms(1) by (auto simp: binding_request_new_def base_observer.defs Let_def split: prod.splits)
  let ?b1 = "b\<lparr>br_sr := ?a\<rparr>"
  let ?w3 = "timer_set (T_binding_timeout ?u) 4 (modify_sr ?a (\<lambda>s. fst (sr_update_state sr_pending None s)) w0)"
  let ?w4 = "add_binding ?b1 ?w3"
  let ?wa1 = "modify_binding ?u (add_requested_ep eb) (socket_send eb ?d ?w4)"
  have w4: "w_app_id ?w4 = w_app_id wa" "w_net ?w4 = w_net wa" "iw_bindings ?w4 = iw_bindings wa @ [?b1]"
    "length (iw_srs ?w4) = Suc ?a"
    using assms(4) by (simp_all add: w0 add_binding_def modify_sr_def os_add_fresh)
  have wa1: "stun_binding_request E [eb] 3 wa = Inr (?a, ?wa1)"
    by (rule stun_binding_one [OF assms(1) rt(1)])
  let ?wa1' = "modify_sr ?a (sr_async_get SR_update_global_self_endpoint) ?wa1"
  have bindings: "iw_bindings ?wa1' = os_modify ?u (add_requested_ep eb) (iw_bindings wa @ [?b1])"
    using w4(3) by (simp add: modify_sr_def modify_binding_def)
  have keep: "bo_id (add_requested_ep e o') = bo_id o'" for e o' by (simp add: add_requested_ep_def)
  have "os_deref ?u (iw_bindings wa @ [?b1]) = Inr ?b1" using assms(4) by (simp add: os_deref_append)
  then have deref: "os_deref ?u (iw_bindings ?wa1') = Inr (add_requested_ep eb ?b1)"
    unfolding bindings by (intro os_deref_modify) (simp_all add: keep)
  have srs: "length (iw_srs ?wa1') = Suc ?a" "sr_is_async (iw_srs ?wa1' ! ?a)"
    "sr_state (iw_srs ?wa1' ! ?a) \<noteq> sr_done" "w_queue ?wa1' = w_queue ?wa1"
    using w4(4) by (simp_all add: modify_sr_def modify_binding_def sr_async_get_def w0 sr_update_state_def add_binding_def)
  have vote: "global_ep_consensus E False (set_response eb ea (br_responses (add_requested_ep eb ?b1))) =
      (if x_is_loopback E (ep_address ea) then (cc_on_handling, None) else (cc_done, Some ea))"
    using b single_vote by (simp add: add_requested_ep_def)
  have "\<exists>wa2. ice_income_message E (payload_body (w_app_id wb) ''ice_agent'' (JObj (stun_answer E ?u ea))) eb ?wa1' = Inr wa2 \<and>
    (if x_is_loopback E (ep_address ea)
     then sr_state (iw_srs wa2 ! ?a) \<noteq> sr_done \<and> w_queue wa2 = w_queue ?wa1
     else sr_state (iw_srs wa2 ! ?a) = sr_done \<and> sr_global_ep (iw_srs wa2 ! ?a) = ea \<and>
       T_sr_handler ?u (Some ea) \<in> set (w_queue wa2))"
  proof (cases "x_is_loopback E (ep_address ea)")
    case True
    then have undecided: "global_ep_consensus E False (set_response eb ea (br_responses (add_requested_ep eb ?b1))) = (cc_on_handling, None)"
      using vote by simp
    show ?thesis
      using True srs(3,4) income_stun_open [OF assms(2,3) deref undecided] by (simp add: modify_binding_def)
  next
    case False
    then have decided: "global_ep_consensus E False (set_response eb ea (br_responses (add_requested_ep eb ?b1))) = (cc_done, Some ea)"
      using vote by simp
    show ?thesis
      using False income_stun_answer [OF assms(2,3) deref decided] srs(1,2) b by (auto simp: add_requested_ep_def)
  qed
  then obtain wa2 where wa2: "ice_income_message E (payload_body (w_app_id wb) ''ice_agent'' (JObj (stun_answer E ?u ea))) eb ?wa1' = Inr wa2"
    "if x_is_loopback E (ep_address ea)
     then sr_state (iw_srs wa2 ! ?a) \<noteq> sr_done \<and> w_queue wa2 = w_queue ?wa1
     else sr_state (iw_srs wa2 ! ?a) = sr_done \<and> sr_global_ep (iw_srs wa2 ! ?a) = ea \<and>
       T_sr_handler ?u (Some ea) \<in> set (w_queue wa2)"
    by blast
  have "w_net ?wa1 = w_net wa @ [(eb, ?d)]" using w4(2) by (simp add: modify_binding_def)
  then show ?thesis
    using wa1 wa2 income_stun_request [OF assms(2,5) rt(2), of "w_app_id wa"]
      datagram_decode [OF rt(1)] datagram_decode [OF rt(2)]
    by - (rule exI [of _ ?a], rule exI [of _ ?wa1], rule exI [of _ ?d], rule exI [of _ "socket_send ea ?r wb"],
      rule exI [of _ ?r], rule exI [of _ wa2], simp)
qed

section \<open>Sample worlds\<close>

definition sample_peer :: endpoint where "sample_peer = Endpoint (V4 16909061) 8200"
definition sample_dest :: endpoint where "sample_dest = Endpoint (V4 16909077) 8300"
definition sample_self :: endpoint where "sample_self = Endpoint (V4 16909060) 8100"

text \<open>Byte 1 of a sample identifier is the low byte of the port.\<close>

lemma sample_id_port: "nid_nth (calc_node_id sample_ext ep) 1 = ucast (ep_port ep)"
proof -
  define t :: "byte list" where "t = map of_char (x_ip_to_string sample_ext (ep_address ep)) @ [ucast (ep_port ep)]"
  define bs :: "byte list" where "bs = take 20 (rev (t @ [ucast (drop_bit 8 (ep_port ep))]) @ replicate 20 0)"
  have "x_sha1 sample_ext cs = take 20 (rev cs @ replicate 20 0)" for cs by (simp add: sample_ext_def)
  then have id: "calc_node_id sample_ext ep = nid_of_bytes bs"
    by (simp only: calc_node_id_def endpoint_to_binary_def bs_def t_def take_take min.idem append_assoc append_Cons append_Nil)
  have l: "length bs = 20" by (simp add: bs_def)
  have "bs ! 1 = ucast (ep_port ep)" by (simp add: bs_def t_def nth_append)
  then show ?thesis unfolding id using nid_nth_of_bytes [OF l, of 1] by simp
qed

lemma singleton_list: "set xs = {x} \<Longrightarrow> length xs \<le> 1 \<Longrightarrow> xs = [x]"
  by (cases xs) auto

lemma sample_ids_differ:
  "calc_node_id sample_ext sample_peer \<noteq> calc_node_id sample_ext sample_self"
  "calc_node_id sample_ext sample_peer \<noteq> calc_node_id sample_ext sample_dest"
  "calc_node_id sample_ext sample_dest \<noteq> 0"
  using sample_id_port [of sample_peer] sample_id_port [of sample_self] sample_id_port [of sample_dest]
  by (auto simp: sample_peer_def sample_self_def sample_dest_def nid_nth_def)

text \<open>A table with one node, the sample peer.\<close>

definition sample_net_table :: k_routing_table where
  "sample_net_table = drt_auto_update sample_ext sample_peer (rt_new 0)"

lemma sample_net_wf: "rt_wf sample_net_table"
  by (simp add: sample_net_table_def drt_auto_update_wf rt_new_wf)

lemma single_table_nodes: "rt_nodes (drt_auto_update E ep (rt_new i)) = {k_node_of E ep}"
proof -
  let ?kn = "k_node_of E ep" and ?i = "calc_branch_index (rt_new i) (k_node_of E ep)"
  have "rt_table (rt_new i) ! ?i = []" by (simp add: rt_new_def bucket_empty_def)
  moreover have "rt_nodes (rt_new i) = {}" by (simp add: rt_nodes_def rt_new_def bucket_empty_def)
  ultimately show ?thesis
    unfolding drt_auto_update_def rt_auto_update_snd rt_nodes_modify [OF rt_new_wf calc_branch_index_less]
    by (simp add: bucket_auto_update_def exist_ids bucket_is_full_def add_back_eq)
qed

lemma sample_net_nodes: "rt_nodes sample_net_table = {k_node_of sample_ext sample_peer}"
  unfolding sample_net_table_def by (rule single_table_nodes)

lemma sample_net_named: "rt_named sample_ext sample_net_table"
  by (simp add: rt_named_def sample_net_nodes)

lemma sample_net_exist:
  "drt_is_exist sample_ext sample_net_table sample_peer" "\<not> drt_is_exist sample_ext sample_net_table sample_dest"
  using sample_ids_differ(2)
  by (simp_all add: drt_is_exist_def rt_is_exist_nodes [OF sample_net_wf] sample_net_nodes eq_commute)

lemma single_collect:
  assumes "calc_node_id E rep \<noteq> 0" and "calc_node_id E ep \<notin> calc_node_id E ` set ign" and "1 < mx"
  shows "drt_collect_endpoint E (drt_auto_update E ep (rt_new 0)) rep mx ign = [ep]"
proof -
  let ?rt = "drt_auto_update E ep (rt_new 0)" and ?ign = "map (k_node_of E) ign"
  let ?r = "rt_collect_node ?rt (k_node_of E rep) mx ?ign"
  have wf: "rt_wf ?rt" by (simp add: drt_auto_update_wf rt_new_wf)
  have "kn_id (k_node_of E rep) \<noteq> rt_self_id ?rt" using assms(1) by (simp add: rt_new_def)
  note spec = collect_node_spec [OF wf this refl, of mx ?ign]
  have "calc_node_id E ep \<notin> ids ?ign" using assms(2) by (auto simp: ids_def)
  then have adm: "{n \<in> rt_nodes ?rt. kn_id n \<notin> ids ?ign} = {k_node_of E ep}" using single_table_nodes by auto
  have sub: "set ?r \<subseteq> {k_node_of E ep}" and d: "distinct (map kn_id ?r)"
    and all: "length ?r < mx \<longrightarrow> set ?r = {k_node_of E ep}"
    using spec unfolding adm by blast+
  have "distinct ?r" using d by (simp only: distinct_map)
  then have "length ?r = card (set ?r)" by (rule distinct_card [symmetric])
  also have "\<dots> \<le> card {k_node_of E ep}" using sub by (intro card_mono) auto
  finally have len: "length ?r \<le> 1" by (simp del: length_take)
  then have "length ?r < mx" using assms(3) by linarith
  then have "set ?r = {k_node_of E ep}" using all by blast
  then have "?r = [k_node_of E ep]" using len by (rule singleton_list)
  then show ?thesis by (simp add: collect_endpoint_eq)
qed

lemma sample_collect:
  "set ign \<subseteq> {sample_self} \<Longrightarrow> drt_collect_endpoint sample_ext sample_net_table sample_dest 3 ign = [sample_peer]"
  unfolding sample_net_table_def using sample_ids_differ by (intro single_collect) auto

definition sample_ice :: "k_routing_table \<Rightarrow> endpoint \<Rightarrow> signaling_request list \<Rightarrow> ice_world" where
  "sample_ice rt self reqs =
     \<lparr>w_now = 100, w_uuids = 0, w_app_id = ''abcdefgh'', w_net = [], w_queue = [], w_timers = [],
      kd_self_ep = self, kd_self_id = rt_self_id rt, kd_table = rt, kd_pings = [], kd_finds = [],
      kd_requires_tick = True, iw_glob_self_ep = self, iw_requests = reqs, iw_responses = [], iw_relays = [],
      iw_bindings = [], iw_srs = []\<rparr>"

lemma sample_ice_simps [simp]:
  "w_app_id (sample_ice rt self reqs) = ''abcdefgh''" "w_net (sample_ice rt self reqs) = []"
  "w_queue (sample_ice rt self reqs) = []" "kd_table (sample_ice rt self reqs) = rt"
  "iw_glob_self_ep (sample_ice rt self reqs) = self" "iw_requests (sample_ice rt self reqs) = reqs"
  "iw_bindings (sample_ice rt self reqs) = []" "iw_srs (sample_ice rt self reqs) = []"
  "w_uuids (sample_ice rt self reqs) = 0"
  by (simp_all add: sample_ice_def)

lemma sample_text_ep: "text_ep sample_ext sample_self" "text_ep sample_ext sample_peer"
  by (simp_all add: sample_self_def sample_peer_def text_ep_v4 sample_ext_ok)

theorem relay_forwards_witness:
  "let b = sgnl_body sample_ext 9 sample_dest sample_peer;
       b' = relayed sample_ext b [sample_self, sample_peer];
       E = sample_ext in
     \<exists>w'. signaling_income_message E (payload_body ''abcdefgh'' ''ice_agent'' (JObj b)) sample_peer
         (sample_ice sample_net_table sample_self []) = Inr w' \<and> map fst (w_net w') = [sample_peer]"
proof -
  let ?b = "sgnl_body sample_ext 9 sample_dest sample_peer"
  let ?b' = "relayed sample_ext ?b [sample_self, sample_peer]"
  let ?E = sample_ext and ?w = "sample_ice sample_net_table sample_self []"
  have f: "sgnl_fields ?E ?b sample_dest sample_peer [] 5"
    by (rule sgnl_body_fields)
  have wf: "rt_wf (kd_table ?w)" and named: "rt_named ?E (kd_table ?w)"
    by (simp_all add: sample_net_wf sample_net_named)
  have eps: "[sample_peer] = drt_collect_endpoint ?E (kd_table ?w) sample_dest 3 ([] @ [sample_self])"
    by (simp add: sample_collect)
  have b': "?b' = relayed ?E ?b ([] @ [sample_self] @ [sample_peer])" by simp
  note ok = sgnl_body_ok [OF sample_codec_ok] sample_codec_ok
  have self: "sample_self = iw_glob_self_ep ?w" by simp
  have readable: "list_all (text_ep ?E) ([] @ [sample_self])" by (simp add: sample_text_ep)
  have ne: "sample_dest \<noteq> sample_self" by (simp add: sample_dest_def sample_self_def)
  have unknown: "\<not> drt_is_exist ?E (kd_table ?w) sample_dest" using sample_net_exist(2) by simp
  show ?thesis
    using relay_forwards [OF sample_ip_text_ok f _ _ self readable ne unknown wf named eps b' ok, of "''abcdefgh''" sample_peer]
    unfolding Let_def by fastforce
qed

theorem destination_answers_witness:
  "let b = sgnl_body sample_ext 9 sample_self sample_peer;
       b' = fmupd ''sub_protocol'' (JInt SIGNALING_RESPONSE) b;
       E = sample_ext in
     \<exists>w'. signaling_income_message E (payload_body ''abcdefgh'' ''ice_agent'' (JObj b)) sample_dest
         (sample_ice sample_net_table sample_self []) = Inr w' \<and> map fst (w_net w') = [sample_peer]"
proof -
  let ?b = "sgnl_body sample_ext 9 sample_self sample_peer"
  let ?b' = "fmupd ''sub_protocol'' (JInt SIGNALING_RESPONSE) ?b"
  let ?E = sample_ext and ?w = "sample_ice sample_net_table sample_self []"
  have f: "sgnl_fields ?E ?b sample_self sample_peer [] 5"
    by (rule sgnl_body_fields)
  note ok = sgnl_body_ok [OF sample_codec_ok] sample_codec_ok
  have self: "sample_self = iw_glob_self_ep ?w" by simp
  show ?thesis
    using destination_answers [OF sample_ip_text_ok f self ok, of "''abcdefgh''" sample_dest]
    unfolding Let_def by fastforce
qed

theorem signaling_send_effect_witness:
  "let E = sample_ext in
     \<exists>w'. signaling_send E sample_dest ''messenger'' (JStr ''hi'') (sample_ice sample_net_table sample_self []) = Inr w' \<and>
       map fst (w_net w') = [sample_dest, sample_peer] \<and> length (iw_requests w') = 1"
proof -
  let ?body = "JObj (sgnl_body sample_ext 1 sample_dest sample_self)"
  let ?E = sample_ext and ?w = "sample_ice sample_net_table sample_self []"
  obtain obs w1 where new: "signaling_request_new ?E ?w = (obs, w1)" by fastforce
  then have i: "bo_id obs = 1"
    by (auto simp: signaling_request_new_def base_observer_new_def base_observer.defs fresh_uuid_def Let_def split: prod.splits)
  have body: "?body = JObj (sgnl_body ?E (bo_id obs) sample_dest (iw_glob_self_ep ?w))"
    by (simp add: i)
  have ok: "bson_key_ok ''messenger''" "bson_ok ?E (JStr ''hi'')" by (simp_all add: bson_key_ok_def)
  have eps: "[sample_peer] = drt_collect_endpoint ?E (kd_table ?w) sample_dest 3 []"
    by (simp add: sample_collect)
  have fresh: "bo_id obs \<notin> os_ids (iw_requests ?w)" by simp
  have unknown: "\<not> drt_is_exist ?E (kd_table ?w) sample_dest" using sample_net_exist(2) by simp
  show ?thesis
    using signaling_send_effect [OF new fresh ok body sample_codec_ok eps] unfolding if_not_P [OF unknown] Let_def by fastforce
qed

definition sample_request :: signaling_request where
  "sample_request =
     \<lparr>bo_id = 9, bo_expire_at = 120, bo_expire_flag = False, bo_type_name = ''signaling:signaling_request'',
      sq_cache_ep = sample_dest, sq_cache_param = ''messenger'', sq_cache_payload = JStr ''hi'', sq_done = False\<rparr>"

theorem signaling_answer_sends_payload_witness:
  "let E = sample_ext;
       b = fmupd ''sub_protocol'' (JInt SIGNALING_RESPONSE) (sgnl_body sample_ext 9 sample_dest sample_self);
       msg = payload_body ''abcdefgh'' ''ice_agent'' (JObj b) in
     \<exists>w1 w2. signaling_request_income_message E 9 msg (sample_ice sample_net_table sample_self [sample_request]) = Inr w1 \<and>
       map fst (w_net w1) = [sample_dest] \<and> ice_task E (T_traversal_done 9) w1 = Inr w2 \<and>
       signaling_request_income_message E 9 msg w2 = Inr w2"
proof -
  let ?E = sample_ext
  let ?b = "fmupd ''sub_protocol'' (JInt SIGNALING_RESPONSE) (sgnl_body sample_ext 9 sample_dest sample_self)"
  let ?msg = "payload_body ''abcdefgh'' ''ice_agent'' (JObj ?b)"
  let ?w = "sample_ice sample_net_table sample_self [sample_request]"
  have d: "os_deref 9 (iw_requests ?w) = Inr sample_request" by (simp add: sample_request_def)
  have nd: "\<not> sq_done sample_request" by (simp add: sample_request_def)
  have m: "message_get_param ''ice_agent'' ?msg = Some (JObj ?b)" by simp
  have p: "fmlookup ?b ''protocol'' = Some (JStr ''signaling'')" "fmlookup ?b ''sub_protocol'' = Some (JInt SIGNALING_RESPONSE)"
    by (simp_all add: sgnl_body_def)
  have ok: "bson_key_ok (sq_cache_param sample_request)" "bson_ok ?E (sq_cache_payload sample_request)"
    by (simp_all add: sample_request_def bson_key_ok_def)
  have c: "sq_cache_ep sample_request = sample_dest" by (simp add: sample_request_def)
  show ?thesis
    using signaling_answer_sends_payload [OF d nd m p ok sample_double_ok, of ?msg] unfolding Let_def c by fastforce
qed

theorem stun_exchange_witness:
  "let E = sample_ext;
       wa = sample_ice (rt_new 5) any_endpoint []; wb = sample_ice (rt_new 9) sample_peer [] in
     \<exists>a wa1 wa2 r. stun_binding_request E [sample_peer] 3 wa = Inr (a, wa1) \<and>
       bind_res (message_decode E r)
         (\<lambda>m. ice_income_message E m sample_peer (modify_sr a (sr_async_get SR_update_global_self_endpoint) wa1)) = Inr wa2 \<and>
       sr_state (iw_srs wa2 ! a) = sr_done \<and> sr_global_ep (iw_srs wa2 ! a) = sample_self"
proof -
  let ?E = sample_ext and ?wa = "sample_ice (rt_new 5) any_endpoint []" and ?wb = "sample_ice (rt_new 9) sample_peer []"
  obtain b w0 where new: "binding_request_new ?E (snd (sr_alloc sr_new ?wa)) = (b, w0)" by fastforce
  then have i: "bo_id b = 1"
    by (auto simp: binding_request_new_def base_observer_new_def base_observer.defs fresh_uuid_def sr_alloc_def
        Let_def split: prod.splits)
  have loop: "\<not> x_is_loopback ?E (ep_address sample_self)"
    by (simp add: sample_ext_def sample_self_def)
  have fresh: "bo_id b \<notin> os_ids (iw_bindings ?wa)" "bo_id b \<notin> os_ids (iw_bindings ?wb)" by simp_all
  show ?thesis
    using stun_exchange [OF new sample_uuid_text_ok sample_ip_text_ok fresh sample_codec_ok, of sample_peer sample_self]
    unfolding Let_def if_not_P [OF loop] by blast
qed

end
