(* ===== verification/SS_KadExchange.thy ===== *)
theory SS_KadExchange
  imports SS_IceProtocol
begin

text \<open>
  The ping and the find-node exchange between two nodes over the wire, sent as the program sends them:
  through the signaling server's \<open>signaling_send\<close>, which uses the plain sender for an endpoint the
  table knows.
\<close>

section \<open>Requests to a node the table knows\<close>

lemma known_send: "drt_is_exist E (kd_table w) ep \<Longrightarrow> signaling_send E ep p x w = sender_async_send E ep p x w"
  by (simp add: signaling_send_def)

lemma known_requests:
  assumes "drt_is_exist E (kd_table w) ep"
  shows "ping_request E (signaling_send E) ep ph th w = ping_request E (sender_async_send E) ep ph th w"
    and "find_node_request E (signaling_send E) ep ign h w = find_node_request E (sender_async_send E) ep ign h w"
proof -
  obtain n where n: "snd (base_observer_new E ''k_observer:ping'' w) = w\<lparr>w_uuids := n\<rparr>"
    using base_observer_new_world by blast
  obtain m where m: "snd (base_observer_new E ''k_observer:find_node'' w) = w\<lparr>w_uuids := m\<rparr>"
    using base_observer_new_world by blast
  from n m show "ping_request E (signaling_send E) ep ph th w = ping_request E (sender_async_send E) ep ph th w"
    "find_node_request E (signaling_send E) ep ign h w = find_node_request E (sender_async_send E) ep ign h w"
    using assms by (simp_all add: ping_request_eq find_node_request_eq Let_def known_send add_ping_def add_find_def)
qed

text \<open>
  C5. The ping exchange. Node A pings the endpoint \<open>eb\<close> of a node B its table knows, through the function
  the program sends with; B decodes the datagram A's request put on the wire, runs \<open>auto_update\<close> on its
  table for the endpoint the datagram came from (which enters A where there is room) and answers to that
  endpoint; A decodes the answer, which reaches the observer of its request, and the task it queues runs
  the pong handler of the request with B's endpoint.
\<close>

theorem ping_exchange:
  fixes wa :: "'a ice_world_scheme" and wb :: "'b ice_world_scheme"
  assumes "b = fst (ping_new E eb ph th wa)"
    and "uuid_text_ok E" and "bo_id b \<notin> os_ids (kd_pings wa)" and "bo_id b \<notin> os_ids (kd_pings wb)"
    and "codec_ok E" and "drt_is_exist E (kd_table wa) eb"
  shows "\<exists>wa1 d wb1 r wa2.
    ping_request E (signaling_send E) eb ph th wa = Inr wa1 \<and> w_net wa1 = w_net wa @ [(eb, d)] \<and>
    bind_res (message_decode E d) (\<lambda>m. dht_income_message E m ea wb) = Inr wb1 \<and>
    w_net wb1 = w_net wb @ [(ea, r)] \<and> kd_table wb1 = drt_auto_update E ea (kd_table wb) \<and>
    bind_res (message_decode E r) (\<lambda>m. dht_income_message E m eb wa1) = Inr wa2 \<and>
    T_call_pong (bo_id b) \<in> set (w_queue wa2) \<and>
    kad_task E (signaling_send E) (T_call_pong (bo_id b)) wa2 = run_handler E (signaling_send E) ph eb wa2"
proof -
  let ?u = "bo_id b" and ?p = "extend_expire_at (w_now wa) 6 b"
  let ?d = "datagram E (w_app_id wa) ''kademlia'' (ping_body E ''request'' ?u)"
  let ?r = "datagram E (w_app_id wb) ''kademlia'' (ping_body E ''response'' ?u)"
  have rt: "bson_rt E (payload_body i ''kademlia'' (ping_body E ''request'' ?u))"
    "bson_rt E (payload_body i ''kademlia'' (ping_body E ''response'' ?u))" for i
    using kad_bodies_rt(1) [OF assms(5)] by auto
  let ?wb1 = "(socket_send ea ?r wb)\<lparr>kd_table := drt_auto_update E ea (kd_table wb)\<rparr>"
  obtain wa1 where wa1: "ping_request E (sender_async_send E) eb ph th wa = Inr wa1"
    and net: "w_net wa1 = w_net wa @ [(eb, ?d)]"
    and pings: "kd_pings wa1 = kd_pings wa @ [?p]"
    using plain_ping_request [OF assms(1) rt(1) assms(3)] by metis
  have sent: "ping_request E (signaling_send E) eb ph th wa = Inr wa1"
    using wa1 by (simp only: known_requests(1) [OF assms(6)])
  have d: "os_deref ?u (kd_pings wa1) = Inr ?p" using pings assms(3) by (simp add: os_deref_append)
  have pong: "dht_income_message E (payload_body (w_app_id wb) ''kademlia'' (ping_body E ''response'' ?u)) eb wa1
      = ping_income_message ?u wa1"
    using pings by (intro income_ping_answer [OF assms(2)]) simp
  let ?wa2 = "modify_ping ?u destruct_self (timer_cancel (T_ping_timeout ?u)
    (io_post (T_call_pong ?u) (modify_ping ?u (\<lambda>p. p\<lparr>pg_is_pong_arrived := True\<rparr>) wa1)))"
  have wa2: "ping_income_message ?u wa1 = Inr ?wa2" using d by (simp add: ping_income_message_def Let_def)
  have "os_deref ?u (kd_pings ?wa2) = Inr (destruct_self (?p\<lparr>pg_is_pong_arrived := True\<rparr>))"
    using os_deref_modify [of destruct_self, OF _ os_deref_modify [of "\<lambda>p. p\<lparr>pg_is_pong_arrived := True\<rparr>", OF _ d]]
    by simp
  then have "kad_task E (signaling_send E) (T_call_pong ?u) ?wa2 = run_handler E (signaling_send E) ph eb ?wa2"
    by (simp add: kad_task_def call_pong_handler_def assms(1))
  then show ?thesis
    using sent net pong wa2 datagram_decode [OF rt(1)] datagram_decode [OF rt(2)]
      income_ping_request [OF assms(2,4) rt(2), of "w_app_id wa" ea]
    by - (rule exI [of _ wa1], rule exI [of _ ?d], rule exI [of _ ?wb1], rule exI [of _ ?r], rule exI [of _ ?wa2], simp)
qed

lemma sample_first_id:
  "bo_id (fst (ping_new sample_ext ep ph th (sample_ice rt self reqs))) = 1"
  "bo_id (fst (find_node_new sample_ext h (sample_ice rt self reqs))) = 1"
  by (simp_all add: ping_new_def base_observer_new_def find_node_new_def base_observer.defs fresh_uuid_def Let_def
      split: prod.splits)

theorem ping_exchange_witness:
  "let E = sample_ext; wa = sample_ice sample_net_table sample_self []; wb = sample_ice (rt_new 9) sample_peer [] in
     \<exists>wa1 d wb1. ping_request E (signaling_send E) sample_peer H_auto_update H_null wa = Inr wa1 \<and>
       w_net wa1 = [(sample_peer, d)] \<and>
       bind_res (message_decode E d) (\<lambda>m. dht_income_message E m sample_self wb) = Inr wb1 \<and>
       kd_table wb1 = drt_auto_update E sample_self (rt_new 9)"
proof -
  let ?E = sample_ext and ?wa = "sample_ice sample_net_table sample_self []" and ?wb = "sample_ice (rt_new 9) sample_peer []"
  let ?b = "fst (ping_new ?E sample_peer H_auto_update H_null ?wa)"
  have b: "bo_id ?b = 1" by (rule sample_first_id)
  have known: "drt_is_exist ?E (kd_table ?wa) sample_peer" using sample_net_exist(1) by simp
  have ids: "bo_id ?b \<notin> os_ids (kd_pings ?wa)" "bo_id ?b \<notin> os_ids (kd_pings ?wb)"
    by (simp_all add: sample_ice_def)
  show ?thesis
    using ping_exchange [where E = ?E and wa = ?wa and wb = ?wb and eb = sample_peer and ea = sample_self
        and ph = H_auto_update and th = H_null and b = ?b, OF refl sample_uuid_text_ok ids sample_codec_ok known] b
    unfolding Let_def by fastforce
qed

text \<open>
  C6. The find-node exchange. Node A asks a node B its table knows, through the function the program sends
  with. B answers with the endpoints its table yields around A, at most six, all of them in the table and
  none of them A or one A asked to leave out; A decodes the answer, which reaches the observer of its
  request, and queues one call of the request's handler for each endpoint found, in order. B's table does
  not change. The endpoints A asks to leave out and those B finds are ones whose text reads back as the
  same endpoint, as that of every IPv4 endpoint does (\<open>text_ep\<close>).
\<close>

theorem find_node_exchange:
  fixes wa :: "'a ice_world_scheme" and wb :: "'b ice_world_scheme"
  assumes "b = fst (find_node_new E h wa)" and "eps = drt_collect_endpoint E (kd_table wb) ea 5 (ign @ [ea])"
    and "uuid_text_ok E" and "bo_id b \<notin> os_ids (kd_finds wa)" and "bo_id b \<notin> os_ids (kd_finds wb)"
    and "list_all (text_ep E) ign" and "list_all (text_ep E) eps"
    and "rt_wf (kd_table wb)" and "rt_named E (kd_table wb)"
    and "codec_ok E" and "drt_is_exist E (kd_table wa) eb"
  shows "\<exists>wa1 d wb1 r wa2.
    find_node_request E (signaling_send E) eb ign h wa = Inr wa1 \<and> w_net wa1 = w_net wa @ [(eb, d)] \<and>
    bind_res (message_decode E d) (\<lambda>m. dht_income_message E m ea wb) = Inr wb1 \<and>
    w_net wb1 = w_net wb @ [(ea, r)] \<and> kd_table wb1 = kd_table wb \<and>
    length eps \<le> 6 \<and> set eps \<subseteq> kn_ep ` rt_nodes (kd_table wb) \<and> ea \<notin> set eps \<and> set eps \<inter> set ign = {} \<and>
    bind_res (message_decode E r) (\<lambda>m. dht_income_message E m eb wa1) = Inr wa2 \<and>
    w_queue wa2 = w_queue wa1 @ map (T_call_find (bo_id b)) eps \<and>
    (\<forall>ep. kad_task E (signaling_send E) (T_call_find (bo_id b) ep) wa2 = run_handler E (signaling_send E) h ep wa2)"
proof -
  let ?u = "bo_id b"
  let ?d = "datagram E (w_app_id wa) ''kademlia'' (find_body E ?u ign)"
  let ?r = "datagram E (w_app_id wb) ''kademlia'' (found_body E ?u ign eps)"
  note rt = kad_bodies_rt(2,3) [OF assms(10)]
  let ?wb1 = "socket_send ea ?r wb"
  obtain n where n: "snd (base_observer_new E ''k_observer:find_node'' wa) = wa\<lparr>w_uuids := n\<rparr>"
    using base_observer_new_world by blast
  let ?wa1 = "socket_send eb ?d (add_find b (wa\<lparr>w_uuids := n\<rparr>))"
  have "find_node_request E (sender_async_send E) eb ign h wa = Inr ?wa1"
    using rt(1) n unfolding find_node_request_eq Let_def
    by (simp add: assms(1) [symmetric] sender_async_send_ok add_find_def)
  then have wa1: "find_node_request E (signaling_send E) eb ign h wa = Inr ?wa1"
    by (simp only: known_requests(2) [OF assms(11)])
  have finds: "kd_finds ?wa1 = kd_finds wa @ [b]" by (simp add: add_find_def os_add_fresh assms(4))
  let ?wa2 = "modify_find ?u destruct_self (fold (\<lambda>itr. io_post (T_call_find ?u itr)) eps ?wa1)"
  have "?u \<in> os_ids (kd_finds ?wa1)" using finds by simp
  note wa2 = income_find_answer [OF assms(3) this assms(7)]
  have "os_deref ?u (kd_finds ?wa1) = Inr b" using finds assms(4) by (simp add: os_deref_append)
  then have "os_deref ?u (kd_finds ?wa2) = Inr (destruct_self b)"
    using os_deref_modify [of destruct_self ?u "kd_finds ?wa1"] by simp
  then have "\<forall>ep. kad_task E (signaling_send E) (T_call_find ?u ep) ?wa2 = run_handler E (signaling_send E) h ep ?wa2"
    by (simp add: kad_task_def call_find_handler_def assms(1))
  moreover note facts = collect_endpoint_facts [OF assms(8,9), of ea 5 "ign @ [ea]", folded assms(2)]
  have "length eps \<le> 6" "set eps \<subseteq> kn_ep ` rt_nodes (kd_table wb)" "ea \<notin> set eps" "set eps \<inter> set ign = {}"
    using facts by auto
  moreover have "w_queue ?wa2 = w_queue ?wa1 @ map (T_call_find ?u) eps" by simp
  ultimately show ?thesis
    using wa1 wa2 datagram_decode [OF rt(1)] datagram_decode [OF rt(2)]
      income_find_request [OF assms(3,5,6,2) rt(2), of "w_app_id wa"]
    by - (rule exI [of _ ?wa1], rule exI [of _ ?d], rule exI [of _ ?wb1], rule exI [of _ ?r], rule exI [of _ ?wa2], simp add: add_find_def)
qed

text \<open>The node asked knows one other node, which the one that asks does not want left out.\<close>

definition sample_other_table :: k_routing_table where
  "sample_other_table = drt_auto_update sample_ext sample_dest (rt_new 0)"

theorem find_node_exchange_witness:
  "let E = sample_ext; wa = sample_ice sample_net_table sample_self []; wb = sample_ice sample_other_table sample_peer [] in
     \<exists>wa1 d wb1 r wa2. find_node_request E (signaling_send E) sample_peer [sample_peer] H_null wa = Inr wa1 \<and>
       w_net wa1 = [(sample_peer, d)] \<and>
       bind_res (message_decode E d) (\<lambda>m. dht_income_message E m sample_self wb) = Inr wb1 \<and>
       w_net wb1 = [(sample_self, r)] \<and>
       bind_res (message_decode E r) (\<lambda>m. dht_income_message E m sample_peer wa1) = Inr wa2 \<and>
       w_queue wa2 = w_queue wa1 @ [T_call_find 1 sample_dest]"
proof -
  let ?E = sample_ext and ?wa = "sample_ice sample_net_table sample_self []"
  let ?wb = "sample_ice sample_other_table sample_peer []"
  have wf: "rt_wf (kd_table ?wb)" by (simp add: sample_other_table_def drt_auto_update_wf rt_new_wf)
  have named: "rt_named ?E (kd_table ?wb)" by (simp add: rt_named_def sample_other_table_def single_table_nodes)
  have "calc_node_id ?E sample_self \<noteq> 0" "calc_node_id ?E sample_dest \<noteq> calc_node_id ?E sample_self"
    using sample_id_port [of sample_self] sample_id_port [of sample_dest]
    by (auto simp: sample_self_def sample_dest_def nid_nth_def)
  then have eps: "[sample_dest] = drt_collect_endpoint ?E (kd_table ?wb) sample_self 5 ([sample_peer] @ [sample_self])"
    using sample_ids_differ(2) by (simp add: sample_other_table_def single_collect)
  have readable: "list_all (text_ep ?E) [sample_peer]" "list_all (text_ep ?E) [sample_dest]"
    by (simp_all add: sample_peer_def sample_dest_def text_ep_v4 sample_ext_ok)
  have known: "drt_is_exist ?E (kd_table ?wa) sample_peer" using sample_net_exist(1) by simp
  let ?b = "fst (find_node_new ?E H_null ?wa)"
  have b: "bo_id ?b = 1" by (rule sample_first_id)
  have ids: "bo_id ?b \<notin> os_ids (kd_finds ?wa)" "bo_id ?b \<notin> os_ids (kd_finds ?wb)"
    by (simp_all add: sample_ice_def)
  note all = find_node_exchange [where E = ?E and wa = ?wa and wb = ?wb and eb = sample_peer and ea = sample_self
      and h = H_null and b = ?b, OF refl eps sample_uuid_text_ok ids readable wf named sample_codec_ok known]
  have net: "w_net (sample_ice t e q) = []" for t e q by simp
  show ?thesis unfolding Let_def using all [unfolded b net append_Nil list.map] by blast
qed

end
