(* ===== verification/SS_PeerBuffer.thy ===== *)
theory SS_PeerBuffer
  imports SS_Message
begin

text \<open>
  The buffer of received messages of one peer: \<open>peer_message_buffer\<close> and \<open>ss_message\<close> of
  \<open>message_pool.hpp\<close> and \<open>message_pool.cpp\<close>. \<open>std::upper_bound\<close>, with which the pool finds the
  messages that are too old, is the binary search of the library, and it is shown to split a queue
  that is sorted by time.
\<close>

section \<open>Binary search\<close>

text \<open>\<open>std::upper_bound(v.begin(), v.end(), value, comp)\<close>, where \<open>P x\<close> is \<open>comp(value, x)\<close>.\<close>

function upper_bound_loop :: "('a \<Rightarrow> bool) \<Rightarrow> 'a list \<Rightarrow> nat \<Rightarrow> nat \<Rightarrow> nat" where
  "upper_bound_loop P xs first len =
     (if len = 0 then first
      else
        let half = len div 2;
            middle = first + half
        in if P (xs ! middle) then upper_bound_loop P xs first half
           else upper_bound_loop P xs (middle + 1) (len - half - 1))"
  by pat_completeness auto
termination
  by (relation "measure (\<lambda>(P, xs, first, len). len)") auto

declare upper_bound_loop.simps [simp del]

definition upper_bound :: "('a \<Rightarrow> bool) \<Rightarrow> 'a list \<Rightarrow> nat" where
  "upper_bound P xs = upper_bound_loop P xs 0 (length xs)"

text \<open>Where \<open>P\<close> fails up to a position \<open>k\<close> and holds from it on, the search finds \<open>k\<close>.\<close>

lemma upper_bound_loop_split:
  assumes "first \<le> k" and "k \<le> first + len"
    and "\<And>i. first \<le> i \<Longrightarrow> i < k \<Longrightarrow> \<not> P (xs ! i)"
    and "\<And>i. k \<le> i \<Longrightarrow> i < first + len \<Longrightarrow> P (xs ! i)"
  shows "upper_bound_loop P xs first len = k"
  using assms
proof (induction P xs first len rule: upper_bound_loop.induct)
  case (1 P xs first len)
  show ?case
  proof (cases "len = 0")
    case True
    then show ?thesis using "1.prems"(1,2) by (simp add: upper_bound_loop.simps)
  next
    case False
    define half where "half = len div 2"
    have h: "half < len" using False by (simp add: half_def)
    show ?thesis
    proof (cases "P (xs ! (first + half))")
      case True
      then have "k \<le> first + half" using "1.prems"(3) [of "first + half"] by (metis le_add1 not_le)
      then have "upper_bound_loop P xs first half = k"
        using False True "1.prems" h by (intro "1.IH"(1)) (auto simp: half_def)
      then show ?thesis using False True by (simp add: upper_bound_loop.simps [of P xs first len] half_def Let_def)
    next
      case neg: False
      then have k: "first + half + 1 \<le> k" using "1.prems"(4) [of "first + half"] h by fastforce
      have "upper_bound_loop P xs (first + half + 1) (len - half - 1) = k"
        using False neg "1.prems" h k by (intro "1.IH"(2)) (auto simp: half_def)
      then show ?thesis using False neg by (simp add: upper_bound_loop.simps [of P xs first len] half_def Let_def)
    qed
  qed
qed

lemma upper_bound_sorted:
  fixes key :: "'a \<Rightarrow> int"
  assumes "sorted (map key xs)"
  shows "upper_bound (\<lambda>x. v < key x) xs = length (takeWhile (\<lambda>x. key x \<le> v) xs)"
  unfolding upper_bound_def
proof (rule upper_bound_loop_split)
  let ?k = "length (takeWhile (\<lambda>x. key x \<le> v) xs)"
  show "?k \<le> 0 + length xs" by (simp add: length_takeWhile_le)
  show "\<not> v < key (xs ! i)" if "i < ?k" for i
    using that nth_length_takeWhile takeWhile_nth [OF that] set_takeWhileD nth_mem [OF that] by fastforce
  show "v < key (xs ! i)" if "?k \<le> i" "i < 0 + length xs" for i
  proof -
    have "?k < length xs" using that by simp
    then have "v < key (xs ! ?k)" using nth_length_takeWhile [of "\<lambda>x. key x \<le> v" xs] by simp
    also have "\<dots> \<le> key (xs ! i)" using sorted_nth_mono [OF assms, of ?k i] that by simp
    finally show ?thesis .
  qed
qed simp

lemma upper_bound_drop:
  fixes key :: "'a \<Rightarrow> int"
  assumes "sorted (map key xs)"
  shows "drop (upper_bound (\<lambda>x. v < key x) xs) xs = filter (\<lambda>x. v < key x) xs"
  using assms
proof (induction xs)
  case (Cons x xs)
  show ?case
  proof (cases "key x \<le> v")
    case True
    then show ?thesis using Cons upper_bound_sorted [OF Cons.prems] upper_bound_sorted [of key xs] by simp
  next
    case False
    then have "\<forall>y \<in> set xs. v < key y" using Cons.prems by (auto simp: not_le intro: less_le_trans)
    then show ?thesis using False upper_bound_sorted [OF Cons.prems] by simp
  qed
qed (simp add: upper_bound_def upper_bound_loop.simps)

section \<open>The buffer\<close>

record received_message =
  rm_id :: uuid
  rm_msg :: message
  rm_time :: int

record peer_buffer =
  pb_queue :: "received_message list"
  pb_ep :: endpoint
  pb_mem :: "64 word"
  pb_last_binded :: int
  pb_last_received :: int

datatype pop_flag = pop_none | pop_peek

definition received_message_new ::
  "ext \<Rightarrow> message \<Rightarrow> 'a io_world_scheme \<Rightarrow> received_message \<times> 'a io_world_scheme" where
  "received_message_new E m w =
     (let (i, w1) = fresh_uuid E w in (\<lparr>rm_id = i, rm_msg = m, rm_time = w_now w\<rparr>, w1))"

definition invalid_message_id :: uuid where
  "invalid_message_id = 0"

definition rm_is_invalid :: "received_message \<Rightarrow> bool" where
  "rm_is_invalid m \<longleftrightarrow> rm_id m = invalid_message_id"

text \<open>The constructor does not set the byte count; \<open>junk\<close> is what the memory held.\<close>

definition peer_buffer_new :: "64 word \<Rightarrow> endpoint \<Rightarrow> peer_buffer" where
  "peer_buffer_new junk ep =
     \<lparr>pb_queue = [], pb_ep = ep, pb_mem = junk, pb_last_binded = 0, pb_last_received = 0\<rparr>"

text \<open>The copy constructor: the queue of pointers, the endpoint, the count and the times.\<close>

definition peer_buffer_copy :: "peer_buffer \<Rightarrow> peer_buffer" where
  "peer_buffer_copy from =
     \<lparr>pb_queue = pb_queue from, pb_ep = pb_ep from, pb_mem = pb_mem from,
      pb_last_binded = pb_last_binded from, pb_last_received = pb_last_received from\<rparr>"

definition pb_append :: "received_message \<Rightarrow> int \<Rightarrow> peer_buffer \<Rightarrow> peer_buffer" where
  "pb_append m now b = b\<lparr>pb_queue := pb_queue b @ [m], pb_mem := pb_mem b + 1, pb_last_received := now\<rparr>"

definition pb_push ::
  "ext \<Rightarrow> message \<Rightarrow> peer_buffer \<Rightarrow> 'a io_world_scheme \<Rightarrow> uuid \<times> peer_buffer \<times> 'a io_world_scheme" where
  "pb_push E msg b w =
     (let (entry_ref, w1) = received_message_new E msg w
      in (rm_id entry_ref, pb_append entry_ref (w_now w1) b, w1))"

definition pb_pop :: "nat \<Rightarrow> pop_flag \<Rightarrow> peer_buffer \<Rightarrow> received_message option \<times> peer_buffer" where
  "pb_pop idx flag b =
     (if pb_queue b = [] then (None, b)
      else if length (pb_queue b) \<le> idx then (None, b)
      else case flag of
             pop_none \<Rightarrow>
               (Some (pb_queue b ! idx),
                b\<lparr>pb_queue := take idx (pb_queue b) @ drop (Suc idx) (pb_queue b), pb_mem := pb_mem b - 1\<rparr>)
           | pop_peek \<Rightarrow> (Some (pb_queue b ! idx), b))"

text \<open>The loop keeps the last position that matches; without one, \<open>erase(end())\<close> is undefined.\<close>

fun last_index :: "('a \<Rightarrow> bool) \<Rightarrow> 'a list \<Rightarrow> nat option" where
  "last_index P [] = None"
| "last_index P (x # xs) =
     (case last_index P xs of Some i \<Rightarrow> Some (Suc i) | None \<Rightarrow> if P x then Some 0 else None)"

definition pb_pop_by_id ::
  "uuid \<Rightarrow> pop_flag \<Rightarrow> peer_buffer \<Rightarrow> (received_message option \<times> peer_buffer) result" where
  "pb_pop_by_id i flag b =
     (if pb_queue b = [] then Inr (None, b)
      else
        case (last_index (\<lambda>m. rm_id m = i) (pb_queue b), flag) of
          (Some k, pop_none) \<Rightarrow>
            Inr (Some (pb_queue b ! k),
                 b\<lparr>pb_queue := take k (pb_queue b) @ drop (Suc k) (pb_queue b), pb_mem := pb_mem b - 1\<rparr>)
        | (None, pop_none) \<Rightarrow> Inl Undefined
        | (Some k, pop_peek) \<Rightarrow> Inr (Some (pb_queue b ! k), b)
        | (None, pop_peek) \<Rightarrow> Inr (None, b))"

definition compare_received_at :: "int \<Rightarrow> received_message \<Rightarrow> bool" where
  "compare_received_at base_time m \<longleftrightarrow> base_time < rm_time m"

text \<open>\<open>pop_since\<close> removes nothing, whatever the flag.\<close>

definition pb_pop_since :: "int \<Rightarrow> pop_flag \<Rightarrow> peer_buffer \<Rightarrow> received_message option" where
  "pb_pop_since since flag b =
     (let s = (if since = 0 then pb_last_binded b else since);
          ret = upper_bound (compare_received_at s) (pb_queue b)
      in if ret < length (pb_queue b) then Some (pb_queue b ! ret) else None)"

definition pb_clear :: "peer_buffer \<Rightarrow> peer_buffer" where
  "pb_clear b = b\<lparr>pb_queue := []\<rparr>"

text \<open>\<open>drop(lower_ritr, rend)\<close> with reverse iterators: the first \<open>k\<close> messages.\<close>

definition pb_drop :: "nat \<Rightarrow> peer_buffer \<Rightarrow> peer_buffer" where
  "pb_drop k b = b\<lparr>pb_queue := drop k (pb_queue b)\<rparr>"

definition update_last_binded_at :: "int \<Rightarrow> peer_buffer \<Rightarrow> peer_buffer" where
  "update_last_binded_at now b = b\<lparr>pb_last_binded := now\<rparr>"

section \<open>What applications see\<close>

record ss_message =
  sm_body :: json
  sm_src_endpoint :: endpoint
  sm_relay_endpoints :: "endpoint list"
  sm_timestamp :: int

definition ss_message_new :: "received_message \<Rightarrow> endpoint \<Rightarrow> ss_message" where
  "ss_message_new msg_from src_ep =
     \<lparr>sm_body = rm_msg msg_from, sm_src_endpoint = src_ep, sm_relay_endpoints = [], sm_timestamp = rm_time msg_from\<rparr>"

text \<open>\<open>json({})\<close> is the empty object; \<open>cast_get\<close> is declared only.\<close>

definition ss_message_get :: "string \<Rightarrow> ss_message \<Rightarrow> json result" where
  "ss_message_get app_name m =
     (if json_contains (sm_body m) app_name then json_index_const app_name (sm_body m) else Inr (JObj fmempty))"

definition ss_message_is_invalid :: "json \<Rightarrow> bool" where
  "ss_message_is_invalid j = json_empty j"

section \<open>Lemmas\<close>

lemma peer_buffer_copy_eq [simp]: "peer_buffer_copy b = b"
  by (simp add: peer_buffer_copy_def)

lemma last_index_Some:
  "last_index P xs = Some k \<Longrightarrow> k < length xs \<and> P (xs ! k) \<and> (\<forall>i. k < i \<longrightarrow> i < length xs \<longrightarrow> \<not> P (xs ! i))"
proof (induction xs arbitrary: k)
  case (Cons x xs)
  show ?case
  proof (cases "last_index P xs")
    case None
    then have "\<forall>y \<in> set xs. \<not> P y" by (induction xs) (auto split: option.splits if_splits)
    then show ?thesis using Cons.prems None by (auto simp: nth_Cons split: if_splits nat.splits)
  next
    case (Some j)
    then show ?thesis using Cons by (auto simp: nth_Cons split: nat.splits)
  qed
qed simp

lemma last_index_last [simp]: "P x \<Longrightarrow> last_index P (xs @ [x]) = Some (length xs)"
  by (induction xs) auto

lemma pb_append_simps [simp]:
  "pb_queue (pb_append m n b) = pb_queue b @ [m]" "pb_ep (pb_append m n b) = pb_ep b"
  "pb_last_received (pb_append m n b) = n" "pb_last_binded (pb_append m n b) = pb_last_binded b"
  by (simp_all add: pb_append_def)

lemma received_message_new_simps [simp]:
  "received_message_new E m w =
     (\<lparr>rm_id = x_uuid_gen E (w_uuids w), rm_msg = m, rm_time = w_now w\<rparr>, w\<lparr>w_uuids := Suc (w_uuids w)\<rparr>)"
  by (simp add: received_message_new_def fresh_uuid_def)

lemma pb_push_eq:
  "pb_push E m b w = (let i = x_uuid_gen E (w_uuids w)
     in (i, pb_append \<lparr>rm_id = i, rm_msg = m, rm_time = w_now w\<rparr> (w_now w) b, w\<lparr>w_uuids := Suc (w_uuids w)\<rparr>))"
  by (simp add: pb_push_def Let_def)

text \<open>The message just pushed is the one its identifier pops.\<close>

lemma pop_pushed:
  "pb_pop_by_id (rm_id m) pop_none (pb_append m n b) =
     Inr (Some m, pb_append m n b\<lparr>pb_queue := pb_queue b, pb_mem := pb_mem b\<rparr>)"
  by (simp add: pb_pop_by_id_def pb_append_def)

end
