(* ===== verification/SS_MessagePool.thy ===== *)
theory SS_MessagePool
  imports SS_PeerBuffer SS_IceProtocol
begin

text \<open>
  \<open>peer.hpp\<close>, \<open>peer.cpp\<close> and the pool of \<open>message_pool.hpp\<close>, \<open>message_pool.cpp\<close>: the buffers of
  all peers, indexed by peer identifier, the periodic removal of old messages, the hub that hands
  messages to an application, and a peer as applications use it. What a peer holds is a copy of the
  pool's buffer, so a peer is a value with a buffer of its own.

  \<open>pool_messages\<close> is the abstract view: what the pool holds for each identifier. Storing and
  refreshing are shown to act on it as an append and as a filter.
\<close>

section \<open>Peers\<close>

abbreviation PEER_ID_LENGTH_BYTES :: nat where
  "PEER_ID_LENGTH_BYTES \<equiv> 20"

type_synonym peer_id = "byte list"

definition calc_peer_id :: "ext \<Rightarrow> endpoint \<Rightarrow> peer_id" where
  "calc_peer_id E ep = take PEER_ID_LENGTH_BYTES (x_sha1 E (map of_char (endpoint_to_str E ep)))"

record peer =
  pe_ep :: endpoint
  pe_id :: peer_id
  pe_keep_alive :: int
  pe_buffer :: "peer_buffer option"

definition peer_new :: "ext \<Rightarrow> endpoint \<Rightarrow> peer_buffer option \<Rightarrow> peer" where
  "peer_new E ep msg_pool_entry_ref =
     \<lparr>pe_ep = ep, pe_id = calc_peer_id E ep, pe_keep_alive = 1, pe_buffer = msg_pool_entry_ref\<rparr>"

definition peer_id_none :: peer_id where
  "peer_id_none = replicate PEER_ID_LENGTH_BYTES 0"

definition peer_ping :: "peer \<Rightarrow> bool" where
  "peer_ping p = False"

text \<open>
  Waiting on the condition variable: the predicate pops, first when the wait begins and then after
  each push that others make into this very buffer while it lasts.
\<close>

fun wait_pop :: "received_message list \<Rightarrow> peer_buffer \<Rightarrow> received_message option \<times> peer_buffer" where
  "wait_pop [] b = pb_pop 0 pop_none b"
| "wait_pop (m # ms) b =
     (case pb_pop 0 pop_none b of
        (Some r, b') \<Rightarrow> (Some r, b')
      | (None, b') \<Rightarrow> wait_pop ms (pb_append m (rm_time m) b'))"

text \<open>
  \<open>receive\<close>: \<open>Inr None\<close> when the call never returns. A null buffer, and a null message once the wait
  is over, are dereferenced.
\<close>

definition peer_receive ::
  "int \<Rightarrow> received_message list \<Rightarrow> peer \<Rightarrow> (ss_message \<times> peer) option result" where
  "peer_receive timeout pushed p =
     bind_res (of_option Undefined (pe_buffer p)) (\<lambda>b.
       let (poped_msg, b1) = pb_pop 0 pop_none b;
           (poped_msg', b2) = (if poped_msg = None \<and> timeout \<noteq> 0 then wait_pop pushed b1 else (poped_msg, b1))
       in case poped_msg' of
            Some m \<Rightarrow> Inr (Some (ss_message_new m (pe_ep p), p\<lparr>pe_buffer := Some b2\<rparr>))
          | None \<Rightarrow> if timeout = -1 then Inr None else Inl Undefined)"

definition peer_send ::
  "(endpoint \<Rightarrow> string \<Rightarrow> json \<Rightarrow> 'w \<Rightarrow> 'w result) \<Rightarrow> string \<Rightarrow> peer \<Rightarrow> 'w \<Rightarrow> 'w result" where
  "peer_send s_send_func payload p w = s_send_func (pe_ep p) ''messenger'' (JStr payload) w"

section \<open>The pool\<close>

abbreviation DEFAULT_MEMPOOL_REFRESH_TICK_TIME_S :: int where
  "DEFAULT_MEMPOOL_REFRESH_TICK_TIME_S \<equiv> 200"

abbreviation DEFAULT_MESSAGE_LIFETIME_M :: int where
  "DEFAULT_MESSAGE_LIFETIME_M \<equiv> 20"

text \<open>
  \<open>hub_log\<close> is what the handler installed in the hub was called with; \<open>mp_uninit\<close> is what the memory
  of a new buffer holds.
\<close>

record pool_world = ice_world +
  mp_pool :: "peer_buffer list"
  mp_requires_refresh :: bool
  mp_uninit :: "64 word"
  hub_active :: bool
  hub_log :: "(peer \<times> ss_message) list"

definition pool_find :: "ext \<Rightarrow> peer_id \<Rightarrow> peer_buffer list \<Rightarrow> peer_buffer option" where
  "pool_find E pid pool = find (\<lambda>b. calc_peer_id E (pb_ep b) = pid) pool"

text \<open>\<open>emplace\<close> into the unique index: \<open>None\<close> is \<open>_pool.end()\<close>.\<close>

definition allocate_new_entry :: "ext \<Rightarrow> endpoint \<Rightarrow> 'a pool_world_scheme \<Rightarrow> (peer_buffer \<times> 'a pool_world_scheme) option" where
  "allocate_new_entry E ep w =
     (case pool_find E (calc_peer_id E ep) (mp_pool w) of
        Some _ \<Rightarrow> None
      | None \<Rightarrow> let b = peer_buffer_new (mp_uninit w) ep in Some (b, w\<lparr>mp_pool := mp_pool w @ [b]\<rparr>))"

definition allocate_new_buffer :: "ext \<Rightarrow> endpoint \<Rightarrow> 'a pool_world_scheme \<Rightarrow> peer_buffer option \<times> 'a pool_world_scheme" where
  "allocate_new_buffer E ep w =
     (case allocate_new_entry E ep w of None \<Rightarrow> (None, w) | Some (b, w') \<Rightarrow> (Some (peer_buffer_copy b), w'))"

definition get_peer_message_buffer :: "ext \<Rightarrow> peer_id \<Rightarrow> 'a pool_world_scheme \<Rightarrow> peer_buffer option" where
  "get_peer_message_buffer E pid w = map_option peer_buffer_copy (pool_find E pid (mp_pool w))"

text \<open>\<open>modify(entry, f)\<close>, where the entry is the one with this identifier.\<close>

definition pool_modify :: "ext \<Rightarrow> peer_id \<Rightarrow> (peer_buffer \<Rightarrow> peer_buffer) \<Rightarrow> 'a pool_world_scheme \<Rightarrow> 'a pool_world_scheme" where
  "pool_modify E pid f w =
     w\<lparr>mp_pool := map (\<lambda>b. if calc_peer_id E (pb_ep b) = pid then f b else b) (mp_pool w)\<rparr>"

definition pool_call_refresh_tick :: "'a io_world_scheme \<Rightarrow> 'a io_world_scheme" where
  "pool_call_refresh_tick w = timer_set T_pool_refresh DEFAULT_MEMPOOL_REFRESH_TICK_TIME_S w"

definition pool_requires_refresh :: "bool \<Rightarrow> 'a pool_world_scheme \<Rightarrow> 'a pool_world_scheme" where
  "pool_requires_refresh b w =
     (if b then pool_call_refresh_tick (w\<lparr>mp_requires_refresh := True\<rparr>) else w\<lparr>mp_requires_refresh := False\<rparr>)"

definition drop_expired :: "int \<Rightarrow> peer_buffer \<Rightarrow> peer_buffer" where
  "drop_expired now b =
     pb_drop (upper_bound (compare_received_at (now - DEFAULT_MESSAGE_LIFETIME_M * 60)) (pb_queue b)) b"

definition pool_refresh_tick :: "'a pool_world_scheme \<Rightarrow> 'a pool_world_scheme" where
  "pool_refresh_tick w =
     (let w1 = w\<lparr>mp_pool := map (drop_expired (w_now w)) (mp_pool w)\<rparr>
      in if mp_requires_refresh w1 then pool_call_refresh_tick w1 else w1)"

definition message_pool_new :: "bool \<Rightarrow> 'a pool_world_scheme \<Rightarrow> 'a pool_world_scheme" where
  "message_pool_new requires_refresh w =
     w\<lparr>mp_pool := [], mp_requires_refresh := requires_refresh, hub_active := False, hub_log := []\<rparr>"

section \<open>The hub\<close>

definition hub_start :: "'a pool_world_scheme \<Rightarrow> 'a pool_world_scheme" where
  "hub_start w = w\<lparr>hub_active := True\<rparr>"

definition hub_stop :: "'a pool_world_scheme \<Rightarrow> 'a pool_world_scheme" where
  "hub_stop w = w\<lparr>hub_active := False\<rparr>"

text \<open>\<open>popped\<close> is the result of the pop function the caller passed.\<close>

definition hub_on_receive_message ::
  "(endpoint \<Rightarrow> 'a pool_world_scheme \<Rightarrow> peer) \<Rightarrow> received_message option \<Rightarrow> endpoint \<Rightarrow>
   'a pool_world_scheme \<Rightarrow> 'a pool_world_scheme" where
  "hub_on_receive_message ep_to_peer popped src_ep w =
     (case popped of
        None \<Rightarrow> w
      | Some received_msg \<Rightarrow>
          w\<lparr>hub_log := hub_log w @ [(ep_to_peer src_ep w, ss_message_new received_msg src_ep)]\<rparr>)"

text \<open>The pop function the hub runs works on a copy of the entry.\<close>

definition message_pool_store ::
  "ext \<Rightarrow> (endpoint \<Rightarrow> 'a pool_world_scheme \<Rightarrow> peer) \<Rightarrow> message \<Rightarrow> endpoint \<Rightarrow>
   'a pool_world_scheme \<Rightarrow> 'a pool_world_scheme result" where
  "message_pool_store E ep_to_peer msg ep w =
     (let peer_id = calc_peer_id E ep;
          found = (case pool_find E peer_id (mp_pool w) of
                     Some entry \<Rightarrow> Some (entry, w)
                   | None \<Rightarrow> allocate_new_entry E ep w)
      in case found of
           None \<Rightarrow> Inr w
         | Some (entry, w1) \<Rightarrow>
             let (msg_id, entry', w2) = pb_push E msg entry w1;
                 w3 = pool_modify E peer_id (\<lambda>_. entry') w2
             in if hub_active w3 then
                  let temp_entry = peer_buffer_copy entry'
                  in bind_res (pb_pop_by_id msg_id pop_none temp_entry) (\<lambda>(popped, _).
                       Inr (hub_on_receive_message ep_to_peer popped ep w3))
                else Inr w3)"

section \<open>The abstract view and the invariant\<close>

definition pool_messages :: "ext \<Rightarrow> 'a pool_world_scheme \<Rightarrow> peer_id \<Rightarrow> received_message list" where
  "pool_messages E w pid = (case pool_find E pid (mp_pool w) of Some b \<Rightarrow> pb_queue b | None \<Rightarrow> [])"

definition buffer_ok :: "int \<Rightarrow> peer_buffer \<Rightarrow> bool" where
  "buffer_ok now b \<longleftrightarrow> sorted (map rm_time (pb_queue b)) \<and> (\<forall>m \<in> set (pb_queue b). rm_time m \<le> now)"

definition pool_inv :: "ext \<Rightarrow> 'a pool_world_scheme \<Rightarrow> bool" where
  "pool_inv E w \<longleftrightarrow> distinct (map (\<lambda>b. calc_peer_id E (pb_ep b)) (mp_pool w)) \<and>
     (\<forall>b \<in> set (mp_pool w). buffer_ok (w_now w) b)"

lemma pool_find_Some: "pool_find E pid pool = Some b \<Longrightarrow> b \<in> set pool \<and> calc_peer_id E (pb_ep b) = pid"
  by (auto simp: pool_find_def dest: find_Some_set)

lemma pool_find_None: "pool_find E pid pool = None \<longleftrightarrow> pid \<notin> (\<lambda>b. calc_peer_id E (pb_ep b)) ` set pool"
  by (auto simp: pool_find_def find_None_set)

lemma pool_find_append:
  "pool_find E pid (pool @ [b]) =
     (case pool_find E pid pool of Some x \<Rightarrow> Some x | None \<Rightarrow> if calc_peer_id E (pb_ep b) = pid then Some b else None)"
  by (induction pool) (auto simp: pool_find_def)

lemma pool_find_modify:
  assumes "\<And>b. pb_ep (f b) = pb_ep b"
  shows "pool_find E pid (map f pool) = map_option f (pool_find E pid pool)"
  using assms by (induction pool) (auto simp: pool_find_def)

lemma pool_find_modify1:
  assumes "\<And>b. b \<in> set pool \<Longrightarrow> calc_peer_id E (pb_ep b) = k \<Longrightarrow> calc_peer_id E (pb_ep (f b)) = k"
  shows "pool_find E pid (map (\<lambda>b. if calc_peer_id E (pb_ep b) = k then f b else b) pool) =
     (if pid = k then map_option f (pool_find E pid pool) else pool_find E pid pool)"
  using assms by (induction pool) (auto simp: pool_find_def)

lemma pool_modify_ids:
  assumes "\<And>b. b \<in> set pool \<Longrightarrow> calc_peer_id E (pb_ep b) = k \<Longrightarrow> calc_peer_id E (pb_ep (f b)) = k"
  shows "map (\<lambda>b. calc_peer_id E (pb_ep b)) (map (\<lambda>b. if calc_peer_id E (pb_ep b) = k then f b else b) pool) =
     map (\<lambda>b. calc_peer_id E (pb_ep b)) pool"
  using assms by (induction pool) auto

lemma buffer_ok_append:
  "buffer_ok now b \<Longrightarrow> rm_time m = now \<Longrightarrow> buffer_ok now (pb_append m n b)"
  by (auto simp: buffer_ok_def sorted_append)

lemma buffer_ok_new [simp]: "buffer_ok now (peer_buffer_new j ep)"
  by (simp add: buffer_ok_def peer_buffer_new_def)

lemma buffer_ok_mono: "buffer_ok now b \<Longrightarrow> now \<le> now' \<Longrightarrow> buffer_ok now' b"
  by (auto simp: buffer_ok_def)

text \<open>The entry a store works on, and the pool that has it.\<close>

definition store_entry :: "ext \<Rightarrow> endpoint \<Rightarrow> 'a pool_world_scheme \<Rightarrow> peer_buffer" where
  "store_entry E ep w =
     (case pool_find E (calc_peer_id E ep) (mp_pool w) of Some b \<Rightarrow> b | None \<Rightarrow> peer_buffer_new (mp_uninit w) ep)"

definition with_entry :: "ext \<Rightarrow> endpoint \<Rightarrow> 'a pool_world_scheme \<Rightarrow> peer_buffer list" where
  "with_entry E ep w =
     (if pool_find E (calc_peer_id E ep) (mp_pool w) = None
      then mp_pool w @ [peer_buffer_new (mp_uninit w) ep] else mp_pool w)"

definition stored_message :: "ext \<Rightarrow> message \<Rightarrow> 'a io_world_scheme \<Rightarrow> received_message" where
  "stored_message E m w = \<lparr>rm_id = x_uuid_gen E (w_uuids w), rm_msg = m, rm_time = w_now w\<rparr>"

definition pool_after_push :: "ext \<Rightarrow> message \<Rightarrow> endpoint \<Rightarrow> 'a pool_world_scheme \<Rightarrow> 'a pool_world_scheme" where
  "pool_after_push E m ep w =
     pool_modify E (calc_peer_id E ep) (\<lambda>_. pb_append (stored_message E m w) (w_now w) (store_entry E ep w))
       (w\<lparr>mp_pool := with_entry E ep w, w_uuids := Suc (w_uuids w)\<rparr>)"

lemma store_eq:
  "message_pool_store E to_peer m ep w =
     (let w3 = pool_after_push E m ep w
      in Inr (if hub_active w then hub_on_receive_message to_peer (Some (stored_message E m w)) ep w3 else w3))"
proof -
  let ?b = "store_entry E ep w" and ?w1 = "w\<lparr>mp_pool := with_entry E ep w\<rparr>"
  have found: "(case pool_find E (calc_peer_id E ep) (mp_pool w) of Some entry \<Rightarrow> Some (entry, w)
      | None \<Rightarrow> allocate_new_entry E ep w) = Some (?b, ?w1)"
    by (auto simp: allocate_new_entry_def store_entry_def with_entry_def Let_def split: option.splits)
  have push: "pb_push E m ?b ?w1 =
      (rm_id (stored_message E m w), pb_append (stored_message E m w) (w_now w) ?b, ?w1\<lparr>w_uuids := Suc (w_uuids w)\<rparr>)"
    by (simp add: pb_push_eq stored_message_def Let_def)
  show ?thesis
    unfolding message_pool_store_def Let_def found option.case push prod.case peer_buffer_copy_eq pop_pushed
    by (simp add: pool_after_push_def pool_modify_def)
qed

lemma pool_after_push_simps [simp]:
  "w_now (pool_after_push E m ep w) = w_now w" "hub_log (pool_after_push E m ep w) = hub_log w"
  "hub_active (pool_after_push E m ep w) = hub_active w" "mp_requires_refresh (pool_after_push E m ep w) = mp_requires_refresh w"
  "w_queue (pool_after_push E m ep w) = w_queue w" "w_timers (pool_after_push E m ep w) = w_timers w"
  "w_net (pool_after_push E m ep w) = w_net w"
  by (simp_all add: pool_after_push_def pool_modify_def)

lemma hub_simps [simp]:
  "mp_pool (hub_on_receive_message t r ep w) = mp_pool w" "w_now (hub_on_receive_message t r ep w) = w_now w"
  "pool_messages E (hub_on_receive_message t r ep w) pid = pool_messages E w pid"
  "pool_inv E (hub_on_receive_message t r ep w) = pool_inv E w"
  by (simp_all add: hub_on_receive_message_def pool_messages_def pool_inv_def split: option.splits)

lemma store_entry_id: "calc_peer_id E (pb_ep (store_entry E ep w)) = calc_peer_id E ep"
  by (auto simp: store_entry_def peer_buffer_new_def dest: pool_find_Some split: option.splits)

lemma store_entry_find: "pool_find E (calc_peer_id E ep) (with_entry E ep w) = Some (store_entry E ep w)"
  by (auto simp: with_entry_def store_entry_def pool_find_append peer_buffer_new_def split: option.splits)

lemma store_entry_other: "pid \<noteq> calc_peer_id E ep \<Longrightarrow> pool_find E pid (with_entry E ep w) = pool_find E pid (mp_pool w)"
  by (auto simp: with_entry_def pool_find_append peer_buffer_new_def split: option.splits)

lemma pool_after_push_messages:
  "pool_messages E (pool_after_push E m ep w) =
     (pool_messages E w)(calc_peer_id E ep := pool_messages E w (calc_peer_id E ep) @ [stored_message E m w])"
proof
  fix pid
  have q: "pb_queue (store_entry E ep w) = pool_messages E w (calc_peer_id E ep)"
    by (auto simp: store_entry_def pool_messages_def peer_buffer_new_def split: option.splits)
  show "pool_messages E (pool_after_push E m ep w) pid =
     ((pool_messages E w)(calc_peer_id E ep := pool_messages E w (calc_peer_id E ep) @ [stored_message E m w])) pid"
    using store_entry_other [of pid E ep w] q
    by (simp add: pool_after_push_def pool_modify_def pool_messages_def [of _ "_\<lparr>mp_pool := _\<rparr>"] pool_find_modify1 store_entry_id store_entry_find)
      (simp add: pool_messages_def)
qed

lemma pool_after_push_inv [wf_ops]:
  assumes "pool_inv E w"
  shows "pool_inv E (pool_after_push E m ep w)"
proof -
  let ?f = "\<lambda>_. pb_append (stored_message E m w) (w_now w) (store_entry E ep w)"
  have d: "distinct (map (\<lambda>b. calc_peer_id E (pb_ep b)) (with_entry E ep w))"
    using assms by (auto simp: pool_inv_def with_entry_def pool_find_None peer_buffer_new_def)
  have ok: "\<forall>b \<in> set (with_entry E ep w). buffer_ok (w_now w) b" "buffer_ok (w_now w) (store_entry E ep w)"
    using assms by (auto simp: pool_inv_def with_entry_def store_entry_def dest: pool_find_Some split: option.splits)
  have "buffer_ok (w_now w) (?f b)" for b :: peer_buffer
    using ok(2) by (simp add: buffer_ok_append stored_message_def)
  moreover have "distinct (map (\<lambda>b. calc_peer_id E (pb_ep b))
      (map (\<lambda>b. if calc_peer_id E (pb_ep b) = calc_peer_id E ep then ?f b else b) (with_entry E ep w)))"
    using d by (subst pool_modify_ids) (simp_all add: store_entry_id)
  ultimately show ?thesis
    using ok(1) by (auto simp: pool_inv_def pool_after_push_def pool_modify_def comp_def)
qed

text \<open>
  C18. Storing a message never fails, and on the abstract view it is an append: the peer's queue gets
  the message, with the time of its arrival, at its end, and no other queue changes. An active hub is
  called once with the message and the peer that the node's function makes of the sender's endpoint in the
  world that holds the message, and the message stays in the pool.
\<close>

theorem store_appends:
  assumes "pool_inv E w"
  shows "\<exists>w' rm. message_pool_store E to_peer msg ep w = Inr w' \<and> rm_msg rm = msg \<and> rm_time rm = w_now w \<and>
    pool_messages E w' = (pool_messages E w)(calc_peer_id E ep := pool_messages E w (calc_peer_id E ep) @ [rm]) \<and>
    pool_inv E w' \<and>
    hub_log w' = hub_log w @
      (if hub_active w then [(to_peer ep (w'\<lparr>hub_log := hub_log w\<rparr>), ss_message_new rm ep)] else [])"
proof (intro exI conjI)
  let ?w3 = "pool_after_push E msg ep w" and ?m = "stored_message E msg w"
  let ?w' = "if hub_active w then hub_on_receive_message to_peer (Some ?m) ep ?w3 else ?w3"
  show "message_pool_store E to_peer msg ep w = Inr ?w'" by (simp add: store_eq Let_def)
  show "rm_msg ?m = msg" "rm_time ?m = w_now w" by (simp_all add: stored_message_def)
  show "pool_messages E ?w' = (pool_messages E w)(calc_peer_id E ep := pool_messages E w (calc_peer_id E ep) @ [?m])"
    unfolding pool_after_push_messages [symmetric] by (simp add: fun_eq_iff)
  show "pool_inv E ?w'" using pool_after_push_inv [OF assms] by simp
  have "?w'\<lparr>hub_log := hub_log w\<rparr> = ?w3\<lparr>hub_log := hub_log ?w3\<rparr>" by (simp add: hub_on_receive_message_def)
  also have "\<dots> = ?w3" by simp
  finally have "?w'\<lparr>hub_log := hub_log w\<rparr> = ?w3" .
  then show "hub_log ?w' = hub_log w @
      (if hub_active w then [(to_peer ep (?w'\<lparr>hub_log := hub_log w\<rparr>), ss_message_new ?m ep)] else [])"
    by (simp only:) (simp add: hub_on_receive_message_def)
qed


lemma drop_expired_queue:
  assumes "buffer_ok now b"
  shows "pb_queue (drop_expired now b) = filter (\<lambda>m. now - 1200 < rm_time m) (pb_queue b)"
proof -
  have "compare_received_at (now - 1200) = (\<lambda>m. now - 1200 < rm_time m)" by (auto simp: compare_received_at_def)
  then show ?thesis using assms upper_bound_drop [of rm_time "pb_queue b" "now - 1200"]
    by (simp add: drop_expired_def pb_drop_def buffer_ok_def)
qed

lemma drop_expired_ep [simp]: "pb_ep (drop_expired now b) = pb_ep b"
  by (simp add: drop_expired_def pb_drop_def)

lemma drop_expired_ok: "buffer_ok now b \<Longrightarrow> buffer_ok now (drop_expired now b)"
  using drop_expired_queue [of now b] by (auto simp: buffer_ok_def sorted_map sorted_wrt_filter)

text \<open>
  C19. A refresh keeps of every queue exactly the messages that arrived within the last twenty minutes,
  in their order, although it looks for the first of them by binary search, and it sets its timer
  again, 200 s ahead, as long as refreshing is required.
\<close>

theorem refresh_keeps_recent:
  assumes "pool_inv E w"
  shows "pool_messages E (pool_refresh_tick w) =
      (\<lambda>pid. filter (\<lambda>m. w_now w - 1200 < rm_time m) (pool_messages E w pid)) \<and>
    pool_inv E (pool_refresh_tick w) \<and>
    w_timers (pool_refresh_tick w) =
      (if mp_requires_refresh w
       then filter (\<lambda>(_, u). u \<noteq> T_pool_refresh) (w_timers w) @ [(w_now w + 200, T_pool_refresh)]
       else w_timers w)"
proof (intro conjI)
  let ?w = "pool_refresh_tick w"
  have pool: "mp_pool ?w = map (drop_expired (w_now w)) (mp_pool w)" "w_now ?w = w_now w"
    by (simp_all add: pool_refresh_tick_def pool_call_refresh_tick_def timer_set_def timer_cancel_def Let_def)
  show "pool_messages E ?w = (\<lambda>pid. filter (\<lambda>m. w_now w - 1200 < rm_time m) (pool_messages E w pid))"
    using assms
    by (auto simp: fun_eq_iff pool_messages_def pool pool_find_modify pool_inv_def drop_expired_queue
        dest!: pool_find_Some split: option.splits)
  show "pool_inv E ?w"
    using assms by (auto simp: pool_inv_def pool comp_def drop_expired_ok)
  show "w_timers ?w = (if mp_requires_refresh w
      then filter (\<lambda>(_, u). u \<noteq> T_pool_refresh) (w_timers w) @ [(w_now w + 200, T_pool_refresh)] else w_timers w)"
    by (simp add: pool_refresh_tick_def pool_call_refresh_tick_def Let_def)
qed

section \<open>What a peer receives\<close>

fun receive_times :: "int \<Rightarrow> nat \<Rightarrow> peer \<Rightarrow> (ss_message list \<times> peer) option result" where
  "receive_times t 0 p = Inr (Some ([], p))"
| "receive_times t (Suc n) p =
     bind_res (peer_receive t [] p) (\<lambda>r. case r of
         None \<Rightarrow> Inr None
       | Some (m, p') \<Rightarrow> map_res (map_option (\<lambda>(ms, q). (m # ms, q))) (receive_times t n p'))"

lemma peer_receive_Cons:
  "pe_buffer p = Some b \<Longrightarrow> pb_queue b = m # ms \<Longrightarrow>
   peer_receive t pushed p =
     Inr (Some (ss_message_new m (pe_ep p), p\<lparr>pe_buffer := Some (b\<lparr>pb_queue := ms, pb_mem := pb_mem b - 1\<rparr>)\<rparr>))"
  by (simp add: peer_receive_def pb_pop_def)

lemma peer_receive_Nil:
  "pe_buffer p = Some b \<Longrightarrow> pb_queue b = [] \<Longrightarrow>
   peer_receive t [] p = (if t = -1 then Inr None else Inl Undefined)"
  by (simp add: peer_receive_def pb_pop_def)

lemma receive_times_queue:
  assumes "pe_buffer p = Some b"
  shows "\<exists>p' b'. receive_times t (length (pb_queue b)) p =
      Inr (Some (map (\<lambda>m. ss_message_new m (pe_ep p)) (pb_queue b), p')) \<and> pe_buffer p' = Some b' \<and> pb_queue b' = []"
  using assms
proof (induction "pb_queue b" arbitrary: p b)
  case (Cons m ms)
  let ?b = "b\<lparr>pb_queue := ms, pb_mem := pb_mem b - 1\<rparr>"
  let ?p = "p\<lparr>pe_buffer := Some ?b\<rparr>"
  obtain p' b' where "receive_times t (length ms) ?p = Inr (Some (map (\<lambda>m. ss_message_new m (pe_ep ?p)) ms, p'))"
    and "pe_buffer p' = Some b'" "pb_queue b' = []"
    using Cons.hyps(1) [of ?b ?p] by auto
  then show ?case using peer_receive_Cons [OF Cons.prems Cons.hyps(2) [symmetric], of t "[]"] Cons.hyps(2) [symmetric] by simp
qed simp

text \<open>
  C20. A peer that was made from the pool delivers, in order of arrival, the messages the pool held for
  its endpoint at that moment, and those only: the buffer it holds is its own copy, so no later arrival
  reaches it. After them a blocking \<open>receive\<close> never returns, and one that gives up dereferences the
  null message it did not get. Without a buffer in the pool every \<open>receive\<close> dereferences a null pointer.
\<close>

theorem peer_receives_snapshot:
  assumes "p = peer_new E ep (get_peer_message_buffer E (calc_peer_id E ep) w)"
    and "ms = pool_messages E w (calc_peer_id E ep)" and "t \<noteq> -1"
  shows "if pool_find E (calc_peer_id E ep) (mp_pool w) = None then \<forall>s. peer_receive s [] p = Inl Undefined
    else \<exists>p'. receive_times t (length ms) p = Inr (Some (map (\<lambda>m. ss_message_new m ep) ms, p')) \<and>
      peer_receive t [] p' = Inl Undefined \<and> peer_receive (-1) [] p' = Inr None"
proof (cases "pool_find E (calc_peer_id E ep) (mp_pool w)")
  case None
  then show ?thesis using assms by (simp add: peer_new_def get_peer_message_buffer_def peer_receive_def)
next
  case (Some b)
  then have "pe_buffer p = Some b" "pe_ep p = ep" "ms = pb_queue b"
    using assms by (simp_all add: peer_new_def get_peer_message_buffer_def pool_messages_def)
  then show ?thesis using receive_times_queue [of p b t] peer_receive_Nil assms(3) Some by auto
qed

section \<open>The refresh timer\<close>

text \<open>Taking a queued refresh out of the event queue and running it.\<close>

definition run_refresh :: "'a pool_world_scheme \<Rightarrow> 'a pool_world_scheme" where
  "run_refresh w = pool_refresh_tick (w\<lparr>w_queue := tl (w_queue w)\<rparr>)"

text \<open>
  C37. Requiring the refresh twice starts a loop that never rests: the second call aborts the first
  wait, whose handler runs at once, since it does not look at its error code, sets the timer again and
  so aborts the wait that was pending. However often the queue is served, there is again exactly one
  refresh in it, and no time has passed.
\<close>

theorem double_refresh_spins:
  fixes w :: "'a pool_world_scheme"
  assumes "w_queue w = []" and "w_timers w = []"
  shows "\<exists>d. w_queue ((run_refresh ^^ n) (pool_requires_refresh True (pool_requires_refresh True w))) = [T_pool_refresh] \<and>
    w_timers ((run_refresh ^^ n) (pool_requires_refresh True (pool_requires_refresh True w))) = [(d, T_pool_refresh)] \<and>
    w_now ((run_refresh ^^ n) (pool_requires_refresh True (pool_requires_refresh True w))) = w_now w"
proof -
  define P where "P v \<longleftrightarrow> mp_requires_refresh v \<and> w_queue v = [T_pool_refresh] \<and>
      w_timers v = [(w_now w + 200, T_pool_refresh)] \<and> w_now v = w_now w" for v :: "'a pool_world_scheme"
  have "P (run_refresh v)" if "P v" for v
    using that by (simp add: P_def run_refresh_def pool_refresh_tick_def pool_call_refresh_tick_def Let_def timer_set_def timer_cancel_def)
  moreover have "P (pool_requires_refresh True (pool_requires_refresh True w))"
    using assms by (simp add: P_def pool_requires_refresh_def pool_call_refresh_tick_def timer_set_def timer_cancel_def Let_def)
  ultimately have "P ((run_refresh ^^ n) (pool_requires_refresh True (pool_requires_refresh True w)))"
    by (induction n) auto
  then show ?thesis by (auto simp: P_def)
qed


section \<open>Sample pools\<close>

definition sample_message :: "int \<Rightarrow> received_message" where
  "sample_message t = \<lparr>rm_id = 7, rm_msg = JStr ''hello'', rm_time = t\<rparr>"

definition sample_pool :: "int list \<Rightarrow> pool_world" where
  "sample_pool ts = ice_world.extend (sample_ice sample_net_table sample_self [])
     \<lparr>mp_pool = [(peer_buffer_new 0 sample_peer)\<lparr>pb_queue := map sample_message ts\<rparr>],
      mp_requires_refresh = True, mp_uninit = 0, hub_active = True, hub_log = []\<rparr>"

lemma sample_pool_simps [simp]:
  "w_now (sample_pool ts) = 100" "w_queue (sample_pool ts) = []" "w_timers (sample_pool ts) = []"
  "mp_pool (sample_pool ts) = [(peer_buffer_new 0 sample_peer)\<lparr>pb_queue := map sample_message ts\<rparr>]"
  "mp_requires_refresh (sample_pool ts)" "hub_active (sample_pool ts)" "hub_log (sample_pool ts) = []"
  by (simp_all add: sample_pool_def ice_world.defs sample_ice_def)

lemma sample_pool_messages [simp]:
  "pool_messages E (sample_pool ts) (calc_peer_id E sample_peer) = map sample_message ts"
  by (simp add: pool_messages_def pool_find_def peer_buffer_new_def)

lemma sample_pool_inv: "sorted ts \<Longrightarrow> \<forall>t \<in> set ts. t \<le> 100 \<Longrightarrow> pool_inv E (sample_pool ts)"
  by (auto simp: pool_inv_def buffer_ok_def comp_def sample_message_def)

theorem store_appends_witness:
  "\<exists>w' rm. message_pool_store sample_ext (\<lambda>ep w. peer_new sample_ext ep None) JNull sample_peer (sample_pool [90]) = Inr w' \<and>
    rm_msg rm = JNull \<and> pool_messages sample_ext w' (calc_peer_id sample_ext sample_peer) = [sample_message 90, rm] \<and>
    hub_log w' = [(peer_new sample_ext sample_peer None, ss_message_new rm sample_peer)]"
proof -
  have "pool_inv sample_ext (sample_pool [90])" by (rule sample_pool_inv) auto
  from store_appends [OF this, of "\<lambda>ep w. peer_new sample_ext ep None" JNull sample_peer]
  show ?thesis by fastforce
qed

theorem refresh_keeps_recent_witness:
  "pool_messages sample_ext (pool_refresh_tick (sample_pool [-2000, -1100, -1099, 90])) (calc_peer_id sample_ext sample_peer) =
     map sample_message [-1099, 90]"
proof -
  have "pool_inv sample_ext (sample_pool [-2000, -1100, -1099, 90])" by (rule sample_pool_inv) auto
  from refresh_keeps_recent [OF this] show ?thesis by (simp add: sample_message_def)
qed

theorem peer_receives_snapshot_witness:
  "\<exists>p'. receive_times 0 2 (peer_new sample_ext sample_peer
      (get_peer_message_buffer sample_ext (calc_peer_id sample_ext sample_peer) (sample_pool [1, 2]))) =
    Inr (Some (map (\<lambda>t. ss_message_new (sample_message t) sample_peer) [1, 2], p')) \<and>
    peer_receive (-1) [] p' = Inr None"
  using peer_receives_snapshot [OF refl refl, of 0 sample_ext sample_peer "sample_pool [1, 2]"]
  by (auto simp: pool_find_def peer_buffer_new_def numeral_2_eq_2 simp del: receive_times.simps)

theorem double_refresh_spins_witness:
  "w_queue ((run_refresh ^^ 5) (pool_requires_refresh True (pool_requires_refresh True (sample_pool [])))) = [T_pool_refresh]"
  using double_refresh_spins [of "sample_pool []" 5] by auto

end
