(* ===== verification/SS_NodeController.thy ===== *)
theory SS_NodeController
  imports SS_MessagePool
begin

text \<open>
  \<open>udp_server\<close> and \<open>node_controller\<close>: receiving datagrams, dispatching them, the commands of the
  console, starting and stopping, and the periodic renewal of the global endpoint. \<open>node_task\<close> runs one
  handler of the event loop, and \<open>node_step\<close> is everything that can happen to a node: a datagram or a
  command arrives, a timer runs off, a queued handler runs, time passes, or the application calls it.

  \<open>us_listening\<close> says that a receive is pending, \<open>nc_stopped\<close> that the \<open>io_context\<close> was stopped; nothing
  in the program restarts it. There are three endpoint objects. \<open>node_controller::_self_ep\<close> has no field of
  its own: the DHT manager holds a reference to it (\<open>dht_manager::_self_ep\<close>), so it is \<open>kd_self_ep\<close>.
  \<open>node_controller::_glob_self_ep\<close> is \<open>nc_glob_self_ep\<close>. The ICE agent holds a reference to the endpoint
  the application passed to the constructor, \<open>iw_glob_self_ep\<close>.
\<close>

record node_world = pool_world +
  us_open :: bool
  us_listening :: bool
  us_src_ep :: endpoint
  nc_glob_self_ep :: endpoint
  nc_stopped :: bool

section \<open>The UDP server\<close>

definition udp_call_receiver :: "'a node_world_scheme \<Rightarrow> 'a node_world_scheme" where
  "udp_call_receiver w = w\<lparr>us_listening := True\<rparr>"

definition udp_start :: "'a node_world_scheme \<Rightarrow> bool \<times> 'a node_world_scheme" where
  "udp_start w = (if \<not> us_open w then (False, w) else (True, udp_call_receiver w))"

text \<open>
  \<open>call_income_message_handler\<close>: \<open>received\<close> is \<open>None\<close> when there is an error code. The handler that is
  posted has a copy of the bytes, and reads \<open>_src_ep\<close> when it runs.
\<close>

definition udp_call_income_message_handler :: "byte list option \<Rightarrow> 'a node_world_scheme \<Rightarrow> 'a node_world_scheme" where
  "udp_call_income_message_handler received w =
     (case received of
        None \<Rightarrow> udp_call_receiver w
      | Some raw_msg \<Rightarrow> udp_call_receiver (io_post (T_recv raw_msg) w))"

text \<open>A datagram: the pending receive writes the sender's endpoint and completes.\<close>

definition udp_arrival :: "byte list \<Rightarrow> endpoint \<Rightarrow> 'a node_world_scheme \<Rightarrow> 'a node_world_scheme" where
  "udp_arrival raw_msg src w =
     udp_call_income_message_handler (Some raw_msg) (w\<lparr>us_src_ep := src, us_listening := False\<rparr>)"

text \<open>\<open>cancel\<close> completes the pending receive with \<open>operation_aborted\<close>.\<close>

definition udp_stop :: "'a node_world_scheme \<Rightarrow> 'a node_world_scheme" where
  "udp_stop w = (if us_listening w then io_post T_recv_aborted (w\<lparr>us_listening := False\<rparr>) else w)"

section \<open>The node\<close>

abbreviation DEFAULT_GLOBAL_ADDRESS_REFRESH_TICK_TIME_s :: int where
  "DEFAULT_GLOBAL_ADDRESS_REFRESH_TICK_TIME_s \<equiv> 60"

abbreviation DEFAULT_INQUIRE_COUNT :: nat where
  "DEFAULT_INQUIRE_COUNT \<equiv> 3"

definition node_controller_new :: "ext \<Rightarrow> endpoint \<Rightarrow> 'a node_world_scheme \<Rightarrow> 'a node_world_scheme" where
  "node_controller_new E self_ep w =
     (let w1 = message_pool_new True (w\<lparr>w_app_id := ''abcdefgh'', us_open := True, us_listening := False,
                 nc_stopped := False, nc_glob_self_ep := any_endpoint\<rparr>);
          w2 = dht_manager_new E self_ep w1
      in ice_agent_new self_ep w2)"

definition get_peer_ref :: "ext \<Rightarrow> endpoint \<Rightarrow> 'a node_world_scheme \<Rightarrow> peer" where
  "get_peer_ref E ep w = peer_new E ep (get_peer_message_buffer E (calc_peer_id E ep) w)"

definition get_peer :: "ext \<Rightarrow> endpoint \<Rightarrow> 'a node_world_scheme \<Rightarrow> peer" where
  "get_peer E ep w = peer_new E ep (get_peer_message_buffer E (calc_peer_id E ep) w)"

definition update_global_self_endpoint :: "ext \<Rightarrow> endpoint \<Rightarrow> 'a node_world_scheme \<Rightarrow> 'a node_world_scheme" where
  "update_global_self_endpoint E ep w =
     dht_update_global_self_endpoint E ep (ice_update_global_self_endpoint ep (w\<lparr>nc_glob_self_ep := ep\<rparr>))"

definition call_node_tick :: "int \<Rightarrow> 'a io_world_scheme \<Rightarrow> 'a io_world_scheme" where
  "call_node_tick tick_time_s w = timer_set T_node_tick tick_time_s w"

text \<open>\<open>binding_request\<close> followed by \<open>async_get\<close> on the object it returns.\<close>

definition request_global_endpoint :: "ext \<Rightarrow> endpoint list \<Rightarrow> 'a node_world_scheme \<Rightarrow> 'a node_world_scheme result" where
  "request_global_endpoint E boot_eps w =
     map_res (\<lambda>(sr_obj, w1). modify_sr sr_obj (sr_async_get SR_update_global_self_endpoint) w1)
       (stun_binding_request E boot_eps DEFAULT_INQUIRE_COUNT w)"

text \<open>What the daemon thread does before it runs the event loop.\<close>

definition node_start :: "ext \<Rightarrow> endpoint list \<Rightarrow> 'a node_world_scheme \<Rightarrow> 'a node_world_scheme result" where
  "node_start E boot_eps w =
     (let (_, w1) = udp_start w
      in bind_res (dht_start E (signaling_send E) w1) (\<lambda>w2.
           bind_res (request_global_endpoint E boot_eps w2) (\<lambda>w3.
             Inr (call_node_tick DEFAULT_GLOBAL_ADDRESS_REFRESH_TICK_TIME_s (pool_requires_refresh True w3)))))"

definition node_stop :: "'a node_world_scheme \<Rightarrow> 'a node_world_scheme" where
  "node_stop w = dht_stop (pool_requires_refresh False (udp_stop w\<lparr>nc_stopped := True\<rparr>))"

definition node_tick :: "ext \<Rightarrow> 'a node_world_scheme \<Rightarrow> 'a node_world_scheme result" where
  "node_tick E w =
     map_res (call_node_tick DEFAULT_GLOBAL_ADDRESS_REFRESH_TICK_TIME_s) (request_global_endpoint E [] w)"

text \<open>\<open>None\<close> when the call waits for a notification first.\<close>

definition sync_get_global_address ::
  "ext \<Rightarrow> endpoint list \<Rightarrow> 'a node_world_scheme \<Rightarrow> (endpoint option option \<times> 'a node_world_scheme) result" where
  "sync_get_global_address E boot_eps w =
     map_res (\<lambda>(sr_obj, w1). (sr_sync_get (iw_srs w1 ! sr_obj), w1))
       (stun_binding_request E boot_eps DEFAULT_INQUIRE_COUNT w)"

text \<open>
  \<open>*(++input_itr)\<close> past the last word is undefined. The command \<open>stop\<close> goes on to the test for \<open>send\<close>.
\<close>

definition on_command_input :: "ext \<Rightarrow> string list \<Rightarrow> 'a node_world_scheme \<Rightarrow> 'a node_world_scheme result" where
  "on_command_input E inputs w =
     (case inputs of
        [] \<Rightarrow> Inr w
      | command # arguments \<Rightarrow>
          let w1 = (if command = ''stop'' then node_stop w else w)
          in if command = ''send'' then
               (case arguments of
                  [] \<Rightarrow> Inl Undefined
                | peer_addr_str # rest \<Rightarrow>
                    bind_res (str_to_endpoint E peer_addr_str) (\<lambda>peer_ep.
                      let peer_ref = get_peer_ref E peer_ep w1
                      in case rest of
                           [] \<Rightarrow> Inl Undefined
                         | payload # _ \<Rightarrow> peer_send (signaling_send E) payload peer_ref w1))
             else Inr w1)"

text \<open>A message with ICE parameters is not stored, every other one is.\<close>

definition on_receive_packet :: "ext \<Rightarrow> byte list \<Rightarrow> endpoint \<Rightarrow> 'a node_world_scheme \<Rightarrow> 'a node_world_scheme result" where
  "on_receive_packet E raw_msg ep w =
     bind_res (message_decode E raw_msg) (\<lambda>msg.
       bind_res (if message_is_contain_param ''kademlia'' msg then dht_income_message E msg ep w else Inr w) (\<lambda>w1.
         if message_is_contain_param ''ice_agent'' msg then ice_income_message E msg ep w1
         else message_pool_store E (get_peer_ref E) msg ep w1))"

text \<open>The handler of a reserved object; an empty \<open>std::function\<close> throws.\<close>

definition run_sr_handler :: "ext \<Rightarrow> uuid \<Rightarrow> endpoint option \<Rightarrow> 'a node_world_scheme \<Rightarrow> 'a node_world_scheme result" where
  "run_sr_handler E i ep w =
     bind_res (os_deref i (iw_bindings w)) (\<lambda>obs.
       case sr_handler (iw_srs w ! br_sr obs) of
         None \<Rightarrow> Inl Runtime_error
       | Some SR_update_global_self_endpoint \<Rightarrow>
           (case ep of None \<Rightarrow> Inr w | Some e \<Rightarrow> Inr (update_global_self_endpoint E e w)))"

section \<open>The event loop\<close>

definition node_task :: "ext \<Rightarrow> task \<Rightarrow> 'a node_world_scheme \<Rightarrow> 'a node_world_scheme result" where
  "node_task E t w =
     (case t of
        T_recv raw_msg \<Rightarrow> on_receive_packet E raw_msg (us_src_ep w) w
      | T_recv_aborted \<Rightarrow> Inr (udp_call_income_message_handler None w)
      | T_command inputs \<Rightarrow> on_command_input E inputs w
      | T_sr_handler i ep \<Rightarrow> run_sr_handler E i ep w
      | T_pool_refresh \<Rightarrow> Inr (pool_refresh_tick w)
      | T_node_tick \<Rightarrow> node_tick E w
      | T_binding_timeout i \<Rightarrow> ice_task E t w
      | T_traversal_done i \<Rightarrow> ice_task E t w
      | T_ice_refresh \<Rightarrow> ice_task E t w
      | _ \<Rightarrow> kad_task E (signaling_send E) t w)"

definition run_next :: "ext \<Rightarrow> 'a node_world_scheme \<Rightarrow> 'a node_world_scheme result" where
  "run_next E w =
     (if nc_stopped w then Inr w
      else case w_queue w of
             [] \<Rightarrow> Inr w
           | t # q \<Rightarrow> node_task E t (w\<lparr>w_queue := q\<rparr>))"

text \<open>
  \<open>interface::listen_stdin\<close>: the words of a line become one command. At the end of the input
  \<open>getline\<close> leaves an empty line, so the loop posts empty commands from then on.
\<close>

function words_of :: "string \<Rightarrow> string list" where
  "words_of s =
     (case dropWhile is_space s of
        [] \<Rightarrow> []
      | c # cs \<Rightarrow> (c # takeWhile (\<lambda>x. \<not> is_space x) cs) # words_of (dropWhile (\<lambda>x. \<not> is_space x) cs))"
  by pat_completeness auto
termination
proof (relation "measure length")
  show "(dropWhile (\<lambda>x. \<not> is_space x) cs, s) \<in> measure length" if "dropWhile is_space s = c # cs" for s c cs
  proof -
    have "length (dropWhile (\<lambda>x. \<not> is_space x) cs) \<le> length cs" by (rule length_dropWhile_le)
    also have "\<dots> < length (dropWhile is_space s)" using that by simp
    also have "\<dots> \<le> length s" by (rule length_dropWhile_le)
    finally show ?thesis by simp
  qed
qed simp

declare words_of.simps [simp del]

definition listen_stdin_line :: "string \<Rightarrow> 'a io_world_scheme \<Rightarrow> 'a io_world_scheme" where
  "listen_stdin_line input w = io_post (T_command (words_of input)) w"

inductive node_step :: "ext \<Rightarrow> node_world \<Rightarrow> node_world \<Rightarrow> bool" for E :: ext where
  ns_packet: "us_listening w \<Longrightarrow> node_step E w (udp_arrival raw src w)"
| ns_command: "node_step E w (listen_stdin_line input w)"
| ns_run: "run_next E w = Inr w' \<Longrightarrow> node_step E w w'"
| ns_timer: "w_timers w = xs @ (d, t) # ys \<Longrightarrow> d \<le> w_now w \<Longrightarrow>
    node_step E w (io_post t (w\<lparr>w_timers := xs @ ys\<rparr>))"
| ns_clock: "w_now w \<le> n \<Longrightarrow> node_step E w (w\<lparr>w_now := n\<rparr>)"
| ns_start: "node_start E boot_eps w = Inr w' \<Longrightarrow> node_step E w w'"
| ns_stop: "node_step E w (node_stop w)"
| ns_send: "peer_send (signaling_send E) payload p w = Inr w' \<Longrightarrow> node_step E w w'"
| ns_hub: "node_step E w (if on then hub_start w else hub_stop w)"
| ns_sync: "sync_get_global_address E boot_eps w = Inr (r, w') \<Longrightarrow> node_step E w w'"

definition node_initial :: "ext \<Rightarrow> node_world \<Rightarrow> bool" where
  "node_initial E w \<longleftrightarrow> (\<exists>self_ep w0. w_queue w0 = [] \<and> w_timers w0 = [] \<and> w = node_controller_new E self_ep w0)"

end
