(* ===== verification/SS_Frame.thy ===== *)
theory SS_Frame
  imports SS_NodeController
begin

text \<open>
  What a layer keeps. A predicate on the world that the changes the ICE layer makes to its own parts keep
  holds after every operation of that layer (\<open>ice_keeps\<close>), and likewise for the Kademlia layer
  (\<open>kad_keeps\<close>), whatever function it sends through; a predicate that does not depend on those parts at
  all is left as it is (\<open>ice_frame\<close>, \<open>kad_frame\<close>). Each is proved once, for any predicate, and used with
  the invariants of the other components.
\<close>

section \<open>The ICE layer\<close>

text \<open>
  \<open>ice_keeps\<close>: a predicate that the changes the layer makes to its parts of the world keep is kept by every
  operation of the layer. A change of an observer keeps its identifier, a change of a binding request its
  reserved object as well; a binding request enters the storage with an object that exists.
\<close>

locale ice_keeps =
  fixes P :: "'w ice_world_scheme \<Rightarrow> bool"
  assumes I_uuids: "P w \<Longrightarrow> P (w\<lparr>w_uuids := n\<rparr>)" and I_net: "P w \<Longrightarrow> P (w\<lparr>w_net := ns\<rparr>)"
    and I_queue: "P w \<Longrightarrow> P (w\<lparr>w_queue := q\<rparr>)" and I_timers: "P w \<Longrightarrow> P (w\<lparr>w_timers := ts\<rparr>)"
    and I_glob: "P w \<Longrightarrow> P (w\<lparr>iw_glob_self_ep := ep\<rparr>)"
    and I_request: "P w \<Longrightarrow> (\<And>b. bo_id (fq b) = bo_id b) \<Longrightarrow> P (w\<lparr>iw_requests := os_modify i fq (iw_requests w)\<rparr>)"
    and I_response: "P w \<Longrightarrow> (\<And>b. bo_id (fr b) = bo_id b) \<Longrightarrow> P (w\<lparr>iw_responses := os_modify i fr (iw_responses w)\<rparr>)"
    and I_relay: "P w \<Longrightarrow> (\<And>b. bo_id (fl b) = bo_id b) \<Longrightarrow> P (w\<lparr>iw_relays := os_modify i fl (iw_relays w)\<rparr>)"
    and I_binding: "P w \<Longrightarrow> (\<And>b. bo_id (fb b) = bo_id b) \<Longrightarrow> (\<And>b. br_sr (fb b) = br_sr b) \<Longrightarrow>
      P (w\<lparr>iw_bindings := os_modify i fb (iw_bindings w)\<rparr>)"
    and I_add: "P w \<Longrightarrow> P (w\<lparr>iw_requests := snd (os_add aq (iw_requests w))\<rparr>)"
      "P w \<Longrightarrow> P (w\<lparr>iw_responses := snd (os_add ar (iw_responses w))\<rparr>)"
      "P w \<Longrightarrow> P (w\<lparr>iw_relays := snd (os_add al (iw_relays w))\<rparr>)"
      "P w \<Longrightarrow> br_sr ab < length (iw_srs w) \<Longrightarrow> P (w\<lparr>iw_bindings := snd (os_add ab (iw_bindings w))\<rparr>)"
    and I_expire: "P w \<Longrightarrow> P (w\<lparr>iw_requests := os_delete_expires t (iw_requests w)\<rparr>)"
      "P w \<Longrightarrow> P (w\<lparr>iw_responses := os_delete_expires t (iw_responses w)\<rparr>)"
      "P w \<Longrightarrow> P (w\<lparr>iw_relays := os_delete_expires t (iw_relays w)\<rparr>)"
      "P w \<Longrightarrow> P (w\<lparr>iw_bindings := os_delete_expires t (iw_bindings w)\<rparr>)"
    and I_srs: "P w \<Longrightarrow> P (w\<lparr>iw_srs := (iw_srs w)[a := s]\<rparr>)" "P w \<Longrightarrow> P (w\<lparr>iw_srs := iw_srs w @ [s]\<rparr>)"
begin

lemmas I_fields [simp] =
  I_uuids I_net I_queue I_timers I_glob I_request I_response I_relay I_binding I_add I_expire I_srs

lemma I_io [simp]:
  "P w \<Longrightarrow> P (io_post t w)" "P w \<Longrightarrow> P (timer_cancel t w)" "P w \<Longrightarrow> P (timer_set t s w)"
  "P w \<Longrightarrow> P (socket_send d b w)"
  by (simp_all add: io_post_def timer_cancel_def timer_set_def socket_send_def Let_def)

lemma I_modify [simp]:
  "P w \<Longrightarrow> P (modify_sr a f w)"
  "P w \<Longrightarrow> (\<And>b. bo_id (g b) = bo_id b) \<Longrightarrow> (\<And>b. br_sr (g b) = br_sr b) \<Longrightarrow> P (modify_binding i g w)"
  "P w \<Longrightarrow> (\<And>b. bo_id (h b) = bo_id b) \<Longrightarrow> P (modify_request i h w)"
  "P w \<Longrightarrow> P (add_request q w)" "P w \<Longrightarrow> P (add_responder r w)" "P w \<Longrightarrow> P (add_relay l w)"
  "P w \<Longrightarrow> P (update_sr a c w)" "P w \<Longrightarrow> P (ice_call_tick w)"
  by (auto simp: modify_sr_def modify_binding_def modify_request_def add_request_def add_responder_def
      add_relay_def update_sr_def ice_call_tick_def split: consensus_state.splits)

lemma I_ops [simp]:
  "P w \<Longrightarrow> P (snd (base_observer_new E t w))" "P w \<Longrightarrow> P (snd (sr_alloc sr w))"
  "P w \<Longrightarrow> P (async_call_sr_handler i ep w)"
  using base_observer_new_world [of E t w] by (auto simp: sr_alloc_def async_call_sr_handler_def)

lemma I_send: "sender_async_send E d p x w = Inr w' \<Longrightarrow> P w \<Longrightarrow> P w'"
  by (auto dest: sender_async_send_frame)

lemma I_ice_sends:
  "ice_async_send E d p x w = Inr w' \<Longrightarrow> P w \<Longrightarrow> P w'"
  "ice_async_ice_send E d m w = Inr w' \<Longrightarrow> P w \<Longrightarrow> P w'"
  by (auto simp: ice_async_send_eq ice_async_ice_send_eq dest: I_send)

lemma I_fold: "fold_res f xs w = Inr w' \<Longrightarrow> P w \<Longrightarrow> (\<And>x v v'. f x v = Inr v' \<Longrightarrow> P v \<Longrightarrow> P v') \<Longrightarrow> P w'"
  by (rule fold_res_invariant [where P = P])

lemma I_ice_fold: "fold_res (\<lambda>itr. ice_async_ice_send E itr m) eps w = Inr w' \<Longrightarrow> P w \<Longrightarrow> P w'"
  by (erule I_fold) (auto dest: I_ice_sends)

lemma I_signaling_send:
  assumes "signaling_send E d p x w = Inr w'" and "P w"
  shows "P w'"
proof (cases "drt_is_exist E (kd_table w) d")
  case True
  then show ?thesis using assms by (simp add: signaling_send_def I_send)
next
  case False
  obtain n where n: "snd (signaling_request_new E w) = w\<lparr>w_uuids := n\<rparr>" using signaling_request_new_frame by blast
  from assms(1) False obtain obs w1 obs1 w2 where 1: "signaling_request_new E w = (obs, w1)"
    "signaling_request_init E d p x obs w1 = Inr (obs1, w2)" "w' = add_request obs1 w2"
    by (auto simp: signaling_send_def res_inv Let_def split: prod.splits)
  have "P w1" using n 1(1) assms(2) by simp
  then have "P w2" using 1(2)
    by (auto simp: signaling_request_init_def send_dummy_message_def Let_def res_inv dest!: I_ice_fold I_send)
  then show ?thesis using 1(3) by simp
qed

lemma I_signaling_income:
  assumes "signaling_income_message E msg ep w = Inr w'" and "P w"
  shows "P w'"
proof -
  obtain j m dest where m: "message_get_param ''ice_agent'' msg = Some j" "ice_message_of_json j = Inr m"
    "sgnl_get_dest_endpoint E m = Inr dest"
    using assms(1) by (auto simp: signaling_income_message_def res_inv)
  let ?b = "base_observer_new E ''signaling_response'' w" and ?r = "base_observer_new E ''signaling_observer:signaling_relay'' w"
  show ?thesis
  proof (cases "dest = ice_get_self_endpoint w")
    case True
    then obtain a m1 v where "sender_async_send E a ''ice_agent'' (ice_encode m1) (snd ?b) = Inr v" "w' = add_responder (fst ?b) v"
      using assms(1) m by (auto simp: signaling_income_message_def res_inv split_beta Let_def)
    then show ?thesis using assms(2) by (auto dest!: I_send)
  next
    case False
    define v where "v = snd ?r"
    have Pv: "P v" using assms(2) by (simp add: v_def)
    define F where "F = (\<lambda>m2.
        if drt_is_exist E (kd_table v) dest then map_res (add_relay (fst ?r)) (ice_async_ice_send E dest m2 v)
        else bind_res (sgnl_get_relay_endpoints E m2) (\<lambda>relay_eps.
               bind_res (sgnl_get_ttl m2) (\<lambda>ttl. if ttl \<le> 0 then Inr v
                 else let forward_eps = drt_collect_endpoint E (kd_table v) dest 3 relay_eps
                   in bind_res (fold_res (sgnl_add_relay_endpoint E) forward_eps m2) (\<lambda>ice_msg3.
                        map_res (add_relay (fst ?r)) (fold_res (\<lambda>itr. ice_async_ice_send E itr ice_msg3) forward_eps v)))))"
    have "bind_res (sgnl_add_relay_endpoint E (ice_get_self_endpoint v) m)
        (\<lambda>m1. bind_res (ice_set_sub_protocol SIGNALING_RELAY m1) F) = Inr w'"
      unfolding F_def v_def using assms(1) m False by (simp add: signaling_income_message_def split_beta Let_def)
    then obtain m2 where "F m2 = Inr w'" by (auto simp: res_inv)
    then show ?thesis
      using Pv by (auto simp: F_def res_inv Let_def split: if_splits dest!: I_ice_fold I_ice_sends)
  qed
qed

lemma I_stun_income: "stun_income_message E msg ep w = Inr w' \<Longrightarrow> P w \<Longrightarrow> P w'"
  by (auto simp: stun_income_message_def res_inv split: if_splits dest!: I_ice_sends)

lemma I_binding_income: "binding_request_income_message E i msg ep w = Inr w' \<Longrightarrow> P w \<Longrightarrow> P w'"
  by (auto simp: binding_request_income_message_def Let_def res_inv add_response_def destruct_self_def
      split: option.splits if_splits)

lemma I_request_income: "signaling_request_income_message E i msg w = Inr w' \<Longrightarrow> P w \<Longrightarrow> P w'"
  by (auto simp: signaling_request_income_message_def res_inv split: if_splits dest!: I_ice_sends)

lemma I_observer_income [simp]:
  "P w \<Longrightarrow> P (signaling_relay_income_message i w)" "P w \<Longrightarrow> P (signaling_response_income_message i w)"
  by (simp_all add: signaling_relay_income_message_def signaling_response_income_message_def extend_expire_at_def)

lemma I_ice_income:
  assumes "ice_income_message E msg ep w = Inr w'" and "P w"
  shows "P w'"
proof (cases "message_get_param ''ice_agent'' msg")
  case None
  then show ?thesis using assms by (simp add: ice_income_message_def)
next
  case (Some j)
  then obtain m where "ice_message_of_json j = Inr m" using assms(1) by (auto simp: ice_income_message_def res_inv)
  then show ?thesis
    using assms Some
    by (cases "ice_get_protocol m")
      (auto simp: ice_income_message_def res_inv neq_Nil_conv split: list.splits
        dest: I_signaling_income I_stun_income I_binding_income I_request_income)
qed

lemma I_binding_request:
  assumes "stun_binding_request E eps k w = Inr (a, w')" and "P w"
  shows "P w'"
proof (cases "binding_targets E (kd_table w) eps k = []")
  case True
  then show ?thesis using assms by (auto simp: stun_binding_request_def Let_def sr_alloc_def)
next
  case False
  define w1 where "w1 = w\<lparr>iw_srs := iw_srs w @ [sr_new]\<rparr>"
  obtain n where n: "snd (base_observer_new E ''stun_observer:binding_request'' w1) = w1\<lparr>w_uuids := n\<rparr>"
    using base_observer_new_world by blast
  obtain obs0 w2 where 2: "binding_request_new E w1 = (obs0, w2)" by fastforce
  obtain obs w3 where 3: "binding_request_init (length (iw_srs w)) obs0 w2 = (obs, w3)" by fastforce
  have w2: "w2 = w1\<lparr>w_uuids := n\<rparr>" using 2 n by (auto simp: binding_request_new_def Let_def split: prod.splits)
  have "P w1" using assms(2) by (simp add: w1_def)
  then have "P w3" using 3 w2 by (auto simp: binding_request_init_def Let_def)
  moreover have "br_sr obs < length (iw_srs w3)" using 3 w2
    by (auto simp: binding_request_init_def Let_def w1_def modify_sr_def timer_set_def timer_cancel_def)
  ultimately have add: "P (add_binding obs w3)" by (simp add: add_binding_def)
  have fold: "P v'" if "fold_res (\<lambda>itr v. map_res (modify_binding i (add_requested_ep itr))
      (ice_async_ice_send E itr m v)) ns v = Inr v'" "P v" for i m ns v v'
    using that by (rule I_fold) (auto simp: res_inv add_requested_ep_def dest: I_ice_sends)
  show ?thesis
    using assms(1) False add 2 3
    by (auto simp: stun_binding_request_def Let_def res_inv sr_alloc_def simp flip: w1_def dest!: fold)
qed

lemma I_ice_refresh [simp]: "P w \<Longrightarrow> P (ice_refresh_tick w)"
proof -
  have cancel: "P v \<Longrightarrow> P (fold (\<lambda>obs. timer_cancel (T_binding_timeout (bo_id obs))) xs v)" for xs :: "binding_request list" and v
    by (induction xs arbitrary: v) auto
  assume "P w"
  then have "P (w\<lparr>iw_requests := os_delete_expires (w_now w) (iw_requests w)\<rparr>)" (is "P ?a") by simp
  then have "P (?a\<lparr>iw_responses := os_delete_expires (w_now w) (iw_responses ?a)\<rparr>)" (is "P ?b") by (rule I_expire)
  then have "P (?b\<lparr>iw_relays := os_delete_expires (w_now w) (iw_relays ?b)\<rparr>)" (is "P ?c") by (rule I_expire)
  then have "P (?c\<lparr>iw_bindings := os_delete_expires (w_now w) (iw_bindings ?c)\<rparr>)" by (rule I_expire)
  then show "P (ice_refresh_tick w)" by (simp add: ice_refresh_tick_def erase_bindings_def cancel)
qed

lemma I_ice_task: "ice_task E t w = Inr w' \<Longrightarrow> P w \<Longrightarrow> P w'"
  by (auto simp: ice_task_def binding_on_timeout_def on_traversal_done_def Let_def res_inv split: task.splits if_splits)

end

text \<open>\<open>ice_frame\<close>: a predicate that does not depend on the layer's parts at all.\<close>

locale ice_frame =
  fixes P :: "'w ice_world_scheme \<Rightarrow> bool"
  assumes P_uuids: "P (w\<lparr>w_uuids := n\<rparr>) = P w" and P_net: "P (w\<lparr>w_net := ns\<rparr>) = P w"
    and P_queue: "P (w\<lparr>w_queue := q\<rparr>) = P w" and P_timers: "P (w\<lparr>w_timers := ts\<rparr>) = P w"
    and P_glob: "P (w\<lparr>iw_glob_self_ep := ep\<rparr>) = P w" and P_requests: "P (w\<lparr>iw_requests := qs\<rparr>) = P w"
    and P_responses: "P (w\<lparr>iw_responses := rs\<rparr>) = P w" and P_relays: "P (w\<lparr>iw_relays := ls\<rparr>) = P w"
    and P_bindings: "P (w\<lparr>iw_bindings := bs\<rparr>) = P w" and P_srs: "P (w\<lparr>iw_srs := ss\<rparr>) = P w"
begin

lemmas P_fields =
  P_uuids P_net P_queue P_timers P_glob P_requests P_responses P_relays P_bindings P_srs

end

text \<open>Such a predicate is kept, and so is its negation.\<close>

sublocale ice_frame \<subseteq> holds: ice_keeps P
  by unfold_locales (simp_all add: P_fields)

sublocale ice_frame \<subseteq> fails: ice_keeps "\<lambda>w. \<not> P w"
  by unfold_locales (simp_all add: P_fields)

context ice_frame
begin

lemma P_io [simp]:
  "P (io_post t w) = P w" "P (timer_cancel t w) = P w" "P (timer_set t s w) = P w" "P (socket_send d b w) = P w"
  "P (modify_sr a f w) = P w"
  by (simp_all add: io_post_def timer_cancel_def timer_set_def socket_send_def modify_sr_def Let_def P_fields)

lemma P_signaling_send: "signaling_send E d p x w = Inr w' \<Longrightarrow> P w' = P w"
  using holds.I_signaling_send fails.I_signaling_send by blast

lemma P_binding_request: "stun_binding_request E eps k w = Inr (a, w') \<Longrightarrow> P w' = P w"
  using holds.I_binding_request fails.I_binding_request by blast

lemma P_ice_income: "ice_income_message E msg ep w = Inr w' \<Longrightarrow> P w' = P w"
  using holds.I_ice_income fails.I_ice_income by blast

lemma P_ice_task: "ice_task E t w = Inr w' \<Longrightarrow> P w' = P w"
  using holds.I_ice_task fails.I_ice_task by blast

lemma P_ice_new: "P (ice_agent_new ep w) = P w" "P (ice_update_global_self_endpoint ep w) = P w"
proof -
  have "P (timer_set t s v) = P v" for t s v using holds.I_io(3) fails.I_io(3) by blast
  then show "P (ice_agent_new ep w) = P w" by (simp add: ice_agent_new_def ice_call_tick_def P_fields)
  show "P (ice_update_global_self_endpoint ep w) = P w" by (simp add: ice_update_global_self_endpoint_def P_fields)
qed

end

section \<open>The Kademlia layer\<close>

text \<open>
  \<open>kad_keeps\<close>: a predicate that the changes the layer makes to its parts of the world keep, the changes of
  the table being the three that its handlers make, is kept by every operation of the layer.
\<close>

locale kad_keeps =
  fixes P :: "'w kad_world_scheme \<Rightarrow> bool" and send :: "'w kad_world_scheme send_function" and E :: ext
  assumes K_uuids: "P w \<Longrightarrow> P (w\<lparr>w_uuids := n\<rparr>)" and K_net: "P w \<Longrightarrow> P (w\<lparr>w_net := ns\<rparr>)"
    and K_queue: "P w \<Longrightarrow> P (w\<lparr>w_queue := q\<rparr>)" and K_timers: "P w \<Longrightarrow> P (w\<lparr>w_timers := ts\<rparr>)"
    and K_self_ep: "P w \<Longrightarrow> P (w\<lparr>kd_self_ep := ep\<rparr>)" and K_self_id: "P w \<Longrightarrow> P (w\<lparr>kd_self_id := i\<rparr>)"
    and K_auto: "P w \<Longrightarrow> P (w\<lparr>kd_table := drt_auto_update E ep (kd_table w)\<rparr>)"
    and K_move: "P w \<Longrightarrow> P (w\<lparr>kd_table := rt_modify j (bucket_move_back kn) (kd_table w)\<rparr>)"
    and K_delete: "P w \<Longrightarrow> P (w\<lparr>kd_table := rt_modify j (bucket_delete_node kn) (kd_table w)\<rparr>)"
    and K_pings: "P w \<Longrightarrow> P (w\<lparr>kd_pings := pgs\<rparr>)" and K_finds: "P w \<Longrightarrow> P (w\<lparr>kd_finds := fns\<rparr>)"
    and K_tick: "P w \<Longrightarrow> P (w\<lparr>kd_requires_tick := b\<rparr>)"
    and K_send: "send d p x w = Inr w' \<Longrightarrow> P w \<Longrightarrow> P w'"
begin

lemmas K_fields [simp] =
  K_uuids K_net K_queue K_timers K_self_ep K_self_id K_auto K_move K_delete K_pings K_finds K_tick

lemma K_io [simp]:
  "P w \<Longrightarrow> P (io_post t w)" "P w \<Longrightarrow> P (timer_cancel t w)" "P w \<Longrightarrow> P (timer_set t s w)"
  "P w \<Longrightarrow> P (socket_send d b w)"
  by (simp_all add: io_post_def timer_cancel_def timer_set_def socket_send_def Let_def)

lemma K_ops [simp]:
  "P w \<Longrightarrow> P (modify_ping i f w)" "P w \<Longrightarrow> P (modify_find i g w)" "P w \<Longrightarrow> P (add_ping p w)"
  "P w \<Longrightarrow> P (add_find q w)" "P w \<Longrightarrow> P (snd (base_observer_new F t w))"
  "P w \<Longrightarrow> P (maintainer_timer_set k s w)" "P w \<Longrightarrow> P (kad_call_tick w)" "P w \<Longrightarrow> P (maintainer_tick_done w)"
  using base_observer_new_world [of F t w]
  by (auto simp: modify_ping_def modify_find_def add_ping_def add_find_def maintainer_timer_set_def
      kad_call_tick_def maintainer_tick_done_def Let_def)

lemma K_fold: "fold_res f xs w = Inr w' \<Longrightarrow> P w \<Longrightarrow> (\<And>x v v'. f x v = Inr v' \<Longrightarrow> P v \<Longrightarrow> P v') \<Longrightarrow> P w'"
  by (rule fold_res_invariant [where P = P])

lemma K_plain: "sender_async_send F d p x w = Inr w' \<Longrightarrow> P w \<Longrightarrow> P w'"
  by (auto dest: sender_async_send_frame)

lemma K_posts [simp]: "P w \<Longrightarrow> P (fold (\<lambda>itr. io_post (f itr)) xs w)"
  by (induction xs arbitrary: w) auto

lemma K_requests:
  "ping_request F send ep ph th w = Inr w' \<Longrightarrow> P w \<Longrightarrow> P w'"
  "find_node_request F send ep ign h w = Inr w' \<Longrightarrow> P w \<Longrightarrow> P w'"
  by (auto simp: ping_request_eq find_node_request_eq Let_def dest!: K_send)

lemma K_handler: "run_handler E send h ep w = Inr w' \<Longrightarrow> P w \<Longrightarrow> P w'"
  by (auto simp: run_handler_def dest: K_requests split: k_handler.splits)

lemma K_calls:
  "call_pong_handler E send i w = Inr w' \<Longrightarrow> P w \<Longrightarrow> P w'"
  "call_timeout_handler E send i w = Inr w' \<Longrightarrow> P w \<Longrightarrow> P w'"
  "call_find_handler E send i ep w = Inr w' \<Longrightarrow> P w \<Longrightarrow> P w'"
  by (auto simp: call_pong_handler_def call_timeout_handler_def call_find_handler_def res_inv dest: K_handler)

lemma K_observers:
  "ping_timeout i w = Inr w' \<Longrightarrow> P w \<Longrightarrow> P w'"
  "ping_income_message i w = Inr w' \<Longrightarrow> P w \<Longrightarrow> P w'"
  "find_node_income_message E i m w = Inr w' \<Longrightarrow> P w \<Longrightarrow> P w'"
  by (auto simp: ping_timeout_def ping_income_message_def find_node_income_message_def res_inv Let_def
      split: if_splits option.splits)

lemma K_batch: "P w \<Longrightarrow> P (w\<lparr>kd_table := drt_auto_update_batch E eps (kd_table w)\<rparr>)"
proof (induction eps arbitrary: w)
  case (Cons ep eps)
  then show ?case using Cons.IH [OF K_auto [of w ep]] by (simp add: drt_auto_update_batch_def drt_auto_update_def)
qed (simp add: drt_auto_update_batch_def)

lemma K_responses:
  "ping_response E k ep w = Inr w' \<Longrightarrow> P w \<Longrightarrow> P w'"
  "find_node_response E k ep w = Inr w' \<Longrightarrow> P w \<Longrightarrow> P w'"
  by (auto simp: ping_response_def find_node_response_def res_inv Let_def dest!: K_plain intro: K_batch)

lemma K_rpc: "rpc_income_message E m ep w = Inr w' \<Longrightarrow> P w \<Longrightarrow> P w'"
  by (auto simp: rpc_income_message_def income_request_def income_response_def res_inv Let_def
      dest: K_responses split: option.splits k_message_type.splits k_rpc.splits)
    (meson k_rpc.exhaust k_message_type.exhaust)+

lemma K_income:
  assumes "dht_income_message E m ep w = Inr w'" and "P w"
  shows "P w'"
proof (cases "message_get_param ''kademlia'' m")
  case None
  then show ?thesis using assms by (simp add: dht_income_message_def)
next
  case (Some k)
  then obtain rpc where "k_get_rpc (k_message_of_json k) = Inr rpc"
    using assms by (auto simp: dht_income_message_def Let_def bind_res_Inr)
  then show ?thesis
    using assms Some
    by (cases rpc)
      (auto simp: dht_income_message_def res_inv Let_def neq_Nil_conv dest: K_rpc K_observers split: list.splits)
qed

lemma K_refresh [simp]: "P w \<Longrightarrow> P (kad_refresh_tick w)"
proof -
  have "P v \<Longrightarrow> P (fold (\<lambda>obs. timer_cancel (T_ping_timeout (bo_id obs))) xs v)" for xs :: "ping list" and v
    by (induction xs arbitrary: v) auto
  then show "P w \<Longrightarrow> P (kad_refresh_tick w)" by (simp add: kad_refresh_tick_def erase_pings_def Let_def)
qed

lemma K_ping_nodes: "ping_bucket_nodes E send i ns w = Inr w' \<Longrightarrow> P w \<Longrightarrow> P w'"
  unfolding ping_bucket_nodes_def by (erule K_fold) (auto dest: K_requests)

lemma K_loop: "refresh_loop E send it w = Inr w' \<Longrightarrow> P w \<Longrightarrow> P w'"
proof (induction "nat (161 - it_branch it)" arbitrary: it w rule: less_induct)
  case less
  show ?case
  proof (cases "it_is_invalid it")
    case True
    then show ?thesis using less.prems by (simp add: refresh_loop.simps)
  next
    case False
    then obtain ns w1 where ping: "ping_bucket_nodes E send (nat (it_bucket it)) ns w = Inr w1"
      and rest: "refresh_loop E send (snd (it_post_inc it)) w1 = Inr w'"
      using less.prems by (auto simp: refresh_loop.simps [of E send it w] res_inv)
    have "P w1" using ping less.prems(2) by (rule K_ping_nodes)
    then show ?thesis
      using False by (intro less.hyps [OF _ rest]) (auto simp: it_is_invalid_def it_post_inc_def Let_def)
  qed
qed

lemma K_tick':
  "maintainer_tick E send w = Inr w' \<Longrightarrow> P w \<Longrightarrow> P w'" "dht_start E send w = Inr w' \<Longrightarrow> P w \<Longrightarrow> P w'"
  by (auto simp: maintainer_tick_def dht_start_def send_refresh_ping_def res_inv dest: K_loop split: if_splits)

lemma K_get_remote: "get_remote_nodes E send w = Inr w' \<Longrightarrow> P w \<Longrightarrow> P w'"
  by (auto simp: get_remote_nodes_def res_inv Let_def split: if_splits dest!: K_fold dest: K_requests)

lemma K_task: "kad_task E send t w = Inr w' \<Longrightarrow> P w \<Longrightarrow> P w'"
  unfolding kad_task_def by (cases t) (auto dest: K_observers K_calls K_get_remote K_tick')

end

text \<open>\<open>kad_frame\<close>: a predicate that does not depend on the layer's parts at all, whatever the table becomes.\<close>

locale kad_frame =
  fixes P :: "'w kad_world_scheme \<Rightarrow> bool" and send :: "'w kad_world_scheme send_function"
  assumes F_uuids: "P (w\<lparr>w_uuids := n\<rparr>) = P w" and F_net: "P (w\<lparr>w_net := ns\<rparr>) = P w"
    and F_queue: "P (w\<lparr>w_queue := q\<rparr>) = P w" and F_timers: "P (w\<lparr>w_timers := ts\<rparr>) = P w"
    and F_self_ep: "P (w\<lparr>kd_self_ep := ep\<rparr>) = P w" and F_self_id: "P (w\<lparr>kd_self_id := i\<rparr>) = P w"
    and F_table: "P (w\<lparr>kd_table := rt\<rparr>) = P w" and F_pings: "P (w\<lparr>kd_pings := pgs\<rparr>) = P w"
    and F_finds: "P (w\<lparr>kd_finds := fns\<rparr>) = P w" and F_tick: "P (w\<lparr>kd_requires_tick := b\<rparr>) = P w"
    and F_send: "send d p x w = Inr w' \<Longrightarrow> P w' = P w"
begin

lemmas F_fields =
  F_uuids F_net F_queue F_timers F_self_ep F_self_id F_table F_pings F_finds F_tick

end

text \<open>Such a predicate is kept, and so is its negation.\<close>

sublocale kad_frame \<subseteq> holds: kad_keeps P send E for E
  by unfold_locales (simp_all add: F_fields, simp add: F_send)

sublocale kad_frame \<subseteq> fails: kad_keeps "\<lambda>w. \<not> P w" send E for E
  by unfold_locales (simp_all add: F_fields, simp add: F_send)

context kad_frame
begin

lemma F_new: "P (dht_manager_new E ep w) = P w"
proof -
  have tick: "P (kad_call_tick v) = P v" for v using holds.K_ops(7) fails.K_ops(7) by blast
  show ?thesis by (simp add: dht_manager_new_def tick F_fields)
qed

lemma F_start: "dht_start E send w = Inr w' \<Longrightarrow> P w' = P w"
  using holds.K_tick'(2) fails.K_tick'(2) by blast

end

end
