(* ===== verification/SS_NodeInvariant.thy ===== *)
theory SS_NodeInvariant
  imports SS_Frame
begin

text \<open>
  The invariant of a whole node: the routing table is well formed and its nodes carry the identifiers of
  their endpoints, the observers of each storage are known by distinct identifiers and their handlers name
  the right buckets, the reserved object of every binding request exists, and the buffers of the pool belong
  to distinct peers and are sorted by arrival. Every operation of every layer keeps it, so it holds in every
  state a node can reach.
\<close>

section \<open>The frames\<close>

interpretation ice_pool: ice_frame "pool_inv E" for E
  by unfold_locales (simp_all add: pool_inv_def)

interpretation kad_pool: kad_frame "pool_inv E" "signaling_send F" for E F
  by unfold_locales (erule ice_pool.P_signaling_send | simp add: pool_inv_def)+

text \<open>Every node of the table keeps carrying the identifier of its endpoint.\<close>

lemma rt_modify_nodes:
  assumes "\<And>b. set (f b) \<subseteq> N \<union> set b"
  shows "rt_nodes (rt_modify i f rt) \<subseteq> N \<union> rt_nodes rt"
proof (cases "i < length (rt_table rt)")
  case True
  have "set (rt_table (rt_modify i f rt)) \<subseteq> insert (f (rt_table rt ! i)) (set (rt_table rt))"
    unfolding rt_modify_def by (simp add: set_update_subset_insert)
  moreover have "set (f (rt_table rt ! i)) \<subseteq> N \<union> rt_nodes rt"
    using assms [of "rt_table rt ! i"] nth_mem [OF True] unfolding rt_nodes_def by blast
  ultimately show ?thesis unfolding rt_nodes_def by blast
qed (simp add: rt_modify_def rt_nodes_def list_update_beyond)

lemma rt_named_modify:
  assumes "rt_named E rt" and "\<And>b. set (f b) \<subseteq> {k_node_of E ep} \<union> set b"
  shows "rt_named E (rt_modify i f rt)"
proof -
  have "rt_nodes (rt_modify i f rt) \<subseteq> {k_node_of E ep} \<union> rt_nodes rt" using assms(2) by (rule rt_modify_nodes)
  then show ?thesis using assms(1) by (auto simp: rt_named_def)
qed

interpretation ice_named: ice_frame "\<lambda>w. rt_named E (kd_table w)" for E
  by unfold_locales simp_all

interpretation kad_named: kad_keeps "\<lambda>w. rt_named E (kd_table w)" "signaling_send F" E for E F
proof
  fix w :: "'a ice_world_scheme" and ep :: endpoint and j :: nat and kn :: k_node
  assume named: "rt_named E (kd_table w)"
  have "set (snd (bucket_auto_update (k_node_of E ep) b)) \<subseteq> {k_node_of E ep} \<union> set b" for b
    by (auto simp: bucket_auto_update_def add_back_eq)
  then show "rt_named E (kd_table (w\<lparr>kd_table := drt_auto_update E ep (kd_table w)\<rparr>))"
    using rt_named_modify [OF named, of _ ep] by (simp add: drt_auto_update_def rt_auto_update_snd)
  show "rt_named E (kd_table (w\<lparr>kd_table := rt_modify j (bucket_move_back kn) (kd_table w)\<rparr>))"
    by simp (rule rt_named_modify [OF named], auto)
  show "rt_named E (kd_table (w\<lparr>kd_table := rt_modify j (bucket_delete_node kn) (kd_table w)\<rparr>))"
    by simp (rule rt_named_modify [OF named],
        auto simp: bucket_delete_node_def dest: subsetD [OF set_erase_first_subset] split: option.splits)
qed (auto dest: ice_named.P_signaling_send)

text \<open>
  The storages of the ICE agent: each observer has an identifier of its own, and the reserved object of a
  binding request exists.
\<close>

definition ice_inv :: "'a ice_world_scheme \<Rightarrow> bool" where
  "ice_inv w \<longleftrightarrow> os_unique (iw_requests w) \<and> os_unique (iw_responses w) \<and> os_unique (iw_relays w) \<and>
     os_unique (iw_bindings w) \<and> (\<forall>b \<in> set (iw_bindings w). br_sr b < length (iw_srs w))"

lemma set_os_add: "set (snd (os_add obs e)) \<subseteq> insert obs (set e)"
  by (auto simp: os_add_def)

interpretation ice_own: ice_keeps ice_inv
  by unfold_locales
    (auto simp: ice_inv_def set_os_modify os_delete_expires_filter dest: subsetD [OF set_os_add]
      intro: os_modify_unique os_add_unique os_filter_unique less_SucI split: if_splits)

interpretation kad_ice: kad_keeps ice_inv "signaling_send F" E for E F
  by unfold_locales (erule ice_own.I_signaling_send, assumption | simp add: ice_inv_def)+

definition node_inv :: "ext \<Rightarrow> 'a pool_world_scheme \<Rightarrow> bool" where
  "node_inv E w \<longleftrightarrow> kad_inv w \<and> pool_inv E w \<and> rt_named E (kd_table w) \<and> ice_inv w"

interpretation ice_kad: ice_frame kad_inv
  by unfold_locales (simp_all add: kad_inv_def)

interpretation ice_node: ice_keeps "node_inv E" for E
  by unfold_locales (auto simp: node_inv_def ice_pool.P_fields ice_named.P_fields ice_kad.P_fields)


lemma node_fields_inv [simp]:
  "node_inv E (w\<lparr>us_src_ep := a\<rparr>) = node_inv E w" "node_inv E (w\<lparr>us_listening := b\<rparr>) = node_inv E w"
  "node_inv E (w\<lparr>us_open := b\<rparr>) = node_inv E w"
  "node_inv E (w\<lparr>nc_glob_self_ep := a\<rparr>) = node_inv E w" "node_inv E (w\<lparr>nc_stopped := b\<rparr>) = node_inv E w"
  "node_inv E (w\<lparr>w_queue := q\<rparr>) = node_inv E w" "node_inv E (w\<lparr>w_timers := ts\<rparr>) = node_inv E w"
  "node_inv E (w\<lparr>hub_active := b\<rparr>) = node_inv E w" "node_inv E (w\<lparr>mp_requires_refresh := b\<rparr>) = node_inv E w"
  "node_inv E (w\<lparr>kd_requires_tick := b\<rparr>) = node_inv E w"
  by (simp_all add: node_inv_def kad_inv_def pool_inv_def ice_inv_def)

lemma node_io_inv [simp]:
  "node_inv E (io_post t w) = node_inv E w" "node_inv E (timer_set t s w) = node_inv E w"
  "node_inv E (listen_stdin_line input w) = node_inv E w" "node_inv E (call_node_tick s w) = node_inv E w"
  "node_inv E (pool_requires_refresh b w) = node_inv E w"
  by (simp_all add: node_inv_def listen_stdin_line_def call_node_tick_def pool_requires_refresh_def
      pool_call_refresh_tick_def kad_inv_def pool_inv_def ice_inv_def io_post_def timer_set_def timer_cancel_def Let_def)

lemma udp_inv [simp]:
  "node_inv E (udp_call_receiver w) = node_inv E w" "node_inv E (snd (udp_start w)) = node_inv E w"
  "node_inv E (udp_call_income_message_handler r w) = node_inv E w" "node_inv E (udp_arrival raw src w) = node_inv E w"
  "node_inv E (udp_stop w) = node_inv E w"
  by (simp_all add: udp_call_receiver_def udp_start_def udp_call_income_message_handler_def udp_arrival_def
      udp_stop_def split: option.splits)

lemma node_stop_inv [simp]: "node_inv E (node_stop w) = node_inv E w"
  by (simp add: node_stop_def dht_stop_def)

lemma node_clock_inv: "node_inv E w \<Longrightarrow> w_now w \<le> n \<Longrightarrow> node_inv E (w\<lparr>w_now := n\<rparr>)"
  by (auto simp: node_inv_def pool_inv_def ice_inv_def intro: buffer_ok_mono)

lemma node_new_inv: "node_inv E (node_controller_new E self_ep w)"
proof -
  have "pool_inv E (message_pool_new True v)" for v :: "'a node_world_scheme"
    by (simp add: message_pool_new_def pool_inv_def)
  then show ?thesis
    unfolding node_controller_new_def Let_def
    by (simp add: node_inv_def ice_kad.P_ice_new ice_pool.P_ice_new ice_named.P_ice_new dht_manager_new_inv kad_pool.F_new)
      (simp add: ice_inv_def ice_agent_new_def ice_call_tick_def timer_set_def timer_cancel_def dht_manager_new_def kad_call_tick_def rt_named_def rt_nodes_def rt_new_def bucket_empty_def)
qed

section \<open>Every operation keeps the invariant\<close>

lemma pool_store_inv [wf_ops]:
  assumes "message_pool_store E to_peer msg ep w = Inr w'" and "node_inv E w"
  shows "node_inv E w'"
proof -
  have "kad_same w (pool_after_push E msg ep w)"
    by (simp add: kad_same_def pool_after_push_def pool_modify_def)
  then have k: "kad_inv (pool_after_push E msg ep w)" using assms(2) kad_inv_same by (auto simp: node_inv_def)
  then have "kad_inv (hub_on_receive_message to_peer r ep (pool_after_push E msg ep w))" for r
    by (simp add: hub_on_receive_message_def kad_inv_def split: option.splits)
  moreover have "kd_table (pool_after_push E msg ep w) = kd_table w" "ice_inv (pool_after_push E msg ep w) = ice_inv w"
    "kd_table (hub_on_receive_message to_peer r ep v) = kd_table v"
    "ice_inv (hub_on_receive_message to_peer r ep v) = ice_inv v" for r and v :: "'a pool_world_scheme"
    by (simp_all add: pool_after_push_def pool_modify_def hub_on_receive_message_def ice_inv_def split: option.splits)
  ultimately show ?thesis
    using assms k by (auto simp: store_eq Let_def node_inv_def pool_after_push_inv split: if_splits)
qed

lemma pool_refresh_inv [wf_ops]:
  assumes "node_inv E w"
  shows "node_inv E (pool_refresh_tick w)"
proof -
  have "pool_inv E (w\<lparr>mp_pool := map (drop_expired (w_now w)) (mp_pool w)\<rparr>)"
    using assms by (auto simp: node_inv_def pool_inv_def comp_def drop_expired_ok)
  moreover have "kad_inv (w\<lparr>mp_pool := map (drop_expired (w_now w)) (mp_pool w)\<rparr>)"
    using assms by (simp add: node_inv_def kad_inv_def)
  ultimately have "node_inv E (w\<lparr>mp_pool := map (drop_expired (w_now w)) (mp_pool w)\<rparr>)"
    using assms by (simp add: node_inv_def ice_inv_def)
  then show ?thesis by (simp add: pool_refresh_tick_def pool_call_refresh_tick_def Let_def)
qed

lemma request_global_inv [wf_ops]: "request_global_endpoint F eps w = Inr w' \<Longrightarrow> node_inv E w \<Longrightarrow> node_inv E w'"
  by (auto simp: request_global_endpoint_def res_inv dest: ice_node.I_binding_request)

lemma dht_income_node_inv [wf_ops]: "dht_income_message E m ep w = Inr w' \<Longrightarrow> node_inv E w \<Longrightarrow> node_inv E w'"
  by (auto simp: node_inv_def dest: dht_income_inv kad_pool.holds.K_income kad_named.K_income kad_ice.K_income)

lemma kad_task_node_inv [wf_ops]: "kad_task E (signaling_send E) t w = Inr w' \<Longrightarrow> node_inv E w \<Longrightarrow> node_inv E w'"
  by (auto simp: node_inv_def dest: sgnl.kad_task_inv kad_pool.holds.K_task kad_named.K_task kad_ice.K_task)

lemma dht_start_node_inv [wf_ops]: "dht_start E (signaling_send E) w = Inr w' \<Longrightarrow> node_inv E w \<Longrightarrow> node_inv E w'"
  by (auto simp: node_inv_def dest: sgnl.dht_start_inv kad_pool.holds.K_tick' kad_named.K_tick' kad_ice.K_tick')

lemma update_global_inv [simp]: "node_inv E (update_global_self_endpoint F ep w) = node_inv E w"
  by (simp add: update_global_self_endpoint_def dht_update_global_self_endpoint_def
      ice_update_global_self_endpoint_def node_inv_def kad_inv_def pool_inv_def ice_inv_def)

lemma node_start_inv [wf_ops]:
  assumes "node_start E eps w = Inr w'" and "node_inv E w"
  shows "node_inv E w'"
proof -
  obtain w2 w3 where w2: "dht_start E (signaling_send E) (snd (udp_start w)) = Inr w2"
    and w3: "request_global_endpoint E eps w2 = Inr w3"
    and w': "w' = call_node_tick 60 (pool_requires_refresh True w3)"
    using assms(1) by (auto simp: node_start_def res_inv split_beta Let_def)
  have "node_inv E w2" using dht_start_node_inv [OF w2] assms(2) by simp
  then show ?thesis using request_global_inv [OF w3] w' by simp
qed

lemma node_tick_inv [wf_ops]: "node_tick F w = Inr w' \<Longrightarrow> node_inv E w \<Longrightarrow> node_inv E w'"
  by (auto simp: node_tick_def res_inv intro: request_global_inv)

lemma peer_send_inv [wf_ops]: "peer_send (signaling_send F) x p w = Inr w' \<Longrightarrow> node_inv E w \<Longrightarrow> node_inv E w'"
  by (auto simp: peer_send_def dest: ice_node.I_signaling_send)

lemma on_command_inv [wf_ops]:
  assumes "on_command_input F inputs w = Inr w'" and "node_inv E w"
  shows "node_inv E w'"
proof -
  have "node_inv E (if c then node_stop w else w)" for c using assms(2) by simp
  then show ?thesis
    using assms by (auto simp: on_command_input_def res_inv Let_def neq_Nil_conv intro: peer_send_inv split: list.splits if_splits)
qed

lemma on_receive_inv [wf_ops]:
  assumes "on_receive_packet E raw ep w = Inr w'" and "node_inv E w"
  shows "node_inv E w'"
proof -
  obtain m w1 where "(if message_is_contain_param ''kademlia'' m then dht_income_message E m ep w else Inr w) = Inr w1"
    and w': "(if message_is_contain_param ''ice_agent'' m then ice_income_message E m ep w1
      else message_pool_store E (get_peer_ref E) m ep w1) = Inr w'"
    using assms(1) by (auto simp: on_receive_packet_def bind_res_Inr)
  then have "node_inv E w1" using assms(2) dht_income_node_inv by (auto split: if_splits)
  then show ?thesis using w' by (auto split: if_splits dest: pool_store_inv ice_node.I_ice_income)
qed

lemma run_sr_inv [wf_ops]: "run_sr_handler F i ep w = Inr w' \<Longrightarrow> node_inv E w \<Longrightarrow> node_inv E w'"
  by (auto simp: run_sr_handler_def res_inv split: option.splits sr_handler.splits)
    (metis sr_handler.exhaust)+

lemma node_task_inv [wf_ops]: "node_task E t w = Inr w' \<Longrightarrow> node_inv E w \<Longrightarrow> node_inv E w'"
  unfolding node_task_def
  by (cases t) (auto intro: on_receive_inv on_command_inv run_sr_inv node_tick_inv kad_task_node_inv pool_refresh_inv
      dest: ice_node.I_ice_task)

lemma run_next_inv [wf_ops]: "run_next E w = Inr w' \<Longrightarrow> node_inv E w \<Longrightarrow> node_inv E w'"
  by (auto simp: run_next_def intro: node_task_inv split: list.splits if_splits)

lemma node_step_inv: "node_step E w w' \<Longrightarrow> node_inv E w \<Longrightarrow> node_inv E w'"
proof (induction rule: node_step.induct)
  case (ns_clock w n)
  then show ?case by (simp add: node_clock_inv)
next
  case (ns_hub w on)
  then show ?case by (simp add: hub_start_def hub_stop_def)
next
  case (ns_sync boot_eps w r w')
  then show ?case by (auto simp: sync_get_global_address_def res_inv dest: ice_node.I_binding_request)
qed (simp_all add: run_next_inv node_start_inv peer_send_inv)

interpretation node: inductive_invariant "node_initial E" "node_step E" "node_inv E" for E
  by unfold_locales (auto simp: node_initial_def node_new_inv intro: node_step_inv)

end
