(* ===== verification/SS_Truncated.thy ===== *)
theory SS_Truncated
  imports SS_Message
begin

text \<open>
  An encoded message cut short inside its last element. When that element is a string and the bytes end
  right before its terminator, \<open>get_bson_string\<close> returns false without a report: the reader stops with
  neither an exception nor a value, and \<open>from_bson\<close> gives a discarded value.
\<close>

section \<open>Reading a list up to a point\<close>

text \<open>The reader has put the entries \<open>es\<close> into the open container and goes on with the rest.\<close>

lemma list_continues:
  "double_ok E \<Longrightarrow> entries_ok E es \<Longrightarrow> write_bson_elements E es = Inr bs \<Longrightarrow> dp_stack d = f # st \<Longrightarrow>
    length (bs @ tail) < n \<Longrightarrow>
    \<exists>n' d'. length tail < n' \<and> dp_root d' = dp_root d \<and> dp_stack d' = put_entries es f # st \<and>
      parse_bson_element_list E n (frame_is_array f) (bs @ tail) d =
      parse_bson_element_list E n' (frame_is_array f) tail d'"
proof (induction es arbitrary: bs d f n)
  case Nil
  then show ?case by (cases f) auto
next
  case (Cons kv es)
  obtain k v where kv: "kv = (k, v)" by fastforce
  have ok: "bson_key_ok k" "bson_ok E v" "entries_ok E es" using Cons.prems(2) by (auto simp: kv entries_ok_def)
  obtain b1 b2 where b: "write_bson_element E k v = Inr b1" "write_bson_elements E es = Inr b2" "bs = b1 @ b2"
    using Cons.prems(3) by (auto simp: kv res_inv)
  obtain t payload where t: "t \<noteq> 0" "b1 = write_bson_entry_header k t @ payload"
    and read: "\<And>n rest d d'. handle_value v d = Inr d' \<Longrightarrow> length (payload @ rest) < n \<Longrightarrow>
      parse_bson_element_internal E (parse_bson_element_list E n) t (payload @ rest) d = Inr (Some (rest, d'))"
    using bson_reads(1) [OF Cons.prems(1) ok(2) b(1)] by (auto simp: element_reads_def)
  obtain n1 where n1: "n = Suc n1" using Cons.prems(5) by (cases n) auto
  obtain d1 d2 where d1: "(if frame_is_array f then Inr d else dom_key k d) = Inr d1" "handle_value v d1 = Inr d2"
    "dp_root d2 = dp_root d" "dp_stack d2 = put_entries [(k, v)] f # st"
    using put_entries_step [OF Cons.prems(4) ok(1)] by blast
  have lengths: "length (payload @ b2 @ tail) < n1" "length (b2 @ tail) < n1"
    using Cons.prems(5) n1 t(2) b(3) by (simp_all add: write_bson_entry_header_def)
  have cstr: "get_bson_cstr (chars_of k @ 0 # r) = Inr (k, r)" for r
    using ok(1) by (simp add: get_bson_cstr_write bson_key_ok_def)
  have fa: "frame_is_array (put_entries [(k, v)] f) = frame_is_array f" by (cases f) (simp_all add: frame_is_array_def)
  obtain n' d' where 1: "length tail < n'" "dp_root d' = dp_root d2"
    "dp_stack d' = put_entries es (put_entries [(k, v)] f) # st"
    "parse_bson_element_list E n1 (frame_is_array f) (b2 @ tail) d2 = parse_bson_element_list E n' (frame_is_array f) tail d'"
    using Cons.IH [OF Cons.prems(1) ok(3) b(2) d1(4) lengths(2)] unfolding fa by blast
  have "parse_bson_element_list E n (frame_is_array f) (bs @ tail) d = parse_bson_element_list E n1 (frame_is_array f) (b2 @ tail) d2"
    using read [OF d1(2) lengths(1)] d1(1) t n1 b(3)
    by (simp add: write_bson_entry_header_def reader_get_def cstr)
  then show ?case using 1 d1(3) put_entries_Cons [of k v es f] kv by metis
qed

lemma write_bson_elements_append:
  "write_bson_elements E (es @ fs) =
     bind_res (write_bson_elements E es) (\<lambda>b1. map_res ((@) b1) (write_bson_elements E fs))"
proof (induction es)
  case Nil
  then show ?case by (cases "write_bson_elements E fs") auto
next
  case (Cons kv es)
  then show ?case
    by (cases kv; cases "write_bson_element E (fst kv) (snd kv)"; cases "write_bson_elements E es"; cases "write_bson_elements E fs") auto
qed

text \<open>The last entry of an object in the order of its keys.\<close>

lemma sorted_list_of_fmap_last:
  assumes "fmlookup m k = Some v" and "\<forall>k'. fmlookup m k' \<noteq> None \<longrightarrow> k' \<le> k"
  obtains es where "sorted_list_of_fmap m = es @ [(k, v)]"
proof -
  let ?ks = "sorted_list_of_fset (fmdom m)"
  have k: "k \<in> set ?ks" using assms(1) by (simp add: fmlookup_dom_iff)
  then have ne: "?ks \<noteq> []" using length_pos_if_in_set by fastforce
  have "sorted ?ks" by (simp add: sorted_list_of_fset.rep_eq)
  then have "sorted (butlast ?ks @ [last ?ks])" using ne by simp
  then have "\<forall>x \<in> set ?ks. x \<le> last ?ks"
    using ne by (metis append_butlast_last_id sorted_append in_set_conv_decomp list.set_intros(1) order_refl
        rotate1.simps(2) set_rotate1 set_ConsD)
  moreover have "last ?ks \<le> k" using assms(2) last_in_set [OF ne] by (simp add: fmlookup_dom_iff)
  ultimately have "last ?ks = k" using k by force
  then have "?ks = butlast ?ks @ [k]" using ne by (metis append_butlast_last_id)
  then have "sorted_list_of_fmap m = map (\<lambda>k. (k, the (fmlookup m k))) (butlast ?ks) @ [(k, v)]"
    unfolding sorted_list_of_fmap_def using assms(1) by (metis (no_types, lifting) list.simps(8,9) map_append option.sel)
  then show thesis by (rule that)
qed

section \<open>The cut\<close>

lemma decode_cut_string:
  assumes "double_ok E" and "bson_ok E (JObj m)" and "message_encode E (JObj m) = Inr bs"
    and "fmlookup m k = Some (JStr s)" and "\<forall>k'. fmlookup m k' \<noteq> None \<longrightarrow> k' \<le> k"
  shows "message_decode E (take (length bs - 2) bs) = Inr JDiscarded"
proof -
  obtain es where es: "sorted_list_of_fmap m = es @ [(k, JStr s)]" using sorted_list_of_fmap_last [OF assms(4,5)] .
  have ok: "entries_ok E es" "bson_key_ok k" "length s + 1 < 2 ^ 31"
    using assms(2) by (simp_all add: bson_ok_object es entries_ok_def)
  let ?tail = "write_bson_entry_header k 2 @ write_number 4 (int (length s + 1)) @ chars_of s"
  from assms(3) obtain c b where c: "write_bson_elements E (sorted_list_of_fmap m) = Inr c"
    "bs = write_number 4 (int b) @ c @ [0]"
    by (auto simp: message_encode_def to_bson_def write_bson_object_def write_document_def res_inv)
  obtain b1 where b1: "write_bson_elements E es = Inr b1" "c = b1 @ ?tail @ [0]"
    using c(1) by (auto simp: es write_bson_elements_append res_inv write_bson_element.simps write_bson_string_def)
  have cut: "take (length bs - 2) bs = write_number 4 (int b) @ b1 @ ?tail"
    by (simp add: c(2) b1(2))
  let ?inp = "write_number 4 (int b) @ b1 @ ?tail" and ?d = "dom_start_object \<lparr>dp_root = JNull, dp_stack = []\<rparr>"
  let ?n = "Suc (length ?inp)"
  obtain v where v: "get_number 4 ?inp = Inr (v, b1 @ ?tail)" using get_number_any by blast
  have st: "dp_stack ?d = F_object fmempty None # []" by (simp add: dom_start_object_def)
  obtain n' d' where 1: "length ?tail < n'" "dp_stack d' = put_entries es (F_object fmempty None) # []"
    "parse_bson_element_list E ?n (frame_is_array (F_object fmempty None)) (b1 @ ?tail) ?d =
      parse_bson_element_list E n' (frame_is_array (F_object fmempty None)) ?tail d'"
    using list_continues [OF assms(1) ok(1) b1(1) st, of ?tail ?n] by auto
  obtain m1 k1 where f: "put_entries es (F_object fmempty None) = F_object m1 k1" using put_entries_object by blast
  obtain d1 where d1: "dom_key k d' = Inr d1" using 1(2) f by (simp add: dom_key_def)
  have cstr: "get_bson_cstr (chars_of k @ 0 # r) = Inr (k, r)" for r
    using ok(2) by (simp add: get_bson_cstr_write bson_key_ok_def)
  obtain n1 where n1: "n' = Suc n1" using 1(1) by (cases n') auto
  have len: "get_number 4 (write_number 4 (int (length s + 1)) @ chars_of s) = Inr (int (length s + 1), chars_of s)"
    using get_number_4 [of "int (length s + 1)" "chars_of s"] ok(3) by simp
  have str: "get_bson_string (int (length s + 1)) (chars_of s) = Inr None"
    using get_bytes_append [of "chars_of s" "length s" "[]"]
    by (simp add: get_bson_string_def get_string_def reader_get_def chars_of_def)
  have "parse_bson_element_list E n' False ?tail d' = Inr None"
    using d1 len str
    by (simp add: n1 write_bson_entry_header_def reader_get_def cstr parse_bson_element_internal_def)
  then have "parse_bson_internal (parse_bson_element_list E ?n) ?inp \<lparr>dp_root = JNull, dp_stack = []\<rparr> = Inr None"
    using 1(3) v by (simp add: parse_bson_internal_def frame_is_array_def del: parse_bson_element_list.simps)
  then show ?thesis
    unfolding cut by (simp add: message_decode_def from_bson_def sax_parse_def message_of_json_def del: parse_bson_element_list.simps)
qed

end
