(* ===== verification/SS_NodeProtocol.thy ===== *)
theory SS_NodeProtocol
  imports SS_NodeInvariant SS_Truncated
begin

text \<open>
  What a whole node does: what holds in every state it can reach, what stopping means, how it learns its
  own endpoint, how a text travels from one node to another, and what the commands of the console do.
\<close>


text \<open>
  C1. In every state a node can reach, whatever datagrams arrive, commands are typed and handlers run,
  in whatever order: the routing table is well formed and every node in it carries the identifier its
  endpoint hashes to; in each of the six storages (pings and searches of the Kademlia layer; signaling
  requests, responses, relays and binding requests of the ICE agent) every observer has an identifier of
  its own; the reserved object of every binding request exists; the pool has one buffer for each peer
  identifier, and the messages of a buffer are sorted by a time of arrival that is not in the future.
\<close>

theorem reachable_invariant:
  assumes "reach (node_initial E) (node_step E) w"
  shows "rt_wf (kd_table w) \<and> rt_named E (kd_table w) \<and> os_unique (kd_pings w) \<and> os_unique (kd_finds w) \<and>
    os_unique (iw_requests w) \<and> os_unique (iw_responses w) \<and> os_unique (iw_relays w) \<and> os_unique (iw_bindings w) \<and>
    (\<forall>b \<in> set (iw_bindings w). br_sr b < length (iw_srs w)) \<and>
    distinct (map (\<lambda>b. calc_peer_id E (pb_ep b)) (mp_pool w)) \<and>
    (\<forall>b \<in> set (mp_pool w). sorted (map rm_time (pb_queue b)) \<and> (\<forall>m \<in> set (pb_queue b). rm_time m \<le> w_now w))"
  using node.inv_reach [OF assms] by (simp add: node_inv_def kad_inv_def ice_inv_def pool_inv_def buffer_ok_def)

section \<open>Stopping\<close>

interpretation ice_stop: ice_frame "\<lambda>w :: node_world. nc_stopped w"
  by unfold_locales simp_all

interpretation kad_stop: kad_frame "\<lambda>w :: node_world. nc_stopped w" "signaling_send F" for F
  by unfold_locales (erule ice_stop.P_signaling_send | simp)+

lemma node_stopped_start:
  assumes "node_start E eps w = Inr w'"
  shows "nc_stopped w' = nc_stopped (w :: node_world)"
proof -
  obtain w2 a w3 where w2: "dht_start E (signaling_send E) (snd (udp_start w)) = Inr w2"
    and w3: "stun_binding_request E eps 3 w2 = Inr (a, w3)"
    and w': "w' = call_node_tick 60 (pool_requires_refresh True (modify_sr a (sr_async_get SR_update_global_self_endpoint) w3))"
    using assms by (auto simp: node_start_def request_global_endpoint_def res_inv split_beta Let_def)
  have "nc_stopped (snd (udp_start w)) = nc_stopped w" by (simp add: udp_start_def udp_call_receiver_def)
  then show ?thesis
    using kad_stop.F_start [OF w2] ice_stop.P_binding_request [OF w3]
    by (simp add: w' call_node_tick_def pool_requires_refresh_def pool_call_refresh_tick_def)
qed

lemma node_step_stopped: "node_step E w w' \<Longrightarrow> nc_stopped w \<Longrightarrow> nc_stopped w'"
proof (induction rule: node_step.induct)
  case (ns_packet w raw src)
  then show ?case by (simp add: udp_arrival_def udp_call_income_message_handler_def udp_call_receiver_def io_post_def)
next
  case (ns_command w input)
  then show ?case by (simp add: listen_stdin_line_def)
next
  case (ns_start boot_eps w w')
  then show ?case by (simp add: node_stopped_start)
next
  case (ns_stop w)
  then show ?case by (simp add: node_stop_def dht_stop_def pool_requires_refresh_def)
next
  case (ns_send payload p w w')
  then show ?case by (simp add: peer_send_def ice_stop.P_signaling_send)
next
  case (ns_hub w on)
  then show ?case by (simp add: hub_start_def hub_stop_def)
next
  case (ns_sync boot_eps w r w')
  then show ?case by (auto simp: sync_get_global_address_def res_inv dest: ice_stop.P_binding_request)
qed (simp_all add: run_next_def)

interpretation stopped: inductive_invariant "\<lambda>v. v = node_stop w" "node_step E" nc_stopped for E w
  by unfold_locales (auto simp: node_stop_def dht_stop_def pool_requires_refresh_def intro: node_step_stopped)

text \<open>
  C21. Stopping is final: whatever happens after \<open>stop\<close>, a new \<open>start\<close> included, no handler runs any
  more, since nothing restarts the \<open>io_context\<close>: the queue is not served and the timers have no effect.
\<close>

theorem stop_is_final:
  assumes "reach (\<lambda>v. v = node_stop w) (node_step E) v"
  shows "run_next E v = Inr v"
  using stopped.inv_reach [OF assms] by (simp add: run_next_def)

section \<open>The global endpoint\<close>

text \<open>
  C27. When the reserved object of a binding request calls its handler with an endpoint, the three endpoint
  objects of the node take it (its global endpoint; the one the ICE agent refers to; and its own endpoint,
  which the DHT manager refers to and overwrites), and the identifier of the node becomes the one of the
  new endpoint. Nothing else changes. So the routing table does not follow: it goes on sorting nodes by
  their distance to the identifier it was built with. Without an endpoint nothing changes at all.
\<close>

theorem global_endpoint_learned:
  assumes "os_deref i (iw_bindings w) = Inr obs"
    and "sr_handler (iw_srs w ! br_sr obs) = Some SR_update_global_self_endpoint"
  shows "run_sr_handler E i None w = Inr w \<and>
    run_sr_handler E i (Some e) w = Inr (w\<lparr>nc_glob_self_ep := e, iw_glob_self_ep := e, kd_self_ep := e,
      kd_self_id := calc_node_id E e\<rparr>)"
  using assms
  by (simp add: run_sr_handler_def update_global_self_endpoint_def dht_update_global_self_endpoint_def
      ice_update_global_self_endpoint_def)

section \<open>Datagrams\<close>

text \<open>What one datagram makes the event loop do when it is idle.\<close>

lemma run_next_arrival:
  assumes "w_queue w = []" and "\<not> nc_stopped w"
  shows "run_next E (udp_arrival raw src w) = on_receive_packet E raw src (w\<lparr>us_src_ep := src, us_listening := True, w_queue := []\<rparr>)"
  using assms
  by (simp add: run_next_def udp_arrival_def udp_call_income_message_handler_def udp_call_receiver_def io_post_def node_task_def)

lemma on_receive_plain:
  assumes "message_decode E raw = Inr m" and "\<not> message_is_contain_param ''kademlia'' m" and "\<not> message_is_contain_param ''ice_agent'' m"
  shows "on_receive_packet E raw ep w = message_pool_store E (get_peer_ref E) m ep w"
  using assms by (simp add: on_receive_packet_def)

text \<open>A text that arrives at an idle node with an active hub.\<close>

lemma text_received:
  assumes "w_queue wb = []" and "\<not> nc_stopped wb" and "hub_active wb"
    and "bson_rt E (payload_body i ''messenger'' (JStr content))" and "d = datagram E i ''messenger'' (JStr content)"
  shows "\<exists>wb' p m rm. run_next E (udp_arrival d ea wb) = Inr wb' \<and> hub_log wb' = hub_log wb @ [(p, m)] \<and> pe_ep p = ea \<and>
    sm_src_endpoint m = ea \<and> sm_timestamp m = w_now wb \<and> ss_message_get ''messenger'' m = Inr (JStr content) \<and>
    pool_messages E wb' (calc_peer_id E ea) = pool_messages E wb (calc_peer_id E ea) @ [rm] \<and> rm_msg rm = sm_body m"
proof -
  let ?body = "payload_body i ''messenger'' (JStr content)"
  let ?w = "wb\<lparr>us_src_ep := ea, us_listening := True, w_queue := []\<rparr>"
  let ?w3 = "pool_after_push E ?body ea ?w" and ?rm = "stored_message E ?body ?w"
  let ?wb' = "hub_on_receive_message (get_peer_ref E) (Some ?rm) ea ?w3"
  have "on_receive_packet E d ea ?w = message_pool_store E (get_peer_ref E) ?body ea ?w"
    using assms(4,5) by (intro on_receive_plain) (simp_all add: datagram_decode payload_body_other)
  then have run: "run_next E (udp_arrival d ea wb) = Inr ?wb'"
    using assms(1-3) by (simp add: run_next_arrival store_eq Let_def)
  have msgs: "pool_messages E ?w = pool_messages E wb" by (simp add: fun_eq_iff pool_messages_def)
  have ep: "pe_ep (get_peer_ref E ea ?w3) = ea" by (simp add: get_peer_ref_def peer_new_def)
  have get: "ss_message_get ''messenger'' (ss_message_new ?rm ea) = Inr (JStr content)"
    by (simp add: ss_message_get_def ss_message_new_def stored_message_def payload_body_def)
  show ?thesis
    by (intro exI [of _ ?wb'] exI [of _ "get_peer_ref E ea ?w3"] exI [of _ "ss_message_new ?rm ea"] exI [of _ ?rm])
      (simp add: run get ep pool_after_push_messages msgs, simp add: hub_on_receive_message_def ss_message_new_def
        stored_message_def)
qed

text \<open>
  C2. Delivery. A node that knows the endpoint of another sends it a text through a peer: one datagram
  goes out, and when it arrives at the other, whose event loop is idle and whose hub is active, the hub's
  handler is called with the peer of the sender and a message whose field \<open>messenger\<close> is the text, and the
  message is the last one in the buffer of the sender.
\<close>

theorem message_delivery:
  assumes "drt_is_exist E (kd_table wa) eb" and "length content + 1 < 2 ^ 31"
    and "w_queue wb = []" and "\<not> nc_stopped wb" and "hub_active wb" and "double_ok E"
  shows "\<exists>d wa' wb' p m rm. peer_send (signaling_send E) content (get_peer_ref E eb wa) wa = Inr wa' \<and>
    w_net wa' = w_net wa @ [(eb, d)] \<and>
    run_next E (udp_arrival d ea wb) = Inr wb' \<and> hub_log wb' = hub_log wb @ [(p, m)] \<and> pe_ep p = ea \<and>
    sm_src_endpoint m = ea \<and> sm_timestamp m = w_now wb \<and> ss_message_get ''messenger'' m = Inr (JStr content) \<and>
    pool_messages E wb' (calc_peer_id E ea) = pool_messages E wb (calc_peer_id E ea) @ [rm] \<and> rm_msg rm = sm_body m"
proof -
  let ?d = "datagram E (w_app_id wa) ''messenger'' (JStr content)"
  have rt: "bson_rt E (payload_body (w_app_id wa) ''messenger'' (JStr content))"
    using assms(2,6) by (intro payload_rt) (simp_all add: bson_key_ok_def)
  have send: "peer_send (signaling_send E) content (get_peer_ref E eb wa) wa = Inr (socket_send eb ?d wa)"
    using assms(1) rt by (simp add: peer_send_def get_peer_ref_def peer_new_def signaling_send_def sender_async_send_ok)
  show ?thesis using send text_received [OF assms(3-5) rt refl, of ea] by fastforce
qed

text \<open>
  C26. The endpoint of the sender is kept in one variable of the server, which the next datagram
  overwrites. When a second datagram, whatever it is, arrives before the handler of a first one that is a
  plain message runs, the first is stored under the identifier of the second sender; under that of the
  first, if it is another one, nothing is stored.
\<close>

theorem source_misattributed:
  assumes "w_queue w = []" and "\<not> nc_stopped w"
    and "message_decode E d1 = Inr m" and "\<not> message_is_contain_param ''kademlia'' m"
    and "\<not> message_is_contain_param ''ice_agent'' m"
  shows "\<exists>w' rm. run_next E (udp_arrival d2 s2 (udp_arrival d1 s1 w)) = Inr w' \<and> rm_msg rm = m \<and>
    pool_messages E w' (calc_peer_id E s2) = pool_messages E w (calc_peer_id E s2) @ [rm] \<and>
    (calc_peer_id E s1 \<noteq> calc_peer_id E s2 \<longrightarrow>
       pool_messages E w' (calc_peer_id E s1) = pool_messages E w (calc_peer_id E s1))"
proof -
  let ?w = "w\<lparr>us_src_ep := s2, us_listening := True, w_queue := [T_recv d2]\<rparr>"
  let ?w3 = "pool_after_push E m s2 ?w" and ?rm = "stored_message E m ?w"
  let ?w' = "if hub_active w then hub_on_receive_message (get_peer_ref E) (Some ?rm) s2 ?w3 else ?w3"
  have "run_next E (udp_arrival d2 s2 (udp_arrival d1 s1 w)) = on_receive_packet E d1 s2 ?w"
    using assms(1,2)
    by (simp add: run_next_def udp_arrival_def udp_call_income_message_handler_def udp_call_receiver_def io_post_def node_task_def)
  then have run: "run_next E (udp_arrival d2 s2 (udp_arrival d1 s1 w)) = Inr ?w'"
    using on_receive_plain [OF assms(3-5), where ep = s2 and w = ?w] by (simp add: store_eq Let_def)
  have msgs: "pool_messages E ?w = pool_messages E w" by (simp add: fun_eq_iff pool_messages_def)
  have "pool_messages E ?w' = pool_messages E ?w3" by (simp add: fun_eq_iff)
  then show ?thesis
    using run by (intro exI [of _ ?w'] exI [of _ ?rm]) (simp add: pool_after_push_messages msgs stored_message_def)
qed

text \<open>
  C25. Datagrams that are not messages. Nothing catches the exception of the decoder, so a datagram that
  is empty, or an encoded message followed by at least one more byte, ends the event loop of the node that
  receives it. An encoded message whose last field, in the order of the keys, is a string, cut right before
  the terminator of that string (its last two bytes are missing), raises nothing: it is stored like a
  message, without any field.
\<close>

theorem malformed_packets:
  assumes "double_ok E" and "bson_ok E (JObj m)" and "message_encode E (JObj m) = Inr bs"
    and "w_queue w = []" and "\<not> nc_stopped w"
  shows "run_next E (udp_arrival [] src w) = Inl Json_parse_error \<and>
    run_next E (udp_arrival (bs @ c # cs) src w) = Inl Json_parse_error \<and>
    (\<forall>k s. fmlookup m k = Some (JStr s) \<longrightarrow> (\<forall>k'. fmlookup m k' \<noteq> None \<longrightarrow> k' \<le> k) \<longrightarrow>
      (\<exists>w' rm. run_next E (udp_arrival (take (length bs - 2) bs) src w) = Inr w' \<and> rm_msg rm = JDiscarded \<and>
        pool_messages E w' (calc_peer_id E src) = pool_messages E w (calc_peer_id E src) @ [rm]))"
proof -
  have empty: "message_decode E [] = Inl Json_parse_error"
    by (simp add: message_decode_def from_bson_def sax_parse_def parse_bson_internal_def get_number_def
        eval_nat_numeral reader_get_def unexpect_eof_def)
  obtain bs' where bs': "to_bson E (JObj m) = Inr bs'"
    "\<forall>rest. from_bson E (bs' @ rest) = (if rest = [] then Inr (JObj m) else Inl Json_parse_error)"
    using bson_roundtrip_append [OF assms(1,2)] by blast
  have trailing: "message_decode E (bs @ c # cs) = Inl Json_parse_error"
    using bs' assms(3) by (simp add: message_decode_def message_encode_def)
  let ?w = "w\<lparr>us_src_ep := src, us_listening := True, w_queue := []\<rparr>"
  let ?w3 = "pool_after_push E JDiscarded src ?w" and ?rm = "stored_message E JDiscarded ?w"
  let ?w' = "if hub_active w then hub_on_receive_message (get_peer_ref E) (Some ?rm) src ?w3 else ?w3"
  have cut: "\<exists>w' rm. run_next E (udp_arrival (take (length bs - 2) bs) src w) = Inr w' \<and> rm_msg rm = JDiscarded \<and>
      pool_messages E w' (calc_peer_id E src) = pool_messages E w (calc_peer_id E src) @ [rm]"
    if "fmlookup m k = Some (JStr s)" "\<forall>k'. fmlookup m k' \<noteq> None \<longrightarrow> k' \<le> k" for k s
  proof -
    have "run_next E (udp_arrival (take (length bs - 2) bs) src w) = Inr ?w'"
      using assms(4,5) on_receive_plain [OF decode_cut_string [OF assms(1-3) that], where ep = src and w = ?w]
      by (simp add: run_next_arrival store_eq Let_def message_is_contain_param_def)
    moreover have "pool_messages E ?w = pool_messages E w" by (simp add: fun_eq_iff pool_messages_def)
    moreover have "pool_messages E ?w' = pool_messages E ?w3" by (simp add: fun_eq_iff)
    ultimately show ?thesis by (intro exI [of _ ?w'] exI [of _ ?rm]) (simp add: pool_after_push_messages stored_message_def)
  qed
  show ?thesis
    using assms(4,5) empty trailing cut
    by (simp add: run_next_arrival on_receive_packet_def)
qed

section \<open>Commands\<close>

text \<open>
  C29. The commands of the console. Nothing happens on an empty line or an unknown word; \<open>stop\<close> stops the
  node; \<open>send\<close> with an IPv4 endpoint in text and a word sends the word to the peer, and with fewer words it
  reads past the end of the input.
\<close>

theorem command_input:
  assumes "ip_text_ok E" and "v4_no_colon E"
  shows "on_command_input E [] w = Inr w \<and>
    (c \<noteq> ''stop'' \<longrightarrow> c \<noteq> ''send'' \<longrightarrow> on_command_input E (c # args) w = Inr w) \<and>
    on_command_input E (''stop'' # args) w = Inr (node_stop w) \<and>
    on_command_input E [''send''] w = Inl Undefined \<and>
    (let ep = Endpoint (V4 a) p in
       on_command_input E [''send'', endpoint_to_str E ep] w = Inl Undefined \<and>
       on_command_input E (''send'' # endpoint_to_str E ep # x # args) w = signaling_send E ep ''messenger'' (JStr x) w)"
  using str_to_endpoint_v4 [OF assms]
  by (simp add: on_command_input_def Let_def peer_send_def get_peer_ref_def peer_new_def)

section \<open>Sample nodes\<close>

definition sample_world :: node_world where
  "sample_world = pool_world.extend (sample_pool [1, 2])
     \<lparr>us_open = True, us_listening = False, us_src_ep = any_endpoint,
      nc_glob_self_ep = sample_self, nc_stopped = False\<rparr>"

lemma sample_world_simps [simp]:
  "w_queue sample_world = []" "w_timers sample_world = []" "w_net sample_world = []" "\<not> nc_stopped sample_world"
  "hub_active sample_world" "kd_table sample_world = sample_net_table" "w_app_id sample_world = ''abcdefgh''"
  "hub_log sample_world = []"
  by (simp_all add: sample_world_def sample_pool_def ice_world.defs pool_world.defs sample_ice_def)

theorem reachable_invariant_witness:
  "rt_wf (kd_table (listen_stdin_line ''stop'' (node_controller_new sample_ext sample_self sample_world)))"
proof -
  have "reach (node_initial sample_ext) (node_step sample_ext)
      (node_controller_new sample_ext sample_self sample_world)"
    by (rule reach_start) (auto simp: node_initial_def intro!: exI [of _ sample_self] exI [of _ sample_world])
  from reach_step [OF this ns_command, of "''stop''"] show ?thesis
    using reachable_invariant by blast
qed

theorem stop_is_final_witness:
  "run_next sample_ext (listen_stdin_line ''send'' (node_stop sample_world)) = Inr (listen_stdin_line ''send'' (node_stop sample_world))"
proof -
  have "reach (\<lambda>v. v = node_stop sample_world) (node_step sample_ext) (listen_stdin_line ''send'' (node_stop sample_world))"
    by (rule reach_step, rule reach_start, rule refl, rule ns_command)
  then show ?thesis by (rule stop_is_final)
qed

definition sample_binding :: binding_request where
  "sample_binding = \<lparr>bo_id = 5, bo_expire_at = 0, bo_expire_flag = False, bo_type_name = [],
     br_responses = [], br_sr = 0, br_is_handler_called = True, br_is_timeout = False\<rparr>"

theorem global_endpoint_learned_witness:
  "\<exists>w'. run_sr_handler sample_ext 5 (Some sample_peer)
      (sample_world\<lparr>iw_bindings := [sample_binding], iw_srs := [sr_async_get SR_update_global_self_endpoint sr_new]\<rparr>) = Inr w' \<and>
    nc_glob_self_ep w' = sample_peer \<and> kd_table w' = sample_net_table"
  using global_endpoint_learned [of 5 "sample_world\<lparr>iw_bindings := [sample_binding],
      iw_srs := [sr_async_get SR_update_global_self_endpoint sr_new]\<rparr>" sample_binding sample_ext sample_peer]
  by (auto simp: os_deref_def sample_binding_def sr_async_get_def)

theorem message_delivery_witness:
  "let E = sample_ext in
     \<exists>d wa' wb' p m. peer_send (signaling_send E) ''hello'' (get_peer_ref E sample_peer sample_world) sample_world = Inr wa' \<and>
       w_net wa' = [(sample_peer, d)] \<and> run_next E (udp_arrival d sample_self sample_world) = Inr wb' \<and>
       hub_log wb' = [(p, m)] \<and> ss_message_get ''messenger'' m = Inr (JStr ''hello'')"
proof -
  have k: "drt_is_exist sample_ext (kd_table sample_world) sample_peer" by (simp add: sample_net_exist(1))
  show ?thesis
    using message_delivery [OF k _ _ _ _ sample_double_ok, of "''hello''" sample_world sample_self]
    unfolding Let_def by fastforce
qed

theorem source_misattributed_witness:
  "let E = sample_ext;
       d1 = datagram E ''abcdefgh'' ''messenger'' JNull in
     \<exists>w' rm. run_next E (udp_arrival [] sample_peer (udp_arrival d1 sample_self sample_world)) = Inr w' \<and>
       pool_messages E w' (calc_peer_id E sample_peer) = pool_messages E sample_world (calc_peer_id E sample_peer) @ [rm]"
proof -
  let ?E = sample_ext and ?m = "payload_body ''abcdefgh'' ''messenger'' JNull"
  have "bson_rt ?E ?m" by (rule payload_rt) (simp_all add: sample_double_ok bson_key_ok_def)
  then have m: "message_decode ?E (datagram ?E ''abcdefgh'' ''messenger'' JNull) = Inr ?m" by (rule datagram_decode)
  have k: "\<not> message_is_contain_param ''kademlia'' ?m" "\<not> message_is_contain_param ''ice_agent'' ?m"
    by (simp_all add: payload_body_other)
  show ?thesis
    using source_misattributed [OF _ _ m k, of sample_world "[]" sample_peer sample_self] unfolding Let_def by fastforce
qed

theorem command_input_witness:
  "on_command_input sample_ext [''send''] sample_world = Inl Undefined \<and>
   on_command_input sample_ext [''stop''] sample_world = Inr (node_stop sample_world)"
  using command_input [OF sample_ip_text_ok sample_v4_no_colon, where w = sample_world] by simp

theorem malformed_packets_witness:
  "\<exists>bs w'. message_encode sample_ext (JObj (fmupd ''a'' (JStr ''x'') fmempty)) = Inr bs \<and>
     run_next sample_ext (udp_arrival (bs @ [7]) sample_peer sample_world) = Inl Json_parse_error \<and>
     run_next sample_ext (udp_arrival (take (length bs - 2) bs) sample_peer sample_world) = Inr w'"
proof -
  let ?m = "fmupd ''a'' (JStr ''x'') fmempty"
  have "sorted_list_of_fmap ?m = [(''a'', JStr ''x'')]" by code_simp
  then have ok: "bson_ok sample_ext (JObj ?m)" by (simp add: bson_key_ok_def)
  obtain bs where bs: "message_encode sample_ext (JObj ?m) = Inr bs"
    using bson_roundtrip_object [OF sample_double_ok ok] by (auto simp: message_encode_def)
  have k: "fmlookup ?m ''a'' = Some (JStr ''x'')" "\<forall>k'. fmlookup ?m k' \<noteq> None \<longrightarrow> k' \<le> ''a''" by simp_all
  have w: "w_queue sample_world = []" "\<not> nc_stopped sample_world" by simp_all
  note all = malformed_packets [OF sample_double_ok ok bs w, of sample_peer 7 "[]"]
  obtain w' where "run_next sample_ext (udp_arrival (take (length bs - 2) bs) sample_peer sample_world) = Inr w'"
    using all [THEN conjunct2, THEN conjunct2, rule_format, OF k(1)] k(2) by blast
  moreover have "run_next sample_ext (udp_arrival (bs @ [7]) sample_peer sample_world) = Inl Json_parse_error"
    using all by blast
  ultimately show ?thesis using bs by blast
qed

end
