(* ===== verification/SS_Traversal.thy ===== *)
theory SS_Traversal
  imports SS_NodeProtocol
begin

text \<open>
  NAT traversal from end to end: a text for an endpoint the sender's table does not know travels by a
  signaling request, a relay, an answer and the payload itself, through the event loops of three nodes.
\<close>

section \<open>Signaling datagrams at a node\<close>

text \<open>An identifier none of the three kinds of signaling observers of a node has.\<close>

definition sgnl_fresh :: "uuid \<Rightarrow> 'a ice_world_scheme \<Rightarrow> bool" where
  "sgnl_fresh u w \<longleftrightarrow> u \<notin> os_ids (iw_relays w) \<and> u \<notin> os_ids (iw_requests w) \<and> u \<notin> os_ids (iw_responses w)"

lemma sgnl_fresh_node [simp]:
  "sgnl_fresh u (w\<lparr>us_src_ep := a, us_listening := l, w_queue := q\<rparr>) = sgnl_fresh u w"
  by (simp add: sgnl_fresh_def)

abbreviation sgnl_im :: "(string, json) fmap \<Rightarrow> ice_message" where
  "sgnl_im b \<equiv> \<lparr>im_body = JObj b, im_protocol = protocol_signaling\<rparr>"

lemma sgnl_observer_id:
  "uuid_text_ok E \<Longrightarrow> fmlookup b ''observer_id'' = Some (JStr (observer_id_to_str E u)) \<Longrightarrow>
   ice_get_observer_id E (sgnl_im b) = Inr u"
  by (simp add: ice_get_observer_id_def get_observer_id_obj)

lemma ice_income_fresh:
  assumes "uuid_text_ok E" and "sgnl_fields E b dest src rs ttl"
    and "fmlookup b ''observer_id'' = Some (JStr (observer_id_to_str E u))" and "sgnl_fresh u w"
  shows "ice_income_message E (payload_body i ''ice_agent'' (JObj b)) ep w =
    signaling_income_message E (payload_body i ''ice_agent'' (JObj b)) ep w"
  using assms
  by (simp add: ice_income_message_def signaling_of_json [OF assms(2)] ice_get_protocol_def sgnl_observer_id
      sgnl_fresh_def os_find_absent)

lemma ice_income_request:
  assumes "uuid_text_ok E" and "sgnl_fields E b dest src rs ttl"
    and "fmlookup b ''observer_id'' = Some (JStr (observer_id_to_str E u))"
    and "u \<notin> os_ids (iw_relays w)" and "u \<in> os_ids (iw_requests w)"
  shows "ice_income_message E (payload_body i ''ice_agent'' (JObj b)) ep w =
    signaling_request_income_message E u (payload_body i ''ice_agent'' (JObj b)) w"
proof -
  obtain o' rest where "os_find u (iw_requests w) = o' # rest" "bo_id o' = u"
    using os_find_Cons_present [OF assms(5)] by blast
  then show ?thesis
    using assms(1,3,4)
    by (simp add: ice_income_message_def signaling_of_json [OF assms(2)] ice_get_protocol_def sgnl_observer_id os_find_absent)
qed

text \<open>A datagram of the ICE layer at an idle node.\<close>

lemma run_next_ice:
  assumes "w_queue w = []" and "\<not> nc_stopped w" and "bson_rt E (payload_body i ''ice_agent'' j)"
  shows "run_next E (udp_arrival (datagram E i ''ice_agent'' j) src w) =
    ice_income_message E (payload_body i ''ice_agent'' j) src (w\<lparr>us_src_ep := src, us_listening := True, w_queue := []\<rparr>)"
  using assms by (simp add: run_next_arrival on_receive_packet_def datagram_decode payload_body_other)

lemma node_send_all [simp]:
  "nc_stopped (socket_send e b w) = nc_stopped w" "nc_stopped (send_all d eps w) = nc_stopped w"
proof -
  show *: "nc_stopped (socket_send e b w) = nc_stopped w" for e b and w :: "'a node_world_scheme"
    by (simp add: socket_send_def)
  show "nc_stopped (send_all d eps w) = nc_stopped w" by (induction eps arbitrary: w) (simp_all add: *)
qed

section \<open>The three steps of a signaling request\<close>

text \<open>The node that asks.\<close>

lemma request_step:
  assumes "codec_ok E" and "u = bo_id (fst (signaling_request_new E w))" and "\<not> drt_is_exist E (kd_table w) dest"
    and "er \<in> set (drt_collect_endpoint E (kd_table w) dest 3 [])" and "src = iw_glob_self_ep w" and "sgnl_fresh u w"
  shows "\<exists>w' obs. peer_send (signaling_send E) content (get_peer_ref E dest w) w = Inr w' \<and>
    (er, datagram E (w_app_id w) ''ice_agent'' (JObj (sgnl_body E u dest src))) \<in> set (w_net w') \<and>
    os_deref u (iw_requests w') = Inr obs \<and> \<not> sq_done obs \<and> sq_cache_ep obs = dest \<and>
    sq_cache_param obs = ''messenger'' \<and> sq_cache_payload obs = JStr content \<and>
    w_queue w' = w_queue w \<and> nc_stopped w' = nc_stopped w \<and> iw_relays w' = iw_relays w \<and> w_app_id w' = w_app_id w \<and>
    u \<notin> os_ids (iw_relays w')"
proof -
  let ?eps = "drt_collect_endpoint E (kd_table w) dest 3 []"
  obtain obs w1 where new: "signaling_request_new E w = (obs, w1)" by fastforce
  then have u: "u = bo_id obs" using assms(2) by simp
  obtain n where w1: "w1 = w\<lparr>w_uuids := n\<rparr>" and nd: "\<not> sq_done obs"
    using signaling_request_new_simps [OF new] by blast
  let ?obs1 = "obs\<lparr>sq_cache_ep := dest, sq_cache_param := ''messenger'', sq_cache_payload := JStr content\<rparr>"
  let ?w' = "add_request ?obs1 (send_all (datagram E (w_app_id w) ''ice_agent'' (JObj (sgnl_body E u dest src))) ?eps
    (socket_send dest (datagram E (w_app_id w) ''dummy'' (JStr ''signaling dummy'')) w1))"
  have send: "peer_send (signaling_send E) content (get_peer_ref E dest w) w = Inr ?w'"
    using signaling_send_unknown [OF new _ assms(1) refl assms(3)] assms(5)
    by (simp add: peer_send_def get_peer_ref_def peer_new_def u)
  have "iw_requests ?w' = iw_requests w @ [?obs1]"
    using assms(6) u by (simp add: sgnl_fresh_def add_request_def os_add_fresh w1)
  then have deref: "os_deref u (iw_requests ?w') = Inr ?obs1"
    using assms(6) u by (simp add: sgnl_fresh_def os_deref_append)
  show ?thesis
    using assms(4,6) nd by (intro exI [of _ ?w'] exI [of _ ?obs1] conjI send deref)
      (simp_all add: w1 add_request_def sgnl_fresh_def)
qed

text \<open>The relay, which knows the destination.\<close>

lemma relay_step:
  assumes "codec_ok E" and "ip_text_ok E" and "uuid_text_ok E" and "w_queue w = []" and "\<not> nc_stopped w"
    and "sgnl_fresh u w" and "iw_glob_self_ep w \<noteq> dest" and "drt_is_exist E (kd_table w) dest"
    and "b = sgnl_body E u dest src"
  shows "\<exists>w'. run_next E (udp_arrival (datagram E i ''ice_agent'' (JObj b)) ep w) = Inr w' \<and>
    w_net w' = w_net w @ [(dest, datagram E (w_app_id w) ''ice_agent'' (JObj (relayed E b [iw_glob_self_ep w])))] \<and>
    w_queue w' = []"
proof -
  let ?w = "w\<lparr>us_src_ep := ep, us_listening := True, w_queue := []\<rparr>"
  have f: "sgnl_fields E b dest src [] 5" unfolding assms(9) by (rule sgnl_body_fields)
  have ok: "bson_ok E (JObj b)" unfolding assms(9) using assms(1) by (rule sgnl_body_ok)
  have i: "fmlookup b ''observer_id'' = Some (JStr (observer_id_to_str E u))" by (simp add: assms(9) sgnl_body_def)
  have "ice_income_message E (payload_body i ''ice_agent'' (JObj b)) ep ?w =
      signaling_income_message E (payload_body i ''ice_agent'' (JObj b)) ep ?w"
    using assms(6) by (intro ice_income_fresh [OF assms(3) f i]) simp
  then show ?thesis
    using relay_known [OF assms(2) f assms(1) ok, of ?w i ep] assms(7,8)
      run_next_ice [OF assms(4,5) ice_payload_rt [OF assms(1) ok], of i ep]
    by (auto simp: add_relay_def)
qed

text \<open>The destination.\<close>

lemma destination_step:
  assumes "codec_ok E" and "ip_text_ok E" and "uuid_text_ok E" and "w_queue w = []" and "\<not> nc_stopped w"
    and "sgnl_fresh u w" and "iw_glob_self_ep w = dest"
    and "b = relayed E (sgnl_body E u dest src) rs"
  shows "\<exists>w'. run_next E (udp_arrival (datagram E i ''ice_agent'' (JObj b)) ep w) = Inr w' \<and>
    w_net w' = w_net w @ [(src, datagram E (w_app_id w) ''ice_agent'' (JObj (fmupd ''sub_protocol'' (JInt SIGNALING_RESPONSE) b)))] \<and>
    w_queue w' = [] \<and> nc_stopped w' = nc_stopped w \<and> hub_active w' = hub_active w \<and> hub_log w' = hub_log w"
proof -
  let ?w = "w\<lparr>us_src_ep := ep, us_listening := True, w_queue := []\<rparr>"
  have f: "sgnl_fields E b dest src rs 5" unfolding assms(8) by (rule relayed_fields [OF sgnl_body_fields])
  have ok: "bson_ok E (JObj b)" unfolding assms(8) using assms(1) by (intro relayed_ok sgnl_body_ok)
  have i: "fmlookup b ''observer_id'' = Some (JStr (observer_id_to_str E u))"
    by (simp add: assms(8) sgnl_body_def relayed_def)
  have "ice_income_message E (payload_body i ''ice_agent'' (JObj b)) ep ?w =
      signaling_income_message E (payload_body i ''ice_agent'' (JObj b)) ep ?w"
    using assms(6) by (intro ice_income_fresh [OF assms(3) f i]) simp
  then show ?thesis
    using destination_state [OF assms(2) f _ ok assms(1), of ?w i ep] assms(7)
      run_next_ice [OF assms(4,5) ice_payload_rt [OF assms(1) ok], of i ep]
    by (auto simp: add_responder_def socket_send_def)
qed

text \<open>The answer at the node that asked.\<close>

lemma answer_step:
  assumes "codec_ok E" and "uuid_text_ok E" and "w_queue w = []" and "\<not> nc_stopped w"
    and "u \<notin> os_ids (iw_relays w)" and "os_deref u (iw_requests w) = Inr obs" and "\<not> sq_done obs"
    and "bson_key_ok (sq_cache_param obs)" and "bson_ok E (sq_cache_payload obs)"
    and "b = fmupd ''sub_protocol'' (JInt SIGNALING_RESPONSE) (relayed E (sgnl_body E u dest src) rs)"
  shows "\<exists>w'. run_next E (udp_arrival (datagram E i ''ice_agent'' (JObj b)) ep w) = Inr w' \<and>
    w_net w' = w_net w @ [(sq_cache_ep obs, datagram E (w_app_id w) (sq_cache_param obs) (sq_cache_payload obs))]"
proof -
  let ?w = "w\<lparr>us_src_ep := ep, us_listening := True, w_queue := []\<rparr>"
  have f: "sgnl_fields E b dest src rs 5"
    using relayed_fields [OF sgnl_body_fields, of E u dest src rs] by (simp add: assms(10) sgnl_fields_def)
  have ok: "bson_ok E (JObj b)"
    using relayed_ok [OF assms(1) sgnl_body_ok [OF assms(1)], of u dest src rs] by (simp add: assms(10) bson_key_ok_def)
  have i: "fmlookup b ''observer_id'' = Some (JStr (observer_id_to_str E u))"
    by (simp add: assms(10) sgnl_body_def relayed_def)
  have p: "fmlookup b ''protocol'' = Some (JStr ''signaling'')" using f by (simp add: sgnl_fields_def)
  have sub: "fmlookup b ''sub_protocol'' = Some (JInt SIGNALING_RESPONSE)" by (simp add: assms(10))
  have "u \<in> os_ids (iw_requests w)" using os_deref_Inr [OF assms(6)] by (auto simp: os_ids_def)
  then have "ice_income_message E (payload_body i ''ice_agent'' (JObj b)) ep ?w =
      signaling_request_income_message E u (payload_body i ''ice_agent'' (JObj b)) ?w"
    using assms(5) by (intro ice_income_request [OF assms(2) f i]) simp_all
  moreover have "signaling_request_income_message E u (payload_body i ''ice_agent'' (JObj b)) ?w =
      Inr (io_post (T_traversal_done u)
        (socket_send (sq_cache_ep obs) (datagram E (w_app_id w) (sq_cache_param obs) (sq_cache_payload obs)) ?w))"
    using assms(1,6) by (subst signaling_answer_state [OF _ assms(7) _ p sub assms(8,9)]) (simp_all add: codec_ok_def)
  ultimately show ?thesis
    using run_next_ice [OF assms(3,4) ice_payload_rt [OF assms(1) ok], of i ep] by simp
qed

section \<open>From end to end\<close>

text \<open>
  C3. A text for a node the sender does not know. Node A sends a text to the endpoint \<open>ec\<close>, which is not
  in its table, while \<open>er\<close> is among the nodes it asks. The request that A sends to R passes through R, which
  knows \<open>ec\<close>, to the node C; C answers to A, A sends the text to C, and the hub of C, which is active, is
  called with the text and the peer of A. Each of the four datagrams is the one the step before put on the wire, and each
  node is only required to be idle, not to be stopped, and not to know the fresh identifier of the request.
\<close>

theorem nat_traversal:
  assumes "codec_ok E" and "ip_text_ok E" and "uuid_text_ok E" and "length content + 1 < 2 ^ 31"
    and "u = bo_id (fst (signaling_request_new E wa))" and "\<not> drt_is_exist E (kd_table wa) ec"
    and "er \<in> set (drt_collect_endpoint E (kd_table wa) ec 3 [])" and "ea = iw_glob_self_ep wa"
    and "drt_is_exist E (kd_table wr) ec" and "iw_glob_self_ep wr \<noteq> ec" and "iw_glob_self_ep wc = ec"
    and "\<forall>w \<in> {wa, wr, wc}. sgnl_fresh u w \<and> w_queue w = [] \<and> \<not> nc_stopped w" and "hub_active wc"
  shows "\<exists>wa1 d1 wr1 d2 wc1 d3 wa2 d4 wc2 p m.
    peer_send (signaling_send E) content (get_peer_ref E ec wa) wa = Inr wa1 \<and> (er, d1) \<in> set (w_net wa1) \<and>
    run_next E (udp_arrival d1 ea wr) = Inr wr1 \<and> w_net wr1 = w_net wr @ [(ec, d2)] \<and>
    run_next E (udp_arrival d2 er wc) = Inr wc1 \<and> w_net wc1 = w_net wc @ [(ea, d3)] \<and>
    run_next E (udp_arrival d3 ec wa1) = Inr wa2 \<and> w_net wa2 = w_net wa1 @ [(ec, d4)] \<and>
    run_next E (udp_arrival d4 ea wc1) = Inr wc2 \<and> hub_log wc2 = hub_log wc @ [(p, m)] \<and>
    pe_ep p = ea \<and> ss_message_get ''messenger'' m = Inr (JStr content)"
proof -
  let ?b = "sgnl_body E u ec ea" and ?i = w_app_id and ?eps = "drt_collect_endpoint E (kd_table wa) ec 3 []"
  let ?b1 = "relayed E ?b [iw_glob_self_ep wr]"
  let ?b2 = "fmupd ''sub_protocol'' (JInt SIGNALING_RESPONSE) ?b1"
  let ?d4 = "datagram E (?i wa) ''messenger'' (JStr content)"
  have fresh: "sgnl_fresh u wa" "sgnl_fresh u wr" "sgnl_fresh u wc"
    and idle: "w_queue wa = []" "w_queue wr = []" "w_queue wc = []"
    and run: "\<not> nc_stopped wa" "\<not> nc_stopped wr" "\<not> nc_stopped wc"
    using assms(12) by simp_all
  obtain wa1 obs where send: "peer_send (signaling_send E) content (get_peer_ref E ec wa) wa = Inr wa1"
    and asked: "(er, datagram E (?i wa) ''ice_agent'' (JObj ?b)) \<in> set (w_net wa1)"
    and deref: "os_deref u (iw_requests wa1) = Inr obs" and cache: "\<not> sq_done obs" "sq_cache_ep obs = ec"
      "sq_cache_param obs = ''messenger''" "sq_cache_payload obs = JStr content"
    and wa1: "w_queue wa1 = []" "\<not> nc_stopped wa1" "u \<notin> os_ids (iw_relays wa1)" "?i wa1 = ?i wa"
    using request_step [OF assms(1) assms(5-8) fresh(1), of content] idle(1) run(1) by auto
  obtain wr1 where r: "run_next E (udp_arrival (datagram E (?i wa) ''ice_agent'' (JObj ?b)) ea wr) = Inr wr1"
    "w_net wr1 = w_net wr @ [(ec, datagram E (?i wr) ''ice_agent'' (JObj ?b1))]"
    using relay_step [OF assms(1-3) idle(2) run(2) fresh(2) assms(10,9) refl] by blast
  obtain wc1 where c: "run_next E (udp_arrival (datagram E (?i wr) ''ice_agent'' (JObj ?b1)) er wc) = Inr wc1"
    "w_net wc1 = w_net wc @ [(ea, datagram E (?i wc) ''ice_agent'' (JObj ?b2))]"
    "w_queue wc1 = []" "\<not> nc_stopped wc1" "hub_active wc1" "hub_log wc1 = hub_log wc"
    using destination_step [OF assms(1-3) idle(3) run(3) fresh(3) assms(11) refl] run(3) assms(13) by blast
  obtain wa2 where a: "run_next E (udp_arrival (datagram E (?i wc) ''ice_agent'' (JObj ?b2)) ec wa1) = Inr wa2"
    "w_net wa2 = w_net wa1 @ [(ec, ?d4)]"
    using answer_step [where dest = ec and src = ea and rs = "[iw_glob_self_ep wr]" and i = "?i wc" and ep = ec,
        OF assms(1,3) wa1(1-3) deref cache(1) _ _ refl] cache assms(4) wa1(4)
    by (auto simp: bson_key_ok_def)
  have rt: "bson_rt E (payload_body (?i wa) ''messenger'' (JStr content))"
    using assms(1,4) by (intro payload_rt) (simp_all add: bson_key_ok_def codec_ok_def)
  obtain wc2 p m where d: "run_next E (udp_arrival ?d4 ea wc1) = Inr wc2" "hub_log wc2 = hub_log wc @ [(p, m)]"
    "pe_ep p = ea" "ss_message_get ''messenger'' m = Inr (JStr content)"
    using text_received [OF c(3-5) rt refl, of ea] c(6) by auto
  show ?thesis using send asked r c(1,2) a d by blast
qed

text \<open>The sample node as the sender, as a relay that knows the destination, and as the destination.\<close>

definition sample_relay_node :: node_world where
  "sample_relay_node = sample_world\<lparr>kd_table := drt_auto_update sample_ext sample_dest (rt_new 0), iw_glob_self_ep := sample_peer\<rparr>"

definition sample_dest_node :: node_world where
  "sample_dest_node = sample_world\<lparr>iw_glob_self_ep := sample_dest\<rparr>"

lemma sample_world_ice [simp]:
  "iw_glob_self_ep sample_world = sample_self" "iw_requests sample_world = []" "iw_relays sample_world = []"
  "iw_responses sample_world = []"
  by (simp_all add: sample_world_def sample_pool_def ice_world.defs pool_world.defs sample_ice_def)

theorem nat_traversal_witness:
  "let E = sample_ext in
     \<exists>wa1 d1 wr1 d2 wc1 d3 wa2 d4 wc2 p m.
       peer_send (signaling_send E) ''hello'' (get_peer_ref E sample_dest sample_world) sample_world = Inr wa1 \<and>
       (sample_peer, d1) \<in> set (w_net wa1) \<and>
       run_next E (udp_arrival d1 sample_self sample_relay_node) = Inr wr1 \<and> w_net wr1 = [(sample_dest, d2)] \<and>
       run_next E (udp_arrival d2 sample_peer sample_dest_node) = Inr wc1 \<and> w_net wc1 = [(sample_self, d3)] \<and>
       run_next E (udp_arrival d3 sample_dest wa1) = Inr wa2 \<and> w_net wa2 = w_net wa1 @ [(sample_dest, d4)] \<and>
       run_next E (udp_arrival d4 sample_self wc1) = Inr wc2 \<and> hub_log wc2 = [(p, m)] \<and>
       ss_message_get ''messenger'' m = Inr (JStr ''hello'')"
proof -
  let ?E = sample_ext
  have er: "sample_peer \<in> set (drt_collect_endpoint ?E (kd_table sample_world) sample_dest 3 [])"
    by (simp add: sample_collect)
  have unknown: "\<not> drt_is_exist ?E (kd_table sample_world) sample_dest" by (simp add: sample_net_exist(2))
  have known: "drt_is_exist ?E (kd_table sample_relay_node) sample_dest"
    by (simp add: sample_relay_node_def drt_is_exist_def rt_is_exist_nodes [OF drt_auto_update_wf [OF rt_new_wf]] single_table_nodes)
  have self: "sample_self = iw_glob_self_ep sample_world" by simp
  have relay: "iw_glob_self_ep sample_relay_node \<noteq> sample_dest"
    by (simp add: sample_relay_node_def sample_peer_def sample_dest_def)
  have dest: "iw_glob_self_ep sample_dest_node = sample_dest" by (simp add: sample_dest_node_def)
  have all: "\<forall>w \<in> {sample_world, sample_relay_node, sample_dest_node}. sgnl_fresh u w \<and> w_queue w = [] \<and> \<not> nc_stopped w" for u
    by (simp add: sample_relay_node_def sample_dest_node_def sgnl_fresh_def)
  have hub: "hub_active sample_dest_node" by (simp add: sample_dest_node_def)
  have net: "w_net sample_relay_node = []" "w_net sample_dest_node = []" "hub_log sample_dest_node = []"
    by (simp_all add: sample_relay_node_def sample_dest_node_def)
  show ?thesis
    using nat_traversal [OF sample_codec_ok sample_ip_text_ok sample_uuid_text_ok _ refl unknown er self known relay dest all hub,
        of "''hello''"] unfolding Let_def net append_Nil by force
qed

end
