(* ===== verification/SS_Maintenance.thy ===== *)
theory SS_Maintenance
  imports SS_IceProtocol
begin

text \<open>
  A round of the connection maintainer as the node runs it, with requests that go out through
  \<open>signaling_send\<close>: the pings to the nodes of the table, and the search for more nodes.
\<close>

section \<open>The pings\<close>

text \<open>The datagrams of a list of nodes: one ping for each, in order.\<close>

definition ping_datagram :: "ext \<Rightarrow> string \<Rightarrow> k_node \<Rightarrow> endpoint \<times> byte list \<Rightarrow> bool" where
  "ping_datagram E i n p \<longleftrightarrow> fst p = kn_ep n \<and> (\<exists>u. snd p = datagram E i ''kademlia'' (ping_body E ''request'' u))"

text \<open>An observer of a maintenance ping to a node of the table.\<close>

definition refresh_observer :: "k_routing_table \<Rightarrow> ping \<Rightarrow> bool" where
  "refresh_observer rt p \<longleftrightarrow> (\<exists>i < 160. \<exists>n \<in> set (rt_table rt ! i). pg_dest_ep p = kn_ep n \<and>
     pg_pong_handler p = H_move_back i n \<and> pg_timeout_handler p = H_delete_node i n)"

lemma ping_new_handlers:
  "pg_dest_ep (fst (ping_new E ep ph th w)) = ep" "pg_pong_handler (fst (ping_new E ep ph th w)) = ph"
  "pg_timeout_handler (fst (ping_new E ep ph th w)) = th"
  by (simp_all add: ping_new_def ping.defs base_observer.defs split: prod.splits)

text \<open>What a ping to a known endpoint does.\<close>

definition refreshed ::
  "ext \<Rightarrow> k_node list \<Rightarrow> 'a ice_world_scheme \<Rightarrow> 'a ice_world_scheme \<Rightarrow> bool" where
  "refreshed E ns w w' \<longleftrightarrow> kd_table w' = kd_table w \<and> w_app_id w' = w_app_id w \<and> w_now w' = w_now w \<and>
     (\<exists>ps. w_net w' = w_net w @ ps \<and> list_all2 (ping_datagram E (w_app_id w)) ns ps) \<and>
     (\<forall>p \<in> set (kd_pings w'). p \<in> set (kd_pings w) \<or> refresh_observer (kd_table w) p)"

lemma refreshed_nil: "refreshed E [] w w"
  by (simp add: refreshed_def)

lemma refreshed_append: "refreshed E ns w v \<Longrightarrow> refreshed E ms v w' \<Longrightarrow> refreshed E (ns @ ms) w w'"
  by (auto simp: refreshed_def intro!: list_all2_appendI)

lemma known_ping:
  assumes "codec_ok E" and "rt_wf (kd_table w)" and "rt_named E (kd_table w)"
    and "i < 160" and "n \<in> set (rt_table (kd_table w) ! i)"
  shows "\<exists>w'. ping_request E (signaling_send E) (kn_ep n) (H_move_back i n) (H_delete_node i n) w = Inr w' \<and> refreshed E [n] w w'"
proof -
  let ?P = "ping_new E (kn_ep n) (H_move_back i n) (H_delete_node i n) w"
  let ?b = "fst ?P" and ?p = "extend_expire_at (w_now w) 6 (fst ?P)"
  obtain k where k: "snd ?P = w\<lparr>w_uuids := k\<rparr>" using base_observer_new_world [of E _ w] by auto
  define v where "v = add_ping ?p (timer_set (T_ping_timeout (bo_id ?b)) 4 (w\<lparr>w_uuids := k\<rparr>))"
  have same: "kd_table v = kd_table w" "w_app_id v = w_app_id w" "w_net v = w_net w" "w_now v = w_now w"
    by (simp_all add: v_def add_ping_def)
  have "n \<in> rt_nodes (kd_table w)"
    using assms(2,4,5) by (auto simp: rt_nodes_nth rt_wfD(1))
  then have "drt_is_exist E (kd_table w) (kn_ep n)"
    using assms(2,3) by (auto simp: drt_is_exist_def rt_is_exist_nodes rt_named_def)
  moreover have "bson_rt E (payload_body (w_app_id v) ''kademlia'' (ping_body E ''request'' (bo_id ?b)))"
    using kad_bodies_rt(1) [OF assms(1)] by simp
  ultimately have "signaling_send E (kn_ep n) ''kademlia'' (ping_body E ''request'' (bo_id ?b)) v =
      Inr (socket_send (kn_ep n) (datagram E (w_app_id w) ''kademlia'' (ping_body E ''request'' (bo_id ?b))) v)"
    using same(1,2) by (simp add: signaling_send_def sender_async_send_ok)
  then have run: "ping_request E (signaling_send E) (kn_ep n) (H_move_back i n) (H_delete_node i n) w =
      Inr (socket_send (kn_ep n) (datagram E (w_app_id w) ''kademlia'' (ping_body E ''request'' (bo_id ?b))) v)"
    using k unfolding ping_request_eq Let_def by (simp add: v_def)
  have "refresh_observer (kd_table w) ?p"
    using assms(4,5) by (auto simp: refresh_observer_def ping_new_handlers extend_expire_at_def)
  then have "\<forall>p \<in> set (kd_pings v). p \<in> set (kd_pings w) \<or> refresh_observer (kd_table w) p"
    by (auto simp: v_def add_ping_def os_add_def split: if_splits)
  then show ?thesis
    unfolding run using same by (auto simp: refreshed_def ping_datagram_def)
qed

text \<open>The loops over a bucket and over the buckets.\<close>

lemma ping_bucket_refreshed:
  assumes "codec_ok E" and "rt_wf (kd_table w)" and "rt_named E (kd_table w)"
    and "i < 160" and "set ns \<subseteq> set (rt_table (kd_table w) ! i)"
  shows "\<exists>w'. ping_bucket_nodes E (signaling_send E) i ns w = Inr w' \<and> refreshed E ns w w'"
  using assms unfolding ping_bucket_nodes_def
proof (induction ns arbitrary: w)
  case (Cons n ns)
  then have "n \<in> set (rt_table (kd_table w) ! i)" by simp
  from known_ping [OF Cons.prems(1-4) this] obtain v where
    v: "ping_request E (signaling_send E) (kn_ep n) (H_move_back i n) (H_delete_node i n) w = Inr v" "refreshed E [n] w v"
    by blast
  then have same: "kd_table v = kd_table w" by (simp add: refreshed_def)
  from Cons.IH [of v, unfolded same, OF Cons.prems(1-4)] Cons.prems(5) obtain w' where "fold_res (\<lambda>itr. ping_request E (signaling_send E) (kn_ep itr) (H_move_back i itr)
      (H_delete_node i itr)) ns v = Inr w'" "refreshed E ns v w'"
    by auto
  then show ?case using v refreshed_append [OF v(2), of ns w'] by simp
qed (simp add: refreshed_nil)

abbreviation bucket_at :: "nat \<Rightarrow> k_bucket_iterator" where
  "bucket_at i \<equiv> \<lparr>it_bucket = int i, it_branch = int i + 1\<rparr>"

lemma refresh_loop_refreshed:
  assumes "codec_ok E" and "rt_wf (kd_table w)" and "rt_named E (kd_table w)" and "i < 160"
  shows "\<exists>w'. refresh_loop E (signaling_send E) (bucket_at i) w = Inr w' \<and>
    refreshed E (concat (drop i (rt_table (kd_table w)))) w w'"
  using assms(2-4)
proof (induction "160 - i" arbitrary: i w rule: less_induct)
  case less
  let ?ns = "rt_table (kd_table w) ! i" and ?it = "bucket_at i"
  have len: "length (rt_table (kd_table w)) = 160" using less.prems(1) by (rule rt_wfD(1))
  have valid: "\<not> it_is_invalid ?it" using less.prems(3) by (simp add: it_is_invalid_def)
  have nodes: "it_get_nodes (kd_table w) ?it = Inr ?ns"
    using less.prems(3) valid len by (simp add: it_get_nodes_def it_deref_def bucket_get_nodes_def)
  from ping_bucket_refreshed [OF assms(1) less.prems subset_refl] obtain v where
    v: "ping_bucket_nodes E (signaling_send E) i ?ns w = Inr v" "refreshed E ?ns w v" by blast
  then have same: "kd_table v = kd_table w" by (simp add: refreshed_def)
  have step: "refresh_loop E (signaling_send E) ?it w = refresh_loop E (signaling_send E) (snd (it_post_inc ?it)) v"
    using valid nodes v(1) by (subst refresh_loop.simps) simp
  have split: "concat (drop i (rt_table (kd_table w))) = ?ns @ concat (drop (Suc i) (rt_table (kd_table w)))"
    using Cons_nth_drop_Suc [of i "rt_table (kd_table w)"] less.prems(3) len by (metis concat.simps(2))
  show ?case
  proof (cases "Suc i < 160")
    case True
    then have incr: "snd (it_post_inc ?it) = bucket_at (Suc i)" by (simp add: it_post_inc_def it_is_invalid_def Let_def)
    have smaller: "160 - Suc i < 160 - i" using less.prems(3) by simp
    from less.hyps [OF smaller, of v, unfolded same, OF less.prems(1,2) True] obtain w' where
      "refresh_loop E (signaling_send E) (bucket_at (Suc i)) v = Inr w'"
      "refreshed E (concat (drop (Suc i) (rt_table (kd_table w)))) v w'" by blast
    then show ?thesis using refreshed_append [OF v(2)] step incr unfolding split by metis
  next
    case False
    then have "it_is_invalid (snd (it_post_inc ?it))"
      using less.prems(3) by (simp add: it_post_inc_def it_is_invalid_def Let_def)
    then have "refresh_loop E (signaling_send E) (snd (it_post_inc ?it)) v = Inr v" by (simp add: refresh_loop.simps)
    then show ?thesis using v(2) step False len unfolding split by simp
  qed
qed

text \<open>
  C15. A round of maintenance. While ticking is on, every node of the table is sent one ping, bucket by
  bucket and in the order of the bucket, and nobody else is; the observers that are added move their node to
  the back of its bucket on a pong and delete it on a timeout; the table does not change, and the search for
  more nodes is set for six seconds later. While ticking is off, nothing happens.
\<close>

theorem maintenance_round:
  assumes "codec_ok E" and "rt_wf (kd_table w)" and "rt_named E (kd_table w)"
  shows "\<exists>w'. maintainer_tick E (signaling_send E) w = Inr w' \<and>
    (if kd_requires_tick w
     then (\<exists>ps. w_net w' = w_net w @ ps \<and> list_all2 (ping_datagram E (w_app_id w)) (concat (rt_table (kd_table w))) ps) \<and>
       (\<forall>p \<in> set (kd_pings w'). p \<in> set (kd_pings w) \<or> refresh_observer (kd_table w) p) \<and>
       kd_table w' = kd_table w \<and> (w_now w + 6, T_get_remote_nodes) \<in> set (w_timers w')
     else w' = w)"
proof (cases "kd_requires_tick w")
  case True
  obtain v where v: "refresh_loop E (signaling_send E) (bucket_at 0) w = Inr v"
    "refreshed E (concat (rt_table (kd_table w))) w v"
    using refresh_loop_refreshed [OF assms, of 0] by auto
  have first: "drt_get_begin_bucket_iterator = bucket_at 0"
    by (simp add: drt_get_begin_bucket_iterator_def rt_get_begin_bucket_iterator_def)
  have "maintainer_tick E (signaling_send E) w = Inr (maintainer_timer_set T_get_remote_nodes 6 v)"
    using True v(1) by (simp add: maintainer_tick_def send_refresh_ping_def first)
  then show ?thesis using True v(2) by (auto simp: refreshed_def maintainer_timer_set_def)
qed (simp add: maintainer_tick_def)

section \<open>The search for more nodes\<close>

definition find_datagram :: "ext \<Rightarrow> string \<Rightarrow> endpoint list \<Rightarrow> endpoint \<Rightarrow> endpoint \<times> byte list \<Rightarrow> bool" where
  "find_datagram E i ign e p \<longleftrightarrow> fst p = e \<and> (\<exists>u. snd p = datagram E i ''kademlia'' (find_body E u ign))"

definition searched :: "ext \<Rightarrow> endpoint list \<Rightarrow> endpoint list \<Rightarrow> 'a ice_world_scheme \<Rightarrow> 'a ice_world_scheme \<Rightarrow> bool" where
  "searched E ign eps w w' \<longleftrightarrow> kd_table w' = kd_table w \<and> w_app_id w' = w_app_id w \<and> w_now w' = w_now w \<and>
     kd_requires_tick w' = kd_requires_tick w \<and>
     (\<exists>ps. w_net w' = w_net w @ ps \<and> list_all2 (find_datagram E (w_app_id w) ign) eps ps)"

lemma searched_nil: "searched E ign [] w w"
  by (simp add: searched_def)

lemma searched_append: "searched E ign es w v \<Longrightarrow> searched E ign fs v w' \<Longrightarrow> searched E ign (es @ fs) w w'"
  by (auto simp: searched_def intro!: list_all2_appendI)

lemma known_search:
  assumes "codec_ok E" and "drt_is_exist E (kd_table w) ep"
  shows "\<exists>w'. find_node_request E (signaling_send E) ep ign h w = Inr w' \<and> searched E ign [ep] w w'"
proof -
  let ?b = "fst (find_node_new E h w)"
  obtain k where k: "snd (find_node_new E h w) = w\<lparr>w_uuids := k\<rparr>" using base_observer_new_world [of E _ w] by auto
  define v where "v = add_find ?b (w\<lparr>w_uuids := k\<rparr>)"
  have same: "kd_table v = kd_table w" "w_app_id v = w_app_id w" "w_net v = w_net w" "w_now v = w_now w"
    "kd_requires_tick v = kd_requires_tick w"
    by (simp_all add: v_def add_find_def)
  have "signaling_send E ep ''kademlia'' (find_body E (bo_id ?b) ign) v =
      Inr (socket_send ep (datagram E (w_app_id w) ''kademlia'' (find_body E (bo_id ?b) ign)) v)"
    using assms same(1,2) kad_bodies_rt(2) [OF assms(1)] by (simp add: signaling_send_def sender_async_send_ok)
  then have "find_node_request E (signaling_send E) ep ign h w =
      Inr (socket_send ep (datagram E (w_app_id w) ''kademlia'' (find_body E (bo_id ?b) ign)) v)"
    using k unfolding find_node_request_eq Let_def by (simp add: v_def)
  then show ?thesis using same by (auto simp: searched_def find_datagram_def socket_send_def)
qed

lemma known_searches:
  assumes "codec_ok E" and "\<forall>e \<in> set eps. drt_is_exist E (kd_table w) e"
  shows "\<exists>w'. fold_res (\<lambda>itr. find_node_request E (signaling_send E) itr ign h) eps w = Inr w' \<and> searched E ign eps w w'"
  using assms(2)
proof (induction eps arbitrary: w)
  case (Cons e eps)
  from known_search [OF assms(1), of w e ign h] Cons.prems obtain v where
    v: "find_node_request E (signaling_send E) e ign h w = Inr v" "searched E ign [e] w v" by auto
  then have same: "kd_table v = kd_table w" by (simp add: searched_def)
  from Cons.IH [of v, unfolded same] Cons.prems obtain w' where
    "fold_res (\<lambda>itr. find_node_request E (signaling_send E) itr ign h) eps v = Inr w'" "searched E ign eps v w'" by auto
  then show ?case using v searched_append [OF v(2), of eps w'] by simp
qed (simp add: searched_nil)

lemma node_count_eq: "drt_get_node_count rt = length (concat (rt_table rt))"
proof -
  have "fold (\<lambda>b ret. ret + bucket_get_node_count b) bs n = n + length (concat bs)" for bs n
    by (induction bs arbitrary: n) (simp_all add: bucket_get_node_count_def)
  then show ?thesis by (simp add: drt_get_node_count_def rt_get_node_count_def)
qed

text \<open>
  C16. The end of a round. When the table holds fewer than five nodes, at most six of its nodes are asked for
  others, each to leave out all those that are asked; otherwise nobody is. The table does not change, and
  while ticking is on the next round is set: 10 s later in the first case, and 20 s later for each node of the
  table in the second.
\<close>

theorem remote_search:
  assumes "codec_ok E" and "rt_wf (kd_table w)" and "rt_named E (kd_table w)"
    and "eps = drt_collect_endpoint E (kd_table w) any_endpoint 5 []" and "n = length (concat (rt_table (kd_table w)))"
  shows "\<exists>w'. get_remote_nodes E (signaling_send E) w = Inr w' \<and> kd_table w' = kd_table w \<and>
    (if n < 5 then length eps \<le> 6 \<and> set eps \<subseteq> kn_ep ` rt_nodes (kd_table w) \<and>
       (\<exists>ps. w_net w' = w_net w @ ps \<and> list_all2 (find_datagram E (w_app_id w) eps) eps ps)
     else w_net w' = w_net w) \<and>
    (kd_requires_tick w \<longrightarrow> (w_now w + (if n < 5 then 10 else 20 * int n), T_maintainer_tick) \<in> set (w_timers w'))"
proof -
  note eps = collect_endpoint_facts [OF assms(2,3), of any_endpoint 5 "[]", folded assms(4)]
  have "\<forall>e \<in> set eps. drt_is_exist E (kd_table w) e"
    using eps(2) assms(2,3) by (auto simp: drt_is_exist_def rt_is_exist_nodes rt_named_def)
  from known_searches [OF assms(1) this, of eps H_ping_auto_update] obtain v where
    v: "fold_res (\<lambda>itr. find_node_request E (signaling_send E) itr eps H_ping_auto_update) eps w = Inr v"
      "searched E eps eps w v" by blast
  let ?v = "if n < 5 then v else w"
  have same: "kd_table ?v = kd_table w" "w_now ?v = w_now w" "kd_requires_tick ?v = kd_requires_tick w"
    using v(2) by (auto simp: searched_def)
  have run: "get_remote_nodes E (signaling_send E) w = Inr (maintainer_tick_done ?v)"
    using v(1) by (simp add: get_remote_nodes_def node_count_eq assms(4) [symmetric] assms(5) [symmetric] Let_def)
  have net: "w_net (maintainer_tick_done u) = w_net u" "kd_table (maintainer_tick_done u) = kd_table u" for u :: "'a ice_world_scheme"
    by (simp_all add: maintainer_tick_done_def maintainer_timer_set_def Let_def)
  have timer: "(w_now w + (if n < 5 then 10 else 20 * int n), T_maintainer_tick) \<in> set (w_timers (maintainer_tick_done ?v))"
    if "kd_requires_tick w"
    using same that by (simp add: maintainer_tick_done_def maintainer_timer_set_def node_count_eq assms(5) [symmetric] Let_def)
  show ?thesis
    unfolding run using net same timer eps(1,2) v(2) by (auto simp: searched_def)
qed

section \<open>Sample rounds\<close>

lemma concat_single: "j < n \<Longrightarrow> concat ((replicate n [])[j := xs]) = xs"
  by (induction n arbitrary: j) (auto split: nat.split)

lemma sample_concat: "concat (rt_table sample_net_table) = [k_node_of sample_ext sample_peer]"
proof -
  let ?kn = "k_node_of sample_ext sample_peer" and ?rt = "rt_new 0 :: k_routing_table"
  have "rt_table (snd (rt_auto_update ?kn ?rt)) = (replicate 160 [])[calc_branch_index ?rt ?kn := [?kn]]"
    by (simp add: rt_auto_update_snd rt_modify_def rt_new_def bucket_empty_def bucket_auto_update_def exist_ids
        bucket_is_full_def add_back_eq)
  then show ?thesis
    using concat_single [OF calc_branch_index_less] by (simp add: sample_net_table_def drt_auto_update_def)
qed

theorem maintenance_round_witness:
  "\<exists>w'. maintainer_tick sample_ext (signaling_send sample_ext) (sample_ice sample_net_table sample_self []) = Inr w' \<and>
    map fst (w_net w') = [sample_peer] \<and> (106, T_get_remote_nodes) \<in> set (w_timers w')"
proof -
  let ?w = "sample_ice sample_net_table sample_self []"
  have w: "kd_requires_tick ?w" "w_now ?w = 100" by (simp_all add: sample_ice_def)
  have wf: "rt_wf (kd_table ?w)" "rt_named sample_ext (kd_table ?w)" by (simp_all add: sample_net_wf sample_net_named)
  obtain w' ps where w': "maintainer_tick sample_ext (signaling_send sample_ext) ?w = Inr w'" "w_net w' = w_net ?w @ ps"
    "list_all2 (ping_datagram sample_ext (w_app_id ?w)) (concat (rt_table (kd_table ?w))) ps"
    "(w_now ?w + 6, T_get_remote_nodes) \<in> set (w_timers w')"
    using maintenance_round [OF sample_codec_ok wf] unfolding if_P [OF w(1)] by blast
  then have "map fst ps = [sample_peer]"
    by (auto simp: sample_concat list_all2_Cons1 ping_datagram_def)
  then show ?thesis using w' w(2) by simp
qed

theorem remote_search_witness:
  "\<exists>w'. get_remote_nodes sample_ext (signaling_send sample_ext) (sample_ice sample_net_table sample_self []) = Inr w' \<and>
    kd_table w' = sample_net_table \<and> (110, T_maintainer_tick) \<in> set (w_timers w')"
proof -
  let ?w = "sample_ice sample_net_table sample_self []"
  have w: "kd_requires_tick ?w" "w_now ?w = 100" by (simp_all add: sample_ice_def)
  have wf: "rt_wf (kd_table ?w)" "rt_named sample_ext (kd_table ?w)" by (simp_all add: sample_net_wf sample_net_named)
  show ?thesis
    using remote_search [OF sample_codec_ok wf refl refl] w by (auto simp: sample_concat)
qed

end
