(* ===== verification/SS_NodeStart.thy ===== *)
theory SS_NodeStart
  imports SS_NodeProtocol SS_Maintenance
begin

text \<open>
  What starting a new node sets off, across all its components: the receive, the maintenance of the table,
  the question for the own endpoint, and the timers.
\<close>

text \<open>Maintenance of an empty table.\<close>

lemma refresh_loop_empty:
  assumes "\<forall>i < 160. rt_table (kd_table w) ! i = []" and "length (rt_table (kd_table w)) = 160" and "i < 160"
  shows "refresh_loop E send (bucket_at i) w = Inr w"
  using assms(3)
proof (induction "160 - i" arbitrary: i rule: less_induct)
  case less
  let ?it = "bucket_at i"
  have valid: "\<not> it_is_invalid ?it" using less.prems by (simp add: it_is_invalid_def)
  have nodes: "it_get_nodes (kd_table w) ?it = Inr []"
    using less.prems valid assms by (simp add: it_get_nodes_def it_deref_def bucket_get_nodes_def)
  have step: "refresh_loop E send ?it w = refresh_loop E send (snd (it_post_inc ?it)) w"
    using valid nodes by (subst refresh_loop.simps) (simp add: ping_bucket_nodes_def)
  show ?case
  proof (cases "Suc i < 160")
    case True
    then have "snd (it_post_inc ?it) = bucket_at (Suc i)" by (simp add: it_post_inc_def it_is_invalid_def Let_def)
    moreover have "160 - Suc i < 160 - i" using less.prems by simp
    ultimately show ?thesis using less.hyps True step by metis
  next
    case False
    then have "it_is_invalid (snd (it_post_inc ?it))"
      using less.prems by (simp add: it_post_inc_def it_is_invalid_def Let_def)
    then show ?thesis using step by (simp add: refresh_loop.simps)
  qed
qed

text \<open>A binding request to a list of endpoints: each is sent the same datagram and remembered.\<close>

definition ask_all :: "uuid \<Rightarrow> byte list \<Rightarrow> endpoint list \<Rightarrow> 'a ice_world_scheme \<Rightarrow> 'a ice_world_scheme" where
  "ask_all u d eps w = fold (\<lambda>e v. modify_binding u (add_requested_ep e) (socket_send e d v)) eps w"

lemma ask_all_simps [simp]:
  "ask_all u d [] w = w"
  "ask_all u d (e # eps) w = ask_all u d eps (modify_binding u (add_requested_ep e) (socket_send e d w))"
  by (simp_all add: ask_all_def)

lemma ask_all_world [simp]:
  "w_net (ask_all u d eps w) = w_net w @ map (\<lambda>e. (e, d)) eps" "w_app_id (ask_all u d eps w) = w_app_id w"
  "w_now (ask_all u d eps w) = w_now w" "w_queue (ask_all u d eps w) = w_queue w"
  "w_timers (ask_all u d eps w) = w_timers w"
  "kd_table (ask_all u d eps w) = kd_table w" "kd_requires_tick (ask_all u d eps w) = kd_requires_tick w"
  by (induction eps arbitrary: w) (auto simp: modify_binding_def socket_send_def)

lemma ask_all_node [simp]: "us_listening (ask_all u d eps w) = us_listening w"
  by (induction eps arbitrary: w) (auto simp: modify_binding_def socket_send_def)

lemma ask_all_ok:
  assumes "bson_rt E (payload_body i ''ice_agent'' (ice_encode m))" and "w_app_id w = i"
  shows "fold_res (\<lambda>itr v. map_res (modify_binding u (add_requested_ep itr)) (ice_async_ice_send E itr m v)) eps w =
    Inr (ask_all u (datagram E i ''ice_agent'' (ice_encode m)) eps w)"
  using assms(2)
proof (induction eps arbitrary: w)
  case (Cons e eps)
  then have "w_app_id (modify_binding u (add_requested_ep e) (socket_send e d w)) = i" for d
    by (simp add: modify_binding_def)
  then show ?case using Cons assms(1) by (simp add: ice_async_ice_send_eq sender_async_send_ok)
qed simp

lemma stun_binding_all:
  assumes "binding_request_new E (snd (sr_alloc sr_new w)) = (b, w0)" and "codec_ok E" and "eps \<noteq> []"
    and "binding_targets E (kd_table w) eps 3 = eps"
  shows "stun_binding_request E eps 3 w = Inr (length (iw_srs w),
    ask_all (bo_id b) (datagram E (w_app_id w) ''ice_agent'' (JObj (stun_body E (bo_id b)))) eps
      (add_binding (b\<lparr>br_sr := length (iw_srs w)\<rparr>)
        (timer_set (T_binding_timeout (bo_id b)) 4
          (modify_sr (length (iw_srs w)) (\<lambda>s. fst (sr_update_state sr_pending None s)) w0))))"
proof -
  obtain n where w0: "w0 = (w\<lparr>iw_srs := iw_srs w @ [sr_new]\<rparr>)\<lparr>w_uuids := n\<rparr>"
    using assms(1) base_observer_new_world [of E "''stun_observer:binding_request''" "snd (sr_alloc sr_new w)"]
    by (auto simp: binding_request_new_def sr_alloc_def Let_def split: prod.splits)
  let ?w4 = "add_binding (b\<lparr>br_sr := length (iw_srs w)\<rparr>) (timer_set (T_binding_timeout (bo_id b)) 4
    (modify_sr (length (iw_srs w)) (\<lambda>s. fst (sr_update_state sr_pending None s)) w0))"
  have "w_app_id ?w4 = w_app_id w" by (simp add: w0 add_binding_def modify_sr_def)
  then have "fold_res (\<lambda>itr v. map_res (modify_binding (bo_id b) (add_requested_ep itr))
      (ice_async_ice_send E itr (stun_im (stun_body E (bo_id b))) v)) eps ?w4 =
      Inr (ask_all (bo_id b) (datagram E (w_app_id w) ''ice_agent'' (JObj (stun_body E (bo_id b)))) eps ?w4)"
    using ask_all_ok [of E "w_app_id w" "stun_im (stun_body E (bo_id b))" ?w4]
      ice_payload_rt [OF assms(2) stun_bodies_ok(1) [OF assms(2)]] by (simp add: ice_encode_def)
  then show ?thesis
    using assms(1,3)
    by (simp add: stun_binding_request_def assms(4) sr_alloc_def binding_request_init_def stun_request_msg_eq Let_def)
qed

text \<open>A node that was just constructed, in the world it was constructed in.\<close>

lemma node_new_state:
  assumes "w_queue w = []" and "w_timers w = []" and "v = node_controller_new E self_ep w"
  shows "kd_table v = rt_new (calc_node_id E self_ep)" and "us_open v" and "w_app_id v = ''abcdefgh''" and "w_net v = w_net w"
    and "w_queue v = []" and "w_timers v = [(w_now w + 60, T_kad_refresh), (w_now w + 60, T_ice_refresh)]" and "w_now v = w_now w"
  using assms(1,2)
  by (simp_all add: assms(3) node_controller_new_def ice_agent_new_def ice_call_tick_def dht_manager_new_def kad_call_tick_def
      message_pool_new_def timer_set_def timer_cancel_def Let_def)

lemma no_targets:
  assumes "rt_nodes rt = {}" and "rt_wf rt"
  shows "binding_targets E rt [] 3 = []"
  using collect_endpoint_facts(2) [OF assms(2), of E any_endpoint 1 "[]"] assms(1)
  by (simp add: binding_targets_def rt_named_def)

lemma given_targets: "eps \<noteq> [] \<Longrightarrow> binding_targets E rt eps 3 = eps"
  by (cases eps) (simp_all add: binding_targets_def)

text \<open>The question for the own endpoint of a node whose table is empty.\<close>

lemma ask_boot_nodes:
  assumes "codec_ok E" and "rt_nodes (kd_table v) = {}" and "rt_wf (kd_table v)"
    and "\<forall>u. T_binding_timeout u \<notin> snd ` set (w_timers v)"
  obtains a w u where "stun_binding_request E eps 3 v = Inr (a, w)" and "kd_table w = kd_table v"
    and "kd_requires_tick w = kd_requires_tick v" and "us_listening w = us_listening v" and "w_queue w = w_queue v" and "w_now w = w_now v"
    and "w_net w = w_net v @ map (\<lambda>e. (e, datagram E (w_app_id v) ''ice_agent'' (JObj (stun_body E u)))) eps"
    and "w_timers w = w_timers v @ (if eps = [] then [] else [(w_now v + 4, T_binding_timeout u)])"
proof (cases "eps = []")
  case True
  have "stun_binding_request E eps 3 v = Inr (sr_alloc sr_error v)"
    using True no_targets [OF assms(2,3)] by (simp add: stun_binding_request_def)
  then show ?thesis using that True by (simp add: sr_alloc_def)
next
  case False
  obtain b w0 where new: "binding_request_new E (snd (sr_alloc sr_new v)) = (b, w0)" by fastforce
  then obtain n where w0: "w0 = (v\<lparr>iw_srs := iw_srs v @ [sr_new]\<rparr>)\<lparr>w_uuids := n\<rparr>"
    using base_observer_new_world [of E "''stun_observer:binding_request''" "snd (sr_alloc sr_new v)"]
    by (auto simp: binding_request_new_def sr_alloc_def Let_def split: prod.splits)
  have none: "filter (\<lambda>(_, t). t = T_binding_timeout u) (w_timers v) = []"
    "filter (\<lambda>(_, t). t \<noteq> T_binding_timeout u) (w_timers v) = w_timers v" for u
    using assms(4) by (force simp: filter_empty_conv intro: filter_True)+
  show ?thesis
    by (rule that [OF stun_binding_all [OF new assms(1) False given_targets [OF False]]])
      (use False none in \<open>simp_all add: w0 add_binding_def modify_sr_def timer_set_def timer_cancel_def Let_def\<close>)
qed

text \<open>
  C17. Starting a new node. The node listens and ticks; since its table is empty it pings nobody, and it sends
  one and the same binding request to all the nodes it was given, however many they are. No handler is queued
  yet, and exactly these timers run: the clean-ups of both storages and the renewal of the endpoint in 60 s,
  the search for nodes in 6 s, the refresh of the pool in 200 s, and, if a node was asked, the timeout of that
  request in 4 s.
\<close>

theorem node_started:
  assumes "codec_ok E" and "w_queue w = []" and "w_timers w = []"
  shows "\<exists>w' u. node_start E boot_eps (node_controller_new E self_ep w) = Inr w' \<and>
    us_listening w' \<and> kd_requires_tick w' \<and> kd_table w' = rt_new (calc_node_id E self_ep) \<and>
    w_net w' = w_net w @ map (\<lambda>e. (e, datagram E ''abcdefgh'' ''ice_agent'' (JObj (stun_body E u)))) boot_eps \<and>
    w_queue w' = [] \<and>
    w_timers w' = [(w_now w + 60, T_kad_refresh), (w_now w + 60, T_ice_refresh), (w_now w + 6, T_get_remote_nodes)] @
      (if boot_eps = [] then [] else [(w_now w + 4, T_binding_timeout u)]) @
      [(w_now w + 200, T_pool_refresh), (w_now w + 60, T_node_tick)]"
proof -
  define v where "v = (node_controller_new E self_ep w)\<lparr>us_listening := True, kd_requires_tick := True\<rparr>"
  define v2 where "v2 = maintainer_timer_set T_get_remote_nodes 6 v"
  note new = node_new_state [OF assms(2,3) refl, of E self_ep]
  have v: "kd_table v = rt_new (calc_node_id E self_ep)" "kd_requires_tick v" "us_listening v" "w_app_id v = ''abcdefgh''"
    "w_net v = w_net w" "w_queue v = []" "w_now v = w_now w"
    "w_timers v = [(w_now w + 60, T_kad_refresh), (w_now w + 60, T_ice_refresh)]"
    by (simp_all add: v_def new)
  have table: "\<forall>i < 160. rt_table (kd_table v) ! i = []" "length (rt_table (kd_table v)) = 160" "rt_nodes (kd_table v) = {}"
    by (simp_all add: v(1) rt_new_def bucket_empty_def rt_nodes_def)
  have loop: "refresh_loop E send (bucket_at 0) v = Inr v" for send
    by (rule refresh_loop_empty [OF table(1,2)]) simp
  have first: "drt_get_begin_bucket_iterator = bucket_at 0"
    by (simp add: drt_get_begin_bucket_iterator_def rt_get_begin_bucket_iterator_def)
  have tick: "maintainer_tick E (signaling_send E) v = Inr v2"
    using v(2) loop by (simp add: maintainer_tick_def send_refresh_ping_def first v2_def)
  have v2: "kd_table v2 = kd_table v" "kd_requires_tick v2" "us_listening v2" "w_app_id v2 = ''abcdefgh''" "w_net v2 = w_net w"
    "w_queue v2 = []" "w_now v2 = w_now w" "w_timers v2 = w_timers v @ [(w_now w + 6, T_get_remote_nodes)]"
    using v by (simp_all add: v2_def maintainer_timer_set_def timer_set_def timer_cancel_def Let_def)
  have ready: "rt_nodes (kd_table v2) = {}" "rt_wf (kd_table v2)" "\<forall>u. T_binding_timeout u \<notin> snd ` set (w_timers v2)"
    using table(3) v v2 rt_new_wf by simp_all
  from ask_boot_nodes [OF assms(1) ready, of boot_eps] obtain a w3 u where
    ask: "stun_binding_request E boot_eps 3 v2 = Inr (a, w3)" and w3: "kd_table w3 = kd_table v2"
    "kd_requires_tick w3 = kd_requires_tick v2" "us_listening w3 = us_listening v2" "w_queue w3 = w_queue v2" "w_now w3 = w_now v2"
    "w_net w3 = w_net v2 @ map (\<lambda>e. (e, datagram E (w_app_id v2) ''ice_agent'' (JObj (stun_body E u)))) boot_eps"
    "w_timers w3 = w_timers v2 @ (if boot_eps = [] then [] else [(w_now v2 + 4, T_binding_timeout u)])"
    .
  have "node_start E boot_eps (node_controller_new E self_ep w) =
      Inr (call_node_tick 60 (pool_requires_refresh True (modify_sr a (sr_async_get SR_update_global_self_endpoint) w3)))"
    using tick ask new(2) by (simp add: node_start_def udp_start_def udp_call_receiver_def dht_start_def request_global_endpoint_def v_def)
  then show ?thesis
    using w3 v v2 by (subst ex_comm) (rule exI [of _ u], simp add: call_node_tick_def
      pool_requires_refresh_def pool_call_refresh_tick_def modify_sr_def timer_set_def timer_cancel_def Let_def)
qed

theorem node_started_witness:
  "\<exists>w'. node_start sample_ext [sample_peer, sample_dest] (node_controller_new sample_ext sample_self sample_world) = Inr w' \<and>
    map fst (w_net w') = [sample_peer, sample_dest] \<and> w_queue w' = []"
proof -
  have w: "w_queue sample_world = []" "w_timers sample_world = []" "w_net sample_world = []" by simp_all
  show ?thesis using node_started [OF sample_codec_ok w(1,2), of "[sample_peer, sample_dest]" sample_self] w(3) by fastforce
qed

end
