(* ===== verification/SS_Multicast.thy ===== *)
theory SS_Multicast
  imports SS_MessagePool SS_Collect
begin

text \<open>
  \<open>multicast_manager.hpp\<close> and \<open>multicast_manager.cpp\<close>. The manager holds a reference to the function
  that makes a peer of an endpoint; \<open>None\<close> stands for a reference whose function is gone. A null
  \<open>peer::ref\<close> is \<open>None\<close>. The shuffled order of the buckets is an argument.
\<close>

datatype cast_type = breath_first | depth_first

record multicast_manager =
  mm_picked_peers :: "peer option list"
  mm_ep_to_peer_func :: "(endpoint \<Rightarrow> peer) option"

definition multicast_manager_new :: "(endpoint \<Rightarrow> peer) option \<Rightarrow> multicast_manager" where
  "multicast_manager_new f = \<lparr>mm_picked_peers = [], mm_ep_to_peer_func = f\<rparr>"

text \<open>
  \<open>node_controller::get_multicast_manager\<close> binds the reference to a temporary, which is destroyed
  before the manager is returned.
\<close>

definition get_multicast_manager :: multicast_manager where
  "get_multicast_manager = multicast_manager_new None"

definition call_ep_to_peer_func :: "multicast_manager \<Rightarrow> endpoint \<Rightarrow> peer result" where
  "call_ep_to_peer_func mm ep = of_option Undefined (map_option (\<lambda>f. f ep) (mm_ep_to_peer_func mm))"

text \<open>\<open>std::transform\<close> into the beginning of an empty vector: only an empty range is defined.\<close>

definition convert_peers_to_k_nodes :: "peer option list \<Rightarrow> k_node list result" where
  "convert_peers_to_k_nodes peers = (if peers = [] then Inr [] else Inl Undefined)"

definition update_context :: "peer option \<Rightarrow> multicast_manager \<Rightarrow> multicast_manager" where
  "update_context picked mm = mm\<lparr>mm_picked_peers := mm_picked_peers mm @ [picked]\<rparr>"

definition update_context_peers :: "peer option list \<Rightarrow> multicast_manager \<Rightarrow> multicast_manager" where
  "update_context_peers picked mm = fold update_context picked mm"

definition clear_context :: "multicast_manager \<Rightarrow> multicast_manager" where
  "clear_context mm = mm\<lparr>mm_picked_peers := []\<rparr>"

fun get_random_loop ::
  "k_routing_table \<Rightarrow> nat list \<Rightarrow> multicast_manager \<Rightarrow> (peer option \<times> multicast_manager) result" where
  "get_random_loop rt [] mm = Inr (None, mm)"
| "get_random_loop rt (itr # bucket_indexes) mm =
     (let target_bucket = rt_get_bucket_at rt itr in
      if bucket_get_node_count target_bucket > 0 then
        bind_res (convert_peers_to_k_nodes (mm_picked_peers mm)) (\<lambda>ignore_k_nodes.
          case bucket_get_node_front 1 ignore_k_nodes target_bucket of
            n # _ \<Rightarrow> bind_res (call_ep_to_peer_func mm (kn_ep n)) (\<lambda>ret.
                       Inr (Some ret, update_context (Some ret) mm))
          | [] \<Rightarrow> get_random_loop rt bucket_indexes mm)
      else get_random_loop rt bucket_indexes mm)"

text \<open>\<open>bucket_indexes\<close> is the shuffled list of \<open>bucket_first_index\<close> to \<open>bucket_end_index\<close>, 0 to 159.\<close>

definition get_random ::
  "k_routing_table \<Rightarrow> nat list \<Rightarrow> multicast_manager \<Rightarrow> (peer option \<times> multicast_manager) result" where
  "get_random rt bucket_indexes mm = get_random_loop rt bucket_indexes mm"

definition get_multicast_target ::
  "ext \<Rightarrow> k_routing_table \<Rightarrow> nat list \<Rightarrow> nat \<Rightarrow> cast_type \<Rightarrow> multicast_manager \<Rightarrow>
   (peer option list \<times> multicast_manager) result" where
  "get_multicast_target E rt bucket_indexes n type mm =
     bind_res (get_random rt bucket_indexes mm) (\<lambda>(ret_peer, mm1).
       if n > 1 then Inr ([ret_peer], mm1)
       else bind_res (convert_peers_to_k_nodes (mm_picked_peers mm1)) (\<lambda>ignore_k_nodes.
         bind_res (of_option Undefined ret_peer) (\<lambda>p.
           let k_nodes = rt_collect_node rt (k_node_of E (pe_ep p)) (nat ((int n - 1) mod 2 ^ 64)) ignore_k_nodes
           in bind_res (traverse_res (\<lambda>n. call_ep_to_peer_func mm1 (kn_ep n)) k_nodes) (\<lambda>ps.
                if length ps \<le> 1 then Inr (map Some ps @ drop (length ps) [ret_peer], mm1) else Inl Undefined))))"

section \<open>What a multicast selects\<close>

text \<open>Index 0 and index 1 are the first bucket, and the last bucket has no index.\<close>

definition reachable_buckets_empty :: "k_routing_table \<Rightarrow> bool" where
  "reachable_buckets_empty rt \<longleftrightarrow> (\<forall>b < 159. rt_table rt ! b = [])"

lemma get_random_none:
  "(\<forall>i \<in> set is. rt_get_bucket_at rt i = []) \<Longrightarrow> get_random_loop rt is mm = Inr (None, mm)"
  by (induction "is") (auto simp: bucket_get_node_count_def)

lemma get_random_some:
  assumes "\<exists>i \<in> set is. rt_get_bucket_at rt i \<noteq> []"
  shows "\<exists>i n ns. find (\<lambda>i. rt_get_bucket_at rt i \<noteq> []) is = Some i \<and> rt_get_bucket_at rt i = n # ns \<and>
    get_random_loop rt is mm =
      (if mm_picked_peers mm \<noteq> [] then Inl Undefined
       else bind_res (call_ep_to_peer_func mm (kn_ep n)) (\<lambda>p. Inr (Some p, update_context (Some p) mm)))"
  using assms
proof (induction "is")
  case (Cons i "is")
  show ?case
  proof (cases "rt_get_bucket_at rt i")
    case Nil
    with Cons show ?thesis by (auto simp: bucket_get_node_count_def)
  next
    case (Cons n ns)
    then show ?thesis
      by (auto simp: bucket_get_node_count_def convert_peers_to_k_nodes_def get_node_front_eq)
  qed
qed simp

lemma index_buckets:
  assumes "set is = {0 ..< 160}"
  shows "(\<forall>i \<in> set is. rt_get_bucket_at rt i = []) \<longleftrightarrow> reachable_buckets_empty rt"
  unfolding assms reachable_buckets_empty_def rt_get_bucket_at_eq
proof
  show "\<forall>b < 159. rt_table rt ! b = []" if *: "\<forall>i \<in> {0 ..< 160}. rt_table rt ! (i - 1) = []"
  proof (intro allI impI)
    fix b :: nat
    assume "b < 159"
    then show "rt_table rt ! b = []" using * [rule_format, of "Suc b"] by simp
  qed
qed auto

text \<open>
  C39. What a multicast selects, for a manager whose function is alive and whose context is empty, and any
  order of the buckets. When the buckets before the last are empty, a null peer is selected. Otherwise
  the first node of a bucket before the last is, the first bucket in the given order that is not empty (index
  0 and index 1 are both the first bucket), and it enters the context; the next selection, and every request
  for at most one target, is undefined: the conversion of the picked peers writes into an empty
  vector. A request for more than one target yields one. With the manager the node controller hands out,
  no node can be selected: the reference to its function dangles.
\<close>

theorem multicast_selection:
  assumes "set is = {0 ..< 160}" and "mm = multicast_manager_new (Some f)"
  shows "(if reachable_buckets_empty rt then get_random rt is mm = Inr (None, mm)
     else get_random rt is get_multicast_manager = Inl Undefined \<and>
       (\<exists>i kn ns. find (\<lambda>i. rt_table rt ! (i - 1) \<noteq> []) is = Some i \<and> i - 1 < 159 \<and>
         rt_table rt ! (i - 1) = kn # ns \<and>
         (let p = Some (f (kn_ep kn)); mm1 = update_context p mm in
         get_random rt is mm = Inr (p, mm1) \<and> get_random rt is mm1 = Inl Undefined \<and>
         (\<forall>n > 1. get_multicast_target E rt is n type mm = Inr ([p], mm1))))) \<and>
    (\<forall>n \<le> 1. get_multicast_target E rt is n type mm = Inl Undefined)"
proof (cases "reachable_buckets_empty rt")
  case True
  then have "get_random_loop rt is mm = Inr (None, mm)"
    using get_random_none index_buckets [OF assms(1)] by blast
  then show ?thesis
    using True assms(2) by (auto simp: get_random_def get_multicast_target_def convert_peers_to_k_nodes_def multicast_manager_new_def)
next
  case False
  then have ex: "\<exists>i \<in> set is. rt_get_bucket_at rt i \<noteq> []" using index_buckets [OF assms(1)] by blast
  obtain i n ns where i: "find (\<lambda>i. rt_get_bucket_at rt i \<noteq> []) is = Some i" "rt_get_bucket_at rt i = n # ns"
    and r: "get_random_loop rt is mm =
      (if mm_picked_peers mm \<noteq> [] then Inl Undefined
       else bind_res (call_ep_to_peer_func mm (kn_ep n)) (\<lambda>p. Inr (Some p, update_context (Some p) mm)))"
    using get_random_some [OF ex, of mm] by blast
  have "i \<in> set is" using i(1) by (auto simp: find_Some_iff)
  then have "i - 1 < 159" using assms(1) by auto
  moreover have r1: "get_random_loop rt is mm = Inr (Some (f (kn_ep n)), update_context (Some (f (kn_ep n))) mm)"
    using r assms(2) by (simp add: multicast_manager_new_def call_ep_to_peer_func_def)
  moreover have "get_random_loop rt is (update_context p mm) = Inl Undefined" for p
    using get_random_some [OF ex, of "update_context p mm"] by (auto simp: update_context_def)
  moreover have "get_random_loop rt is get_multicast_manager = Inl Undefined"
    using get_random_some [OF ex, of get_multicast_manager]
    by (auto simp: get_multicast_manager_def multicast_manager_new_def call_ep_to_peer_func_def)
  moreover note i [unfolded rt_get_bucket_at_eq]
  ultimately show ?thesis
    using False by (auto simp: get_random_def get_multicast_target_def convert_peers_to_k_nodes_def update_context_def Let_def)
qed

theorem multicast_selection_witness:
  "let mm = multicast_manager_new (Some (\<lambda>ep. peer_new sample_ext ep None)) in
     get_random (rt_new 5) [0 ..< 160] mm = Inr (None, mm) \<and>
     get_multicast_target sample_ext sample_net_table [0 ..< 160] 1 breath_first mm = Inl Undefined"
proof -
  have order: "set [0 ..< 160] = {0 ..< 160 :: nat}" by simp
  have none: "reachable_buckets_empty (rt_new 5)" by (simp add: reachable_buckets_empty_def rt_new_def bucket_empty_def)
  show ?thesis
    using multicast_selection [OF order refl, of "rt_new 5" "\<lambda>ep. peer_new sample_ext ep None"]
      multicast_selection [OF order refl, of sample_net_table "\<lambda>ep. peer_new sample_ext ep None" sample_ext breath_first] none
    unfolding Let_def by simp
qed

end
