(* ===== verification/SS_Logger.thy ===== *)
theory SS_Logger
  imports SS_Utils
begin

text \<open>
  \<open>logger.hpp\<close>, \<open>logger.impl.hpp\<close>, \<open>logger.params.hpp\<close> and \<open>ss_logger.hpp\<close>, \<open>ss_logger.impl.hpp\<close>:
  the prefix of a log line, the substitution that fills it in, and the file a line goes to. The time
  texts that \<open>strftime\<close> gives are arguments, and so are the texts of the values that are logged.
\<close>

datatype log_level = EMERGENCY | ALERT | CRITICAL | ERROR | WARNING | NOTICE | INFO | DEBUG | INVALID

datatype log_color = RESET | RED | GREEN | YELLOW | BLUE | MAGENTA | GREY

record logger =
  lg_outfile_dir :: string
  lg_outfile_name :: string
  lg_max_log_level :: log_level
  lg_custom_header :: string

abbreviation ESC :: char where "ESC \<equiv> CHR 0x1B"

definition LOGGER_PREFIX_FORMAT :: string where
  "LOGGER_PREFIX_FORMAT = ''[{TIME}][{SERITY}] {CUSTOM} ''"

definition LOGGER_OUTFILE_FORMAT :: string where
  "LOGGER_OUTFILE_FORMAT = ''{EXE}_{DATE}.log''"

definition logger_new :: logger where
  "logger_new = \<lparr>lg_outfile_dir = ''.'', lg_outfile_name = ''d_ss'', lg_max_log_level = DEBUG, lg_custom_header = []\<rparr>"

definition set_max_log_level :: "log_level \<Rightarrow> logger \<Rightarrow> logger" where
  "set_max_log_level l lg = lg\<lparr>lg_max_log_level := l\<rparr>"

definition set_custom_header :: "string \<Rightarrow> logger \<Rightarrow> logger" where
  "set_custom_header target lg = lg\<lparr>lg_custom_header := target\<rparr>"

definition set_logger_outfile_name :: "string \<Rightarrow> logger \<Rightarrow> logger" where
  "set_logger_outfile_name target lg = lg\<lparr>lg_outfile_name := target\<rparr>"

fun get_bg_color_code :: "log_color \<Rightarrow> string" where
  "get_bg_color_code RESET = ESC # ''[0m''"
| "get_bg_color_code RED = ESC # ''[41m''"
| "get_bg_color_code GREEN = ESC # ''[42m''"
| "get_bg_color_code YELLOW = ESC # ''[43m''"
| "get_bg_color_code BLUE = ESC # ''[44m''"
| "get_bg_color_code MAGENTA = ESC # ''[45m''"
| "get_bg_color_code GREY = ESC # ''[46m''"

fun get_fg_color_code :: "log_color \<Rightarrow> string" where
  "get_fg_color_code RESET = ESC # ''[0m''"
| "get_fg_color_code RED = ESC # ''[31m''"
| "get_fg_color_code GREEN = ESC # ''[32m''"
| "get_fg_color_code YELLOW = ESC # ''[33m''"
| "get_fg_color_code BLUE = ESC # ''[34m''"
| "get_fg_color_code MAGENTA = ESC # ''[35m''"
| "get_fg_color_code GREY = ESC # ''[36m''"

fun get_serity_str :: "log_level \<Rightarrow> string" where
  "get_serity_str EMERGENCY = ''EMERGENCY''"
| "get_serity_str ALERT = ''ALERT''"
| "get_serity_str CRITICAL = ''CRITICAL''"
| "get_serity_str ERROR = ''ERROR''"
| "get_serity_str WARNING = ''WARNING''"
| "get_serity_str NOTICE = ''NOTICE''"
| "get_serity_str INFO = ''INFO''"
| "get_serity_str DEBUG = ''DEBUG''"
| "get_serity_str INVALID = []"

definition get_serity_color_code :: "log_level \<Rightarrow> string" where
  "get_serity_color_code ll =
     (case ll of
        EMERGENCY \<Rightarrow> get_bg_color_code RED
      | ALERT \<Rightarrow> get_bg_color_code YELLOW
      | CRITICAL \<Rightarrow> get_bg_color_code YELLOW
      | _ \<Rightarrow> []) @
     (case ll of
        CRITICAL \<Rightarrow> get_fg_color_code RED
      | ERROR \<Rightarrow> get_fg_color_code RED
      | WARNING \<Rightarrow> get_fg_color_code YELLOW
      | INFO \<Rightarrow> get_fg_color_code GREEN
      | DEBUG \<Rightarrow> get_fg_color_code MAGENTA
      | _ \<Rightarrow> [])"

section \<open>Substitution\<close>

text \<open>\<open>std::string::find\<close>: the first position from \<open>idx\<close> on at which the text occurs.\<close>

definition occurs_at :: "string \<Rightarrow> string \<Rightarrow> nat \<Rightarrow> bool" where
  "occurs_at ret rpl i \<longleftrightarrow> take (length rpl) (drop i ret) = rpl"

definition str_find :: "string \<Rightarrow> string \<Rightarrow> nat \<Rightarrow> nat option" where
  "str_find ret rpl idx = List.find (occurs_at ret rpl) [idx ..< Suc (length ret)]"

partial_function (option) replace_loop :: "string \<Rightarrow> string \<Rightarrow> string \<Rightarrow> nat \<Rightarrow> string option" where
  "replace_loop rpl_from rpl_to ret idx =
     (case str_find ret rpl_from idx of
        None \<Rightarrow> Some ret
      | Some i \<Rightarrow> replace_loop rpl_from rpl_to (take i ret @ rpl_to @ drop (i + length rpl_from) ret) (i + length rpl_to))"

definition logger_replace :: "string \<Rightarrow> string \<Rightarrow> string \<Rightarrow> string option" where
  "logger_replace base rpl_from rpl_to = replace_loop rpl_from rpl_to base 0"

text \<open>The reference: read the text from left to right and put \<open>rpl_to\<close> for each \<open>rpl_from\<close>.\<close>

function subst_all :: "string \<Rightarrow> string \<Rightarrow> string \<Rightarrow> string" where
  "subst_all p r s =
     (case s of
        [] \<Rightarrow> []
      | c # cs \<Rightarrow> if p \<noteq> [] \<and> take (length p) s = p then r @ subst_all p r (drop (length p) s)
                  else c # subst_all p r cs)"
  by pat_completeness auto
termination by (relation "measure (\<lambda>(p, r, s). length s)") auto

declare subst_all.simps [simp del]

lemma str_find_step:
  "str_find ret p idx = (if idx \<le> length ret then (if occurs_at ret p idx then Some idx else str_find ret p (Suc idx)) else None)"
  by (cases "idx \<le> length ret") (simp_all add: str_find_def upt_conv_Cons del: upt_Suc)

lemma str_find_end: "p \<noteq> [] \<Longrightarrow> str_find ret p (length ret) = None"
  by (simp add: str_find_step [of ret p "length ret"] str_find_step [of ret p "Suc (length ret)"] occurs_at_def)

text \<open>The loop stands behind \<open>pre\<close>, which it does not look at any more.\<close>

lemma replace_loop_subst:
  assumes "p \<noteq> []"
  shows "replace_loop p r (pre @ s) (length pre) = Some (pre @ subst_all p r s)"
proof (induction "length s" arbitrary: pre s rule: less_induct)
  case less
  show ?case
  proof (cases s)
    case Nil
    then show ?thesis
      using str_find_end [OF assms, of pre] by (simp add: replace_loop.simps [of _ _ pre] subst_all.simps [of p r "[]"])
  next
    case (Cons c cs)
    show ?thesis
    proof (cases "take (length p) s = p")
      case True
      have "str_find (pre @ s) p (length pre) = Some (length pre)"
        using True by (simp add: str_find_step [of _ _ "length pre"] occurs_at_def)
      then have "replace_loop p r (pre @ s) (length pre) = replace_loop p r ((pre @ r) @ drop (length p) s) (length (pre @ r))"
        by (simp add: replace_loop.simps [of _ _ "pre @ s"])
      also have "\<dots> = Some ((pre @ r) @ subst_all p r (drop (length p) s))"
        using assms Cons by (intro less) simp
      finally show ?thesis using True assms Cons by (simp add: subst_all.simps [of p r "c # cs"])
    next
      case False
      have "str_find (pre @ s) p (length pre) = str_find ((pre @ [c]) @ cs) p (length (pre @ [c]))"
        using False Cons by (simp add: str_find_step [of _ _ "length pre"] occurs_at_def)
      then have "replace_loop p r (pre @ s) (length pre) = replace_loop p r ((pre @ [c]) @ cs) (length (pre @ [c]))"
        using Cons by (simp add: replace_loop.simps [of _ _ _ "length pre"] replace_loop.simps [of _ _ _ "Suc (length pre)"])
      also have "\<dots> = Some ((pre @ [c]) @ subst_all p r cs)" using Cons by (intro less) simp
      finally show ?thesis using False Cons by (simp add: subst_all.simps [of p r "c # cs"])
    qed
  qed
qed

lemma logger_replace_eq: "p \<noteq> [] \<Longrightarrow> logger_replace base p r = Some (subst_all p r base)"
  using replace_loop_subst [of p r "[]" base] by (simp add: logger_replace_def)

text \<open>An empty text is found everywhere, so the loop does not end.\<close>

lemma replace_loop_empty:
  assumes "replace_loop p r ret idx = Some res"
  shows "p = [] \<longrightarrow> \<not> idx \<le> length ret"
  using assms
proof (rule replace_loop.raw_induct [rotated, where P = "\<lambda>p r ret idx res. p = [] \<longrightarrow> \<not> idx \<le> length ret"])
  fix f :: "string \<Rightarrow> string \<Rightarrow> string \<Rightarrow> nat \<Rightarrow> string option" and p r ret idx res
  assume IH: "\<And>p r ret idx res. f p r ret idx = Some res \<Longrightarrow> p = [] \<longrightarrow> \<not> idx \<le> length ret"
    and body: "(case str_find ret p idx of None \<Rightarrow> Some ret
      | Some i \<Rightarrow> f p r (take i ret @ r @ drop (i + length p) ret) (i + length r)) = Some res"
  show "p = [] \<longrightarrow> \<not> idx \<le> length ret"
  proof (intro impI notI)
    assume p: "p = []" and idx: "idx \<le> length ret"
    then have "str_find ret p idx = Some idx" by (simp add: str_find_step [of _ _ idx] occurs_at_def)
    then have "f p r (take idx ret @ r @ drop idx ret) (idx + length r) = Some res" using body p by simp
    from IH [OF this] p idx show False by simp
  qed
qed

text \<open>
  C40. The substitution of the logger. When the text to replace is not empty, the loop ends with the text in
  which, read from left to right, each occurrence is replaced, and what was put in is not searched
  again. When it is empty, the loop does not end.
\<close>

theorem replace_substitutes:
  "logger_replace base p r = (if p = [] then None else Some (subst_all p r base))"
proof (cases "p = []")
  case True
  then show ?thesis using replace_loop_empty [of p r base 0] by (cases "logger_replace base p r") (auto simp: logger_replace_def)
qed (simp add: logger_replace_eq)

section \<open>Log lines\<close>

definition get_prefix :: "string \<Rightarrow> log_level \<Rightarrow> bool \<Rightarrow> logger \<Rightarrow> string option" where
  "get_prefix current_time_str ll is_graphical lg =
     (let serity_str = get_serity_str ll;
          serity_str = (if is_graphical then get_serity_color_code ll @ serity_str @ ESC # ''[39m'' else serity_str)
      in Option.bind (logger_replace LOGGER_PREFIX_FORMAT ''{SERITY}'' serity_str) (\<lambda>ret.
           Option.bind (logger_replace ret ''{TIME}'' current_time_str) (\<lambda>ret.
             logger_replace ret ''{CUSTOM}'' (lg_custom_header lg))))"

definition get_log_ofs :: "string \<Rightarrow> logger \<Rightarrow> string option" where
  "get_log_ofs current_time_t lg =
     Option.bind (logger_replace LOGGER_OUTFILE_FORMAT ''{EXE}'' (lg_outfile_name lg)) (\<lambda>name.
       map_option (\<lambda>name. lg_outfile_dir lg @ ''/'' @ name) (logger_replace name ''{DATE}'' current_time_t))"

text \<open>\<open>log\<close>: the path of the file, the text appended to it, and the text on the console.\<close>

definition logger_log ::
  "string \<Rightarrow> string \<Rightarrow> log_level \<Rightarrow> string list \<Rightarrow> logger \<Rightarrow> (string \<times> string \<times> string) option" where
  "logger_log time_str date_str ll args lg =
     (let body = concat (map (\<lambda>a. a @ '' '') args) @ [CHR 0x0A] in
      Option.bind (get_prefix time_str ll True lg) (\<lambda>console_prefix_str.
        Option.bind (get_prefix time_str ll False lg) (\<lambda>outfile_prefix_str.
          map_option (\<lambda>path. (path, outfile_prefix_str @ body, console_prefix_str @ body)) (get_log_ofs date_str lg))))"

record ss_logger =
  sl_logger :: logger
  sl_packet_logger :: logger

datatype packet_direction = INCOMING | OUTGOING

definition ss_logger_new :: ss_logger where
  "ss_logger_new =
     \<lparr>sl_logger = set_custom_header ''[SS_P2P]'' logger_new,
      sl_packet_logger = set_custom_header ''[SS_P2P]'' (set_logger_outfile_name ''ss_pakcet'' logger_new)\<rparr>"

definition ss_log ::
  "string \<Rightarrow> string \<Rightarrow> log_level \<Rightarrow> string list \<Rightarrow> ss_logger \<Rightarrow> ((string \<times> string \<times> string) \<times> ss_logger) option" where
  "ss_log time_str date_str ll args sl =
     map_option (\<lambda>out. (out, sl\<lparr>sl_logger := set_custom_header ''[SS_P2P]'' (sl_logger sl),
                               sl_packet_logger := set_custom_header ''[SS_P2P]'' (sl_packet_logger sl)\<rparr>))
       (logger_log time_str date_str ll args (sl_logger sl))"

definition ss_log_packet ::
  "ext \<Rightarrow> string \<Rightarrow> string \<Rightarrow> log_level \<Rightarrow> packet_direction \<Rightarrow> endpoint \<Rightarrow> string list \<Rightarrow> ss_logger \<Rightarrow>
   (string \<times> string \<times> string) option" where
  "ss_log_packet E time_str date_str ll pd ep args sl =
     logger_log time_str date_str ll
       ((if pd = INCOMING then ''(receive):'' else ''(send):'') # endpoint_to_str E ep # args) (sl_packet_logger sl)"

lemma subst_all_Cons:
  "subst_all p r (c # cs) = (if p \<noteq> [] \<and> take (length p) (c # cs) = p then r @ subst_all p r (drop (length p) (c # cs))
     else c # subst_all p r cs)"
  "subst_all p r [] = []"
  by (simp_all add: subst_all.simps [of p r "c # cs"] subst_all.simps [of p r "[]"])

text \<open>A part without the first character of the searched text stays as it is.\<close>

lemma subst_all_skip: "q \<notin> set s \<Longrightarrow> subst_all (q # p) r (s @ t) = s @ subst_all (q # p) r t"
  by (induction s) (auto simp: subst_all_Cons)

lemma get_prefix_eq:
  assumes "CHR ''{'' \<notin> set t"
  shows "get_prefix t ll g lg =
    Some (''['' @ t @ '']['' @ (if g then get_serity_color_code ll @ get_serity_str ll @ ESC # ''[39m'' else get_serity_str ll)
      @ ''] '' @ lg_custom_header lg @ '' '')"
proof -
  let ?s = "if g then get_serity_color_code ll @ get_serity_str ll @ ESC # ''[39m'' else get_serity_str ll"
  have s: "CHR ''{'' \<notin> set ?s" by (cases ll) (auto simp: get_serity_color_code_def)
  have 1: "subst_all ''{SERITY}'' ?s LOGGER_PREFIX_FORMAT = ''[{TIME}]['' @ ?s @ ''] {CUSTOM} ''"
    by (simp add: LOGGER_PREFIX_FORMAT_def subst_all_Cons)
  have 2: "subst_all ''{TIME}'' t (''[{TIME}]['' @ ?s @ ''] {CUSTOM} '') = ''['' @ t @ '']['' @ ?s @ ''] {CUSTOM} ''"
    using subst_all_skip [OF s] by (simp add: subst_all_Cons del: if_split)
  have 3: "subst_all ''{CUSTOM}'' h (''['' @ t @ '']['' @ ?s @ ''] {CUSTOM} '') = ''['' @ t @ '']['' @ ?s @ ''] '' @ h @ '' ''" for h
    using subst_all_skip [OF s] subst_all_skip [OF assms] by (simp add: subst_all_Cons del: if_split)
  show ?thesis by (simp add: get_prefix_def Let_def logger_replace_eq 1 2 3 del: if_split append_Cons)
qed

text \<open>
  A log line. It is appended to the file named after the logger and the date, and printed: the prefix
  with time, level and header, then each value followed by a space. The two lines differ only in the color
  codes around the level, and the maximal level that was set has no effect on either.
\<close>

theorem log_line:
  assumes "CHR ''{'' \<notin> set t" and "CHR ''{'' \<notin> set (lg_outfile_name lg)"
  shows "logger_log t d ll args (set_max_log_level l (set_custom_header h lg)) =
    (let line = (\<lambda>sev. ''['' @ t @ '']['' @ sev @ ''] '' @ h @ '' '' @ concat (map (\<lambda>a. a @ '' '') args) @ [CHR 0x0A])
     in Some (lg_outfile_dir lg @ ''/'' @ lg_outfile_name lg @ ''_'' @ d @ ''.log'',
          line (get_serity_str ll), line (get_serity_color_code ll @ get_serity_str ll @ ESC # ''[39m'')))"
proof -
  let ?lg = "set_max_log_level l (set_custom_header h lg)"
  have "subst_all ''{DATE}'' d (lg_outfile_name lg @ ''_{DATE}.log'') = lg_outfile_name lg @ ''_'' @ d @ ''.log''"
    using subst_all_skip [OF assms(2)] by (simp add: subst_all_Cons)
  then have "get_log_ofs d ?lg = Some (lg_outfile_dir lg @ ''/'' @ lg_outfile_name lg @ ''_'' @ d @ ''.log'')"
    by (simp add: get_log_ofs_def logger_replace_eq LOGGER_OUTFILE_FORMAT_def subst_all_Cons
        set_max_log_level_def set_custom_header_def)
  then show ?thesis
    by (simp add: logger_log_def Let_def get_prefix_eq [OF assms(1)] set_max_log_level_def set_custom_header_def)
qed

theorem log_line_witness:
  "logger_log ''12:00:00'' ''2024_01_02'' INFO [''start''] (set_max_log_level ERROR (set_custom_header ''[SS_P2P]'' logger_new)) =
    Some (''./d_ss_2024_01_02.log'', ''[12:00:00][INFO] [SS_P2P] start '' @ [CHR 0x0A],
      ''[12:00:00]['' @ (ESC # ''[32mINFO'') @ (ESC # ''[39m] [SS_P2P] start '') @ [CHR 0x0A])"
  using log_line [of "''12:00:00''" logger_new "''2024_01_02''" INFO "[''start'']" ERROR "''[SS_P2P]''"]
  by (simp add: logger_new_def get_serity_color_code_def)

end
