(* ===== verification/SS_Rfc8259.thy ===== *)
theory SS_Rfc8259
  imports SS_Json
begin

text \<open>
  The language of RFC 8259 (JSON), with the encoding of RFC 3629 (UTF-8) for its characters, as relations
  between values and texts. Nothing here is taken from \<open>include/json.hpp\<close>: the rules are those of the two
  documents, and the theories on the serializer, the lexer and the parser are proved against them. What
  RFC 8259 leaves to an implementation is fixed as the manual of the library has it: a number without
  fraction and exponent is an integer where 64 bits can hold it and a \<open>double\<close> otherwise, of members with
  the same key the last one counts, and a text may have a byte order mark before it.
\<close>

section \<open>Characters\<close>

text \<open>The Unicode scalar values: every code point but the surrogates; and their bytes in UTF-8.\<close>

definition scalar_value :: "nat \<Rightarrow> bool" where
  "scalar_value cp \<longleftrightarrow> cp \<le> 0x10FFFF \<and> \<not> (0xD800 \<le> cp \<and> cp \<le> 0xDFFF)"

definition utf8_bytes :: "nat \<Rightarrow> nat list" where
  "utf8_bytes cp =
     (if cp < 128 then [cp]
      else if cp < 2048 then [192 + cp div 64, 128 + cp mod 64]
      else if cp < 65536 then [224 + cp div 4096, 128 + cp div 64 mod 64, 128 + cp mod 64]
      else [240 + cp div 262144, 128 + cp div 4096 mod 64, 128 + cp div 64 mod 64, 128 + cp mod 64])"

definition utf8_encode :: "nat list \<Rightarrow> nat list" where
  "utf8_encode cps = concat (map utf8_bytes cps)"

definition valid_utf8 :: "nat list \<Rightarrow> bool" where
  "valid_utf8 bs \<longleftrightarrow> (\<exists>cps. list_all scalar_value cps \<and> bs = utf8_encode cps)"

text \<open>White space: space, tab, line feed, carriage return.\<close>

definition white :: "string \<Rightarrow> bool" where
  "white w \<longleftrightarrow> set w \<subseteq> {CHR 0x20, CHR 0x09, CHR 0x0A, CHR 0x0D}"

section \<open>Strings\<close>

definition hex_value :: "char \<Rightarrow> nat option" where
  "hex_value c =
     (let n = of_char c in
      if 0x30 \<le> n \<and> n \<le> 0x39 then Some (n - 0x30)
      else if 0x41 \<le> n \<and> n \<le> 0x46 then Some (n - 0x37)
      else if 0x61 \<le> n \<and> n \<le> 0x66 then Some (n - 0x57) else None)"

definition hex_number :: "string \<Rightarrow> nat \<Rightarrow> bool" where
  "hex_number t u \<longleftrightarrow> (\<exists>c1 c2 c3 c4 d1 d2 d3 d4. t = [c1, c2, c3, c4] \<and>
     hex_value c1 = Some d1 \<and> hex_value c2 = Some d2 \<and> hex_value c3 = Some d3 \<and> hex_value c4 = Some d4 \<and>
     u = 4096 * d1 + 256 * d2 + 16 * d3 + d4)"

definition u_prefix :: string where
  "u_prefix = [CHR 0x5C, CHR ''u'']"

text \<open>One character of a string: what it stands for, as bytes, and how it is written.\<close>

inductive char_text :: "string \<Rightarrow> string \<Rightarrow> bool" where
  char_plain: "0x20 \<le> (of_char c :: nat) \<Longrightarrow> (of_char c :: nat) < 0x80 \<Longrightarrow> c \<noteq> CHR 0x22 \<Longrightarrow> c \<noteq> CHR 0x5C \<Longrightarrow>
    char_text [c] [c]"
| char_utf8: "scalar_value cp \<Longrightarrow> 0x80 \<le> cp \<Longrightarrow>
    char_text (map char_of (utf8_bytes cp)) (map char_of (utf8_bytes cp))"
| char_escape: "(e, c) \<in> {(0x22, 0x22), (0x5C, 0x5C), (0x2F, 0x2F), (0x62, 0x08), (0x66, 0x0C),
      (0x6E, 0x0A), (0x72, 0x0D), (0x74, 0x09 :: nat)} \<Longrightarrow>
    char_text [char_of c] [CHR 0x5C, char_of (e :: nat)]"
| char_unicode: "hex_number h cp \<Longrightarrow> scalar_value cp \<Longrightarrow>
    char_text (map char_of (utf8_bytes cp)) (u_prefix @ h)"
| char_surrogates: "hex_number h1 u1 \<Longrightarrow> hex_number h2 u2 \<Longrightarrow> 0xD800 \<le> u1 \<Longrightarrow> u1 \<le> 0xDBFF \<Longrightarrow>
    0xDC00 \<le> u2 \<Longrightarrow> u2 \<le> 0xDFFF \<Longrightarrow>
    char_text (map char_of (utf8_bytes (0x10000 + 0x400 * (u1 - 0xD800) + (u2 - 0xDC00)))) (u_prefix @ h1 @ u_prefix @ h2)"

inductive string_body :: "string \<Rightarrow> string \<Rightarrow> bool" where
  body_end: "string_body [] []"
| body_char: "char_text s t \<Longrightarrow> string_body s' t' \<Longrightarrow> string_body (s @ s') (t @ t')"

section \<open>Numbers\<close>

text \<open>\<open>number = [ minus ] int [ frac ] [ exp ]\<close>; an \<open>int\<close> has no leading zeros.\<close>

definition digits :: "string \<Rightarrow> bool" where
  "digits ds \<longleftrightarrow> set ds \<subseteq> set ''0123456789''"

definition int_text :: "string \<Rightarrow> bool" where
  "int_text t \<longleftrightarrow> t = ''0'' \<or> digits t \<and> t \<noteq> [] \<and> hd t \<noteq> CHR ''0''"

definition frac_text :: "string \<Rightarrow> bool" where
  "frac_text t \<longleftrightarrow> t = [] \<or> (\<exists>ds. digits ds \<and> ds \<noteq> [] \<and> t = CHR ''.'' # ds)"

definition exp_text :: "string \<Rightarrow> bool" where
  "exp_text t \<longleftrightarrow> t = [] \<or>
     (\<exists>e s ds. e \<in> set ''eE'' \<and> s \<in> {[], ''+'', ''-''} \<and> digits ds \<and> ds \<noteq> [] \<and> t = e # s @ ds)"

text \<open>The number that digits stand for: each digit weighs ten to the power of the digits after it.\<close>

fun decimal_value :: "string \<Rightarrow> nat" where
  "decimal_value [] = 0"
| "decimal_value (c # ds) = (of_char c - 48) * 10 ^ length ds + decimal_value ds"

text \<open>
  \<open>D\<close> is \<open>strtod\<close>, the \<open>double\<close> of a decimal text. A number that is not an integer of 64 bits has a value
  only when that \<open>double\<close> is finite.
\<close>

type_synonym strtod = "string \<Rightarrow> double"

inductive number_text :: "strtod \<Rightarrow> json \<Rightarrow> string \<Rightarrow> bool" for D where
  n_positive: "int_text i \<Longrightarrow> decimal_value i < 2 ^ 64 \<Longrightarrow> number_text D (JInt (int (decimal_value i))) i"
| n_negative: "int_text i \<Longrightarrow> decimal_value i \<le> 2 ^ 63 \<Longrightarrow>
    number_text D (JInt (- int (decimal_value i))) (CHR ''-'' # i)"
| n_double: "int_text i \<Longrightarrow> frac_text f \<Longrightarrow> exp_text e \<Longrightarrow>
    f \<noteq> [] \<or> e \<noteq> [] \<or> s = [] \<and> 2 ^ 64 \<le> decimal_value i \<or> s = ''-'' \<and> 2 ^ 63 < decimal_value i \<Longrightarrow>
    s = [] \<or> s = ''-'' \<Longrightarrow> isfinite (D (s @ i @ f @ e)) \<Longrightarrow>
    number_text D (JFloat (D (s @ i @ f @ e))) (s @ i @ f @ e)"

section \<open>Values\<close>

inductive grammar :: "strtod \<Rightarrow> json \<Rightarrow> string \<Rightarrow> bool"
  and elements_text :: "strtod \<Rightarrow> json list \<Rightarrow> string \<Rightarrow> bool"
  and members_text :: "strtod \<Rightarrow> (string \<times> json) list \<Rightarrow> string \<Rightarrow> bool"
  for D :: strtod where
  g_null: "grammar D JNull ''null''"
| g_true: "grammar D (JBool True) ''true''"
| g_false: "grammar D (JBool False) ''false''"
| g_string: "string_body s t \<Longrightarrow> grammar D (JStr s) (CHR 0x22 # t @ [CHR 0x22])"
| g_number: "number_text D v t \<Longrightarrow> grammar D v t"
| g_empty_array: "white w \<Longrightarrow> grammar D (JArr []) (CHR ''['' # w @ '']'')"
| g_array: "elements_text D xs t \<Longrightarrow> grammar D (JArr xs) (CHR ''['' # t @ '']'')"
| g_empty_object: "white w \<Longrightarrow> grammar D (JObj fmempty) (CHR ''{'' # w @ ''}'')"
| g_object: "members_text D kvs t \<Longrightarrow>
    grammar D (JObj (fold (\<lambda>(k, v). fmupd k v) kvs fmempty)) (CHR ''{'' # t @ ''}'')"
| e_last: "grammar D x t \<Longrightarrow> white w1 \<Longrightarrow> white w2 \<Longrightarrow> elements_text D [x] (w1 @ t @ w2)"
| e_more: "grammar D x t \<Longrightarrow> white w1 \<Longrightarrow> white w2 \<Longrightarrow> elements_text D xs u \<Longrightarrow>
    elements_text D (x # xs) (w1 @ t @ w2 @ '','' @ u)"
| m_last: "string_body k kt \<Longrightarrow> grammar D v t \<Longrightarrow> white w1 \<Longrightarrow> white w2 \<Longrightarrow> white w3 \<Longrightarrow> white w4 \<Longrightarrow>
    members_text D [(k, v)] (w1 @ CHR 0x22 # kt @ CHR 0x22 # w2 @ '':'' @ w3 @ t @ w4)"
| m_more: "string_body k kt \<Longrightarrow> grammar D v t \<Longrightarrow> white w1 \<Longrightarrow> white w2 \<Longrightarrow> white w3 \<Longrightarrow> white w4 \<Longrightarrow>
    members_text D kvs u \<Longrightarrow>
    members_text D ((k, v) # kvs) (w1 @ CHR 0x22 # kt @ CHR 0x22 # w2 @ '':'' @ w3 @ t @ w4 @ '','' @ u)"

section \<open>Texts\<close>

definition bom :: string where
  "bom = [CHR 0xEF, CHR 0xBB, CHR 0xBF]"

text \<open>What may come after the value: white space, and a zero byte, which ends the input.\<close>

definition text_end :: "string \<Rightarrow> bool" where
  "text_end u \<longleftrightarrow> (\<exists>w r. white w \<and> u = w @ r \<and> (r = [] \<or> hd r = CHR 0x00))"

text \<open>
  A whole text: perhaps a byte order mark, white space, a value of the grammar, and the end.
\<close>

definition text_of :: "strtod \<Rightarrow> json \<Rightarrow> string \<Rightarrow> bool" where
  "text_of D v t \<longleftrightarrow>
     (\<exists>b w t' u. t = b @ w @ t' @ u \<and> (b = [] \<or> b = bom) \<and> white w \<and> grammar D v t' \<and> text_end u)"

lemma white_append [simp]: "white []" "white (w @ w') \<longleftrightarrow> white w \<and> white w'"
  by (auto simp: white_def)

lemma utf8_bytes_cases:
  "cp < 128 \<Longrightarrow> utf8_bytes cp = [cp]"
  "128 \<le> cp \<Longrightarrow> cp < 2048 \<Longrightarrow> utf8_bytes cp = [192 + cp div 64, 128 + cp mod 64]"
  by (simp_all add: utf8_bytes_def)

lemma digits_append [simp]: "digits []" "digits (ds @ es) \<longleftrightarrow> digits ds \<and> digits es"
  by (auto simp: digits_def)

end
