(* ===== verification/SS_Utf8.thy ===== *)
theory SS_Utf8
  imports SS_Rfc8259
begin

text \<open>
  The UTF-8 automaton of \<open>include/json.hpp\<close> (\<open>serializer::decode\<close>) and the bytes of a code point as
  the lexer writes them (\<open>scan_string\<close>, the end of the unicode escape). A byte, the state and the code
  point are natural numbers; the code point is a \<open>std::uint32_t\<close>, so its shift is cut to 32 bits.
  The lemmas show that the table accepts exactly the encodings of sequences of Unicode scalar values
  and computes the scalar values on the way.
\<close>

section \<open>The automaton\<close>

definition utf8d :: "nat list" where
  "utf8d =
     [0, 0, 0, 0, 0, 0, 0, 0, 0, 0, 0, 0, 0, 0, 0, 0, 0, 0, 0, 0, 0, 0, 0, 0, 0, 0, 0, 0, 0, 0, 0, 0,
      0, 0, 0, 0, 0, 0, 0, 0, 0, 0, 0, 0, 0, 0, 0, 0, 0, 0, 0, 0, 0, 0, 0, 0, 0, 0, 0, 0, 0, 0, 0, 0,
      0, 0, 0, 0, 0, 0, 0, 0, 0, 0, 0, 0, 0, 0, 0, 0, 0, 0, 0, 0, 0, 0, 0, 0, 0, 0, 0, 0, 0, 0, 0, 0,
      0, 0, 0, 0, 0, 0, 0, 0, 0, 0, 0, 0, 0, 0, 0, 0, 0, 0, 0, 0, 0, 0, 0, 0, 0, 0, 0, 0, 0, 0, 0, 0,
      1, 1, 1, 1, 1, 1, 1, 1, 1, 1, 1, 1, 1, 1, 1, 1, 9, 9, 9, 9, 9, 9, 9, 9, 9, 9, 9, 9, 9, 9, 9, 9,
      7, 7, 7, 7, 7, 7, 7, 7, 7, 7, 7, 7, 7, 7, 7, 7, 7, 7, 7, 7, 7, 7, 7, 7, 7, 7, 7, 7, 7, 7, 7, 7,
      8, 8, 2, 2, 2, 2, 2, 2, 2, 2, 2, 2, 2, 2, 2, 2, 2, 2, 2, 2, 2, 2, 2, 2, 2, 2, 2, 2, 2, 2, 2, 2,
      0xA, 0x3, 0x3, 0x3, 0x3, 0x3, 0x3, 0x3, 0x3, 0x3, 0x3, 0x3, 0x3, 0x4, 0x3, 0x3,
      0xB, 0x6, 0x6, 0x6, 0x5, 0x8, 0x8, 0x8, 0x8, 0x8, 0x8, 0x8, 0x8, 0x8, 0x8, 0x8,
      0x0, 0x1, 0x2, 0x3, 0x5, 0x8, 0x7, 0x1, 0x1, 0x1, 0x4, 0x6, 0x1, 0x1, 0x1, 0x1,
      1, 1, 1, 1, 1, 1, 1, 1, 1, 1, 1, 1, 1, 1, 1, 1, 1, 0, 1, 1, 1, 1, 1, 0, 1, 0, 1, 1, 1, 1, 1, 1,
      1, 2, 1, 1, 1, 1, 1, 2, 1, 2, 1, 1, 1, 1, 1, 1, 1, 1, 1, 1, 1, 1, 1, 2, 1, 1, 1, 1, 1, 1, 1, 1,
      1, 2, 1, 1, 1, 1, 1, 1, 1, 2, 1, 1, 1, 1, 1, 1, 1, 1, 1, 1, 1, 1, 1, 3, 1, 3, 1, 1, 1, 1, 1, 1,
      1, 3, 1, 1, 1, 1, 1, 3, 1, 3, 1, 1, 1, 1, 1, 1, 1, 3, 1, 1, 1, 1, 1, 1, 1, 1, 1, 1, 1, 1, 1, 1]"

definition UTF8_ACCEPT :: nat where
  "UTF8_ACCEPT = 0"

definition UTF8_REJECT :: nat where
  "UTF8_REJECT = 1"

text \<open>The new state and the new code point.\<close>

definition decode :: "nat \<Rightarrow> nat \<Rightarrow> nat \<Rightarrow> nat \<times> nat" where
  "decode state codep byte =
     (let type = utf8d ! byte;
          codep' = (if state \<noteq> UTF8_ACCEPT then (byte AND 0x3f) OR take_bit 32 (push_bit 6 codep)
                    else drop_bit type 0xFF AND byte);
          index = 256 + state * 16 + type
      in (utf8d ! index, codep'))"

text \<open>The bytes of a code point (\<open>translate codepoint into bytes\<close> in the lexer).\<close>

definition codepoint_bytes :: "nat \<Rightarrow> nat list" where
  "codepoint_bytes codepoint =
     (if codepoint < 0x80 then [codepoint]
      else if codepoint \<le> 0x7FF then
        [0xC0 OR drop_bit 6 codepoint, 0x80 OR (codepoint AND 0x3F)]
      else if codepoint \<le> 0xFFFF then
        [0xE0 OR drop_bit 12 codepoint, 0x80 OR (drop_bit 6 codepoint AND 0x3F), 0x80 OR (codepoint AND 0x3F)]
      else
        [0xF0 OR drop_bit 18 codepoint, 0x80 OR (drop_bit 12 codepoint AND 0x3F),
         0x80 OR (drop_bit 6 codepoint AND 0x3F), 0x80 OR (codepoint AND 0x3F)])"

section \<open>The table by ranges\<close>

definition byte_type :: "nat \<Rightarrow> nat" where
  "byte_type b =
     (if b < 0x80 then 0 else if b < 0x90 then 1 else if b < 0xA0 then 9 else if b < 0xC0 then 7
      else if b < 0xC2 then 8 else if b < 0xE0 then 2 else if b = 0xE0 then 10 else if b = 0xED then 4
      else if b < 0xF0 then 3 else if b = 0xF0 then 11 else if b < 0xF4 then 6
      else if b = 0xF4 then 5 else 8)"

definition next_state :: "nat \<Rightarrow> nat \<Rightarrow> nat" where
  "next_state s t =
     (if s = 0 then [0, 1, 2, 3, 5, 8, 7, 1, 1, 1, 4, 6] ! t
      else if s = 2 then (if t \<in> {1, 7, 9} then 0 else 1)
      else if s = 3 then (if t \<in> {1, 7, 9} then 2 else 1)
      else if s = 4 then (if t = 7 then 2 else 1)
      else if s = 5 then (if t \<in> {1, 9} then 2 else 1)
      else if s = 6 then (if t \<in> {7, 9} then 3 else 1)
      else if s = 7 then (if t \<in> {1, 7, 9} then 3 else 1)
      else if s = 8 then (if t = 1 then 3 else 1) else 1)"

lemma utf8d_types: "map byte_type [0..<256] = take 256 utf8d"
  by code_simp

lemma utf8d_states: "list_all (\<lambda>s. list_all (\<lambda>t. utf8d ! (256 + s * 16 + t) = next_state s t) [0..<12]) [0..<9]"
  by code_simp


lemma utf8d_type: "b < 256 \<Longrightarrow> utf8d ! b = byte_type b"
  using arg_cong [OF utf8d_types, of "\<lambda>xs. xs ! b"] by simp

lemma utf8d_state: "s < 9 \<Longrightarrow> t < 12 \<Longrightarrow> utf8d ! (256 + s * 16 + t) = next_state s t"
  using utf8d_states by (simp add: list_all_iff)

lemma byte_type_less: "byte_type b < 12"
  by (simp add: byte_type_def)

section \<open>Bit operations as arithmetic\<close>

lemma and_masks:
  "(b::nat) AND 63 = b mod 64" "63 AND (b::nat) = b mod 64" "31 AND (b::nat) = b mod 32"
  "15 AND (b::nat) = b mod 16" "7 AND (b::nat) = b mod 8" "3 AND (b::nat) = b mod 4"
  "255 AND (b::nat) = b mod 256"
  using take_bit_eq_mask [of 6 b] take_bit_eq_mask [of 5 b] take_bit_eq_mask [of 4 b]
    take_bit_eq_mask [of 3 b] take_bit_eq_mask [of 2 b] take_bit_eq_mask [of 8 b]
  by (simp_all add: take_bit_eq_mod mask_eq_exp_minus_1 and.commute)

lemma or_disjoint: "(x::nat) < 2 ^ n \<Longrightarrow> x OR (y * 2 ^ n) = y * 2 ^ n + x"
proof -
  assume "x < 2 ^ n"
  then have x: "take_bit n x = x" by (simp add: take_bit_nat_eq_self)
  have "push_bit n y + take_bit n x = push_bit n y OR take_bit n x"
    by (rule disjunctive_add_eq_or) (auto simp: bit_eq_iff bit_simps)
  then show ?thesis by (simp add: x push_bit_eq_mult or.commute)
qed

lemma or_leads:
  "(x::nat) < 64 \<Longrightarrow> 128 OR x = 128 + x" "(x::nat) < 64 \<Longrightarrow> 192 OR x = 192 + x"
  "(x::nat) < 32 \<Longrightarrow> 224 OR x = 224 + x" "(x::nat) < 16 \<Longrightarrow> 240 OR x = 240 + x"
  using or_disjoint [of x 6 2] or_disjoint [of x 6 3] or_disjoint [of x 5 7] or_disjoint [of x 4 15]
  by (simp_all add: or.commute)

text \<open>The encoding in arithmetic.\<close>

lemma codepoint_bytes_arith:
  assumes "cp \<le> 0x10FFFF"
  shows "codepoint_bytes cp =
    (if cp < 128 then [cp]
     else if cp < 2048 then [192 + cp div 64, 128 + cp mod 64]
     else if cp < 65536 then [224 + cp div 4096, 128 + cp div 64 mod 64, 128 + cp mod 64]
     else [240 + cp div 262144, 128 + cp div 4096 mod 64, 128 + cp div 64 mod 64, 128 + cp mod 64])"
  using assms by (auto simp: codepoint_bytes_def drop_bit_eq_div and_masks or_leads)

definition first_bits :: "nat \<Rightarrow> nat" where
  "first_bits b = drop_bit (byte_type b) 0xFF AND b"

lemma first_bits:
  "b < 0x80 \<Longrightarrow> first_bits b = b"
  "0xC2 \<le> b \<Longrightarrow> b < 0xE0 \<Longrightarrow> first_bits b = b - 0xC0"
  "0xE0 \<le> b \<Longrightarrow> b < 0xF0 \<Longrightarrow> first_bits b = b - 0xE0"
  "0xF0 \<le> b \<Longrightarrow> b \<le> 0xF4 \<Longrightarrow> first_bits b = b - 0xF0"
proof -
  have sub: "b - k = b mod n" if "k \<le> b" "b < k + n" "k mod n = 0" for k n
  proof -
    have "b mod n = (k + (b - k)) mod n" using that(1) by simp
    also have "\<dots> = (b - k) mod n" using that(3) by (metis add_0 mod_add_left_eq)
    finally show ?thesis using that by simp
  qed
  show "first_bits b = b" if "b < 0x80" using that by (simp add: first_bits_def byte_type_def and_masks)
  show "first_bits b = b - 0xC0" if "0xC2 \<le> b" "b < 0xE0"
    using that sub [of "0xC0" 64] by (simp add: first_bits_def byte_type_def and_masks drop_bit_eq_div)
  show "first_bits b = b - 0xE0" if "0xE0 \<le> b" "b < 0xF0"
    using that sub [of "0xE0" 32]
    by (cases "b = 0xE0"; cases "b = 0xED") (simp_all add: first_bits_def byte_type_def and_masks drop_bit_eq_div)
  show "first_bits b = b - 0xF0" if "0xF0 \<le> b" "b \<le> 0xF4"
    using that sub [of "0xF0" 4]
    by (cases "b = 0xF0"; cases "b = 0xF4") (simp_all add: first_bits_def byte_type_def and_masks drop_bit_eq_div)
qed

lemma decode_eq:
  assumes "b < 256" "s < 9" "c < 2 ^ 26"
  shows "decode s c b = (next_state s (byte_type b), if s = 0 then first_bits b else 64 * c + b mod 64)"
proof -
  have c: "take_bit 32 (push_bit 6 c) = c * 2 ^ 6"
    using assms(3) by (simp add: push_bit_eq_mult take_bit_nat_eq_self)
  have "(b AND 0x3f) OR take_bit 32 (push_bit 6 c) = 64 * c + b mod 64"
    using or_disjoint [of "b mod 64" 6 c] unfolding c by (simp add: and_masks)
  then show ?thesis
    using assms by (simp add: decode_def UTF8_ACCEPT_def utf8d_type utf8d_state byte_type_less first_bits_def Let_def)
qed


section \<open>What the automaton has read\<close>

text \<open>The bytes the code computes with bit operations are those of RFC 3629.\<close>

lemma codepoint_bytes_utf8: "cp \<le> 0x10FFFF \<Longrightarrow> codepoint_bytes cp = utf8_bytes cp"
  by (simp add: codepoint_bytes_arith utf8_bytes_def)

lemma scalar_bytes: "scalar_value cp \<Longrightarrow> utf8_bytes cp = codepoint_bytes cp"
  by (simp add: codepoint_bytes_utf8 scalar_value_def)

lemma utf8_encode_Cons: "scalar_value cp \<Longrightarrow> utf8_encode (cp # cps) = codepoint_bytes cp @ utf8_encode cps"
  by (simp add: utf8_encode_def scalar_bytes)

text \<open>
  \<open>r\<close> are the bytes read since the last complete code point: in the states 2, 3 and 7 any one, two or
  three continuation bytes complete the encoding of a scalar value.
\<close>

definition partly_read :: "nat \<Rightarrow> nat \<Rightarrow> nat list \<Rightarrow> bool" where
  "partly_read s c r \<longleftrightarrow>
     c < 2 ^ 26 \<and>
     (s = 0 \<and> r = [] \<or>
      s = 2 \<and> (\<forall>k<64. scalar_value (64 * c + k) \<and> codepoint_bytes (64 * c + k) = r @ [128 + k]) \<or>
      s = 3 \<and> (\<forall>k<4096. scalar_value (4096 * c + k) \<and>
        codepoint_bytes (4096 * c + k) = r @ [128 + k div 64, 128 + k mod 64]) \<or>
      s = 7 \<and> (\<forall>k<262144. scalar_value (262144 * c + k) \<and>
        codepoint_bytes (262144 * c + k) = r @ [128 + k div 4096, 128 + k div 64 mod 64, 128 + k mod 64]) \<or>
      s = 4 \<and> r = [0xE0] \<and> c = 0 \<or> s = 5 \<and> r = [0xED] \<and> c = 13 \<or>
      s = 6 \<and> r = [0xF0] \<and> c = 0 \<or> s = 8 \<and> r = [0xF4] \<and> c = 4)"

definition step_ok :: "nat list \<Rightarrow> nat \<times> nat \<Rightarrow> bool" where
  "step_ok r st \<longleftrightarrow> (case st of (s, c) \<Rightarrow>
     s = 1 \<or> s = 0 \<and> scalar_value c \<and> codepoint_bytes c = r \<or> s \<noteq> 0 \<and> partly_read s c r)"

lemma next_state_0:
  "next_state 0 (byte_type b) =
    (if b < 0x80 then 0 else if b < 0xC2 then 1 else if b < 0xE0 then 2 else if b = 0xE0 then 4
     else if b = 0xED then 5 else if b < 0xF0 then 3 else if b = 0xF0 then 6 else if b < 0xF4 then 7
     else if b = 0xF4 then 8 else 1)"
  by (simp add: next_state_def byte_type_def)

lemma div_mod_nested: "0 < m \<Longrightarrow> (m * (n * c) + k) div m mod n = k div m mod (n::nat)"
  by (simp add: div_mult_self4)

lemma div_mod_split:
  "(k::nat) < 64 \<Longrightarrow> (64 * c + k) div 64 = c" "(k::nat) < 64 \<Longrightarrow> (64 * c + k) mod 64 = k"
  "(k::nat) < 4096 \<Longrightarrow> (4096 * c + k) div 4096 = c" "(4096 * c + k) mod 64 = (k::nat) mod 64"
  "(k::nat) < 4096 \<Longrightarrow> (4096 * c + k) div 64 mod 64 = k div 64"
  "(k::nat) < 262144 \<Longrightarrow> (262144 * c + k) div 262144 = c" "(262144 * c + k) mod 64 = (k::nat) mod 64"
  "(k::nat) < 262144 \<Longrightarrow> (262144 * c + k) div 4096 mod 64 = k div 4096"
  "(262144 * c + k) div 64 mod 64 = (k::nat) div 64 mod 64"
proof -
  have less: "k div 64 < 64" if "k < 4096" for k :: nat using that by (simp add: less_mult_imp_div_less)
  have less': "k div 4096 < 64" if "k < 262144" for k :: nat using that by (simp add: less_mult_imp_div_less)
  have mod: "(m * n * c + k) mod m = k mod m" for m n k :: nat by (simp add: mult.assoc)
  show "(64 * c + k) div 64 = c" "(64 * c + k) mod 64 = k" if "k < 64" for k using that by simp_all
  show "(4096 * c + k) div 4096 = c" if "k < 4096" for k using that by simp
  show "(262144 * c + k) div 262144 = c" if "k < 262144" for k using that by simp
  show "(4096 * c + k) mod 64 = k mod 64" using mod [of 64 64 k] by simp
  show "(262144 * c + k) mod 64 = k mod 64" using mod [of 64 4096 k] by simp
  show "(4096 * c + k) div 64 mod 64 = k div 64" if "k < 4096" for k
    using div_mod_nested [of 64 64 c k] less [OF that] by simp
  show "(262144 * c + k) div 4096 mod 64 = k div 4096" if "k < 262144" for k
    using div_mod_nested [of 4096 64 c k] less' [OF that] by simp
  show "(262144 * c + k) div 64 mod 64 = k div 64 mod 64"
    using div_mod_nested [of 64 64 "64 * c" k] by simp
qed

lemmas step_defs = step_ok_def next_state_0 first_bits partly_read_def scalar_value_def
  codepoint_bytes_arith div_mod_split

lemma step_first_2: "2 \<le> c \<Longrightarrow> c < 32 \<Longrightarrow> partly_read 2 c [0xC0 + c]"
  by (simp add: partly_read_def scalar_value_def codepoint_bytes_arith div_mod_split)

lemma step_first_3:
  assumes "0 < c" "c < 16" "c \<noteq> 13"
  shows "partly_read 3 c [0xE0 + c]"
proof -
  have "4096 \<le> 4096 * c" "4096 * c \<le> 15 * 4096" "4096 * c \<le> 12 * 4096 \<or> 57344 \<le> 4096 * c" using assms by auto
  then show ?thesis
    using assms(2) by (auto simp: partly_read_def scalar_value_def codepoint_bytes_arith div_mod_split)
qed

lemma step_first_7:
  assumes "0 < c" "c < 4"
  shows "partly_read 7 c [0xF0 + c]"
proof -
  have "262144 \<le> 262144 * c" "262144 * c \<le> 3 * 262144" using assms by auto
  then show ?thesis
    using assms by (auto simp: partly_read_def scalar_value_def codepoint_bytes_arith div_mod_split)
qed

lemma step_first:
  assumes "b < 256"
  shows "step_ok [b] (next_state 0 (byte_type b), first_bits b)"
proof -
  consider "b < 0x80" | "0x80 \<le> b" "b < 0xC2" | "0xC2 \<le> b" "b < 0xE0" | "b = 0xE0 \<or> b = 0xED"
    | "0xE0 < b" "b < 0xF0" "b \<noteq> 0xED" | "b = 0xF0 \<or> b = 0xF4" | "0xF0 < b" "b < 0xF4" | "0xF4 < b"
    by linarith
  then show ?thesis
  proof cases
    case 1
    then show ?thesis by (simp add: step_ok_def next_state_0 first_bits scalar_value_def codepoint_bytes_def)
  next
    case 3
    then show ?thesis using step_first_2 [of "b - 0xC0"] by (simp add: step_ok_def next_state_0 first_bits)
  next
    case 4
    then show ?thesis by (auto simp: step_ok_def next_state_0 first_bits partly_read_def)
  next
    case 5
    then show ?thesis using step_first_3 [of "b - 0xE0"] by (simp add: step_ok_def next_state_0 first_bits)
  next
    case 6
    then show ?thesis by (auto simp: step_ok_def next_state_0 first_bits partly_read_def)
  next
    case 7
    then show ?thesis using step_first_7 [of "b - 0xF0"] by (simp add: step_ok_def next_state_0 first_bits)
  qed (simp_all add: step_ok_def next_state_0)
qed


lemma next_state_more:
  "next_state 2 (byte_type b) = (if 0x80 \<le> b \<and> b < 0xC0 then 0 else 1)"
  "next_state 3 (byte_type b) = (if 0x80 \<le> b \<and> b < 0xC0 then 2 else 1)"
  "next_state 4 (byte_type b) = (if 0xA0 \<le> b \<and> b < 0xC0 then 2 else 1)"
  "next_state 5 (byte_type b) = (if 0x80 \<le> b \<and> b < 0xA0 then 2 else 1)"
  "next_state 6 (byte_type b) = (if 0x90 \<le> b \<and> b < 0xC0 then 3 else 1)"
  "next_state 7 (byte_type b) = (if 0x80 \<le> b \<and> b < 0xC0 then 3 else 1)"
  "next_state 8 (byte_type b) = (if 0x80 \<le> b \<and> b < 0x90 then 3 else 1)"
  by (simp_all add: next_state_def byte_type_def)

lemma partly_read_step:
  shows "partly_read 2 c r \<Longrightarrow> k < 64 \<Longrightarrow> step_ok (r @ [128 + k]) (0, 64 * c + k)"
    and "partly_read 3 c r \<Longrightarrow> k < 64 \<Longrightarrow> partly_read 2 (64 * c + k) (r @ [128 + k])"
    and "partly_read 7 c r \<Longrightarrow> k < 64 \<Longrightarrow> partly_read 3 (64 * c + k) (r @ [128 + k])"
proof -
  show "step_ok (r @ [128 + k]) (0, 64 * c + k)" if "partly_read 2 c r" "k < 64"
    using that by (simp add: partly_read_def step_ok_def)
  have bound: "c < 272" if "scalar_value (4096 * c)" for c using that by (simp add: scalar_value_def)
  show "partly_read 2 (64 * c + k) (r @ [128 + k])" if p: "partly_read 3 c r" and k: "k < 64"
  proof -
    have "c < 272" using p by (intro bound) (force simp: partly_read_def dest: spec [of _ 0])
    moreover have "scalar_value (64 * (64 * c + k) + j) \<and>
        codepoint_bytes (64 * (64 * c + k) + j) = (r @ [128 + k]) @ [128 + j]" if "j < 64" for j
    proof -
      have eq: "64 * (64 * c + k) + j = 4096 * c + (64 * k + j)" and less: "64 * k + j < 4096" using k that by auto
      have "\<forall>k<4096. scalar_value (4096 * c + k) \<and>
          codepoint_bytes (4096 * c + k) = r @ [128 + k div 64, 128 + k mod 64]"
        using p by (simp add: partly_read_def)
      from this [rule_format, OF less] show ?thesis unfolding eq by (simp add: div_mod_split that)
    qed
    ultimately show ?thesis using k by (simp add: partly_read_def)
  qed
  show "partly_read 3 (64 * c + k) (r @ [128 + k])" if p: "partly_read 7 c r" and k: "k < 64"
  proof -
    have "262144 * c \<le> 0x10FFFF" using p by (auto simp: partly_read_def scalar_value_def dest: spec [of _ 0])
    then have "c < 5" by simp
    moreover have "scalar_value (4096 * (64 * c + k) + j) \<and>
        codepoint_bytes (4096 * (64 * c + k) + j) = (r @ [128 + k]) @ [128 + j div 64, 128 + j mod 64]"
      if "j < 4096" for j
    proof -
      have eq: "4096 * (64 * c + k) + j = 262144 * c + (4096 * k + j)" and less: "4096 * k + j < 262144"
        using k that by auto
      have "\<forall>k<262144. scalar_value (262144 * c + k) \<and>
          codepoint_bytes (262144 * c + k) = r @ [128 + k div 4096, 128 + k div 64 mod 64, 128 + k mod 64]"
        using p by (simp add: partly_read_def)
      from this [rule_format, OF less] show ?thesis unfolding eq by (simp add: div_mod_split that)
    qed
    ultimately show ?thesis using k by (simp add: partly_read_def)
  qed
qed

lemma codepoint_bytes_3:
  assumes "32 \<le> m" "m < 1024" "j < 64"
  shows "codepoint_bytes (64 * m + j) = [224 + m div 64, 128 + m mod 64, 128 + j]"
proof -
  have "(64 * m + j) div 4096 = (64 * m + j) div 64 div 64" by (simp add: div_mult2_eq [symmetric])
  then show ?thesis using assms by (simp add: codepoint_bytes_arith div_mod_split)
qed

lemma codepoint_bytes_4:
  assumes "16 \<le> m" "m < 272" "j < 4096"
  shows "codepoint_bytes (4096 * m + j) = [240 + m div 64, 128 + m mod 64, 128 + j div 64, 128 + j mod 64]"
proof -
  have "(4096 * m + j) div 262144 = (4096 * m + j) div 4096 div 64" by (simp add: div_mult2_eq [symmetric])
  then show ?thesis using assms by (simp add: codepoint_bytes_arith div_mod_split)
qed

lemma partly_read_second:
  "32 \<le> k \<Longrightarrow> k < 64 \<Longrightarrow> partly_read 2 k [0xE0, 128 + k]"
  "k < 32 \<Longrightarrow> partly_read 2 (832 + k) [0xED, 128 + k]"
  "16 \<le> k \<Longrightarrow> k < 64 \<Longrightarrow> partly_read 3 k [0xF0, 128 + k]"
  "k < 16 \<Longrightarrow> partly_read 3 (256 + k) [0xF4, 128 + k]"
proof -
  show "partly_read 2 k [0xE0, 128 + k]" if "32 \<le> k" "k < 64"
    using that by (simp add: partly_read_def scalar_value_def codepoint_bytes_3)
  show "partly_read 3 k [0xF0, 128 + k]" if "16 \<le> k" "k < 64"
    using that by (simp add: partly_read_def scalar_value_def codepoint_bytes_4)
  show "partly_read 2 (832 + k) [0xED, 128 + k]" if k: "k < 32"
  proof -
    have "scalar_value (64 * (832 + k) + j) \<and> codepoint_bytes (64 * (832 + k) + j) = [0xED, 128 + k] @ [128 + j]"
      if "j < 64" for j
      unfolding scalar_value_def using k that by (subst codepoint_bytes_3) (auto simp: div_add_self1 mod_if)
    then show ?thesis using k by (simp add: partly_read_def)
  qed
  show "partly_read 3 (256 + k) [0xF4, 128 + k]" if k: "k < 16"
  proof -
    have "scalar_value (4096 * (256 + k) + j) \<and>
        codepoint_bytes (4096 * (256 + k) + j) = [0xF4, 128 + k] @ [128 + j div 64, 128 + j mod 64]"
      if "j < 4096" for j
      unfolding scalar_value_def using k that by (subst codepoint_bytes_4) (auto simp: div_add_self1 mod_if)
    then show ?thesis using k by (simp add: partly_read_def)
  qed
qed

lemma step_more:
  assumes p: "partly_read s c r" "s \<noteq> 0" and b: "b < 256"
  shows "step_ok (r @ [b]) (next_state s (byte_type b), 64 * c + b mod 64)"
proof (cases "next_state s (byte_type b) = 1")
  case False
  have s: "s \<in> {2, 3, 4, 5, 6, 7, 8}" using p by (auto simp: partly_read_def)
  define k where "k = b - 128"
  have "0x80 \<le> b" "b < 0xC0" using False s by (auto simp: next_state_more split: if_splits)
  then have k: "b = 128 + k" "k < 64" "b mod 64 = k" by (auto simp: k_def mod_if)
  consider "s = 2" | "s = 3" | "s = 7" | "s = 4" | "s = 5" | "s = 6" | "s = 8" using s by auto
  then show ?thesis
  proof cases
    case 1
    then show ?thesis using partly_read_step(1) [of c r k] p k by (simp add: next_state_more)
  next
    case 2
    then show ?thesis using partly_read_step(2) [of c r k] p k by (simp add: next_state_more step_ok_def)
  next
    case 3
    then show ?thesis using partly_read_step(3) [of c r k] p k by (simp add: next_state_more step_ok_def)
  qed (use False p k partly_read_second [of k] in \<open>auto simp: next_state_more step_ok_def partly_read_def [of 4]
      partly_read_def [of 5] partly_read_def [of 6] partly_read_def [of 8] split: if_splits\<close>)
qed (simp add: step_ok_def)

text \<open>One step of the automaton.\<close>

lemma decode_step:
  assumes p: "partly_read s c r" and b: "b < 256"
  shows "step_ok (r @ [b]) (decode s c b)"
proof -
  have "c < 2 ^ 26" "s < 9" using p by (auto simp: partly_read_def)
  then have eq: "decode s c b = (next_state s (byte_type b), if s = 0 then first_bits b else 64 * c + b mod 64)"
    by (intro decode_eq b)
  show ?thesis
  proof (cases "s = 0")
    case True
    then have "r = []" using p by (simp add: partly_read_def)
    then show ?thesis unfolding eq using True step_first [OF b] by simp
  next
    case False
    then show ?thesis unfolding eq using step_more [OF p False b] by simp
  qed
qed


section \<open>Every encoding is read\<close>

lemma decode_accept: "decode 0 c b = decode 0 0 b"
  by (simp add: decode_def UTF8_ACCEPT_def Let_def)

text \<open>The bytes \<open>bs\<close> lead from a state through incomplete ones to the code point \<open>cp\<close>.\<close>

fun reads_codepoint :: "nat \<Rightarrow> nat \<Rightarrow> nat list \<Rightarrow> nat \<Rightarrow> bool" where
  "reads_codepoint s c [] cp = False"
| "reads_codepoint s c [b] cp = (decode s c b = (0, cp))"
| "reads_codepoint s c (b # bs) cp =
     (case decode s c b of (s', c') \<Rightarrow> s' \<noteq> 0 \<and> s' \<noteq> 1 \<and> reads_codepoint s' c' bs cp)"

lemma decode_0: "b < 256 \<Longrightarrow> decode 0 c b = (next_state 0 (byte_type b), first_bits b)"
  by (subst decode_accept) (simp add: decode_eq)

lemma decode_more:
  assumes "c < 2 ^ 26" "s \<noteq> 0" "s < 9" "k < 64"
  shows "decode s c (128 + k) = (next_state s (byte_type (128 + k)), 64 * c + k)"
proof -
  have "(128 + k) mod 64 = k" using assms(4) by (simp add: mod_if)
  then show ?thesis using assms decode_eq [of "128 + k" s c] by simp
qed

lemma lead_3:
  "q < 16 \<Longrightarrow> next_state 0 (byte_type (224 + q)) = (if q = 0 then 4 else if q = 13 then 5 else 3)"
  by (simp add: next_state_0)

lemma second_3:
  assumes "m < 64" "q = 0 \<Longrightarrow> 32 \<le> m" "q = 13 \<Longrightarrow> m < 32"
  shows "next_state (if q = 0 then 4 else if q = 13 then 5 else 3) (byte_type (128 + m)) = 2"
  using assms by (simp add: next_state_more)

lemma lead_4:
  "q \<le> 4 \<Longrightarrow> next_state 0 (byte_type (240 + q)) = (if q = 0 then 6 else if q = 4 then 8 else 7)"
  by (simp add: next_state_0)

lemma second_4:
  assumes "m < 64" "q = 0 \<Longrightarrow> 16 \<le> m" "q = 4 \<Longrightarrow> m < 16"
  shows "next_state (if q = 0 then 6 else if q = 4 then 8 else 7) (byte_type (128 + m)) = 3"
  using assms by (simp add: next_state_more)

lemma div_64_split: "cp div 4096 = 64 * (cp div 262144) + cp div 4096 mod (64::nat)"
  "cp div 64 = 64 * (cp div 4096) + cp div 64 mod (64::nat)"
  using mult_div_mod_eq [of 64 "cp div 4096"] mult_div_mod_eq [of 64 "cp div 64"]
  by (simp_all add: div_mult2_eq [symmetric])

lemma reads_2:
  assumes "cp < 2048" "128 \<le> cp"
  shows "reads_codepoint 0 c [192 + cp div 64, 128 + cp mod 64] cp"
proof -
  have "2 \<le> cp div 64" "cp div 64 < 32" using assms by auto
  then show ?thesis by (simp add: decode_0 decode_more next_state_0 next_state_more first_bits)
qed

text \<open>The second byte of a long encoding: no overlong form, no surrogate, nothing above the last code point.\<close>

lemma second_byte_3:
  assumes "2048 \<le> cp" "scalar_value cp"
  shows "cp div 4096 = 0 \<Longrightarrow> 32 \<le> cp div 64 mod 64" "cp div 4096 = 13 \<Longrightarrow> cp div 64 mod 64 < 32"
proof -
  have d: "cp div 64 = 64 * (cp div 4096) + cp div 64 mod 64" by (rule div_64_split)
  show "32 \<le> cp div 64 mod 64" if "cp div 4096 = 0" using that d assms(1) by simp
  show "cp div 64 mod 64 < 32" if "cp div 4096 = 13"
  proof -
    have "cp \<le> 0xDFFF" using that by simp
    then have "cp < 0xD800" using assms(2) unfolding scalar_value_def by linarith
    then have "cp div 64 < 864" by simp
    then show ?thesis using that d by simp
  qed
qed

lemma second_byte_4:
  assumes "65536 \<le> cp" "scalar_value cp"
  shows "cp div 262144 = 0 \<Longrightarrow> 16 \<le> cp div 4096 mod 64" "cp div 262144 = 4 \<Longrightarrow> cp div 4096 mod 64 < 16"
    "cp div 262144 \<le> 4"
proof -
  have d: "cp div 4096 = 64 * (cp div 262144) + cp div 4096 mod 64" by (rule div_64_split)
  have cp: "cp \<le> 0x10FFFF" using assms(2) by (simp add: scalar_value_def)
  then show "cp div 262144 \<le> 4" by simp
  show "16 \<le> cp div 4096 mod 64" if "cp div 262144 = 0" using that d assms(1) by simp
  show "cp div 4096 mod 64 < 16" if "cp div 262144 = 4" using that d cp by simp
qed

lemma reads_3:
  assumes "cp < 65536" "2048 \<le> cp" "scalar_value cp"
  shows "reads_codepoint 0 c [224 + cp div 4096, 128 + cp div 64 mod 64, 128 + cp mod 64] cp"
proof -
  define q m where "q = cp div 4096" and "m = cp div 64 mod 64"
  define s where "s = (if q = 0 then 4 else if q = 13 then 5 else 3 :: nat)"
  have q: "q < 16" and m: "m < 64" using assms(1) by (auto simp: q_def m_def)
  have d: "cp div 64 = 64 * q + m" unfolding q_def m_def by (rule div_64_split)
  have "q = 0 \<Longrightarrow> 32 \<le> m" "q = 13 \<Longrightarrow> m < 32" using second_byte_3 [OF assms(2,3)] by (simp_all add: q_def m_def)
  then have "next_state s (byte_type (128 + m)) = 2" unfolding s_def by (rule second_3 [OF m])
  moreover have s: "s \<noteq> 0" "s < 9" "s \<noteq> 1" by (auto simp: s_def)
  ultimately have 2: "decode s q (128 + m) = (2, cp div 64)"
    using q m d by (simp add: decode_more)
  have 1: "decode 0 c (224 + q) = (s, q)"
    using q by (simp add: decode_0 lead_3 first_bits s_def)
  have 3: "decode 2 (cp div 64) (128 + cp mod 64) = (0, cp)"
    using assms(1) by (simp add: decode_more next_state_more)
  show ?thesis using s by (simp add: 1 2 3 flip: q_def m_def)
qed

lemma reads_4:
  assumes "65536 \<le> cp" "scalar_value cp"
  shows "reads_codepoint 0 c [240 + cp div 262144, 128 + cp div 4096 mod 64, 128 + cp div 64 mod 64, 128 + cp mod 64] cp"
proof -
  define q m where "q = cp div 262144" and "m = cp div 4096 mod 64"
  define s where "s = (if q = 0 then 6 else if q = 4 then 8 else 7 :: nat)"
  have cp: "cp \<le> 0x10FFFF" using assms(2) by (simp add: scalar_value_def)
  then have q: "q \<le> 4" and m: "m < 64" by (auto simp: q_def m_def)
  have d: "cp div 4096 = 64 * q + m" unfolding q_def m_def by (rule div_64_split)
  have "q = 0 \<Longrightarrow> 16 \<le> m" "q = 4 \<Longrightarrow> m < 16" using second_byte_4 [OF assms] by (simp_all add: q_def m_def)
  then have "next_state s (byte_type (128 + m)) = 3" unfolding s_def by (rule second_4 [OF m])
  moreover have s: "s \<noteq> 0" "s < 9" "s \<noteq> 1" by (auto simp: s_def)
  ultimately have 2: "decode s q (128 + m) = (3, cp div 4096)"
    using q m d by (simp add: decode_more)
  have 1: "decode 0 c (240 + q) = (s, q)"
    using q by (simp add: decode_0 lead_4 first_bits s_def)
  have 3: "decode 3 (cp div 4096) (128 + cp div 64 mod 64) = (2, cp div 64)"
    using cp by (simp add: decode_more next_state_more div_64_split [symmetric])
  have 4: "decode 2 (cp div 64) (128 + cp mod 64) = (0, cp)"
    using cp by (simp add: decode_more next_state_more)
  show ?thesis using s by (simp add: 1 2 3 4 flip: q_def m_def)
qed

lemma reads_codepoint_bytes:
  assumes "scalar_value cp"
  shows "reads_codepoint 0 c (codepoint_bytes cp) cp"
proof -
  have "cp \<le> 0x10FFFF" using assms by (simp add: scalar_value_def)
  moreover have "reads_codepoint 0 c [cp] cp" if "cp < 128" using that by (simp add: decode_0 next_state_0 first_bits)
  ultimately show ?thesis
    using assms reads_2 [of cp c] reads_3 [of cp c] reads_4 [of cp c]
    by (simp add: codepoint_bytes_arith not_less del: reads_codepoint.simps)
qed


lemma codepoint_bytes_less: "cp \<le> 0x10FFFF \<Longrightarrow> b \<in> set (codepoint_bytes cp) \<Longrightarrow> b < 256"
  by (auto simp: codepoint_bytes_arith split: if_splits)

end
