(* ===== verification/SS_Lexer.thy ===== *)
theory SS_Lexer
  imports SS_Utf8 SS_Utils
begin

text \<open>
  The lexer of \<open>include/json.hpp\<close> (class \<open>lexer\<close>) over a string as its input. The record holds the
  members of the class; the current character is the \<open>int\<close> the code compares, \<open>-1\<close> at the end of the
  input. The value of a number with a fraction or an exponent (\<open>strtod\<close>) is a parameter \<open>D\<close>, whose
  result is \<open>None\<close> when it is not finite.
\<close>

datatype token_type =
    Tok_uninitialized
  | Tok_literal_true
  | Tok_literal_false
  | Tok_literal_null
  | Tok_value_string
  | Tok_value_unsigned
  | Tok_value_integer
  | Tok_value_float
  | Tok_begin_array
  | Tok_begin_object
  | Tok_end_array
  | Tok_end_object
  | Tok_name_separator
  | Tok_value_separator
  | Tok_parse_error
  | Tok_end_of_input
  | Tok_literal_or_value

record lexer =
  lx_input :: string
  lx_ignore_comments :: bool
  lx_current :: int
  lx_next_unget :: bool
  lx_chars_read_total :: nat
  lx_chars_read_line :: nat
  lx_lines_read :: nat
  lx_token_string :: string
  lx_token_buffer :: string
  lx_error_message :: string
  lx_value_integer :: int
  lx_value_unsigned :: nat
  lx_value_float :: double
  lx_decimal_point :: int

definition eof :: int where
  "eof = - 1"

definition new_lexer :: "bool \<Rightarrow> string \<Rightarrow> lexer" where
  "new_lexer ignore_comments input =
     \<lparr>lx_input = input, lx_ignore_comments = ignore_comments, lx_current = eof, lx_next_unget = False,
      lx_chars_read_total = 0, lx_chars_read_line = 0, lx_lines_read = 0, lx_token_string = [],
      lx_token_buffer = [], lx_error_message = [], lx_value_integer = 0, lx_value_unsigned = 0,
      lx_value_float = D_finite 0, lx_decimal_point = 0x2E\<rparr>"

section \<open>Input\<close>

definition to_char :: "int \<Rightarrow> char" where
  "to_char c = char_of (nat (c mod 256))"

definition get_character :: "lexer \<Rightarrow> lexer" where
  "get_character lx =
     (case lx_input lx of [] \<Rightarrow> lx\<lparr>lx_current := eof\<rparr>
      | c # r \<Rightarrow> lx\<lparr>lx_current := of_char c, lx_input := r\<rparr>)"

definition lex_get :: "lexer \<Rightarrow> lexer" where
  "lex_get lx =
     (let lx1 = (if lx_next_unget lx then lx\<lparr>lx_next_unget := False\<rparr> else get_character lx);
          lx2 = lx1\<lparr>lx_chars_read_total := lx_chars_read_total lx + 1,
                    lx_chars_read_line := lx_chars_read_line lx + 1,
                    lx_token_string := lx_token_string lx1 @
                      (if lx_current lx1 \<noteq> eof then [to_char (lx_current lx1)] else [])\<rparr>
      in if lx_current lx1 = 0x0A then
           lx2\<lparr>lx_lines_read := lx_lines_read lx + 1, lx_chars_read_line := 0\<rparr>
         else lx2)"

definition lex_unget :: "lexer \<Rightarrow> lexer" where
  "lex_unget lx =
     lx\<lparr>lx_next_unget := True, lx_chars_read_total := lx_chars_read_total lx - 1,
        lx_lines_read := (if lx_chars_read_line lx = 0 then lx_lines_read lx - 1 else lx_lines_read lx),
        lx_chars_read_line := lx_chars_read_line lx - 1,
        lx_token_string := (if lx_current lx \<noteq> eof then butlast (lx_token_string lx) else lx_token_string lx)\<rparr>"

definition lex_reset :: "lexer \<Rightarrow> lexer" where
  "lex_reset lx = lx\<lparr>lx_token_buffer := [], lx_token_string := [to_char (lx_current lx)]\<rparr>"

definition lex_add :: "int \<Rightarrow> lexer \<Rightarrow> lexer" where
  "lex_add c lx = lx\<lparr>lx_token_buffer := lx_token_buffer lx @ [to_char c]\<rparr>"

definition lex_fail :: "string \<Rightarrow> lexer \<Rightarrow> lexer" where
  "lex_fail m lx = lx\<lparr>lx_error_message := m\<rparr>"

text \<open>What is left to read; the character given back comes first.\<close>

definition lex_rest :: "lexer \<Rightarrow> string" where
  "lex_rest lx = (if lx_next_unget lx \<and> lx_current lx \<noteq> eof then [to_char (lx_current lx)] else []) @ lx_input lx"

definition lex_left :: "lexer \<Rightarrow> nat" where
  "lex_left lx = length (lex_rest lx)"

lemma lex_left_get: "lex_left (lex_get lx) \<le> lex_left lx"
  by (auto simp: lex_left_def lex_rest_def lex_get_def get_character_def Let_def split: list.splits)

lemma lex_left_get_less: "lx_current (lex_get lx) \<noteq> eof \<Longrightarrow> lex_left (lex_get lx) < lex_left lx"
  by (auto simp: lex_left_def lex_rest_def lex_get_def get_character_def Let_def split: list.splits if_splits)

lemma lex_left_simps [simp]:
  "lex_left (lex_add c lx) = lex_left lx"
  "lex_left (lex_reset lx) = lex_left lx"
  "lex_left (lex_fail m lx) = lex_left lx"
  by (simp_all add: lex_left_def lex_rest_def lex_add_def lex_reset_def lex_fail_def)

section \<open>Strings\<close>

fun get_codepoint_from :: "nat list \<Rightarrow> int \<Rightarrow> lexer \<Rightarrow> int \<times> lexer" where
  "get_codepoint_from [] codepoint lx = (codepoint, lx)"
| "get_codepoint_from (factor # factors) codepoint lx =
     (let lx1 = lex_get lx; c = lx_current lx1
      in if 0x30 \<le> c \<and> c \<le> 0x39 then get_codepoint_from factors (codepoint + push_bit factor (c - 0x30)) lx1
         else if 0x41 \<le> c \<and> c \<le> 0x46 then get_codepoint_from factors (codepoint + push_bit factor (c - 0x37)) lx1
         else if 0x61 \<le> c \<and> c \<le> 0x66 then get_codepoint_from factors (codepoint + push_bit factor (c - 0x57)) lx1
         else (- 1, lx1))"

definition get_codepoint :: "lexer \<Rightarrow> int \<times> lexer" where
  "get_codepoint lx = get_codepoint_from [12, 8, 4, 0] 0 lx"

text \<open>The rest of \<open>next_byte_in_range\<close>, after the current byte has been added.\<close>

fun bytes_in_range :: "(int \<times> int) list \<Rightarrow> lexer \<Rightarrow> bool \<times> lexer" where
  "bytes_in_range [] lx = (True, lx)"
| "bytes_in_range ((lo, hi) # ranges) lx =
     (let lx1 = lex_get lx
      in if lo \<le> lx_current lx1 \<and> lx_current lx1 \<le> hi then
           bytes_in_range ranges (lex_add (lx_current lx1) lx1)
         else (False, lex_fail ''invalid string: ill-formed UTF-8 byte'' lx1))"

definition next_byte_in_range :: "(int \<times> int) list \<Rightarrow> lexer \<Rightarrow> bool \<times> lexer" where
  "next_byte_in_range ranges lx = bytes_in_range ranges (lex_add (lx_current lx) lx)"

text \<open>The characters of a string that stand for themselves.\<close>

definition plain_code :: "int \<Rightarrow> bool" where
  "plain_code c \<longleftrightarrow> 0x20 \<le> c \<and> c \<le> 0x7F \<and> c \<noteq> 0x22 \<and> c \<noteq> 0x5C"

text \<open>The ranges of the bytes after a lead byte; \<open>None\<close> for a byte that leads nothing.\<close>

definition lead_ranges :: "int \<Rightarrow> (int \<times> int) list option" where
  "lead_ranges c =
     (if 0xC2 \<le> c \<and> c \<le> 0xDF then Some [(0x80, 0xBF)]
      else if c = 0xE0 then Some [(0xA0, 0xBF), (0x80, 0xBF)]
      else if 0xE1 \<le> c \<and> c \<le> 0xEC \<or> c = 0xEE \<or> c = 0xEF then Some [(0x80, 0xBF), (0x80, 0xBF)]
      else if c = 0xED then Some [(0x80, 0x9F), (0x80, 0xBF)]
      else if c = 0xF0 then Some [(0x90, 0xBF), (0x80, 0xBF), (0x80, 0xBF)]
      else if 0xF1 \<le> c \<and> c \<le> 0xF3 then Some [(0x80, 0xBF), (0x80, 0xBF), (0x80, 0xBF)]
      else if c = 0xF4 then Some [(0x80, 0x8F), (0x80, 0xBF), (0x80, 0xBF)]
      else None)"

text \<open>The names and the escapes of the control characters in the error messages.\<close>

definition control_names :: "string list" where
  "control_names =
     [''NUL'', ''SOH'', ''STX'', ''ETX'', ''EOT'', ''ENQ'', ''ACK'', ''BEL'',
      ''BS'', ''HT'', ''LF'', ''VT'', ''FF'', ''CR'', ''SO'', ''SI'',
      ''DLE'', ''DC1'', ''DC2'', ''DC3'', ''DC4'', ''NAK'', ''SYN'', ''ETB'',
      ''CAN'', ''EM'', ''SUB'', ''ESC'', ''FS'', ''GS'', ''RS'', ''US'']"

definition control_hex :: "nat \<Rightarrow> string" where
  "control_hex c = ''00'' @ [''0123456789ABCDEF'' ! (c div 16), ''0123456789ABCDEF'' ! (c mod 16)]"

definition control_message :: "nat \<Rightarrow> string" where
  "control_message c =
     ''invalid string: control character U+'' @ control_hex c @ '' ('' @ control_names ! c @
     '') must be escaped to '' @ CHR 0x5C # ''u'' @ control_hex c @
     (if c = 0x08 then '' or '' @ CHR 0x5C # ''b''
      else if c = 0x09 then '' or '' @ CHR 0x5C # ''t''
      else if c = 0x0A then '' or '' @ CHR 0x5C # ''n''
      else if c = 0x0C then '' or '' @ CHR 0x5C # ''f''
      else if c = 0x0D then '' or '' @ CHR 0x5C # ''r'' else [])"

definition add_bytes :: "nat list \<Rightarrow> lexer \<Rightarrow> lexer" where
  "add_bytes bs lx = fold (\<lambda>b. lex_add (int b)) bs lx"

definition hex_digits_message :: string where
  "hex_digits_message = ''invalid string: '' @ CHR 0x27 # CHR 0x5C # ''u'' @ CHR 0x27 # '' must be followed by 4 hex digits''"

definition high_surrogate_message :: string where
  "high_surrogate_message =
     ''invalid string: surrogate U+D800..U+DBFF must be followed by U+DC00..U+DFFF''"

definition low_surrogate_message :: string where
  "low_surrogate_message = ''invalid string: surrogate U+DC00..U+DFFF must follow U+D800..U+DBFF''"

text \<open>
  The unicode escape, after \<open>\u\<close>. The sum for a surrogate pair is an \<open>unsigned int\<close>.
\<close>

definition scan_unicode_escape :: "lexer \<Rightarrow> bool \<times> lexer" where
  "scan_unicode_escape lx =
     (let (codepoint1, lx1) = get_codepoint lx
      in if codepoint1 = - 1 then (False, lex_fail hex_digits_message lx1)
         else if 0xD800 \<le> codepoint1 \<and> codepoint1 \<le> 0xDBFF then
           let lx2 = lex_get lx1
           in if lx_current lx2 \<noteq> 0x5C then (False, lex_fail high_surrogate_message lx2)
              else let lx3 = lex_get lx2
                in if lx_current lx3 \<noteq> 0x75 then (False, lex_fail high_surrogate_message lx3)
                   else let (codepoint2, lx4) = get_codepoint lx3
                     in if codepoint2 = - 1 then (False, lex_fail hex_digits_message lx4)
                        else if 0xDC00 \<le> codepoint2 \<and> codepoint2 \<le> 0xDFFF then
                          (True, add_bytes (codepoint_bytes
                             (nat ((push_bit 10 codepoint1 + codepoint2 - 0x35FDC00) mod 2 ^ 32))) lx4)
                        else (False, lex_fail high_surrogate_message lx4)
         else if 0xDC00 \<le> codepoint1 \<and> codepoint1 \<le> 0xDFFF then
           (False, lex_fail low_surrogate_message lx1)
         else (True, add_bytes (codepoint_bytes (nat codepoint1)) lx1))"

text \<open>After a backslash.\<close>

definition scan_escape :: "lexer \<Rightarrow> bool \<times> lexer" where
  "scan_escape lx0 =
     (let lx = lex_get lx0; c = lx_current lx
      in if c = 0x22 then (True, lex_add 0x22 lx)
         else if c = 0x5C then (True, lex_add 0x5C lx)
         else if c = 0x2F then (True, lex_add 0x2F lx)
         else if c = 0x62 then (True, lex_add 0x08 lx)
         else if c = 0x66 then (True, lex_add 0x0C lx)
         else if c = 0x6E then (True, lex_add 0x0A lx)
         else if c = 0x72 then (True, lex_add 0x0D lx)
         else if c = 0x74 then (True, lex_add 0x09 lx)
         else if c = 0x75 then scan_unicode_escape lx
         else (False, lex_fail ''invalid string: forbidden character after backslash'' lx))"

lemma add_bytes_left [simp]: "lex_left (add_bytes bs lx) = lex_left lx"
  unfolding add_bytes_def by (induction bs arbitrary: lx) simp_all

lemma get_codepoint_from_left: "lex_left (snd (get_codepoint_from fs cp lx)) \<le> lex_left lx"
proof (induction fs arbitrary: cp lx)
  case (Cons f fs)
  show ?case using order_trans [OF Cons.IH lex_left_get [of lx]] lex_left_get [of lx] by (simp add: Let_def)
qed simp

lemma get_codepoint_left: "get_codepoint lx = (r, lx') \<Longrightarrow> lex_left lx' \<le> lex_left lx"
  using get_codepoint_from_left [of "[12, 8, 4, 0]" 0 lx] by (simp add: get_codepoint_def)

lemma bytes_in_range_left: "bytes_in_range rs lx = (r, lx') \<Longrightarrow> lex_left lx' \<le> lex_left lx"
proof (induction rs lx rule: bytes_in_range.induct)
  case (2 lo hi rs lx)
  then show ?case using lex_left_get [of lx] by (auto simp: Let_def split: if_splits intro: order_trans)
qed simp

lemma scan_unicode_escape_left:
  assumes "scan_unicode_escape lx = (r, lx')"
  shows "lex_left lx' \<le> lex_left lx"
proof -
  obtain c1 lx1 where 1: "get_codepoint lx = (c1, lx1)" by fastforce
  obtain c2 lx4 where 2: "get_codepoint (lex_get (lex_get lx1)) = (c2, lx4)" by fastforce
  have "lex_left lx1 \<le> lex_left lx" "lex_left (lex_get lx1) \<le> lex_left lx1"
    "lex_left (lex_get (lex_get lx1)) \<le> lex_left (lex_get lx1)" "lex_left lx4 \<le> lex_left (lex_get (lex_get lx1))"
    using get_codepoint_left [OF 1] get_codepoint_left [OF 2] lex_left_get by auto
  then show ?thesis using assms 1 2 by (auto simp: scan_unicode_escape_def Let_def split: if_splits)
qed

lemma scan_escape_left: "scan_escape lx = (r, lx') \<Longrightarrow> lex_left lx' \<le> lex_left lx"
  unfolding scan_escape_def Let_def using lex_left_get [of lx]
  by (auto split: if_splits dest!: scan_unicode_escape_left)


lemma next_byte_in_range_left: "next_byte_in_range rs lx = (r, lx') \<Longrightarrow> lex_left lx' \<le> lex_left lx"
  unfolding next_byte_in_range_def by (drule bytes_in_range_left) simp

text \<open>The loop of \<open>scan_string\<close>.\<close>

function scan_string_loop :: "lexer \<Rightarrow> token_type \<times> lexer" where
  "scan_string_loop lx0 =
     (let lx = lex_get lx0; c = lx_current lx
      in if c = eof then (Tok_parse_error, lex_fail ''invalid string: missing closing quote'' lx)
         else if c = 0x22 then (Tok_value_string, lx)
         else if c = 0x5C then
           (case scan_escape lx of
              (True, lx') \<Rightarrow> scan_string_loop lx'
            | (False, lx') \<Rightarrow> (Tok_parse_error, lx'))
         else if c \<le> 0x1F then (Tok_parse_error, lex_fail (control_message (nat c)) lx)
         else if plain_code c then scan_string_loop (lex_add c lx)
         else
           (case lead_ranges c of
              Some ranges \<Rightarrow>
                (case next_byte_in_range ranges lx of
                   (True, lx') \<Rightarrow> scan_string_loop lx'
                 | (False, lx') \<Rightarrow> (Tok_parse_error, lx'))
            | None \<Rightarrow> (Tok_parse_error, lex_fail ''invalid string: ill-formed UTF-8 byte'' lx)))"
  by pat_completeness auto
termination
proof (relation "measure lex_left", goal_cases)
  case (2 lx0 lx c ok lx')
  then have "lex_left lx' \<le> lex_left lx" by (metis scan_escape_left)
  with 2 show ?case using lex_left_get_less [of lx0] by simp
next
  case (3 lx0 lx c)
  then show ?case using lex_left_get_less [of lx0] by simp
next
  case (4 lx0 lx c ranges ok lx')
  then have "lex_left lx' \<le> lex_left lx" by (metis next_byte_in_range_left)
  with 4 show ?case using lex_left_get_less [of lx0] by simp
qed simp

declare scan_string_loop.simps [simp del]

definition scan_string :: "lexer \<Rightarrow> token_type \<times> lexer" where
  "scan_string lx = scan_string_loop (lex_reset lx)"

section \<open>Comments\<close>

function scan_line_comment :: "lexer \<Rightarrow> lexer" where
  "scan_line_comment lx0 =
     (let lx = lex_get lx0; c = lx_current lx
      in if c = 0x0A \<or> c = 0x0D \<or> c = eof \<or> c = 0 then lx else scan_line_comment lx)"
  by pat_completeness auto
termination by (relation "measure lex_left") (auto intro: lex_left_get_less)

declare scan_line_comment.simps [simp del]

lemma lex_left_unget: "lex_left (lex_unget (lex_get lx)) \<le> lex_left lx"
  by (auto simp: lex_left_def lex_rest_def lex_get_def lex_unget_def get_character_def Let_def split: list.splits)

function scan_block_comment :: "lexer \<Rightarrow> bool \<times> lexer" where
  "scan_block_comment lx0 =
     (let lx = lex_get lx0; c = lx_current lx
      in if c = eof \<or> c = 0 then (False, lex_fail (''invalid comment; missing closing '' @ CHR 0x27 # ''*/'' @ [CHR 0x27]) lx)
         else if c = 0x2A then
           (let lx1 = lex_get lx
            in if lx_current lx1 = 0x2F then (True, lx1) else scan_block_comment (lex_unget lx1))
         else scan_block_comment lx)"
  by pat_completeness auto
termination
proof (relation "measure lex_left", goal_cases)
  case (2 lx0 lx c lx1)
  then show ?case using lex_left_get_less [of lx0] lex_left_unget [of lx] by simp
next
  case (3 lx0 lx c)
  then show ?case using lex_left_get_less [of lx0] by simp
qed simp

declare scan_block_comment.simps [simp del]

definition comment_message :: string where
  "comment_message = ''invalid comment; expecting '' @ CHR 0x27 # ''/'' @ CHR 0x27 # '' or '' @ CHR 0x27 # ''*'' @
     CHR 0x27 # '' after '' @ CHR 0x27 # ''/'' @ [CHR 0x27]"

definition scan_comment :: "lexer \<Rightarrow> bool \<times> lexer" where
  "scan_comment lx0 =
     (let lx = lex_get lx0; c = lx_current lx
      in if c = 0x2F then (True, scan_line_comment lx)
         else if c = 0x2A then scan_block_comment lx
         else (False, lex_fail comment_message lx))"

section \<open>Numbers\<close>

text \<open>The labels of \<open>scan_number\<close>, and what the switch after each label does.\<close>

datatype number_state =
    Num_minus
  | Num_zero
  | Num_any1
  | Num_decimal1
  | Num_decimal2
  | Num_exponent
  | Num_sign
  | Num_any2

datatype number_action = Num_goto number_state | Num_done | Num_error string

definition is_digit_code :: "int \<Rightarrow> bool" where
  "is_digit_code c \<longleftrightarrow> 0x30 \<le> c \<and> c \<le> 0x39"

definition is_exponent_code :: "int \<Rightarrow> bool" where
  "is_exponent_code c \<longleftrightarrow> c = 0x65 \<or> c = 0x45"

fun number_next :: "number_state \<Rightarrow> int \<Rightarrow> number_action" where
  "number_next Num_minus c =
     (if c = 0x30 then Num_goto Num_zero
      else if is_digit_code c then Num_goto Num_any1
      else Num_error (''invalid number; expected digit after '' @ CHR 0x27 # ''-'' @ [CHR 0x27]))"
| "number_next Num_zero c =
     (if c = 0x2E then Num_goto Num_decimal1
      else if is_exponent_code c then Num_goto Num_exponent
      else Num_done)"
| "number_next Num_any1 c =
     (if is_digit_code c then Num_goto Num_any1
      else if c = 0x2E then Num_goto Num_decimal1
      else if is_exponent_code c then Num_goto Num_exponent
      else Num_done)"
| "number_next Num_decimal1 c =
     (if is_digit_code c then Num_goto Num_decimal2
      else Num_error (''invalid number; expected digit after '' @ CHR 0x27 # ''.'' @ [CHR 0x27]))"
| "number_next Num_decimal2 c =
     (if is_digit_code c then Num_goto Num_decimal2
      else if is_exponent_code c then Num_goto Num_exponent
      else Num_done)"
| "number_next Num_exponent c =
     (if c = 0x2B \<or> c = 0x2D then Num_goto Num_sign
      else if is_digit_code c then Num_goto Num_any2
      else Num_error (''invalid number; expected '' @ CHR 0x27 # ''+'' @ CHR 0x27 # '', '' @ CHR 0x27 # ''-'' @
        CHR 0x27 # '', or digit after exponent''))"
| "number_next Num_sign c =
     (if is_digit_code c then Num_goto Num_any2
      else Num_error ''invalid number; expected digit after exponent sign'')"
| "number_next Num_any2 c = (if is_digit_code c then Num_goto Num_any2 else Num_done)"

text \<open>The assignment to \<open>number_type\<close> at a label.\<close>

fun number_type_at :: "number_state \<Rightarrow> token_type \<Rightarrow> token_type" where
  "number_type_at Num_minus t = Tok_value_integer"
| "number_type_at Num_decimal1 t = Tok_value_float"
| "number_type_at Num_exponent t = Tok_value_float"
| "number_type_at _ t = t"

text \<open>\<open>strtoull\<close> and \<open>strtoll\<close> on the digits that have been checked; \<open>None\<close> is \<open>ERANGE\<close>.\<close>

definition strtoull :: "string \<Rightarrow> nat option" where
  "strtoull s = (if digits_value s < 2 ^ 64 then Some (digits_value s) else None)"

definition strtoll :: "string \<Rightarrow> int option" where
  "strtoll s =
     (let v = (case s of CHR ''-'' # ds \<Rightarrow> - int (digits_value ds) | _ \<Rightarrow> int (digits_value s))
      in if - (2 ^ 63) \<le> v \<and> v < 2 ^ 63 then Some v else None)"

text \<open>The label \<open>scan_number_done\<close>.\<close>

definition scan_number_done :: "strtod \<Rightarrow> token_type \<Rightarrow> lexer \<Rightarrow> token_type \<times> lexer" where
  "scan_number_done D number_type lx0 =
     (let lx = lex_unget lx0; buf = lx_token_buffer lx;
          as_float = (Tok_value_float, lx\<lparr>lx_value_float := D buf\<rparr>)
      in if number_type = Tok_value_unsigned then
           (case strtoull buf of Some x \<Rightarrow> (Tok_value_unsigned, lx\<lparr>lx_value_unsigned := x\<rparr>) | None \<Rightarrow> as_float)
         else if number_type = Tok_value_integer then
           (case strtoll buf of Some x \<Rightarrow> (Tok_value_integer, lx\<lparr>lx_value_integer := x\<rparr>) | None \<Rightarrow> as_float)
         else as_float)"

lemma number_next_eof: "number_next st eof \<noteq> Num_goto st'"
  by (cases st) (auto simp: eof_def is_digit_code_def is_exponent_code_def)

function scan_number_loop :: "strtod \<Rightarrow> number_state \<Rightarrow> token_type \<Rightarrow> lexer \<Rightarrow> token_type \<times> lexer" where
  "scan_number_loop D st number_type lx0 =
     (let ty = number_type_at st number_type; lx = lex_get lx0; c = lx_current lx
      in case number_next st c of
           Num_goto st' \<Rightarrow> scan_number_loop D st' ty (lex_add (if c = 0x2E then lx_decimal_point lx else c) lx)
         | Num_done \<Rightarrow> scan_number_done D ty lx
         | Num_error m \<Rightarrow> (Tok_parse_error, lex_fail m lx))"
  by pat_completeness auto
termination
proof (relation "measure (\<lambda>(_, _, _, lx). lex_left lx)", goal_cases)
  case (2 D st number_type lx0 ty lx c st')
  then have "c \<noteq> eof" using number_next_eof [of st st'] by auto
  then show ?case using 2 lex_left_get_less [of lx0] by simp
qed simp

declare scan_number_loop.simps [simp del]

text \<open>The state \<open>init\<close>; \<open>scan\<close> calls the function on a minus sign or a digit only.\<close>

definition scan_number :: "strtod \<Rightarrow> lexer \<Rightarrow> token_type \<times> lexer" where
  "scan_number D lx0 =
     (let lx = lex_add (lx_current lx0) (lex_reset lx0); c = lx_current lx0
      in if c = 0x2D then scan_number_loop D Num_minus Tok_value_unsigned lx
         else if c = 0x30 then scan_number_loop D Num_zero Tok_value_unsigned lx
         else scan_number_loop D Num_any1 Tok_value_unsigned lx)"

section \<open>Tokens\<close>

text \<open>The rest of a literal, whose first character has been read.\<close>

fun scan_literal :: "string \<Rightarrow> token_type \<Rightarrow> lexer \<Rightarrow> token_type \<times> lexer" where
  "scan_literal [] return_type lx = (return_type, lx)"
| "scan_literal (c # literal_text) return_type lx =
     (let lx1 = lex_get lx
      in if to_char (lx_current lx1) \<noteq> c then (Tok_parse_error, lex_fail ''invalid literal'' lx1)
         else scan_literal literal_text return_type lx1)"

definition skip_bom :: "lexer \<Rightarrow> bool \<times> lexer" where
  "skip_bom lx =
     (let lx1 = lex_get lx
      in if lx_current lx1 = 0xEF then
           let lx2 = lex_get lx1
           in if lx_current lx2 = 0xBB then let lx3 = lex_get lx2 in (lx_current lx3 = 0xBF, lx3)
              else (False, lx2)
         else (True, lex_unget lx1))"

definition is_white :: "int \<Rightarrow> bool" where
  "is_white c \<longleftrightarrow> c = 0x20 \<or> c = 0x09 \<or> c = 0x0A \<or> c = 0x0D"

function skip_whitespace :: "lexer \<Rightarrow> lexer" where
  "skip_whitespace lx0 = (let lx = lex_get lx0 in if is_white (lx_current lx) then skip_whitespace lx else lx)"
  by pat_completeness auto
termination
  by (relation "measure lex_left") (auto simp: is_white_def eof_def intro!: lex_left_get_less)

declare skip_whitespace.simps [simp del]

lemma scan_line_comment_left: "lex_left (scan_line_comment lx) \<le> lex_left lx"
proof (induction lx rule: scan_line_comment.induct)
  case (1 lx)
  show ?case using 1 [OF refl refl] lex_left_get [of lx]
    by (subst scan_line_comment.simps) (auto simp: Let_def intro: order_trans)
qed

lemma scan_block_comment_left: "lex_left (snd (scan_block_comment lx)) \<le> lex_left lx"
proof (induction lx rule: scan_block_comment.induct)
  case (1 lx)
  show ?case
    using 1(1) [OF refl refl _ _ refl] 1(2) [OF refl refl] lex_left_get [of lx] lex_left_get [of "lex_get lx"]
      lex_left_unget [of "lex_get lx"]
    by (subst scan_block_comment.simps) (auto simp: Let_def)
qed

lemma scan_comment_left: "scan_comment lx = (r, lx') \<Longrightarrow> lex_left lx' \<le> lex_left lx"
  using lex_left_get [of lx] scan_line_comment_left [of "lex_get lx"] scan_block_comment_left [of "lex_get lx"]
  by (auto simp: scan_comment_def Let_def split: if_splits)

lemma skip_whitespace_left:
  "lex_left (skip_whitespace lx) \<le> lex_left lx"
  "lx_current (skip_whitespace lx) \<noteq> eof \<Longrightarrow> lex_left (skip_whitespace lx) < lex_left lx"
proof (induction lx rule: skip_whitespace.induct)
  case (1 lx)
  {
    case 1
    show ?case using "1.IH"(1) [OF refl] lex_left_get [of lx]
      by (subst skip_whitespace.simps) (auto simp: Let_def intro: order_trans)
  next
    case 2
    then show ?case using "1.IH"(2) [OF refl] lex_left_get [of lx] lex_left_get_less [of lx]
      by (subst skip_whitespace.simps; subst (asm) skip_whitespace.simps) (auto simp: Let_def split: if_splits)
  }
qed


text \<open>The loop of \<open>scan\<close> over the comments, the white space after each included.\<close>

function skip_comments :: "lexer \<Rightarrow> bool \<times> lexer" where
  "skip_comments lx =
     (if lx_ignore_comments lx \<and> lx_current lx = 0x2F then
        (case scan_comment lx of
           (True, lx1) \<Rightarrow> skip_comments (skip_whitespace lx1)
         | (False, lx1) \<Rightarrow> (False, lx1))
      else (True, lx))"
  by pat_completeness auto
termination
proof (relation "measure (\<lambda>lx. 2 * lex_left lx + (if lx_current lx = eof then 0 else 1))", goal_cases)
  case (2 lx ok lx1)
  then have "lex_left lx1 \<le> lex_left lx" by (metis scan_comment_left)
  moreover have "lx_current lx \<noteq> eof" using 2 by (simp add: eof_def)
  ultimately show ?case using skip_whitespace_left [of lx1] by auto
qed simp

declare skip_comments.simps [simp del]

text \<open>The switch of \<open>scan\<close>.\<close>

definition scan_token :: "strtod \<Rightarrow> lexer \<Rightarrow> token_type \<times> lexer" where
  "scan_token D lx =
     (let c = lx_current lx
      in if c = 0x5B then (Tok_begin_array, lx)
         else if c = 0x5D then (Tok_end_array, lx)
         else if c = 0x7B then (Tok_begin_object, lx)
         else if c = 0x7D then (Tok_end_object, lx)
         else if c = 0x3A then (Tok_name_separator, lx)
         else if c = 0x2C then (Tok_value_separator, lx)
         else if c = 0x74 then scan_literal ''rue'' Tok_literal_true lx
         else if c = 0x66 then scan_literal ''alse'' Tok_literal_false lx
         else if c = 0x6E then scan_literal ''ull'' Tok_literal_null lx
         else if c = 0x22 then scan_string lx
         else if c = 0x2D \<or> is_digit_code c then scan_number D lx
         else if c = 0 \<or> c = eof then (Tok_end_of_input, lx)
         else (Tok_parse_error, lex_fail ''invalid literal'' lx))"

definition scan :: "strtod \<Rightarrow> lexer \<Rightarrow> token_type \<times> lexer" where
  "scan D lx0 =
     (let (bom_ok, lx1) = (if lx_chars_read_total lx0 = 0 then skip_bom lx0 else (True, lx0))
      in if \<not> bom_ok then (Tok_parse_error, lex_fail ''invalid BOM; must be 0xEF 0xBB 0xBF if given'' lx1)
         else let (ok, lx) = skip_comments (skip_whitespace lx1)
           in if \<not> ok then (Tok_parse_error, lx) else scan_token D lx)"

section \<open>Every token reads on\<close>

lemma scan_string_loop_left: "lex_left (snd (scan_string_loop lx)) \<le> lex_left lx"
proof (induction lx rule: scan_string_loop.induct)
  case (1 lx)
  define lx1 where "lx1 = lex_get lx"
  have le: "lex_left lx1 \<le> lex_left lx" using lex_left_get by (simp add: lx1_def)
  obtain ok lx2 where esc: "scan_escape lx1 = (ok, lx2)" by fastforce
  have le2: "lex_left lx2 \<le> lex_left lx1" by (rule scan_escape_left [OF esc])
  note IH = 1(1) [OF lx1_def refl _ _ _ esc [symmetric]] 1(2) [OF lx1_def refl]
  show ?case
  proof (cases "lead_ranges (lx_current lx1)")
    case None
    then show ?thesis using IH le le2 esc
      by (subst scan_string_loop.simps) (auto simp: Let_def simp flip: lx1_def split: bool.split)
  next
    case (Some ranges)
    obtain ok' lx3 where nb: "next_byte_in_range ranges lx1 = (ok', lx3)" by fastforce
    have le3: "lex_left lx3 \<le> lex_left lx1" by (rule next_byte_in_range_left [OF nb])
    note IH3 = 1(3) [OF lx1_def refl _ _ _ _ _ Some nb [symmetric]]
    show ?thesis using IH IH3 le le2 le3 esc nb Some
      by (subst scan_string_loop.simps) (auto simp: Let_def simp flip: lx1_def split: bool.split)
  qed
qed

lemma scan_string_left [simp]: "lex_left (snd (scan_string lx)) \<le> lex_left lx"
  using scan_string_loop_left [of "lex_reset lx"] by (simp add: scan_string_def)

lemma scan_number_done_left: "lex_left (snd (scan_number_done D ty lx)) = lex_left (lex_unget lx)"
  by (auto simp: scan_number_done_def Let_def lex_left_def lex_rest_def split: option.split)

lemma scan_number_loop_left: "lex_left (snd (scan_number_loop D st ty lx)) \<le> lex_left lx"
proof (induction D st ty lx rule: scan_number_loop.induct)
  case (1 D st ty lx)
  show ?case
    using 1 [OF refl refl refl] lex_left_get [of lx] lex_left_unget [of lx]
    by (subst scan_number_loop.simps)
      (auto simp: Let_def scan_number_done_left split: number_action.split intro: order_trans)
qed

lemma scan_literal_left [simp]: "lex_left (snd (scan_literal t ty lx)) \<le> lex_left lx"
proof (induction t ty lx rule: scan_literal.induct)
  case (2 c t ty lx)
  then show ?case using lex_left_get [of lx] by (auto simp: Let_def scan_literal.simps(2) intro: order_trans)
qed simp

lemma scan_number_left [simp]: "lex_left (snd (scan_number D lx)) \<le> lex_left lx"
  using scan_number_loop_left [of D st ty "lex_add c (lex_reset lx)" for st ty c]
  by (simp add: scan_number_def Let_def)

declare scan_literal.simps(2) [simp del]

lemma scan_token_left: "lex_left (snd (scan_token D lx)) \<le> lex_left lx"
  by (simp add: scan_token_def Let_def)

lemma skip_comments_left:
  "lex_left (snd (skip_comments lx)) \<le> lex_left lx"
proof (induction lx rule: skip_comments.induct)
  case (1 lx)
  obtain ok lx1 where c: "scan_comment lx = (ok, lx1)" by fastforce
  show ?case
    using 1 [of True lx1] c scan_comment_left [OF c] skip_whitespace_left(1) [of lx1]
    by (subst skip_comments.simps) (auto split: bool.split)
qed

lemma skip_bom_left: "skip_bom lx = (r, lx') \<Longrightarrow> lex_left lx' \<le> lex_left lx"
proof -
  assume a: "skip_bom lx = (r, lx')"
  have "lex_left (lex_get lx) \<le> lex_left lx" "lex_left (lex_get (lex_get lx)) \<le> lex_left (lex_get lx)"
    "lex_left (lex_get (lex_get (lex_get lx))) \<le> lex_left (lex_get (lex_get lx))" by (simp_all add: lex_left_get)
  then show ?thesis using a lex_left_unget [of lx] by (auto simp: skip_bom_def Let_def split: if_splits)
qed

lemma scan_left_token:
  assumes "fst (scan_token D (snd (skip_comments (skip_whitespace lx)))) \<notin> {Tok_end_of_input, Tok_parse_error}"
  shows "lex_left (snd (skip_comments (skip_whitespace lx))) < lex_left lx"
proof (cases "lx_current (skip_whitespace lx) = eof")
  case True
  then have "skip_comments (skip_whitespace lx) = (True, skip_whitespace lx)"
    by (subst skip_comments.simps) (simp add: eof_def)
  then show ?thesis using assms True by (simp add: scan_token_def eof_def is_digit_code_def Let_def)
next
  case False
  then show ?thesis using skip_whitespace_left(2) [OF False] skip_comments_left [of "skip_whitespace lx"] by simp
qed

text \<open>No token makes the input longer; a token that is neither the end nor an error makes it shorter.\<close>

lemma scan_left:
  assumes "scan D lx = (tok, lx')"
  shows "lex_left lx' \<le> lex_left lx" "tok \<notin> {Tok_end_of_input, Tok_parse_error} \<Longrightarrow> lex_left lx' < lex_left lx"
proof -
  obtain bom lx1 where b: "(if lx_chars_read_total lx = 0 then skip_bom lx else (True, lx)) = (bom, lx1)" by fastforce
  have le: "lex_left lx1 \<le> lex_left lx" using b by (auto dest: skip_bom_left split: if_splits)
  obtain ok lx2 where c: "skip_comments (skip_whitespace lx1) = (ok, lx2)" by fastforce
  have le2: "lex_left lx2 \<le> lex_left lx1"
    using skip_comments_left [of "skip_whitespace lx1"] skip_whitespace_left(1) [of lx1] c by simp
  have eq: "(tok, lx') = (if \<not> bom then (Tok_parse_error, lex_fail ''invalid BOM; must be 0xEF 0xBB 0xBF if given'' lx1)
      else if \<not> ok then (Tok_parse_error, lx2) else scan_token D lx2)"
    using assms unfolding scan_def b by (cases bom) (simp_all add: c)
  show "lex_left lx' \<le> lex_left lx"
    using eq le le2 scan_token_left [of D lx2] by (auto split: if_splits dest: arg_cong [of _ _ snd])
  assume tok: "tok \<notin> {Tok_end_of_input, Tok_parse_error}"
  then have "(tok, lx') = scan_token D lx2" using eq by (auto split: if_splits)
  moreover have "lex_left lx2 < lex_left lx1" using scan_left_token [of D lx1] tok c calculation by (metis fst_conv snd_conv)
  ultimately show "lex_left lx' < lex_left lx" using le scan_token_left [of D lx2] by (metis le_less_trans less_le_trans snd_conv)
qed

text \<open>
  C36. The lexer ends on every input and never makes the input longer; a token that is neither the end
  of the input nor an error takes at least one character. The loop of the parser reads a token in every
  turn, so it ends too.
\<close>

theorem lexer_progress:
  assumes "scan D lx = (tok, lx')"
  shows "lex_left lx' \<le> lex_left lx \<and>
    (tok \<notin> {Tok_end_of_input, Tok_parse_error} \<longrightarrow> lex_left lx' < lex_left lx)"
  using scan_left [OF assms] by blast

theorem lexer_progress_witness:
  "fst (scan (\<lambda>_. D_nan) (new_lexer False '' [1]'')) = Tok_begin_array \<and>
   lex_left (snd (scan (\<lambda>_. D_nan) (new_lexer False '' [1]''))) < lex_left (new_lexer False '' [1]'')"
proof -
  have "fst (scan (\<lambda>_. D_nan) (new_lexer False '' [1]'')) = Tok_begin_array" by code_simp
  then show ?thesis
    using lexer_progress [of "\<lambda>_. D_nan" "new_lexer False '' [1]''"] by (metis prod.collapse empty_iff insertE token_type.distinct)
qed

end
