(* ===== verification/SS_Parser.thy ===== *)
theory SS_Parser
  imports SS_Lexer SS_Bson
begin

text \<open>
  The parser of \<open>include/json.hpp\<close> (class \<open>parser\<close>): the loop of \<open>sax_parse_internal\<close> over the tokens,
  with its stack of open arrays and objects, for any receiver of the events; \<open>json_sax_dom_parser\<close>
  (\<open>SS_Bson\<close>) and \<open>json_sax_acceptor\<close> as receivers; and the operations \<open>parse\<close> and \<open>accept\<close>.
  A receiver's function that returns false gives \<open>Inr None\<close>, one that throws gives \<open>Inl\<close>.
\<close>

section \<open>Receivers\<close>

record 's handler =
  on_null :: "'s \<Rightarrow> 's sax"
  on_boolean :: "bool \<Rightarrow> 's \<Rightarrow> 's sax"
  on_number_integer :: "int \<Rightarrow> 's \<Rightarrow> 's sax"
  on_number_unsigned :: "nat \<Rightarrow> 's \<Rightarrow> 's sax"
  on_number_float :: "double \<Rightarrow> 's \<Rightarrow> 's sax"
  on_string :: "string \<Rightarrow> 's \<Rightarrow> 's sax"
  on_start_object :: "'s \<Rightarrow> 's sax"
  on_key :: "string \<Rightarrow> 's \<Rightarrow> 's sax"
  on_end_object :: "'s \<Rightarrow> 's sax"
  on_start_array :: "'s \<Rightarrow> 's sax"
  on_end_array :: "'s \<Rightarrow> 's sax"
  on_parse_error :: "cpp_error \<Rightarrow> 's \<Rightarrow> 's sax"

definition proceed :: "'s result \<Rightarrow> 's sax" where
  "proceed r = map_res Some r"

definition dom_handler :: "bool \<Rightarrow> dom_parser handler" where
  "dom_handler allow_exceptions =
     \<lparr>on_null = (\<lambda>d. proceed (handle_value JNull d)),
      on_boolean = (\<lambda>b d. proceed (handle_value (JBool b) d)),
      on_number_integer = (\<lambda>i d. proceed (handle_value (JInt i) d)),
      on_number_unsigned = (\<lambda>n d. proceed (handle_value (JInt (int n)) d)),
      on_number_float = (\<lambda>r d. proceed (handle_value (JFloat r) d)),
      on_string = (\<lambda>s d. proceed (handle_value (JStr s) d)),
      on_start_object = (\<lambda>d. Inr (Some (dom_start_object d))),
      on_key = (\<lambda>k d. proceed (dom_key k d)),
      on_end_object = (\<lambda>d. proceed (dom_end_object d)),
      on_start_array = (\<lambda>d. Inr (Some (dom_start_array d))),
      on_end_array = (\<lambda>d. proceed (dom_end_array d)),
      on_parse_error = (\<lambda>ex d. if allow_exceptions then Inl ex else Inr None)\<rparr>"

definition acceptor :: "unit handler" where
  "acceptor =
     \<lparr>on_null = (\<lambda>s. Inr (Some ())), on_boolean = (\<lambda>_ s. Inr (Some ())),
      on_number_integer = (\<lambda>_ s. Inr (Some ())), on_number_unsigned = (\<lambda>_ s. Inr (Some ())),
      on_number_float = (\<lambda>_ s. Inr (Some ())), on_string = (\<lambda>_ s. Inr (Some ())),
      on_start_object = (\<lambda>s. Inr (Some ())), on_key = (\<lambda>_ s. Inr (Some ())),
      on_end_object = (\<lambda>s. Inr (Some ())), on_start_array = (\<lambda>s. Inr (Some ())),
      on_end_array = (\<lambda>s. Inr (Some ())), on_parse_error = (\<lambda>_ s. Inr None)\<rparr>"

section \<open>The loop\<close>

text \<open>
  Where an iteration of the loop begins: at a value whose first token is \<open>last_token\<close>, after a value
  (\<open>skip_to_state_evaluation\<close>, or the end of the switch), or at the end. The list is the stack
  \<open>states\<close>, the innermost first: true for an array, false for an object.
\<close>

datatype 's turn =
    Turn_value "bool list" token_type lexer 's
  | Turn_state "bool list" token_type lexer 's
  | Turn_done token_type lexer 's

text \<open>Key, colon and the first token of the value of a member.\<close>

definition parse_member ::
  "'s handler \<Rightarrow> strtod \<Rightarrow> bool list \<Rightarrow> token_type \<Rightarrow> lexer \<Rightarrow> 's \<Rightarrow> 's turn sax" where
  "parse_member H D states tok lx s =
     (if tok \<noteq> Tok_value_string then bind_sax (on_parse_error H Json_parse_error s) (\<lambda>_. Inr None)
      else bind_sax (on_key H (lx_token_buffer lx) s) (\<lambda>s1.
        let (tok1, lx1) = scan D lx
        in if tok1 \<noteq> Tok_name_separator then bind_sax (on_parse_error H Json_parse_error s1) (\<lambda>_. Inr None)
           else let (tok2, lx2) = scan D lx1 in Inr (Some (Turn_value states tok2 lx2 s1))))"

text \<open>A scalar.\<close>

definition scalar_turn :: "bool list \<Rightarrow> token_type \<Rightarrow> lexer \<Rightarrow> 's sax \<Rightarrow> 's turn sax" where
  "scalar_turn states tok lx m = bind_sax m (\<lambda>s. Inr (Some (Turn_state states tok lx s)))"

text \<open>The switch on the last token.\<close>

definition parse_value ::
  "'s handler \<Rightarrow> strtod \<Rightarrow> bool list \<Rightarrow> token_type \<Rightarrow> lexer \<Rightarrow> 's \<Rightarrow> 's turn sax" where
  "parse_value H D states tok lx s =
     (case tok of
        Tok_begin_object \<Rightarrow>
          bind_sax (on_start_object H s) (\<lambda>s1.
            let (tok1, lx1) = scan D lx
            in if tok1 = Tok_end_object then scalar_turn states tok1 lx1 (on_end_object H s1)
               else parse_member H D (False # states) tok1 lx1 s1)
      | Tok_begin_array \<Rightarrow>
          bind_sax (on_start_array H s) (\<lambda>s1.
            let (tok1, lx1) = scan D lx
            in if tok1 = Tok_end_array then scalar_turn states tok1 lx1 (on_end_array H s1)
               else Inr (Some (Turn_value (True # states) tok1 lx1 s1)))
      | Tok_value_float \<Rightarrow>
          (let res = lx_value_float lx
           in if \<not> isfinite res then bind_sax (on_parse_error H Json_out_of_range s) (\<lambda>_. Inr None)
              else scalar_turn states tok lx (on_number_float H res s))
      | Tok_literal_false \<Rightarrow> scalar_turn states tok lx (on_boolean H False s)
      | Tok_literal_null \<Rightarrow> scalar_turn states tok lx (on_null H s)
      | Tok_literal_true \<Rightarrow> scalar_turn states tok lx (on_boolean H True s)
      | Tok_value_integer \<Rightarrow> scalar_turn states tok lx (on_number_integer H (lx_value_integer lx) s)
      | Tok_value_string \<Rightarrow> scalar_turn states tok lx (on_string H (lx_token_buffer lx) s)
      | Tok_value_unsigned \<Rightarrow> scalar_turn states tok lx (on_number_unsigned H (lx_value_unsigned lx) s)
      | _ \<Rightarrow> bind_sax (on_parse_error H Json_parse_error s) (\<lambda>_. Inr None))"

text \<open>After a value.\<close>

definition parse_state ::
  "'s handler \<Rightarrow> strtod \<Rightarrow> bool list \<Rightarrow> token_type \<Rightarrow> lexer \<Rightarrow> 's \<Rightarrow> 's turn sax" where
  "parse_state H D states tok lx s =
     (case states of
        [] \<Rightarrow> Inr (Some (Turn_done tok lx s))
      | True # outer \<Rightarrow>
          (let (tok1, lx1) = scan D lx
           in if tok1 = Tok_value_separator then
                let (tok2, lx2) = scan D lx1 in Inr (Some (Turn_value states tok2 lx2 s))
              else if tok1 = Tok_end_array then
                bind_sax (on_end_array H s) (\<lambda>s1. Inr (Some (Turn_state outer tok1 lx1 s1)))
              else bind_sax (on_parse_error H Json_parse_error s) (\<lambda>_. Inr None))
      | False # outer \<Rightarrow>
          (let (tok1, lx1) = scan D lx
           in if tok1 = Tok_value_separator then
                let (tok2, lx2) = scan D lx1 in parse_member H D states tok2 lx2 s
              else if tok1 = Tok_end_object then
                bind_sax (on_end_object H s) (\<lambda>s1. Inr (Some (Turn_state outer tok1 lx1 s1)))
              else bind_sax (on_parse_error H Json_parse_error s) (\<lambda>_. Inr None)))"

fun turn_measure :: "'s turn \<Rightarrow> nat" where
  "turn_measure (Turn_value states tok lx s) =
     3 * lex_left lx + (if tok = Tok_end_of_input \<or> tok = Tok_parse_error then 1 else 2)"
| "turn_measure (Turn_state states tok lx s) = 3 * lex_left lx + 1"
| "turn_measure (Turn_done tok lx s) = 3 * lex_left lx"

lemma bind_sax_cong [fundef_cong]:
  "m = m' \<Longrightarrow> (\<And>x. m' = Inr (Some x) \<Longrightarrow> f x = g x) \<Longrightarrow> bind_sax m f = bind_sax m' g"
  by (cases m) (auto simp: bind_sax_def split: option.split)

lemma bind_sax_Some: "bind_sax m f = Inr (Some y) \<longleftrightarrow> (\<exists>x. m = Inr (Some x) \<and> f x = Inr (Some y))"
  by (cases m) (auto simp: bind_sax_def split: option.split)

lemma parse_member_measure:
  "parse_member H D states tok lx s = Inr (Some t) \<Longrightarrow> turn_measure t \<le> 3 * lex_left lx"
proof -
  assume a: "parse_member H D states tok lx s = Inr (Some t)"
  obtain tok1 lx1 where sc: "scan D lx = (tok1, lx1)" by fastforce
  obtain tok2 lx2 where sc2: "scan D lx1 = (tok2, lx2)" by fastforce
  show ?thesis
    using a scan_left [OF sc] scan_left [OF sc2]
    by (auto simp: parse_member_def bind_sax_Some sc sc2 split: if_splits)
qed

text \<open>Every iteration that goes on is nearer to the end of the input.\<close>

lemma parse_value_measure:
  assumes "parse_value H D states tok lx s = Inr (Some t)"
  shows "turn_measure t < turn_measure (Turn_value states tok lx s)"
proof -
  obtain tok1 lx1 where sc: "scan D lx = (tok1, lx1)" by fastforce
  show ?thesis
    using assms scan_left [OF sc]
    by (auto simp: parse_value_def Let_def scalar_turn_def bind_sax_Some sc
        split: token_type.splits if_splits option.splits dest!: parse_member_measure)
qed

lemma parse_state_measure:
  assumes "parse_state H D states tok lx s = Inr (Some t)"
  shows "turn_measure t < turn_measure (Turn_state states tok lx s)"
proof -
  obtain tok1 lx1 where sc: "scan D lx = (tok1, lx1)" by fastforce
  obtain tok2 lx2 where sc2: "scan D lx1 = (tok2, lx2)" by fastforce
  show ?thesis
    using assms scan_left [OF sc] scan_left [OF sc2]
    by (auto simp: parse_state_def bind_sax_Some sc sc2
        split: list.splits bool.splits if_splits dest!: parse_member_measure)
qed

function parse_turns :: "'s handler \<Rightarrow> strtod \<Rightarrow> 's turn \<Rightarrow> (token_type \<times> lexer \<times> 's) sax" where
  "parse_turns H D (Turn_done tok lx s) = Inr (Some (tok, lx, s))"
| "parse_turns H D (Turn_value states tok lx s) =
     bind_sax (parse_value H D states tok lx s) (\<lambda>t. parse_turns H D t)"
| "parse_turns H D (Turn_state states tok lx s) =
     bind_sax (parse_state H D states tok lx s) (\<lambda>t. parse_turns H D t)"
  by (metis prod_cases3 turn.exhaust) auto
termination
  by (relation "measure (\<lambda>(_, _, t). turn_measure t)")
    (auto dest: parse_value_measure parse_state_measure simp del: turn_measure.simps)

definition sax_parse_internal :: "'s handler \<Rightarrow> strtod \<Rightarrow> token_type \<Rightarrow> lexer \<Rightarrow> 's \<Rightarrow> (token_type \<times> lexer \<times> 's) sax" where
  "sax_parse_internal H D last_token lx s = parse_turns H D (Turn_value [] last_token lx s)"

section \<open>The public operations\<close>

text \<open>\<open>sax_parse\<close>; the constructor of the parser has read the first token.\<close>

definition sax_parse_text :: "'s handler \<Rightarrow> strtod \<Rightarrow> bool \<Rightarrow> bool \<Rightarrow> string \<Rightarrow> 's \<Rightarrow> 's sax" where
  "sax_parse_text H D strict ignore_comments input s =
     (let (tok, lx) = scan D (new_lexer ignore_comments input)
      in bind_sax (sax_parse_internal H D tok lx s) (\<lambda>(tok1, lx1, s1).
           if strict \<and> fst (scan D lx1) \<noteq> Tok_end_of_input then on_parse_error H Json_parse_error s1
           else Inr (Some s1)))"

text \<open>
  \<open>parser::parse\<close> without a callback. The result of \<open>sax_parse_internal\<close> is not looked at; what counts is
  whether the receiver saw an error, that is, whether one of its calls returned false (\<open>Inr None\<close>, from
  where on it stays in error). Then the value is discarded; the code still reads one more token of its
  local lexer before it finds that out, which changes nothing.
\<close>

definition parser_parse :: "strtod \<Rightarrow> bool \<Rightarrow> bool \<Rightarrow> bool \<Rightarrow> string \<Rightarrow> json result" where
  "parser_parse D strict allow_exceptions ignore_comments input =
     (let sdp = \<lparr>dp_root = JNull, dp_stack = []\<rparr>;
          (last_token, lx) = scan D (new_lexer ignore_comments input)
      in case sax_parse_internal (dom_handler allow_exceptions) D last_token lx sdp of
           Inl e \<Rightarrow> Inl e
         | Inr None \<Rightarrow> Inr JDiscarded
         | Inr (Some (tok1, lx1, sdp1)) \<Rightarrow>
             if strict \<and> fst (scan D lx1) \<noteq> Tok_end_of_input then
               map_res (\<lambda>_. JDiscarded) (on_parse_error (dom_handler allow_exceptions) Json_parse_error sdp1)
             else Inr (dp_root sdp1))"

text \<open>It comes to what \<open>sax_parse\<close> with the receiver that builds the value does.\<close>

lemma parser_parse_sax:
  "parser_parse D strict allow_exceptions ignore_comments input =
     map_res (\<lambda>res. case res of Some d \<Rightarrow> dp_root d | None \<Rightarrow> JDiscarded)
       (sax_parse_text (dom_handler allow_exceptions) D strict ignore_comments input
          \<lparr>dp_root = JNull, dp_stack = []\<rparr>)"
  by (auto simp: parser_parse_def sax_parse_text_def bind_sax_def dom_handler_def Let_def
      split: prod.split sum.split option.split)

definition json_parse :: "strtod \<Rightarrow> bool \<Rightarrow> bool \<Rightarrow> string \<Rightarrow> json result" where
  "json_parse D allow_exceptions ignore_comments input =
     parser_parse D True allow_exceptions ignore_comments input"

text \<open>\<open>operator>>\<close>: the text may go on after the value.\<close>

definition json_read :: "strtod \<Rightarrow> string \<Rightarrow> json result" where
  "json_read D input = parser_parse D False True False input"

definition json_accept :: "strtod \<Rightarrow> bool \<Rightarrow> string \<Rightarrow> bool result" where
  "json_accept D ignore_comments input =
     map_res (\<lambda>res. res \<noteq> None) (sax_parse_text acceptor D True ignore_comments input ())"

end
