(* ===== verification/SS_NumberText.thy ===== *)
theory SS_NumberText
  imports SS_Parser SS_Rfc8259
begin

text \<open>
  The automaton of \<open>scan_number\<close> against the numbers of RFC 8259: it accepts the texts of the grammar, tells
  by the label it went through whether a text is an integer, and the value the lexer and the parser give is
  the one of the grammar.
\<close>

section \<open>The numbers of the lexer\<close>

text \<open>A run of the automaton; the type is what the assignments at the labels say.\<close>

fun number_run :: "number_state \<Rightarrow> token_type \<Rightarrow> string \<Rightarrow> (number_state \<times> token_type) option" where
  "number_run st ty [] = Some (st, number_type_at st ty)"
| "number_run st ty (c # t) =
     (case number_next st (of_char c) of
        Num_goto st' \<Rightarrow> number_run st' (number_type_at st ty) t | _ \<Rightarrow> None)"

definition accepting :: "number_state \<Rightarrow> bool" where
  "accepting st \<longleftrightarrow> st \<in> {Num_zero, Num_any1, Num_decimal2, Num_any2}"

definition number_type :: "string \<Rightarrow> token_type option" where
  "number_type t =
     (case t of [] \<Rightarrow> None
      | c # t' \<Rightarrow>
          if c = CHR ''-'' \<or> is_digit_code (of_char c) then
            (case number_run (if c = CHR ''-'' then Num_minus else if c = CHR ''0'' then Num_zero else Num_any1)
                Tok_value_unsigned t' of
               Some (st, ty) \<Rightarrow> if accepting st then Some ty else None
             | None \<Rightarrow> None)
          else None)"

text \<open>The value of a number: an integer if it is one and fits 64 bits, otherwise a double.\<close>

definition number_value :: "strtod \<Rightarrow> string \<Rightarrow> json option" where
  "number_value D t =
     (case number_type t of
        None \<Rightarrow> None
      | Some ty \<Rightarrow>
          if ty = Tok_value_unsigned \<and> strtoull t \<noteq> None then map_option (\<lambda>n. JInt (int n)) (strtoull t)
          else if ty = Tok_value_integer \<and> strtoll t \<noteq> None then map_option JInt (strtoll t)
          else if isfinite (D t) then Some (JFloat (D t)) else None)"

section \<open>Characters\<close>

lemma char_codes: "c = d \<longleftrightarrow> (of_char c :: int) = of_char d"
  by simp

lemma is_digit_char: "is_digit_code (of_char c) \<longleftrightarrow> c \<in> set ''0123456789''"
proof -
  have "is_digit_code n \<longleftrightarrow> n \<in> {48, 49, 50, 51, 52, 53, 54, 55, 56, 57}" for n
    unfolding is_digit_code_def insert_iff empty_iff by presburger
  then show ?thesis by (simp only: list.set insert_iff empty_iff char_codes) simp
qed

lemma is_exponent_char: "is_exponent_code (of_char c) \<longleftrightarrow> c \<in> set ''eE''"
  by (simp only: list.set insert_iff empty_iff char_codes is_exponent_code_def) simp

lemma digits_Cons [simp]: "digits (c # ds) \<longleftrightarrow> is_digit_code (of_char c) \<and> digits ds"
  by (simp add: digits_def is_digit_char)

lemma sign_codes:
  "(of_char c :: int) = 0x2E \<longleftrightarrow> c = CHR ''.''" "(of_char c :: int) = 0x2B \<longleftrightarrow> c = CHR ''+''"
  "(of_char c :: int) = 0x2D \<longleftrightarrow> c = CHR ''-''" "(of_char c :: int) = 0x30 \<longleftrightarrow> c = CHR ''0''"
  by (simp_all add: char_codes [of c])

section \<open>What the automaton accepts\<close>

text \<open>The rest of a number after each label.\<close>

fun number_rest :: "number_state \<Rightarrow> string \<Rightarrow> bool" where
  "number_rest Num_minus t \<longleftrightarrow> (\<exists>i f e. t = i @ f @ e \<and> int_text i \<and> frac_text f \<and> exp_text e)"
| "number_rest Num_zero t \<longleftrightarrow> (\<exists>f e. t = f @ e \<and> frac_text f \<and> exp_text e)"
| "number_rest Num_any1 t \<longleftrightarrow> (\<exists>ds f e. t = ds @ f @ e \<and> digits ds \<and> frac_text f \<and> exp_text e)"
| "number_rest Num_decimal1 t \<longleftrightarrow> (\<exists>ds e. t = ds @ e \<and> digits ds \<and> ds \<noteq> [] \<and> exp_text e)"
| "number_rest Num_decimal2 t \<longleftrightarrow> (\<exists>ds e. t = ds @ e \<and> digits ds \<and> exp_text e)"
| "number_rest Num_exponent t \<longleftrightarrow>
     (\<exists>s ds. t = s @ ds \<and> s \<in> {[], ''+'', ''-''} \<and> digits ds \<and> ds \<noteq> [])"
| "number_rest Num_sign t \<longleftrightarrow> digits t \<and> t \<noteq> []"
| "number_rest Num_any2 t \<longleftrightarrow> digits t"

declare number_rest.simps [simp del]
lemmas number_rest = number_rest.simps

lemma exp_text_Cons: "exp_text (c # t) \<longleftrightarrow> c \<in> set ''eE'' \<and> number_rest Num_exponent t"
  unfolding exp_text_def number_rest by blast

lemma frac_text_Cons: "frac_text (c # t) \<longleftrightarrow> c = CHR ''.'' \<and> digits t \<and> t \<noteq> []"
  unfolding frac_text_def by blast

lemma int_text_Cons: "int_text (c # t) \<longleftrightarrow> c = CHR ''0'' \<and> t = [] \<or> c \<noteq> CHR ''0'' \<and> is_digit_code (of_char c) \<and> digits t"
  by (auto simp: int_text_def)

lemma texts_Nil [simp]: "exp_text []" "frac_text []" "\<not> int_text []"
  by (simp_all add: exp_text_def frac_text_def int_text_def)

lemma rest_Nil: "number_rest st [] \<longleftrightarrow> accepting st"
  by (cases st) (auto simp: number_rest accepting_def)

text \<open>One character read is one step of the automaton.\<close>

lemma digits_split:
  "(\<exists>ds e. c # t = ds @ e \<and> digits ds \<and> P e) \<longleftrightarrow>
    is_digit_code (of_char c) \<and> (\<exists>ds e. t = ds @ e \<and> digits ds \<and> P e) \<or> P (c # t)"
proof
  assume "\<exists>ds e. c # t = ds @ e \<and> digits ds \<and> P e"
  then obtain ds e where "c # t = ds @ e" "digits ds" "P e" by blast
  then show "is_digit_code (of_char c) \<and> (\<exists>ds e. t = ds @ e \<and> digits ds \<and> P e) \<or> P (c # t)"
    by (cases ds) auto
next
  assume "is_digit_code (of_char c) \<and> (\<exists>ds e. t = ds @ e \<and> digits ds \<and> P e) \<or> P (c # t)"
  then show "\<exists>ds e. c # t = ds @ e \<and> digits ds \<and> P e"
  proof (elim disjE conjE exE)
    fix ds e assume "is_digit_code (of_char c)" "t = ds @ e" "digits ds" "P e"
    then show ?thesis by (intro exI [of _ "c # ds"] exI [of _ e]) simp
  next
    assume "P (c # t)"
    then show ?thesis by (intro exI [of _ "[]"] exI [of _ "c # t"]) simp
  qed
qed

lemma frac_exp_Cons:
  "(\<exists>f e. c # t = f @ e \<and> frac_text f \<and> exp_text e) \<longleftrightarrow>
    c = CHR ''.'' \<and> number_rest Num_decimal1 t \<or> exp_text (c # t)"
proof
  assume "\<exists>f e. c # t = f @ e \<and> frac_text f \<and> exp_text e"
  then obtain f e where fe: "c # t = f @ e" "frac_text f" "exp_text e" by blast
  then show "c = CHR ''.'' \<and> number_rest Num_decimal1 t \<or> exp_text (c # t)"
    by (cases f) (auto simp: frac_text_Cons number_rest)
next
  assume "c = CHR ''.'' \<and> number_rest Num_decimal1 t \<or> exp_text (c # t)"
  then show "\<exists>f e. c # t = f @ e \<and> frac_text f \<and> exp_text e"
  proof (elim disjE conjE)
    assume "c = CHR ''.''" "number_rest Num_decimal1 t"
    then obtain ds e where "c # t = (CHR ''.'' # ds) @ e" "digits ds" "ds \<noteq> []" "exp_text e" by (auto simp: number_rest)
    then show ?thesis by (metis frac_text_Cons)
  next
    assume "exp_text (c # t)"
    then show ?thesis by (intro exI [of _ "[]"] exI [of _ "c # t"]) simp
  qed
qed

lemma rest_zero: "number_rest Num_zero (c # t) \<longleftrightarrow> c = CHR ''.'' \<and> number_rest Num_decimal1 t \<or> exp_text (c # t)"
  using frac_exp_Cons by (simp add: number_rest(2))

lemma rest_any1:
  "number_rest Num_any1 (c # t) \<longleftrightarrow>
    is_digit_code (of_char c) \<and> number_rest Num_any1 t \<or> c = CHR ''.'' \<and> number_rest Num_decimal1 t \<or> exp_text (c # t)"
proof -
  let ?P = "\<lambda>u. \<exists>f e. u = f @ e \<and> frac_text f \<and> exp_text e"
  have "number_rest Num_any1 u \<longleftrightarrow> (\<exists>ds u'. u = ds @ u' \<and> digits ds \<and> ?P u')" for u by (auto simp: number_rest)
  then show ?thesis using digits_split [of c t ?P] frac_exp_Cons [of c t] by simp
qed

lemma rest_decimal2:
  "number_rest Num_decimal2 (c # t) \<longleftrightarrow> is_digit_code (of_char c) \<and> number_rest Num_decimal2 t \<or> exp_text (c # t)"
  using digits_split [of c t exp_text] by (simp add: number_rest(5))

lemma rest_decimal1:
  "number_rest Num_decimal1 (c # t) \<longleftrightarrow> is_digit_code (of_char c) \<and> number_rest Num_decimal2 t"
proof
  assume "number_rest Num_decimal1 (c # t)"
  then obtain ds e where "c # t = ds @ e" "digits ds" "ds \<noteq> []" "exp_text e" by (auto simp: number_rest)
  then show "is_digit_code (of_char c) \<and> number_rest Num_decimal2 t" by (cases ds) (auto simp: number_rest)
next
  assume "is_digit_code (of_char c) \<and> number_rest Num_decimal2 t"
  then obtain ds e where "c # t = (c # ds) @ e" "digits (c # ds)" "exp_text e" by (auto simp: number_rest)
  then show "number_rest Num_decimal1 (c # t)" unfolding number_rest by blast
qed

lemma rest_exponent:
  "number_rest Num_exponent (c # t) \<longleftrightarrow>
    c \<in> set ''+-'' \<and> number_rest Num_sign t \<or> is_digit_code (of_char c) \<and> number_rest Num_any2 t"
proof -
  have "number_rest Num_exponent u \<longleftrightarrow> digits u \<and> u \<noteq> [] \<or> (\<exists>ds. u = CHR ''+'' # ds \<and> digits ds \<and> ds \<noteq> []) \<or>
      (\<exists>ds. u = CHR ''-'' # ds \<and> digits ds \<and> ds \<noteq> [])" for u
  proof -
    have "number_rest Num_exponent u \<longleftrightarrow> (\<exists>s \<in> {[], ''+'', ''-''}. \<exists>ds. u = s @ ds \<and> digits ds \<and> ds \<noteq> [])"
      unfolding number_rest by blast
    then show ?thesis by auto
  qed
  then show ?thesis by (auto simp: number_rest)
qed

lemma rest_minus:
  "number_rest Num_minus (c # t) \<longleftrightarrow>
    (if c = CHR ''0'' then number_rest Num_zero t else is_digit_code (of_char c) \<and> number_rest Num_any1 t)"
proof
  assume "number_rest Num_minus (c # t)"
  then obtain i f e where "c # t = i @ f @ e" "int_text i" "frac_text f" "exp_text e" by (auto simp: number_rest)
  then show "if c = CHR ''0'' then number_rest Num_zero t else is_digit_code (of_char c) \<and> number_rest Num_any1 t"
    by (cases i) (auto simp: number_rest int_text_Cons)
next
  assume a: "if c = CHR ''0'' then number_rest Num_zero t else is_digit_code (of_char c) \<and> number_rest Num_any1 t"
  have "\<exists>ds f e. c # t = (c # ds) @ f @ e \<and> int_text (c # ds) \<and> frac_text f \<and> exp_text e"
  proof (cases "c = CHR ''0''")
    case True
    then obtain f e where "t = [] @ f @ e" "frac_text f" "exp_text e" using a by (auto simp: number_rest)
    then show ?thesis using True by (intro exI [of _ "[]"] exI [of _ f] exI [of _ e]) (simp add: int_text_Cons)
  next
    case False
    then show ?thesis using a by (auto simp: number_rest int_text_Cons)
  qed
  then show "number_rest Num_minus (c # t)" unfolding number_rest by blast
qed

text \<open>The three kinds of characters exclude each other.\<close>

lemma kinds:
  "is_exponent_code (of_char c) \<longleftrightarrow> c \<in> set ''eE''"
  "is_digit_code (of_char c) \<Longrightarrow> c \<noteq> CHR ''.'' \<and> c \<notin> set ''eE'' \<and> c \<notin> set ''+-''"
  by (auto simp: is_exponent_char is_digit_char)

lemma rest_Cons:
  "number_rest st (c # t) \<longleftrightarrow> (\<exists>st'. number_next st (of_char c) = Num_goto st' \<and> number_rest st' t)"
proof -
  note k = kinds(1) kinds(2) [of c] sign_codes exp_text_Cons
  show ?thesis
  proof (cases st)
    case Num_minus
    then show ?thesis by (auto simp: rest_minus k is_digit_char)
  next
    case Num_zero
    then show ?thesis by (auto simp: rest_zero k)
  next
    case Num_any1
    then show ?thesis using kinds(2) [of c] by (auto simp: rest_any1 k)
  next
    case Num_decimal1
    then show ?thesis by (auto simp: rest_decimal1)
  next
    case Num_decimal2
    then show ?thesis using kinds(2) [of c] by (auto simp: rest_decimal2 k)
  next
    case Num_exponent
    then show ?thesis using kinds(2) [of c] by (auto simp: rest_exponent k)
  next
    case Num_sign
    then show ?thesis by (auto simp: number_rest)
  next
    case Num_any2
    then show ?thesis by (auto simp: number_rest)
  qed
qed

lemma run_accepts: "(\<exists>st' ty'. number_run st ty t = Some (st', ty') \<and> accepting st') \<longleftrightarrow> number_rest st t"
  by (induction st ty t rule: number_run.induct) (auto simp: rest_Nil rest_Cons split: number_action.split)

lemma run_type:
  "number_run st ty t = Some (st', ty') \<Longrightarrow>
    ty' = (if \<exists>c \<in> set t. c \<in> set ''.eE'' then Tok_value_float else number_type_at st ty)"
proof (induction st ty t arbitrary: st' ty' rule: number_run.induct)
  case (2 st ty c t)
  then obtain st1 where st1: "number_next st (of_char c) = Num_goto st1"
    "number_run st1 (number_type_at st ty) t = Some (st', ty')" by (auto split: number_action.splits)
  have "number_type_at st1 x = (if c \<in> set ''.eE'' then Tok_value_float else x)" for x
    using st1(1) kinds [of c] sign_codes [of c]
    by (cases st) (auto split: if_splits)
  then show ?case using "2.IH" [OF st1] by auto
qed simp

section \<open>Texts and types\<close>

lemma number_type_None: "number_type t = None \<longleftrightarrow> \<not> (number_rest Num_minus t \<or> (\<exists>u. t = CHR ''-'' # u \<and> number_rest Num_minus u))"
proof (cases t)
  case Nil
  then show ?thesis by (simp add: number_type_def rest_Nil accepting_def)
next
  case (Cons c u)
  have acc: "(case number_run st ty u of Some (st, ty) \<Rightarrow> if accepting st then Some ty else None | None \<Rightarrow> None) = None
      \<longleftrightarrow> \<not> number_rest st u" for st ty
    unfolding run_accepts [where ty = ty, symmetric] by (auto split: option.split prod.split)
  have "\<not> is_digit_code (of_char (CHR ''-''))" "is_digit_code (of_char (CHR ''0''))" by (simp_all add: is_digit_code_def)
  then show ?thesis
    by (auto simp: Cons number_type_def acc rest_minus)
qed

lemma number_type_some:
  assumes "number_type t = Some ty"
  shows "ty = (if \<exists>c \<in> set t. c \<in> set ''.eE'' then Tok_value_float
    else if hd t = CHR ''-'' then Tok_value_integer else Tok_value_unsigned)"
proof -
  from assms obtain c u where t: "t = c # u" by (cases t) (auto simp: number_type_def)
  then obtain st' where run: "number_run (if c = CHR ''-'' then Num_minus else if c = CHR ''0'' then Num_zero else Num_any1)
      Tok_value_unsigned u = Some (st', ty)" and c: "c = CHR ''-'' \<or> is_digit_code (of_char c)"
    using assms by (auto simp: number_type_def split: option.splits if_splits)
  have "c \<notin> set ''.eE''" using c kinds(2) [of c] by auto
  then show ?thesis using run_type [OF run] t by (auto split: if_splits)
qed

lemma int_text_digits: "int_text i \<Longrightarrow> digits i \<and> i \<noteq> []"
  by (auto simp: int_text_def is_digit_code_def)

lemma digits_no_sign: "digits ds \<Longrightarrow> c \<in> set ds \<Longrightarrow> c \<notin> set ''.eE'' \<and> c \<noteq> CHR ''-''"
  by (auto simp: digits_def)

text \<open>The type of a text of the grammar.\<close>

lemma number_type_text:
  assumes "int_text i" "frac_text f" "exp_text e" "s = [] \<or> s = ''-''"
  shows "number_type (s @ i @ f @ e) =
    Some (if f \<noteq> [] \<or> e \<noteq> [] then Tok_value_float else if s = [] then Tok_value_unsigned else Tok_value_integer)"
proof -
  have "number_rest Num_minus (i @ f @ e)" using assms(1-3) unfolding number_rest by blast
  then have "number_type (s @ i @ f @ e) \<noteq> None" using assms(4) unfolding number_type_None by auto
  then obtain ty where ty: "number_type (s @ i @ f @ e) = Some ty" by blast
  have i: "digits i" "i \<noteq> []" using int_text_digits [OF assms(1)] by simp_all
  have "(\<exists>c \<in> set (s @ i @ f @ e). c \<in> set ''.eE'') \<longleftrightarrow> f \<noteq> [] \<or> e \<noteq> []"
  proof -
    have "(\<exists>c \<in> set f. c \<in> set ''.eE'') \<longleftrightarrow> f \<noteq> []"
      using assms(2) unfolding frac_text_def by (cases f) simp_all
    moreover have "(\<exists>c \<in> set e. c \<in> set ''.eE'') \<longleftrightarrow> e \<noteq> []"
      using assms(3) by (cases e) (auto simp: exp_text_Cons)
    moreover have "\<not> (\<exists>c \<in> set i. c \<in> set ''.eE'')" using digits_no_sign [OF i(1)] by blast
    moreover have "\<not> (\<exists>c \<in> set s. c \<in> set ''.eE'')" using assms(4) by (elim disjE) simp_all
    ultimately show ?thesis unfolding set_append bex_Un by blast
  qed
  moreover have "hd (s @ i @ f @ e) = CHR ''-'' \<longleftrightarrow> s \<noteq> []"
    using digits_no_sign [OF i(1), of "hd i"] i(2) assms(4) by auto
  ultimately have "ty = (if f \<noteq> [] \<or> e \<noteq> [] then Tok_value_float else if s \<noteq> [] then Tok_value_integer else Tok_value_unsigned)"
    using number_type_some [OF ty] by (simp only: split: if_split)
  then show ?thesis unfolding ty by simp
qed

lemma number_type_parts:
  assumes "number_type t \<noteq> None"
  obtains s i f e where "t = s @ i @ f @ e" "int_text i" "frac_text f" "exp_text e" "s = [] \<or> s = ''-''"
proof -
  from assms consider "number_rest Num_minus t" | u where "t = CHR ''-'' # u" "number_rest Num_minus u"
    unfolding number_type_None by blast
  then show thesis
  proof cases
    case 1
    then obtain i f e where "t = [] @ i @ f @ e" "int_text i" "frac_text f" "exp_text e" by (auto simp: number_rest)
    then show thesis using that by blast
  next
    case 2
    then obtain i f e where "t = ''-'' @ i @ f @ e" "int_text i" "frac_text f" "exp_text e" by (auto simp: number_rest)
    then show thesis using that by blast
  qed
qed

section \<open>Values\<close>

lemma digits_value_decimal: "digits_value ds = decimal_value ds"
proof -
  have "foldl (\<lambda>a c. 10 * a + char_digit c) a ds = a * 10 ^ length ds + decimal_value ds" for a
    by (induction ds arbitrary: a) (simp_all add: char_digit_def algebra_simps)
  then show ?thesis by (simp add: digits_value_def)
qed

lemma strtoull_text: "strtoull i = (if decimal_value i < 2 ^ 64 then Some (decimal_value i) else None)"
  by (simp add: strtoull_def digits_value_decimal)

lemma strtoll_text: "strtoll (CHR ''-'' # i) = (if decimal_value i \<le> 2 ^ 63 then Some (- int (decimal_value i)) else None)"
proof -
  have "- (2 ^ 63) \<le> - int n \<and> - int n < 2 ^ 63 \<longleftrightarrow> n \<le> 2 ^ 63" for n by auto
  then show ?thesis by (simp add: strtoll_def digits_value_decimal)
qed

theorem number_value_text: "number_value D t = Some v \<longleftrightarrow> number_text D v t"
proof
  assume a: "number_value D t = Some v"
  then have "number_type t \<noteq> None" unfolding number_value_def by (cases "number_type t") simp_all
  then obtain s i f e where t: "t = s @ i @ f @ e" and p: "int_text i" "frac_text f" "exp_text e" "s = [] \<or> s = ''-''"
    by (rule number_type_parts)
  note a = a [unfolded number_value_def t number_type_text [OF p] option.case]
  show "number_text D v t"
  proof (cases "f \<noteq> [] \<or> e \<noteq> [] \<or> s = [] \<and> 2 ^ 64 \<le> decimal_value i \<or> s = ''-'' \<and> 2 ^ 63 < decimal_value i")
    case True
    then have "v = JFloat (D (s @ i @ f @ e))" "isfinite (D (s @ i @ f @ e))"
      using a p(4) by (auto simp: strtoull_text strtoll_text split: if_splits)
    then show ?thesis using n_double [OF p(1-3) True p(4)] t by simp
  next
    case False
    then show ?thesis using a p(4) n_positive [OF p(1)] n_negative [OF p(1)] t
      by (auto simp: strtoull_text strtoll_text)
  qed
next
  assume "number_text D v t"
  then show "number_value D t = Some v"
  proof induction
    case (n_positive i)
    then show ?case using number_type_text [OF n_positive(1), of "[]" "[]" "[]"] by (simp add: number_value_def strtoull_text)
  next
    case (n_negative i)
    then show ?case using number_type_text [OF n_negative(1), of "[]" "[]" "''-''"] by (simp add: number_value_def strtoll_text)
  next
    case (n_double i f e s)
    then show ?case using number_type_text [OF n_double(1-3,5)]
      by (auto simp: number_value_def strtoull_text strtoll_text)
  qed
qed

end
