(* ===== verification/SS_Grammar.thy ===== *)
theory SS_Grammar
  imports SS_NumberText
begin

text \<open>
  What the lexer does on a text of the grammar of \<open>SS_Rfc8259\<close>: its white space, a number (by
  \<open>SS_NumberText\<close>) and the steps over a string. \<open>reads lx r\<close> says that the lexer \<open>lx\<close>
  still has the text \<open>r\<close> before it.
\<close>

section \<open>White space\<close>

lemma is_white_char: "is_white (of_char c) \<longleftrightarrow> c \<in> {CHR 0x20, CHR 0x09, CHR 0x0A, CHR 0x0D}"
  unfolding is_white_def insert_iff char_codes by simp

lemma white_is_white: "white w \<longleftrightarrow> (\<forall>c \<in> set w. is_white (of_char c))"
  unfolding white_def is_white_char by blast

lemma white_Cons [simp]: "white (c # w) \<longleftrightarrow> is_white (of_char c) \<and> white w"
  by (simp add: white_is_white)

section \<open>The rules over the bytes the lexer writes\<close>

lemma surrogate_scalar:
  assumes "0xD800 \<le> u1" "u1 \<le> 0xDBFF" "0xDC00 \<le> u2" "u2 \<le> 0xDFFF"
  shows "scalar_value (0x10000 + 0x400 * (u1 - 0xD800) + (u2 - 0xDC00))"
  using assms by (auto simp: scalar_value_def)

lemma char_text_code:
  "scalar_value cp \<Longrightarrow> 0x80 \<le> cp \<Longrightarrow> char_text (map char_of (codepoint_bytes cp)) (map char_of (codepoint_bytes cp))"
  "hex_number h cp \<Longrightarrow> scalar_value cp \<Longrightarrow> char_text (map char_of (codepoint_bytes cp)) (u_prefix @ h)"
  "hex_number h1 u1 \<Longrightarrow> hex_number h2 u2 \<Longrightarrow> 0xD800 \<le> u1 \<Longrightarrow> u1 \<le> 0xDBFF \<Longrightarrow> 0xDC00 \<le> u2 \<Longrightarrow> u2 \<le> 0xDFFF \<Longrightarrow>
    char_text (map char_of (codepoint_bytes (0x10000 + 0x400 * (u1 - 0xD800) + (u2 - 0xDC00))))
      (u_prefix @ h1 @ u_prefix @ h2)"
  using char_utf8 [of cp] char_unicode [of h cp] char_surrogates [of h1 u1 h2 u2] surrogate_scalar [of u1 u2]
  by (simp_all add: scalar_bytes)

lemma g_number_value: "number_value D t = Some v \<Longrightarrow> grammar D v t"
  by (simp add: g_number number_value_text)

section \<open>What a lexer has before it\<close>

definition lex_ok :: "lexer \<Rightarrow> bool" where
  "lex_ok lx \<longleftrightarrow> (lx_next_unget lx \<and> lx_current lx = eof \<longrightarrow> lx_input lx = []) \<and>
     (lx_current lx = eof \<or> 0 \<le> lx_current lx \<and> lx_current lx < 256) \<and> lx_decimal_point lx = 0x2E"

definition reads :: "lexer \<Rightarrow> string \<Rightarrow> bool" where
  "reads lx r \<longleftrightarrow> lex_ok lx \<and> lex_rest lx = r"

definition under_way :: "lexer \<Rightarrow> string \<Rightarrow> bool" where
  "under_way lx r \<longleftrightarrow> reads lx r \<and> 0 < lx_chars_read_total lx"

lemma under_way_reads [simp]: "under_way lx r \<Longrightarrow> reads lx r"
  by (simp add: under_way_def)

lemma of_char_int [simp]: "0 \<le> (of_char c :: int)" "(of_char c :: int) < 256" "(of_char c :: int) \<noteq> - 1"
proof -
  have "(of_char c :: int) = int (of_char c)" by (simp only: of_nat_of_char)
  moreover have "int (of_char c) < 256" using nat_of_char_less_256 [of c] by linarith
  ultimately show "0 \<le> (of_char c :: int)" "(of_char c :: int) < 256" "(of_char c :: int) \<noteq> - 1" by linarith+
qed

lemma of_char_eof [simp]: "(of_char c :: int) \<noteq> eof"
  by (simp add: eof_def)

lemma to_char_of_char [simp]: "to_char (of_char c) = c"
proof -
  have "nat ((of_char c :: int) mod 256) = of_char c"
    by (metis nat_int of_char_mod_256 of_nat_of_char)
  then show ?thesis by (simp add: to_char_def)
qed


lemma reads_new: "reads (new_lexer ignore t) t"
  by (simp add: reads_def lex_ok_def lex_rest_def new_lexer_def eof_def)

text \<open>What reading a character leaves alone.\<close>

definition same_buffer :: "lexer \<Rightarrow> lexer \<Rightarrow> bool" where
  "same_buffer lx lx' \<longleftrightarrow> lx_token_buffer lx' = lx_token_buffer lx"

lemma get_cases:
  assumes "reads lx r"
  shows "r = [] \<Longrightarrow> under_way (lex_get lx) [] \<and> lx_current (lex_get lx) = eof \<and> same_buffer lx (lex_get lx)"
    and "r = c # r' \<Longrightarrow> under_way (lex_get lx) r' \<and> lx_current (lex_get lx) = of_char c \<and> same_buffer lx (lex_get lx)"
proof -
  show "under_way (lex_get lx) [] \<and> lx_current (lex_get lx) = eof \<and> same_buffer lx (lex_get lx)" if "r = []"
    using assms that by (auto simp: reads_def under_way_def lex_ok_def lex_rest_def lex_get_def get_character_def
        same_buffer_def Let_def eof_def split: if_splits)
  assume r: "r = c # r'"
  show "under_way (lex_get lx) r' \<and> lx_current (lex_get lx) = of_char c \<and> same_buffer lx (lex_get lx)"
  proof (cases "lx_next_unget lx")
    case True
    then have cur: "lx_current lx \<noteq> eof" using assms r by (auto simp: reads_def lex_ok_def lex_rest_def)
    with True assms r have c: "to_char (lx_current lx) = c" "lx_input lx = r'" by (auto simp: reads_def lex_rest_def)
    have "0 \<le> lx_current lx" "lx_current lx < 256" using assms cur by (auto simp: reads_def lex_ok_def)
    then have "lx_current lx = of_char c"
      using c(1) unfolding to_char_def by (metis mod_pos_pos_trivial of_char_of nat_0_le of_nat_of_char of_nat_mod of_nat_numeral)
    with True assms cur c show ?thesis
      by (auto simp: reads_def under_way_def lex_ok_def lex_rest_def lex_get_def same_buffer_def Let_def)
  next
    case False
    then show ?thesis using assms r
      by (auto simp: reads_def under_way_def lex_ok_def lex_rest_def lex_get_def get_character_def same_buffer_def
          Let_def)
  qed
qed

lemma get_Cons:
  assumes "reads lx (c # r)"
  obtains lx' where "lex_get lx = lx'" "under_way lx' r" "reads lx' r" "lx_current lx' = of_char c" "same_buffer lx lx'"
  using get_cases(2) [OF assms refl] by (auto simp: under_way_def)

lemma get_no_unget [simp]: "\<not> lx_next_unget (lex_get lx)"
  by (simp add: lex_get_def get_character_def Let_def split: list.split)

lemma unget_get:
  assumes "reads lx r"
  shows "reads (lex_unget (lex_get lx)) r" "same_buffer lx (lex_unget (lex_get lx))"
    "0 < lx_chars_read_total lx \<Longrightarrow> under_way (lex_unget (lex_get lx)) r"
proof -
  have cur: "lx_current (lex_get lx) = (case r of [] \<Rightarrow> eof | c # r' \<Rightarrow> of_char c)"
    and u: "under_way (lex_get lx) (tl r)" "same_buffer lx (lex_get lx)"
    using get_cases [OF assms] by (cases r; auto)+
  show r: "reads (lex_unget (lex_get lx)) r"
    using cur u(1) by (cases r) (auto simp: under_way_def reads_def lex_ok_def lex_rest_def lex_unget_def)
  show "same_buffer lx (lex_unget (lex_get lx))" using u(2) by (simp add: same_buffer_def lex_unget_def)
  have "lx_chars_read_total (lex_unget (lex_get lx)) = lx_chars_read_total lx"
    by (simp add: lex_unget_def lex_get_def get_character_def Let_def split: list.split)
  then show "under_way (lex_unget (lex_get lx)) r" if "0 < lx_chars_read_total lx" using r that by (simp add: under_way_def)
qed

lemma reads_simps [simp]:
  "reads (lex_add c lx) r = reads lx r" "reads (lex_reset lx) r = reads lx r"
  "under_way (lex_add c lx) r = under_way lx r" "under_way (lex_reset lx) r = under_way lx r"
  "reads (add_bytes bs lx) r = reads lx r" "under_way (add_bytes bs lx) r = under_way lx r"
proof -
  show a: "reads (lex_add c lx) r = reads lx r" "under_way (lex_add c lx) r = under_way lx r" for c lx
    by (simp_all add: reads_def under_way_def lex_ok_def lex_rest_def lex_add_def)
  show "reads (lex_reset lx) r = reads lx r" "under_way (lex_reset lx) r = under_way lx r"
    by (simp_all add: reads_def under_way_def lex_ok_def lex_rest_def lex_reset_def)
  show "reads (add_bytes bs lx) r = reads lx r" "under_way (add_bytes bs lx) r = under_way lx r"
    unfolding add_bytes_def by (induction bs arbitrary: lx) (simp_all add: a)
qed

lemma total_add [simp]: "lx_chars_read_total (lex_add c lx) = lx_chars_read_total lx"
  by (simp add: lex_add_def)

lemma buffer_simps [simp]:
  "lx_token_buffer (lex_add c lx) = lx_token_buffer lx @ [to_char c]"
  "lx_token_buffer (lex_reset lx) = []"
  "lx_token_buffer (add_bytes bs lx) = lx_token_buffer lx @ map char_of bs"
proof -
  show a: "lx_token_buffer (lex_add c lx) = lx_token_buffer lx @ [to_char c]" for c lx by (simp add: lex_add_def)
  show "lx_token_buffer (lex_reset lx) = []" by (simp add: lex_reset_def)
  have "to_char (int b) = char_of b" for b by (simp add: to_char_def nat_mod_distrib)
  then show "lx_token_buffer (add_bytes bs lx) = lx_token_buffer lx @ map char_of bs"
    unfolding add_bytes_def by (induction bs arbitrary: lx) (simp_all add: a)
qed


section \<open>Strings\<close>

lemma of_char_int_nat: "(of_char c :: int) = int (of_char c)"
  by (simp only: of_nat_of_char)

lemma code_eq_iff: "(of_char c :: int) = of_char d \<longleftrightarrow> c = d"
  by simp

lemma code_neq:
  "c \<noteq> CHR 0x22 \<Longrightarrow> (of_char c :: int) \<noteq> 0x22" "c \<noteq> CHR 0x5C \<Longrightarrow> (of_char c :: int) \<noteq> 0x5C"
  using code_eq_iff [of c "CHR 0x22"] code_eq_iff [of c "CHR 0x5C"] by auto

lemma of_char_char_of_int: "b < 256 \<Longrightarrow> (of_char (char_of (b::nat)) :: int) = int b"
  by (simp add: of_char_int_nat)

lemma bytes_in_range_reads:
  "list_all2 (\<lambda>(lo, hi) b. lo \<le> int b \<and> int b \<le> hi \<and> b < 256) rs bs \<Longrightarrow> under_way lx (map char_of bs @ r) \<Longrightarrow>
    \<exists>lx'. bytes_in_range rs lx = (True, lx') \<and> under_way lx' r \<and>
      lx_token_buffer lx' = lx_token_buffer lx @ map char_of bs"
proof (induction rs arbitrary: bs lx)
  case (Cons lh rs)
  obtain lo hi where lh: "lh = (lo, hi)" by fastforce
  from Cons.prems(1) lh obtain b bs' where bs: "bs = b # bs'" "lo \<le> int b" "int b \<le> hi" "b < 256"
    "list_all2 (\<lambda>(lo, hi) b. lo \<le> int b \<and> int b \<le> hi \<and> b < 256) rs bs'" by (auto simp: list_all2_Cons1)
  obtain lx1 where 1: "lex_get lx = lx1" "under_way lx1 (map char_of bs' @ r)" "lx_current lx1 = int b" "same_buffer lx lx1"
    using get_Cons [of lx "char_of b" "map char_of bs' @ r"] Cons.prems(2) bs(1,4) by (auto simp: of_char_char_of_int)
  from Cons.IH [OF bs(5), of "lex_add (int b) lx1"] 1(2) obtain lx' where
    "bytes_in_range rs (lex_add (int b) lx1) = (True, lx')" "under_way lx' r"
    "lx_token_buffer lx' = lx_token_buffer (lex_add (int b) lx1) @ map char_of bs'" by auto
  then show ?case using 1 bs lh by (auto simp: Let_def same_buffer_def to_char_def nat_mod_distrib)
qed (auto simp: list_all2_Nil2)

lemma lead_bytes_3:
  assumes "q < 16" "m < 64" "q = 0 \<Longrightarrow> 32 \<le> m" "q = 13 \<Longrightarrow> m < 32" "k < 64"
  shows "\<exists>rs. lead_ranges (int (224 + q)) = Some rs \<and>
    list_all2 (\<lambda>(lo, hi) b. lo \<le> int b \<and> int b \<le> hi \<and> b < 256) rs [128 + m, 128 + k]"
proof -
  consider "q = 0" | "q = 13" | "0 < q" "q \<noteq> 13" by blast
  then show ?thesis
  proof cases
    case 3
    then have "lead_ranges (int (224 + q)) = Some [(0x80, 0xBF), (0x80, 0xBF)]"
      using assms(1) by (simp add: lead_ranges_def) linarith
    then show ?thesis using assms by simp
  qed (use assms in \<open>simp_all add: lead_ranges_def\<close>)
qed

lemma lead_bytes_4:
  assumes "q \<le> 4" "m < 64" "q = 0 \<Longrightarrow> 16 \<le> m" "q = 4 \<Longrightarrow> m < 16" "k < 64" "l < 64"
  shows "\<exists>rs. lead_ranges (int (240 + q)) = Some rs \<and>
    list_all2 (\<lambda>(lo, hi) b. lo \<le> int b \<and> int b \<le> hi \<and> b < 256) rs [128 + m, 128 + k, 128 + l]"
proof -
  consider "q = 0" | "q = 4" | "0 < q" "q < 4" using assms(1) by linarith
  then show ?thesis by cases (use assms in \<open>simp_all add: lead_ranges_def\<close>)
qed

text \<open>The lexer takes the encoding of every scalar value.\<close>

lemma lead_bytes:
  assumes "scalar_value cp" "0x80 \<le> cp"
  shows "\<exists>b bs rs. codepoint_bytes cp = b # bs \<and> 0x80 \<le> b \<and> b < 256 \<and> lead_ranges (int b) = Some rs \<and>
    list_all2 (\<lambda>(lo, hi) b. lo \<le> int b \<and> int b \<le> hi \<and> b < 256) rs bs"
proof -
  have cp: "cp \<le> 0x10FFFF" using assms(1) by (simp add: scalar_value_def)
  consider "cp < 2048" | "2048 \<le> cp" "cp < 65536" | "65536 \<le> cp" by linarith
  then show ?thesis
  proof cases
    case 1
    then have "2 \<le> cp div 64" "cp div 64 < 32" using assms(2) by auto
    then have "lead_ranges (int (192 + cp div 64)) = Some [(0x80, 0xBF)]" by (simp add: lead_ranges_def)
    moreover have "cp mod 64 < 64" "cp mod 64 \<le> 63" "cp div 64 < 64" using \<open>cp div 64 < 32\<close> pos_mod_bound by auto
    ultimately show ?thesis using 1 assms(2) by (simp add: codepoint_bytes_arith)
  next
    case 2
    then have "cp div 4096 < 16" by simp
    with lead_bytes_3 [of "cp div 4096" "cp div 64 mod 64" "cp mod 64"] second_byte_3 [OF 2(1) assms(1)] 2
    show ?thesis by (auto simp: codepoint_bytes_arith)
  next
    case 3
    with lead_bytes_4 [of "cp div 262144" "cp div 4096 mod 64" "cp div 64 mod 64" "cp mod 64"]
      second_byte_4 [OF 3 assms(1)] cp
    show ?thesis by (auto simp: codepoint_bytes_arith)
  qed
qed


text \<open>A step of \<open>scan_string\<close>: the text \<open>t\<close> is read and \<open>s\<close> is added to the token.\<close>

definition string_step :: "lexer \<Rightarrow> string \<Rightarrow> string \<Rightarrow> bool" where
  "string_step lx s r \<longleftrightarrow>
     (\<exists>lx'. scan_string_loop lx = scan_string_loop lx' \<and> under_way lx' r \<and>
        lx_token_buffer lx' = lx_token_buffer lx @ s)"

lemma step_plain:
  assumes "reads lx (c # r)" "0x20 \<le> (of_char c :: nat)" "(of_char c :: nat) < 0x80" "c \<noteq> CHR 0x22" "c \<noteq> CHR 0x5C"
  shows "string_step lx [c] r"
proof -
  obtain lx1 where 1: "lex_get lx = lx1" "under_way lx1 r" "lx_current lx1 = of_char c" "same_buffer lx lx1"
    using get_Cons [OF assms(1)] by metis
  have c: "0x20 \<le> (of_char c :: int)" "(of_char c :: int) < 0x80" using assms(2,3) by (simp_all only: of_char_int_nat)
  have "scan_string_loop lx = scan_string_loop (lex_add (of_char c) lx1)"
    using 1(1,3) c code_neq assms(4,5) by (subst scan_string_loop.simps) (simp add: Let_def plain_code_def)
  then show ?thesis unfolding string_step_def using 1
    by (intro exI [of _ "lex_add (of_char c) lx1"]) (simp add: same_buffer_def)
qed

lemma step_utf8:
  assumes "reads lx (map char_of (codepoint_bytes cp) @ r)" "scalar_value cp" "0x80 \<le> cp"
  shows "string_step lx (map char_of (codepoint_bytes cp)) r"
proof -
  obtain b bs rs where b: "codepoint_bytes cp = b # bs" "0x80 \<le> b" "b < 256" "lead_ranges (int b) = Some rs"
    "list_all2 (\<lambda>(lo, hi) b. lo \<le> int b \<and> int b \<le> hi \<and> b < 256) rs bs"
    using lead_bytes [OF assms(2,3)] by blast
  obtain lx1 where 1: "lex_get lx = lx1" "under_way lx1 (map char_of bs @ r)" "lx_current lx1 = int b" "same_buffer lx lx1"
  proof -
    have "reads lx (char_of b # map char_of bs @ r)" using assms(1) b(1) by simp
    from get_cases(2) [OF this refl] of_char_char_of_int [OF b(3)] that [OF refl] show thesis by simp
  qed
  obtain lx2 where 2: "bytes_in_range rs (lex_add (int b) lx1) = (True, lx2)" "under_way lx2 r"
    "lx_token_buffer lx2 = lx_token_buffer (lex_add (int b) lx1) @ map char_of bs"
    using bytes_in_range_reads [OF b(5), of "lex_add (int b) lx1" r] 1(2) by auto
  have "scan_string_loop lx = scan_string_loop lx2"
    using 1(1,3) b 2(1) by (subst scan_string_loop.simps) (simp add: Let_def plain_code_def next_byte_in_range_def eof_def)
  then show ?thesis unfolding string_step_def using 1 2 b
    by (intro exI [of _ lx2]) (simp add: same_buffer_def to_char_def nat_mod_distrib)
qed


lemma step_escape:
  assumes "reads lx (CHR 0x5C # char_of (e :: nat) # r)"
    and "(e, c) \<in> {(0x22, 0x22), (0x5C, 0x5C), (0x2F, 0x2F), (0x62, 0x08), (0x66, 0x0C),
      (0x6E, 0x0A), (0x72, 0x0D), (0x74, 0x09 :: nat)}"
  shows "string_step lx [char_of c] r"
proof -
  obtain lx1 where 1: "lex_get lx = lx1" "under_way lx1 (char_of e # r)" "lx_current lx1 = 0x5C" "same_buffer lx lx1"
    using get_cases(2) [OF assms(1) refl] by simp
  have e: "e < 256" using assms(2) by auto
  obtain lx2 where 2: "lex_get lx1 = lx2" "under_way lx2 r" "lx_current lx2 = int e" "same_buffer lx1 lx2"
    using get_cases(2) [OF under_way_reads [OF 1(2)] refl] of_char_char_of_int [OF e] by simp
  have esc: "scan_escape lx1 = (True, lex_add (int c) lx2)"
    using assms(2) 2(1,3) by (auto simp: scan_escape_def)
  have "scan_string_loop lx = scan_string_loop (lex_add (int c) lx2)"
    using 1(1,3) esc by (subst scan_string_loop.simps) (simp add: Let_def eof_def)
  then show ?thesis unfolding string_step_def using 1 2
    by (intro exI [of _ "lex_add (int c) lx2"]) (simp add: same_buffer_def to_char_def nat_mod_distrib)
qed

lemma hex_value_code:
  assumes "hex_value c = Some d"
  shows "d < 16"
    and "(0x30 \<le> (of_char c :: int) \<and> (of_char c :: int) \<le> 0x39 \<and> int d = of_char c - 0x30) \<or>
      (0x41 \<le> (of_char c :: int) \<and> (of_char c :: int) \<le> 0x46 \<and> int d = of_char c - 0x37) \<or>
      (0x61 \<le> (of_char c :: int) \<and> (of_char c :: int) \<le> 0x66 \<and> int d = of_char c - 0x57)"
  using assms unfolding of_char_int_nat by (auto simp: hex_value_def Let_def split: if_splits)

lemma codepoint_digit:
  assumes "reads lx (c # r)" "hex_value c = Some d"
  obtains lx' where "get_codepoint_from (f # fs) cp lx = get_codepoint_from fs (cp + push_bit f (int d)) lx'"
    "under_way lx' r" "same_buffer lx lx'"
proof -
  obtain lx1 where 1: "lex_get lx = lx1" "under_way lx1 r" "lx_current lx1 = of_char c" "same_buffer lx lx1"
    using get_cases(2) [OF assms(1) refl] by simp
  from hex_value_code(2) [OF assms(2)]
  have "get_codepoint_from (f # fs) cp lx = get_codepoint_from fs (cp + push_bit f (int d)) lx1"
    using 1(1,3) by (auto simp: Let_def)
  then show thesis using that 1 by blast
qed

lemma get_codepoint_reads:
  assumes "reads lx (h @ r)" "hex_number h u"
  obtains lx' where "get_codepoint lx = (int u, lx')" "under_way lx' r" "same_buffer lx lx'" "u < 65536"
proof -
  from assms(2) obtain c1 c2 c3 c4 d1 d2 d3 d4 where h: "h = [c1, c2, c3, c4]" "hex_value c1 = Some d1"
    "hex_value c2 = Some d2" "hex_value c3 = Some d3" "hex_value c4 = Some d4"
    "u = 4096 * d1 + 256 * d2 + 16 * d3 + d4" unfolding hex_number_def by blast
  have "reads lx (c1 # c2 # c3 # c4 # r)" using assms(1) h by simp
  then obtain lx1 where 1: "get_codepoint_from [12, 8, 4, 0] 0 lx = get_codepoint_from [8, 4, 0] (0 + push_bit 12 (int d1)) lx1"
    "under_way lx1 (c2 # c3 # c4 # r)" "same_buffer lx lx1" using codepoint_digit [OF _ h(2)] by metis
  obtain lx2 where 2: "get_codepoint_from [8, 4, 0] (0 + push_bit 12 (int d1)) lx1 =
      get_codepoint_from [4, 0] (0 + push_bit 12 (int d1) + push_bit 8 (int d2)) lx2"
    "under_way lx2 (c3 # c4 # r)" "same_buffer lx1 lx2" using codepoint_digit [OF under_way_reads [OF 1(2)] h(3)] by metis
  obtain lx3 where 3: "get_codepoint_from [4, 0] (0 + push_bit 12 (int d1) + push_bit 8 (int d2)) lx2 =
      get_codepoint_from [0] (0 + push_bit 12 (int d1) + push_bit 8 (int d2) + push_bit 4 (int d3)) lx3"
    "under_way lx3 (c4 # r)" "same_buffer lx2 lx3" using codepoint_digit [OF under_way_reads [OF 2(2)] h(4)] by metis
  obtain lx4 where 4: "get_codepoint_from [0] (0 + push_bit 12 (int d1) + push_bit 8 (int d2) + push_bit 4 (int d3)) lx3 =
      get_codepoint_from [] (0 + push_bit 12 (int d1) + push_bit 8 (int d2) + push_bit 4 (int d3) + push_bit 0 (int d4)) lx4"
    "under_way lx4 r" "same_buffer lx3 lx4" using codepoint_digit [OF under_way_reads [OF 3(2)] h(5)] by metis
  have "0 + push_bit 12 (int d1) + push_bit 8 (int d2) + push_bit 4 (int d3) + push_bit 0 (int d4) = int u"
    using h(6) by (simp add: push_bit_eq_mult)
  then have "get_codepoint lx = (int u, lx4)" unfolding get_codepoint_def 1(1) 2(1) 3(1) 4(1) by simp
  moreover have "u < 65536" using h hex_value_code(1) [OF h(2)] hex_value_code(1) [OF h(3)]
      hex_value_code(1) [OF h(4)] hex_value_code(1) [OF h(5)] by simp
  ultimately show thesis using that 1 2 3 4 by (simp add: same_buffer_def)
qed


lemma step_u_prefix:
  assumes "reads lx (u_prefix @ r)"
  obtains lx1 lx2 where "lex_get lx = lx1" "lx_current lx1 = 0x5C"
    "scan_escape lx1 = scan_unicode_escape lx2" "under_way lx2 r" "same_buffer lx lx2"
proof -
  have "reads lx (CHR 0x5C # CHR ''u'' # r)" using assms by (simp add: u_prefix_def)
  from get_cases(2) [OF this refl] obtain lx1 where 1: "lex_get lx = lx1" "under_way lx1 (CHR ''u'' # r)"
    "lx_current lx1 = 0x5C" "same_buffer lx lx1" by simp
  from get_cases(2) [OF under_way_reads [OF 1(2)] refl] obtain lx2 where 2: "lex_get lx1 = lx2" "under_way lx2 r"
    "lx_current lx2 = 0x75" "same_buffer lx1 lx2" by simp
  have "scan_escape lx1 = scan_unicode_escape lx2" using 2(1,3) by (simp add: scan_escape_def Let_def)
  then show thesis using 1 2 by (intro that [of lx1 lx2]) (simp_all add: same_buffer_def)
qed

lemma step_unicode:
  assumes "reads lx (u_prefix @ h @ r)" "hex_number h cp" "scalar_value cp"
  shows "string_step lx (map char_of (codepoint_bytes cp)) r"
proof -
  obtain lx1 lx2 where 1: "lex_get lx = lx1" "lx_current lx1 = 0x5C"
    "scan_escape lx1 = scan_unicode_escape lx2" "under_way lx2 (h @ r)" "same_buffer lx lx2"
    using step_u_prefix [OF assms(1)] by metis
  obtain lx3 where 3: "get_codepoint lx2 = (int cp, lx3)" "under_way lx3 r" "same_buffer lx2 lx3" "cp < 65536"
    using get_codepoint_reads [OF under_way_reads [OF 1(4)] assms(2)] by metis
  have "scan_unicode_escape lx2 = (True, add_bytes (codepoint_bytes cp) lx3)"
    using 3(1) assms(3) by (auto simp: scan_unicode_escape_def scalar_value_def)
  then have "scan_string_loop lx = scan_string_loop (add_bytes (codepoint_bytes cp) lx3)"
    using 1 by (subst scan_string_loop.simps) (simp add: Let_def eof_def)
  then show ?thesis unfolding string_step_def using 1 3
    by (intro exI [of _ "add_bytes (codepoint_bytes cp) lx3"]) (simp add: same_buffer_def)
qed

lemma surrogate_pair:
  assumes "0xD800 \<le> u1" "u1 \<le> 0xDBFF" "0xDC00 \<le> u2" "u2 \<le> 0xDFFF"
  shows "nat ((push_bit 10 (int u1) + int u2 - 0x35FDC00) mod 2 ^ 32) = 0x10000 + 0x400 * (u1 - 0xD800) + (u2 - 0xDC00)"
proof -
  obtain a b where ab: "u1 = 0xD800 + a" "u2 = 0xDC00 + b" using assms le_Suc_ex by meson
  then have "push_bit 10 (int u1) + int u2 - 0x35FDC00 = int (0x10000 + 0x400 * a + b)"
    by (simp add: push_bit_eq_mult)
  moreover have "0x10000 + 0x400 * a + b < 2 ^ 32" using assms ab by simp
  ultimately show ?thesis using ab by (simp add: nat_mod_distrib)
qed

lemma step_surrogates:
  assumes r: "reads lx (u_prefix @ h1 @ u_prefix @ h2 @ r)" and h: "hex_number h1 u1" "hex_number h2 u2"
    and u: "0xD800 \<le> u1" "u1 \<le> 0xDBFF" "0xDC00 \<le> u2" "u2 \<le> 0xDFFF"
  shows "string_step lx (map char_of (codepoint_bytes (0x10000 + 0x400 * (u1 - 0xD800) + (u2 - 0xDC00)))) r"
proof -
  let ?bs = "codepoint_bytes (0x10000 + 0x400 * (u1 - 0xD800) + (u2 - 0xDC00))"
  obtain lx1 lx2 where 1: "lex_get lx = lx1" "lx_current lx1 = 0x5C"
    "scan_escape lx1 = scan_unicode_escape lx2" "under_way lx2 (h1 @ u_prefix @ h2 @ r)" "same_buffer lx lx2"
    using step_u_prefix [OF r] by metis
  obtain lx3 where 3: "get_codepoint lx2 = (int u1, lx3)" "under_way lx3 (u_prefix @ h2 @ r)" "same_buffer lx2 lx3"
    using get_codepoint_reads [OF under_way_reads [OF 1(4)] h(1)] by metis
  have "reads lx3 (CHR 0x5C # CHR ''u'' # h2 @ r)" using 3(2) by (simp add: u_prefix_def)
  from get_cases(2) [OF this refl] obtain lx4 where 4: "lex_get lx3 = lx4" "under_way lx4 (CHR ''u'' # h2 @ r)"
    "lx_current lx4 = 0x5C" "same_buffer lx3 lx4" by simp
  from get_cases(2) [OF under_way_reads [OF 4(2)] refl] obtain lx5 where 5: "lex_get lx4 = lx5" "under_way lx5 (h2 @ r)"
    "lx_current lx5 = 0x75" "same_buffer lx4 lx5" by simp
  obtain lx6 where 6: "get_codepoint lx5 = (int u2, lx6)" "under_way lx6 r" "same_buffer lx5 lx6"
    using get_codepoint_reads [OF under_way_reads [OF 5(2)] h(2)] by metis
  have "scan_unicode_escape lx2 = (True, add_bytes ?bs lx6)"
    unfolding scan_unicode_escape_def 3(1) Let_def prod.case 4(1) 5(1) 6(1) surrogate_pair [OF u]
    using 4(3) 5(3) u by simp
  then have "scan_string_loop lx = scan_string_loop (add_bytes ?bs lx6)"
    using 1 by (subst scan_string_loop.simps) (simp add: Let_def eof_def)
  then show ?thesis unfolding string_step_def using 1 3 4 5 6
    by (intro exI [of _ "add_bytes ?bs lx6"]) (simp add: same_buffer_def)
qed

lemma char_text_step: "char_text s t \<Longrightarrow> reads lx (t @ r) \<Longrightarrow> string_step lx s r"
proof (induction rule: char_text.induct)
  case (char_plain c)
  then show ?case using step_plain [of lx c r] by simp
next
  case (char_utf8 cp)
  then show ?case using step_utf8 [of lx cp r] by (simp add: scalar_bytes)
next
  case (char_escape e c)
  then show ?case using step_escape [of lx e r c] by simp
next
  case (char_unicode h cp)
  then show ?case using step_unicode [of lx h r cp] by (simp add: scalar_bytes)
next
  case (char_surrogates h1 u1 h2 u2)
  then show ?case using step_surrogates [of lx h1 h2 r u1 u2] surrogate_scalar [of u1 u2] by (simp add: scalar_bytes)
qed

lemma string_body_scan:
  "string_body s t \<Longrightarrow> reads lx (t @ CHR 0x22 # r) \<Longrightarrow>
    \<exists>lx'. scan_string_loop lx = (Tok_value_string, lx') \<and> under_way lx' r \<and>
      lx_token_buffer lx' = lx_token_buffer lx @ s"
proof (induction arbitrary: lx rule: string_body.induct)
  case body_end
  then obtain lx1 where "lex_get lx = lx1" "under_way lx1 r" "lx_current lx1 = 0x22" "same_buffer lx lx1"
    using get_cases(2) [of lx "CHR 0x22 # r"] by auto
  then show ?case by (subst scan_string_loop.simps) (simp add: Let_def eof_def same_buffer_def)
next
  case (body_char s t s' t')
  then obtain lx1 where 1: "scan_string_loop lx = scan_string_loop lx1" "under_way lx1 (t' @ CHR 0x22 # r)"
    "lx_token_buffer lx1 = lx_token_buffer lx @ s"
    using char_text_step [of s t lx "t' @ CHR 0x22 # r"] by (auto simp: string_step_def)
  then show ?case using body_char.IH [of lx1] by auto
qed


section \<open>Numbers\<close>

text \<open>What may follow a number or a value: nothing that could go on with it.\<close>

definition follows :: "string \<Rightarrow> bool" where
  "follows r \<longleftrightarrow> (case r of [] \<Rightarrow> True
     | c # _ \<Rightarrow> c = CHR '','' \<or> c = CHR '']'' \<or> c = CHR ''}'' \<or> c = CHR '':'' \<or> c = CHR 0x00 \<or> is_white (of_char c))"

lemma follows_code:
  assumes "follows (c # r)"
  shows "\<not> is_digit_code (of_char c)" "\<not> is_exponent_code (of_char c)" "(of_char c :: int) \<noteq> 0x2E"
  using assms by (auto simp: follows_def is_white_def is_digit_code_def is_exponent_code_def)

lemma eof_code: "\<not> is_digit_code eof" "\<not> is_exponent_code eof" "eof \<noteq> 0x2E"
  by (auto simp: eof_def is_digit_code_def is_exponent_code_def)

lemma number_next_done:
  assumes "accepting st" "\<not> is_digit_code c" "\<not> is_exponent_code c" "c \<noteq> 0x2E"
  shows "number_next st c = Num_done"
  using assms by (auto simp: accepting_def is_digit_code_def)

lemma scan_number_run:
  assumes "number_run st ty t = Some (st', ty')" "accepting st'" "reads lx (t @ r)" "follows r"
    "0 < lx_chars_read_total lx"
  shows "\<exists>lx'. scan_number_loop D st ty lx = scan_number_done D ty' (lex_get lx') \<and> under_way lx' r \<and>
    lx_token_buffer lx' = lx_token_buffer lx @ t"
  using assms
proof (induction st ty t arbitrary: lx rule: number_run.induct)
  case (1 st ty)
  have "number_next st (lx_current (lex_get lx)) = Num_done"
  proof (cases r)
    case Nil
    then show ?thesis using 1 get_cases(1) [of lx r] by (auto intro!: number_next_done simp: eof_code)
  next
    case (Cons c r')
    then show ?thesis using 1 get_cases(2) [of lx r c r'] follows_code [of c r'] by (auto intro!: number_next_done)
  qed
  then have "scan_number_loop D st ty lx = scan_number_done D ty' (lex_get lx)"
    using 1 by (subst scan_number_loop.simps) (auto simp: Let_def)
  then show ?case using 1 by (auto simp: under_way_def)
next
  case (2 st ty c t)
  obtain lx1 where 1: "lex_get lx = lx1" "under_way lx1 (t @ r)" "lx_current lx1 = of_char c" "same_buffer lx lx1"
    using get_cases(2) [of lx "c # t @ r"] "2.prems"(3) by auto
  from "2.prems"(1) obtain st1 where st1: "number_next st (of_char c) = Num_goto st1"
    "number_run st1 (number_type_at st ty) t = Some (st', ty')" by (auto split: number_action.splits)
  have "lx_decimal_point lx1 = 0x2E" using 1(2) by (auto simp: under_way_def reads_def lex_ok_def)
  then have c': "(if (of_char c :: int) = 0x2E then lx_decimal_point lx1 else of_char c) = of_char c" by simp
  have "scan_number_loop D st ty lx = scan_number_loop D st1 (number_type_at st ty) (lex_add (of_char c) lx1)"
    using st1(1) by (subst scan_number_loop.simps) (simp only: Let_def 1 c' number_action.case)
  moreover have "\<exists>lx'. scan_number_loop D st1 (number_type_at st ty) (lex_add (of_char c) lx1) =
      scan_number_done D ty' (lex_get lx') \<and> under_way lx' r \<and>
      lx_token_buffer lx' = lx_token_buffer (lex_add (of_char c) lx1) @ t"
    by (rule "2.IH" [OF st1]) (use 1 "2.prems" in \<open>simp_all add: under_way_def\<close>)
  ultimately show ?case using 1(4) by (simp add: same_buffer_def)
qed

text \<open>The value the parser takes from a token.\<close>

definition token_value :: "token_type \<Rightarrow> lexer \<Rightarrow> json option" where
  "token_value tok lx =
     (case tok of
        Tok_literal_null \<Rightarrow> Some JNull
      | Tok_literal_true \<Rightarrow> Some (JBool True)
      | Tok_literal_false \<Rightarrow> Some (JBool False)
      | Tok_value_string \<Rightarrow> Some (JStr (lx_token_buffer lx))
      | Tok_value_unsigned \<Rightarrow> Some (JInt (int (lx_value_unsigned lx)))
      | Tok_value_integer \<Rightarrow> Some (JInt (lx_value_integer lx))
      | Tok_value_float \<Rightarrow> if isfinite (lx_value_float lx) then Some (JFloat (lx_value_float lx)) else None
      | _ \<Rightarrow> None)"

lemma token_value_number:
  "token_value Tok_value_unsigned lx = Some (JInt (int (lx_value_unsigned lx)))"
  "token_value Tok_value_integer lx = Some (JInt (lx_value_integer lx))"
  "token_value Tok_value_float lx = (if isfinite (lx_value_float lx) then Some (JFloat (lx_value_float lx)) else None)"
  by (simp_all add: token_value_def)

lemma scan_number_done_value:
  assumes "under_way lx r" "lx_token_buffer lx = t" "number_type t = Some ty"
  shows "\<exists>tok lx'. scan_number_done D ty (lex_get lx) = (tok, lx') \<and> under_way lx' r \<and>
    token_value tok lx' = number_value D t \<and> tok \<in> {Tok_value_unsigned, Tok_value_integer, Tok_value_float}"
proof -
  define lx1 where "lx1 = lex_unget (lex_get lx)"
  have 1: "under_way lx1 r" "lx_token_buffer lx1 = t"
    using unget_get [OF under_way_reads [OF assms(1)]] assms(1,2) by (auto simp: lx1_def same_buffer_def under_way_def)
  have keep: "under_way (lx1\<lparr>lx_value_unsigned := u\<rparr>) r" "under_way (lx1\<lparr>lx_value_integer := i\<rparr>) r"
    "under_way (lx1\<lparr>lx_value_float := f\<rparr>) r" for u i f
    using 1(1) by (auto simp: under_way_def reads_def lex_ok_def lex_rest_def)
  show ?thesis
    unfolding scan_number_done_def lx1_def [symmetric] Let_def 1(2)
    using keep by (auto simp: number_value_def assms(3) token_value_number split: option.split)
qed

lemma scan_number_reads:
  assumes "number_type t = Some ty" "t = c # t'" "lx_current lx = of_char c" "under_way lx (t' @ r)" "follows r"
  shows "\<exists>tok lx'. scan_number D lx = (tok, lx') \<and> under_way lx' r \<and> token_value tok lx' = number_value D t \<and>
    tok \<in> {Tok_value_unsigned, Tok_value_integer, Tok_value_float}"
proof -
  define st where "st = (if c = CHR ''-'' then Num_minus else if c = CHR ''0'' then Num_zero else Num_any1)"
  define lx0 where "lx0 = lex_add (of_char c) (lex_reset lx)"
  have st: "(if (of_char c :: int) = 0x2D then Num_minus else if (of_char c :: int) = 0x30 then Num_zero else Num_any1) = st"
    using code_eq_iff [of c "CHR ''-''"] code_eq_iff [of c "CHR ''0''"] by (auto simp: st_def)
  have sc: "scan_number D lx = scan_number_loop D st Tok_value_unsigned lx0"
    unfolding st [symmetric] lx0_def scan_number_def assms(3) by (simp add: Let_def)
  from assms(1,2) obtain st' where run: "number_run st Tok_value_unsigned t' = Some (st', ty)" "accepting st'"
    by (auto simp: number_type_def st_def split: option.splits if_splits)
  have "under_way lx0 (t' @ r)" "lx_token_buffer lx0 = [c]" using assms(4) by (simp_all add: lx0_def)
  with scan_number_run [OF run, of lx0 r D] assms(2,5) obtain lx1 where
    "scan_number_loop D st Tok_value_unsigned lx0 = scan_number_done D ty (lex_get lx1)" "under_way lx1 r"
    "lx_token_buffer lx1 = t" by (auto simp: under_way_def)
  with scan_number_done_value [OF _ _ assms(1), of lx1 r D] sc show ?thesis by simp
qed


section \<open>Tokens\<close>

lemma skip_whitespace_reads:
  assumes "reads lx (w @ r)" "white w"
  shows "r = [] \<Longrightarrow> \<exists>lx'. skip_whitespace lx = lx' \<and> under_way lx' [] \<and> lx_current lx' = eof"
    and "r = c # r' \<Longrightarrow> \<not> is_white (of_char c) \<Longrightarrow>
      \<exists>lx'. skip_whitespace lx = lx' \<and> under_way lx' r' \<and> lx_current lx' = of_char c"
proof -
  have "(case r of [] \<Rightarrow> under_way (skip_whitespace lx) [] \<and> lx_current (skip_whitespace lx) = eof
      | c # r' \<Rightarrow> under_way (skip_whitespace lx) r' \<and> lx_current (skip_whitespace lx) = of_char c)"
    if "r \<noteq> [] \<Longrightarrow> \<not> is_white (of_char (hd r))"
    using assms that
  proof (induction w arbitrary: lx)
    case Nil
    show ?case
    proof (cases r)
      case Nil
      then show ?thesis using Nil.prems get_cases(1) [of lx r]
        by (subst (1 2) skip_whitespace.simps) (auto simp: is_white_def eof_def)
    next
      case (Cons c r')
      then show ?thesis using Nil.prems get_cases(2) [of lx r c r']
        by (subst (1 2) skip_whitespace.simps) (auto simp: Let_def)
    qed
  next
    case (Cons x w)
    obtain lx1 where 1: "lex_get lx = lx1" "under_way lx1 (w @ r)" "lx_current lx1 = of_char x"
      using get_cases(2) [of lx "x # w @ r"] Cons.prems(1) by auto
    then have eq: "skip_whitespace lx = skip_whitespace lx1"
      using Cons.prems(2) by (subst skip_whitespace.simps) (simp add: Let_def)
    show ?case unfolding eq by (rule Cons.IH) (use 1 Cons.prems in auto)
  qed
  then show "r = [] \<Longrightarrow> \<exists>lx'. skip_whitespace lx = lx' \<and> under_way lx' [] \<and> lx_current lx' = eof"
    and "r = c # r' \<Longrightarrow> \<not> is_white (of_char c) \<Longrightarrow>
      \<exists>lx'. skip_whitespace lx = lx' \<and> under_way lx' r' \<and> lx_current lx' = of_char c"
    by auto
qed

text \<open>The first token of a text: the white space before it, and the byte order mark that is not there.\<close>

definition lex_ready :: "lexer \<Rightarrow> string \<Rightarrow> bool" where
  "lex_ready lx r \<longleftrightarrow> under_way lx r \<or> (reads lx r \<and> (r = [] \<or> hd r \<noteq> CHR 0xEF))"

lemma scan_ready:
  assumes "lex_ready lx (w @ r)" "white w"
  shows "r = [] \<Longrightarrow> \<exists>lx'. scan D lx = (Tok_end_of_input, lx') \<and> under_way lx' []"
    and "r = c # r' \<Longrightarrow> \<not> is_white (of_char c) \<Longrightarrow> c \<noteq> CHR ''/'' \<Longrightarrow>
      \<exists>lx'. scan D lx = scan_token D lx' \<and> under_way lx' r' \<and> lx_current lx' = of_char c"
proof -
  obtain lx1 where bom: "(if lx_chars_read_total lx = 0 then skip_bom lx else (True, lx)) = (True, lx1)" "reads lx1 (w @ r)"
  proof (cases "lx_chars_read_total lx = 0")
    case True
    then have r: "reads lx (w @ r)" "w @ r = [] \<or> hd (w @ r) \<noteq> CHR 0xEF" using assms(1) by (auto simp: lex_ready_def under_way_def)
    have "lx_current (lex_get lx) \<noteq> 0xEF"
    proof (cases "w @ r")
      case Nil
      then show ?thesis using get_cases(1) [OF r(1)] by (simp add: eof_def)
    next
      case (Cons c u)
      then have "c \<noteq> CHR 0xEF" using r(2) by simp
      then have "(of_char c :: int) \<noteq> of_char (CHR 0xEF)" by (simp only: of_char_eq_iff not_False_eq_True)
      then show ?thesis using get_cases(2) [OF r(1) Cons] by simp
    qed
    then have "skip_bom lx = (True, lex_unget (lex_get lx))" by (simp add: skip_bom_def Let_def)
    then show thesis using True that unget_get(1) [OF r(1)] by simp
  next
    case False
    then show thesis using that assms(1) by (auto simp: lex_ready_def)
  qed
  show "\<exists>lx'. scan D lx = (Tok_end_of_input, lx') \<and> under_way lx' []" if nil: "r = []"
  proof -
    obtain lx2 where 2: "skip_whitespace lx1 = lx2" "under_way lx2 []" "lx_current lx2 = eof"
      using skip_whitespace_reads(1) [OF bom(2) assms(2) nil] by blast
    then have "skip_comments lx2 = (True, lx2)" by (subst skip_comments.simps) (simp add: eof_def)
    then have "scan D lx = scan_token D lx2" unfolding scan_def bom(1) by (simp add: 2(1))
    then show ?thesis using 2 by (simp add: scan_token_def eof_def is_digit_code_def)
  qed
  assume r: "r = c # r'" "\<not> is_white (of_char c)" "c \<noteq> CHR ''/''"
  obtain lx2 where 2: "skip_whitespace lx1 = lx2" "under_way lx2 r'" "lx_current lx2 = of_char c"
    using skip_whitespace_reads(2) [OF bom(2) assms(2) r(1,2)] by blast
  have "(of_char c :: int) \<noteq> 0x2F" using r(3) code_eq_iff [of c "CHR ''/''"] by auto
  then have "skip_comments lx2 = (True, lx2)" using 2 by (subst skip_comments.simps) simp
  then have "scan D lx = scan_token D lx2" unfolding scan_def bom(1) by (simp add: 2(1))
  then show "\<exists>lx'. scan D lx = scan_token D lx' \<and> under_way lx' r' \<and> lx_current lx' = of_char c" using 2 by blast
qed

end
