(* ===== verification/SS_ParseText.thy ===== *)
theory SS_ParseText
  imports SS_Grammar
begin

text \<open>
  The parser reads every text of the grammar of \<open>SS_Grammar\<close> and builds the value the grammar gives it:
  the loop of \<open>sax_parse_internal\<close> is followed token by token, by induction on the grammar.
\<close>

section \<open>Tokens\<close>

text \<open>The lexer reads the token \<open>tok\<close> and then has \<open>r\<close> before it.\<close>

definition reads_token :: "strtod \<Rightarrow> lexer \<Rightarrow> token_type \<Rightarrow> lexer \<Rightarrow> string \<Rightarrow> bool" where
  "reads_token D lx tok lx' r \<longleftrightarrow> scan D lx = (tok, lx') \<and> under_way lx' r"

lemma lex_ready_under_way [simp]: "under_way lx r \<Longrightarrow> lex_ready lx r"
  by (simp add: lex_ready_def)

lemma token_punctuation:
  assumes "lex_ready lx (w @ c # r)" "white w"
    and "(c, tok) \<in> {(CHR ''['', Tok_begin_array), (CHR '']'', Tok_end_array), (CHR ''{'', Tok_begin_object),
      (CHR ''}'', Tok_end_object), (CHR '':'', Tok_name_separator), (CHR '','', Tok_value_separator)}"
  shows "\<exists>lx'. reads_token D lx tok lx' r"
proof -
  have "\<not> is_white (of_char c)" "c \<noteq> CHR ''/''" using assms(3) by (auto simp: is_white_def)
  from scan_ready(2) [OF assms(1,2) refl this] obtain lx' where
    1: "scan D lx = scan_token D lx'" "under_way lx' r" "lx_current lx' = of_char c" by blast
  moreover have "scan_token D lx' = (tok, lx')" using assms(3) 1(3) by (auto simp: scan_token_def)
  ultimately show ?thesis by (auto simp: reads_token_def)
qed

lemma scan_literal_reads:
  assumes "under_way lx (t @ r)"
  shows "\<exists>lx'. scan_literal t tok lx = (tok, lx') \<and> under_way lx' r"
  using assms
proof (induction t arbitrary: lx)
  case (Cons c t)
  then have "reads lx (c # t @ r)" by simp
  from get_cases(2) [OF this refl] obtain lx1 where
    "lex_get lx = lx1" "under_way lx1 (t @ r)" "lx_current lx1 = of_char c" by blast
  with Cons.IH show ?case by (simp add: scan_literal.simps(2) Let_def)
qed simp

lemma token_literal:
  assumes "lex_ready lx (w @ t @ r)" "white w"
    and "(t, tok) \<in> {(''null'', Tok_literal_null), (''true'', Tok_literal_true), (''false'', Tok_literal_false)}"
  shows "\<exists>lx'. reads_token D lx tok lx' r"
proof -
  define c t' where "c = hd t" and "t' = tl t"
  have t: "t = c # t'" "\<not> is_white (of_char c)" "c \<noteq> CHR ''/''"
    using assms(3) by (auto simp: is_white_def c_def t'_def)
  from scan_ready(2) [OF assms(1,2) _ t(2,3), of "t' @ r"] t(1) obtain lx1 where
    1: "scan D lx = scan_token D lx1" "under_way lx1 (t' @ r)" "lx_current lx1 = of_char c" by auto
  have "scan_token D lx1 = scan_literal t' tok lx1"
    using assms(3) t(1) 1(3) by (auto simp: scan_token_def)
  then show ?thesis using 1 scan_literal_reads [OF 1(2), of tok] by (auto simp: reads_token_def)
qed

lemma token_string:
  assumes "lex_ready lx (w @ CHR 0x22 # t @ CHR 0x22 # r)" "white w" "string_body s t"
  shows "\<exists>lx'. reads_token D lx Tok_value_string lx' r \<and> lx_token_buffer lx' = s"
proof -
  have q: "\<not> is_white (of_char (CHR 0x22))" "CHR 0x22 \<noteq> CHR ''/''" by (simp_all add: is_white_def)
  from scan_ready(2) [OF assms(1,2) refl q] obtain lx1 where
    1: "scan D lx = scan_token D lx1" "under_way lx1 (t @ CHR 0x22 # r)" "lx_current lx1 = 0x22" by auto
  have "scan_token D lx1 = scan_string_loop (lex_reset lx1)" using 1(3) by (simp add: scan_token_def scan_string_def)
  then show ?thesis
    using 1 string_body_scan [OF assms(3), of "lex_reset lx1" r] by (auto simp: reads_token_def)
qed

lemma number_first:
  assumes "number_type t = Some ty"
  obtains c t' where "t = c # t'" "c = CHR ''-'' \<or> is_digit_code (of_char c)"
  using assms by (auto simp: number_type_def split: list.splits if_splits)

lemma number_first_code:
  assumes "c = CHR ''-'' \<or> is_digit_code (of_char c)"
  shows "\<not> is_white (of_char c)" "c \<noteq> CHR ''/''" "c \<noteq> CHR 0xEF" "scan_token D lx = scan_number D lx \<or> lx_current lx \<noteq> of_char c"
proof -
  show "\<not> is_white (of_char c)" "c \<noteq> CHR ''/''" "c \<noteq> CHR 0xEF" using assms by (auto simp: is_white_def is_digit_code_def)
  have "lx_current lx = 0x2D \<or> 0x30 \<le> lx_current lx \<and> lx_current lx \<le> 0x39" if "lx_current lx = of_char c"
    using assms that by (auto simp: is_digit_code_def)
  then show "scan_token D lx = scan_number D lx \<or> lx_current lx \<noteq> of_char c"
    by (auto simp: scan_token_def Let_def is_digit_code_def)
qed

lemma token_number:
  assumes "lex_ready lx (w @ t @ r)" "white w" "number_value D t = Some v" "follows r"
  shows "\<exists>tok lx'. reads_token D lx tok lx' r \<and> token_value tok lx' = Some v"
proof -
  from assms(3) obtain ty where ty: "number_type t = Some ty" by (auto simp: number_value_def split: option.splits)
  then obtain c t' where t: "t = c # t'" "c = CHR ''-'' \<or> is_digit_code (of_char c)" by (rule number_first)
  note c = number_first_code [OF t(2)]
  from scan_ready(2) [OF assms(1,2) _ c(1,2), of "t' @ r"] t(1) obtain lx1 where
    1: "scan D lx = scan_token D lx1" "under_way lx1 (t' @ r)" "lx_current lx1 = of_char c" by auto
  then have "scan D lx = scan_number D lx1" using c(4) by metis
  then show ?thesis using scan_number_reads [OF ty t(1) 1(3,2) assms(4), of D] assms(3) by (auto simp: reads_token_def)
qed

text \<open>A scalar.\<close>

inductive scalar_text :: "strtod \<Rightarrow> json \<Rightarrow> string \<Rightarrow> bool" for D where
  s_null: "scalar_text D JNull ''null''"
| s_true: "scalar_text D (JBool True) ''true''"
| s_false: "scalar_text D (JBool False) ''false''"
| s_string: "string_body s t \<Longrightarrow> scalar_text D (JStr s) (CHR 0x22 # t @ [CHR 0x22])"
| s_number: "number_value D t = Some v \<Longrightarrow> scalar_text D v t"

lemma token_value_simps [simp]:
  "token_value Tok_literal_null lx = Some JNull" "token_value Tok_literal_true lx = Some (JBool True)"
  "token_value Tok_literal_false lx = Some (JBool False)" "token_value Tok_value_string lx = Some (JStr (lx_token_buffer lx))"
  by (simp_all add: token_value_def)

lemma token_scalar:
  assumes "scalar_text D v t" "lex_ready lx (w @ t @ r)" "white w" "follows r"
  shows "\<exists>tok lx'. reads_token D lx tok lx' r \<and> token_value tok lx' = Some v"
  using assms
proof (cases rule: scalar_text.cases)
  case s_null
  from token_literal [OF assms(2,3), of Tok_literal_null D] this obtain lx' where
    "reads_token D lx Tok_literal_null lx' r" by auto
  then show ?thesis using token_value_simps s_null(1) by blast
next
  case s_true
  from token_literal [OF assms(2,3), of Tok_literal_true D] this obtain lx' where
    "reads_token D lx Tok_literal_true lx' r" by auto
  then show ?thesis using token_value_simps s_true(1) by blast
next
  case s_false
  from token_literal [OF assms(2,3), of Tok_literal_false D] this obtain lx' where
    "reads_token D lx Tok_literal_false lx' r" by auto
  then show ?thesis using token_value_simps s_false(1) by blast
next
  case (s_string s u)
  then show ?thesis using token_string [of lx w u r s D] assms(2,3) token_value_simps(4) by fastforce
next
  case s_number
  then show ?thesis using token_number [OF assms(2,3) _ assms(4)] by blast
qed

section \<open>The loop on a value\<close>

lemma handler_simps [simp]:
  "on_null (dom_handler ex) d = proceed (handle_value JNull d)"
  "on_boolean (dom_handler ex) b d = proceed (handle_value (JBool b) d)"
  "on_number_integer (dom_handler ex) i d = proceed (handle_value (JInt i) d)"
  "on_number_unsigned (dom_handler ex) n d = proceed (handle_value (JInt (int n)) d)"
  "on_number_float (dom_handler ex) r d = proceed (handle_value (JFloat r) d)"
  "on_string (dom_handler ex) s d = proceed (handle_value (JStr s) d)"
  "on_start_object (dom_handler ex) d = Inr (Some (dom_start_object d))"
  "on_key (dom_handler ex) k d = proceed (dom_key k d)"
  "on_end_object (dom_handler ex) d = proceed (dom_end_object d)"
  "on_start_array (dom_handler ex) d = Inr (Some (dom_start_array d))"
  "on_end_array (dom_handler ex) d = proceed (dom_end_array d)"
  "on_parse_error (dom_handler ex) e d = (if ex then Inl e else Inr None)"
  by (simp_all add: dom_handler_def)

lemma sax_simps [simp]:
  "bind_sax (Inr (Some x)) f = f x" "bind_sax (Inr None) f = Inr None" "bind_sax (Inl e) f = Inl e"
  "proceed (Inr x) = Inr (Some x)"
  by (simp_all add: bind_sax_def proceed_def)

lemma parse_scalar:
  assumes "token_value tok lx = Some v" "handle_value v s = Inr s'"
  shows "parse_turns (dom_handler ex) D (Turn_value states tok lx s) =
    parse_turns (dom_handler ex) D (Turn_state states tok lx s')"
  using assms
  by (auto simp: token_value_def parse_value_def Let_def scalar_turn_def split: token_type.splits option.splits if_splits)

text \<open>The text \<open>t\<close> of a value \<open>v\<close>: the loop goes on with \<open>v\<close> handed to the parser that builds the value.\<close>

definition value_parsed :: "strtod \<Rightarrow> json \<Rightarrow> string \<Rightarrow> bool" where
  "value_parsed D v t \<longleftrightarrow>
     (\<forall>lx w r states s s' ex. lex_ready lx (w @ t @ r) \<longrightarrow> white w \<longrightarrow> follows r \<longrightarrow> handle_value v s = Inr s' \<longrightarrow>
       (\<exists>tok lx1 tok' lx'. scan D lx = (tok, lx1) \<and> tok \<noteq> Tok_end_array \<and>
          parse_turns (dom_handler ex) D (Turn_value states tok lx1 s) =
            parse_turns (dom_handler ex) D (Turn_state states tok' lx' s') \<and> under_way lx' r))"

definition elements_parsed :: "strtod \<Rightarrow> json list \<Rightarrow> string \<Rightarrow> bool" where
  "elements_parsed D xs t \<longleftrightarrow>
     (\<forall>lx r states s ys st ex. lex_ready lx (t @ CHR '']'' # r) \<longrightarrow> dp_stack s = F_array ys # st \<longrightarrow>
       (\<exists>tok lx1 tok' lx' w. scan D lx = (tok, lx1) \<and> tok \<noteq> Tok_end_array \<and> white w \<and>
          parse_turns (dom_handler ex) D (Turn_value (True # states) tok lx1 s) =
            parse_turns (dom_handler ex) D (Turn_state (True # states) tok' lx' (s\<lparr>dp_stack := F_array (ys @ xs) # st\<rparr>)) \<and>
          under_way lx' (w @ CHR '']'' # r)))"

definition members_parsed :: "strtod \<Rightarrow> (string \<times> json) list \<Rightarrow> string \<Rightarrow> bool" where
  "members_parsed D kvs t \<longleftrightarrow>
     (\<forall>lx r states s m ko st ex. lex_ready lx (t @ CHR ''}'' # r) \<longrightarrow> dp_stack s = F_object m ko # st \<longrightarrow>
       (\<exists>lx1 tok' lx' w k. scan D lx = (Tok_value_string, lx1) \<and> white w \<and>
          bind_sax (parse_member (dom_handler ex) D (False # states) Tok_value_string lx1 s) (parse_turns (dom_handler ex) D) =
            parse_turns (dom_handler ex) D (Turn_state (False # states) tok' lx'
              (s\<lparr>dp_stack := F_object (fold (\<lambda>(k, v). fmupd k v) kvs m) (Some k) # st\<rparr>)) \<and>
          under_way lx' (w @ CHR ''}'' # r)))"

lemma follows_white: "white w \<Longrightarrow> follows r \<Longrightarrow> follows (w @ r)"
  by (cases w) (auto simp: follows_def)

lemma follows_simps [simp]: "follows []" "follows (CHR '','' # r)" "follows (CHR '']'' # r)" "follows (CHR ''}'' # r)"
  by (simp_all add: follows_def)

lemma value_parsed_scalar:
  assumes "scalar_text D v t"
  shows "value_parsed D v t"
  unfolding value_parsed_def
proof (intro allI impI)
  fix lx w r states s s' ex
  assume a: "lex_ready lx (w @ t @ r)" "white w" "follows r" "handle_value v s = Inr s'"
  obtain tok lx' where 1: "reads_token D lx tok lx' r" "token_value tok lx' = Some v"
    using token_scalar [OF assms a(1-3)] by blast
  have "tok \<noteq> Tok_end_array" using 1(2) by (auto simp: token_value_def)
  then show "\<exists>tok lx1 tok' lx'. scan D lx = (tok, lx1) \<and> tok \<noteq> Tok_end_array \<and>
      parse_turns (dom_handler ex) D (Turn_value states tok lx1 s) =
        parse_turns (dom_handler ex) D (Turn_state states tok' lx' s') \<and> under_way lx' r"
    using 1 parse_scalar [OF 1(2) a(4)] unfolding reads_token_def by blast
qed


lemma put_member:
  assumes "dp_stack s = F_object m ko # st"
  shows "\<exists>s1. dom_key k s = Inr s1 \<and> handle_value v s1 = Inr (s\<lparr>dp_stack := F_object (fmupd k v m) (Some k) # st\<rparr>)"
  using assms by (auto simp: dom_key_def handle_value_def)

lemma put_element:
  assumes "dp_stack s = F_array ys # st"
  shows "handle_value v s = Inr (s\<lparr>dp_stack := F_array (ys @ [v]) # st\<rparr>)"
  using assms by (simp add: handle_value_def)

text \<open>After the last element, or the last member, the bracket.\<close>

lemma close_array:
  assumes "dp_stack s = F_array xs # st" "under_way lx (w @ CHR '']'' # r)" "white w"
    and "handle_value (JArr xs) (s\<lparr>dp_stack := st\<rparr>) = Inr s'"
  shows "\<exists>tok' lx'. parse_turns (dom_handler ex) D (Turn_state (True # states) tok lx s) =
    parse_turns (dom_handler ex) D (Turn_state states tok' lx' s') \<and> under_way lx' r"
proof -
  obtain lx' where "scan D lx = (Tok_end_array, lx')" "under_way lx' r"
    using token_punctuation [of lx w "CHR '']''" r Tok_end_array D] assms(2,3) by (auto simp: reads_token_def)
  then show ?thesis using assms(1,4) by (auto simp: parse_state_def dom_end_array_def)
qed

lemma close_object:
  assumes "dp_stack s = F_object m ko # st" "under_way lx (w @ CHR ''}'' # r)" "white w"
    and "handle_value (JObj m) (s\<lparr>dp_stack := st\<rparr>) = Inr s'"
  shows "\<exists>tok' lx'. parse_turns (dom_handler ex) D (Turn_state (False # states) tok lx s) =
    parse_turns (dom_handler ex) D (Turn_state states tok' lx' s') \<and> under_way lx' r"
proof -
  obtain lx' where "scan D lx = (Tok_end_object, lx')" "under_way lx' r"
    using token_punctuation [of lx w "CHR ''}''" r Tok_end_object D] assms(2,3) by (auto simp: reads_token_def)
  then show ?thesis using assms(1,4) by (auto simp: parse_state_def dom_end_object_def)
qed

text \<open>A comma and what follows it.\<close>

lemma next_element:
  assumes "under_way lx (w @ CHR '','' # r)" "white w"
  shows "\<exists>lx'. under_way lx' r \<and> parse_turns H D (Turn_state (True # states) tok lx s) =
    parse_turns H D (Turn_value (True # states) (fst (scan D lx')) (snd (scan D lx')) s)"
proof -
  obtain lx' where "scan D lx = (Tok_value_separator, lx')" "under_way lx' r"
    using token_punctuation [of lx w "CHR '',''" r Tok_value_separator D] assms by (auto simp: reads_token_def)
  then show ?thesis by (auto simp: parse_state_def Let_def split_beta)
qed

lemma next_member:
  assumes "under_way lx (w @ CHR '','' # r)" "white w"
  shows "\<exists>lx'. under_way lx' r \<and> parse_turns H D (Turn_state (False # states) tok lx s) =
    bind_sax (parse_member H D (False # states) (fst (scan D lx')) (snd (scan D lx')) s) (parse_turns H D)"
proof -
  obtain lx' where "scan D lx = (Tok_value_separator, lx')" "under_way lx' r"
    using token_punctuation [of lx w "CHR '',''" r Tok_value_separator D] assms by (auto simp: reads_token_def)
  then show ?thesis by (auto simp: parse_state_def Let_def split_beta)
qed

text \<open>A member up to the end of its value.\<close>

lemma member_value:
  assumes k: "string_body k kt" and v: "value_parsed D v t" and w: "white w1" "white w2" "white w3"
    and r: "lex_ready lx (w1 @ CHR 0x22 # kt @ CHR 0x22 # w2 @ CHR '':'' # w3 @ t @ r)" "follows r"
    and s: "dp_stack s = F_object m ko # st"
  shows "\<exists>lx1 tok' lx'. scan D lx = (Tok_value_string, lx1) \<and>
    bind_sax (parse_member (dom_handler ex) D states Tok_value_string lx1 s) (parse_turns (dom_handler ex) D) =
      parse_turns (dom_handler ex) D (Turn_state states tok' lx' (s\<lparr>dp_stack := F_object (fmupd k v m) (Some k) # st\<rparr>)) \<and>
    under_way lx' r"
proof -
  obtain lx1 where 1: "scan D lx = (Tok_value_string, lx1)" "under_way lx1 (w2 @ CHR '':'' # w3 @ t @ r)"
    "lx_token_buffer lx1 = k"
    using token_string [OF r(1) w(1) k, of D] by (auto simp: reads_token_def)
  obtain lx2 where 2: "scan D lx1 = (Tok_name_separator, lx2)" "under_way lx2 (w3 @ t @ r)"
    using token_punctuation [of lx1 w2 "CHR '':''" "w3 @ t @ r" Tok_name_separator D] 1(2) w(2) by (auto simp: reads_token_def)
  obtain s1 where s1: "dom_key k s = Inr s1"
    "handle_value v s1 = Inr (s\<lparr>dp_stack := F_object (fmupd k v m) (Some k) # st\<rparr>)" using put_member [OF s] by blast
  obtain tok lx3 tok' lx' where 3: "scan D lx2 = (tok, lx3)"
    "parse_turns (dom_handler ex) D (Turn_value states tok lx3 s1) = parse_turns (dom_handler ex) D
      (Turn_state states tok' lx' (s\<lparr>dp_stack := F_object (fmupd k v m) (Some k) # st\<rparr>))" "under_way lx' r"
    using v [unfolded value_parsed_def, rule_format, OF lex_ready_under_way [OF 2(2)] w(3) r(2) s1(2), of ex states] by blast
  have "parse_member (dom_handler ex) D states Tok_value_string lx1 s = Inr (Some (Turn_value states tok lx3 s1))"
    using 1 2 3(1) s1(1) by (simp add: parse_member_def)
  then show ?thesis using 1(1) 3 by auto
qed


section \<open>Arrays and objects\<close>

lemma open_bracket:
  assumes "lex_ready lx (w @ CHR ''['' # u)" "white w"
  shows "\<exists>lx'. scan D lx = (Tok_begin_array, lx') \<and> under_way lx' u"
  using token_punctuation [of lx w "CHR ''[''" u Tok_begin_array D] assms by (auto simp: reads_token_def)

lemma open_brace:
  assumes "lex_ready lx (w @ CHR ''{'' # u)" "white w"
  shows "\<exists>lx'. scan D lx = (Tok_begin_object, lx') \<and> under_way lx' u"
  using token_punctuation [of lx w "CHR ''{''" u Tok_begin_object D] assms by (auto simp: reads_token_def)

lemma empty_array_parsed:
  assumes "white u"
  shows "value_parsed D (JArr []) (CHR ''['' # u @ '']'')"
  unfolding value_parsed_def
proof (intro allI impI)
  fix lx w r states s s' ex
  assume a: "lex_ready lx (w @ (CHR ''['' # u @ '']'') @ r)" "white w" "follows r" "handle_value (JArr []) s = Inr s'"
  obtain lx1 where 1: "scan D lx = (Tok_begin_array, lx1)" "under_way lx1 (u @ CHR '']'' # r)"
    using open_bracket [of lx w "u @ CHR '']'' # r" D] a(1,2) by auto
  obtain lx2 where 2: "scan D lx1 = (Tok_end_array, lx2)" "under_way lx2 r"
    using token_punctuation [of lx1 u "CHR '']''" r Tok_end_array D] 1(2) assms by (auto simp: reads_token_def)
  have "dom_end_array (dom_start_array s) = Inr s'" using a(4) by (simp add: dom_end_array_def dom_start_array_def)
  then have "parse_turns (dom_handler ex) D (Turn_value states Tok_begin_array lx1 s) =
      parse_turns (dom_handler ex) D (Turn_state states Tok_end_array lx2 s')"
    using 2(1) by (simp add: parse_value_def scalar_turn_def)
  then show "\<exists>tok lx1 tok' lx'. scan D lx = (tok, lx1) \<and> tok \<noteq> Tok_end_array \<and>
      parse_turns (dom_handler ex) D (Turn_value states tok lx1 s) =
        parse_turns (dom_handler ex) D (Turn_state states tok' lx' s') \<and> under_way lx' r"
    using 1(1) 2(2) by blast
qed

lemma empty_object_parsed:
  assumes "white u"
  shows "value_parsed D (JObj fmempty) (CHR ''{'' # u @ ''}'')"
  unfolding value_parsed_def
proof (intro allI impI)
  fix lx w r states s s' ex
  assume a: "lex_ready lx (w @ (CHR ''{'' # u @ ''}'') @ r)" "white w" "follows r" "handle_value (JObj fmempty) s = Inr s'"
  obtain lx1 where 1: "scan D lx = (Tok_begin_object, lx1)" "under_way lx1 (u @ CHR ''}'' # r)"
    using open_brace [of lx w "u @ CHR ''}'' # r" D] a(1,2) by auto
  obtain lx2 where 2: "scan D lx1 = (Tok_end_object, lx2)" "under_way lx2 r"
    using token_punctuation [of lx1 u "CHR ''}''" r Tok_end_object D] 1(2) assms by (auto simp: reads_token_def)
  have "dom_end_object (dom_start_object s) = Inr s'" using a(4) by (simp add: dom_end_object_def dom_start_object_def)
  then have "parse_turns (dom_handler ex) D (Turn_value states Tok_begin_object lx1 s) =
      parse_turns (dom_handler ex) D (Turn_state states Tok_end_object lx2 s')"
    using 2(1) by (simp add: parse_value_def scalar_turn_def)
  then show "\<exists>tok lx1 tok' lx'. scan D lx = (tok, lx1) \<and> tok \<noteq> Tok_end_array \<and>
      parse_turns (dom_handler ex) D (Turn_value states tok lx1 s) =
        parse_turns (dom_handler ex) D (Turn_state states tok' lx' s') \<and> under_way lx' r"
    using 1(1) 2(2) by blast
qed

lemma array_parsed:
  assumes "elements_parsed D xs t"
  shows "value_parsed D (JArr xs) (CHR ''['' # t @ '']'')"
  unfolding value_parsed_def
proof (intro allI impI)
  fix lx w r states s s' ex
  assume a: "lex_ready lx (w @ (CHR ''['' # t @ '']'') @ r)" "white w" "follows r" "handle_value (JArr xs) s = Inr s'"
  obtain lx1 where 1: "scan D lx = (Tok_begin_array, lx1)" "under_way lx1 (t @ CHR '']'' # r)"
    using open_bracket [of lx w "t @ CHR '']'' # r" D] a(1,2) by auto
  define s1 where "s1 = dom_start_array s"
  have st: "dp_stack s1 = F_array [] # dp_stack s" by (simp add: s1_def dom_start_array_def)
  obtain tok lx2 tok' lx3 w2 where 2: "scan D lx1 = (tok, lx2)" "tok \<noteq> Tok_end_array" "white w2"
    "parse_turns (dom_handler ex) D (Turn_value (True # states) tok lx2 s1) = parse_turns (dom_handler ex) D
      (Turn_state (True # states) tok' lx3 (s1\<lparr>dp_stack := F_array xs # dp_stack s\<rparr>))"
    "under_way lx3 (w2 @ CHR '']'' # r)"
    using assms [unfolded elements_parsed_def, rule_format, OF lex_ready_under_way [OF 1(2)] st, of ex states] by auto
  have h: "handle_value (JArr xs) (s1\<lparr>dp_stack := F_array xs # dp_stack s, dp_stack := dp_stack s\<rparr>) = Inr s'"
    using a(4) by (simp add: s1_def dom_start_array_def)
  obtain tok'' lx4 where 4: "parse_turns (dom_handler ex) D
      (Turn_state (True # states) tok' lx3 (s1\<lparr>dp_stack := F_array xs # dp_stack s\<rparr>)) =
      parse_turns (dom_handler ex) D (Turn_state states tok'' lx4 s')" "under_way lx4 r"
  proof -
    have stk: "dp_stack (s1\<lparr>dp_stack := F_array xs # dp_stack s\<rparr>) = F_array xs # dp_stack s" by simp
    from close_array [OF stk 2(5,3) h, where D = D and ex = ex and states = states and tok = tok'] that
    show thesis by blast
  qed
  have "parse_turns (dom_handler ex) D (Turn_value states Tok_begin_array lx1 s) =
      parse_turns (dom_handler ex) D (Turn_value (True # states) tok lx2 s1)"
    using 2(1,2) by (simp add: parse_value_def s1_def)
  then show "\<exists>tok lx1 tok' lx'. scan D lx = (tok, lx1) \<and> tok \<noteq> Tok_end_array \<and>
      parse_turns (dom_handler ex) D (Turn_value states tok lx1 s) =
        parse_turns (dom_handler ex) D (Turn_state states tok' lx' s') \<and> under_way lx' r"
    using 1(1) 2(4) 4 by auto
qed

lemma object_parsed:
  assumes "members_parsed D kvs t"
  shows "value_parsed D (JObj (fold (\<lambda>(k, v). fmupd k v) kvs fmempty)) (CHR ''{'' # t @ ''}'')"
  unfolding value_parsed_def
proof (intro allI impI)
  let ?m = "fold (\<lambda>(k, v). fmupd k v) kvs fmempty"
  fix lx w r states s s' ex
  assume a: "lex_ready lx (w @ (CHR ''{'' # t @ ''}'') @ r)" "white w" "follows r" "handle_value (JObj ?m) s = Inr s'"
  obtain lx1 where 1: "scan D lx = (Tok_begin_object, lx1)" "under_way lx1 (t @ CHR ''}'' # r)"
    using open_brace [of lx w "t @ CHR ''}'' # r" D] a(1,2) by auto
  define s1 where "s1 = dom_start_object s"
  have st: "dp_stack s1 = F_object fmempty None # dp_stack s" by (simp add: s1_def dom_start_object_def)
  obtain lx2 tok' lx3 w2 k where 2: "scan D lx1 = (Tok_value_string, lx2)" "white w2"
    "bind_sax (parse_member (dom_handler ex) D (False # states) Tok_value_string lx2 s1) (parse_turns (dom_handler ex) D) =
      parse_turns (dom_handler ex) D
        (Turn_state (False # states) tok' lx3 (s1\<lparr>dp_stack := F_object ?m (Some k) # dp_stack s\<rparr>))"
    "under_way lx3 (w2 @ CHR ''}'' # r)"
    using assms [unfolded members_parsed_def, rule_format, OF lex_ready_under_way [OF 1(2)] st, of ex states] by auto
  have h: "handle_value (JObj ?m) (s1\<lparr>dp_stack := F_object ?m (Some k) # dp_stack s, dp_stack := dp_stack s\<rparr>) = Inr s'"
    using a(4) by (simp add: s1_def dom_start_object_def)
  obtain tok'' lx4 where 4: "parse_turns (dom_handler ex) D
      (Turn_state (False # states) tok' lx3 (s1\<lparr>dp_stack := F_object ?m (Some k) # dp_stack s\<rparr>)) =
      parse_turns (dom_handler ex) D (Turn_state states tok'' lx4 s')" "under_way lx4 r"
  proof -
    have stk: "dp_stack (s1\<lparr>dp_stack := F_object ?m (Some k) # dp_stack s\<rparr>) = F_object ?m (Some k) # dp_stack s" by simp
    from close_object [OF stk 2(4,2) h, where D = D and ex = ex and states = states and tok = tok'] that
    show thesis by blast
  qed
  have "parse_turns (dom_handler ex) D (Turn_value states Tok_begin_object lx1 s) =
      bind_sax (parse_member (dom_handler ex) D (False # states) Tok_value_string lx2 s1) (parse_turns (dom_handler ex) D)"
    using 2(1) by (simp add: parse_value_def s1_def)
  then show "\<exists>tok lx1 tok' lx'. scan D lx = (tok, lx1) \<and> tok \<noteq> Tok_end_array \<and>
      parse_turns (dom_handler ex) D (Turn_value states tok lx1 s) =
        parse_turns (dom_handler ex) D (Turn_state states tok' lx' s') \<and> under_way lx' r"
    using 1(1) 2(3) 4 by auto
qed


lemma last_element_parsed:
  assumes "value_parsed D x t" "white w1" "white w2"
  shows "elements_parsed D [x] (w1 @ t @ w2)"
  unfolding elements_parsed_def
proof (intro allI impI)
  fix lx r states and s :: dom_parser and ys st ex
  assume a: "lex_ready lx ((w1 @ t @ w2) @ CHR '']'' # r)" "dp_stack s = F_array ys # st"
  have rd: "lex_ready lx (w1 @ t @ w2 @ CHR '']'' # r)" and f: "follows (w2 @ CHR '']'' # r)"
    using a(1) assms(3) by (simp_all add: follows_white)
  from assms(1) [unfolded value_parsed_def, rule_format, OF rd assms(2) f put_element [OF a(2)], of ex "True # states"]
  show "\<exists>tok lx1 tok' lx' w. scan D lx = (tok, lx1) \<and> tok \<noteq> Tok_end_array \<and> white w \<and>
      parse_turns (dom_handler ex) D (Turn_value (True # states) tok lx1 s) =
        parse_turns (dom_handler ex) D (Turn_state (True # states) tok' lx' (s\<lparr>dp_stack := F_array (ys @ [x]) # st\<rparr>)) \<and>
      under_way lx' (w @ CHR '']'' # r)"
    using assms(3) by blast
qed

lemma more_elements_parsed:
  assumes "value_parsed D x t" "white w1" "white w2" "elements_parsed D xs u"
  shows "elements_parsed D (x # xs) (w1 @ t @ w2 @ '','' @ u)"
  unfolding elements_parsed_def
proof (intro allI impI)
  fix lx r states and s :: dom_parser and ys st ex
  assume a: "lex_ready lx ((w1 @ t @ w2 @ '','' @ u) @ CHR '']'' # r)" "dp_stack s = F_array ys # st"
  have rd: "lex_ready lx (w1 @ t @ w2 @ CHR '','' # u @ CHR '']'' # r)" and f: "follows (w2 @ CHR '','' # u @ CHR '']'' # r)"
    using a(1) assms(3) by (simp_all add: follows_white)
  define s1 where "s1 = s\<lparr>dp_stack := F_array (ys @ [x]) # st\<rparr>"
  obtain tok lx1 tok' lx2 where 1: "scan D lx = (tok, lx1)" "tok \<noteq> Tok_end_array"
    "parse_turns (dom_handler ex) D (Turn_value (True # states) tok lx1 s) =
      parse_turns (dom_handler ex) D (Turn_state (True # states) tok' lx2 s1)"
    "under_way lx2 (w2 @ CHR '','' # u @ CHR '']'' # r)"
    using assms(1) [unfolded value_parsed_def, rule_format, OF rd assms(2) f put_element [OF a(2)], of ex "True # states"]
    unfolding s1_def by blast
  obtain lx3 where 3: "under_way lx3 (u @ CHR '']'' # r)"
    "parse_turns (dom_handler ex) D (Turn_state (True # states) tok' lx2 s1) =
      parse_turns (dom_handler ex) D (Turn_value (True # states) (fst (scan D lx3)) (snd (scan D lx3)) s1)"
    using next_element [OF 1(4) assms(3), where H = "dom_handler ex" and D = D and states = states and tok = tok' and s = s1]
    by blast
  have st: "dp_stack s1 = F_array (ys @ [x]) # st" by (simp add: s1_def)
  obtain tok2 lx4 tok3 lx5 w where 4: "scan D lx3 = (tok2, lx4)" "white w"
    "parse_turns (dom_handler ex) D (Turn_value (True # states) tok2 lx4 s1) = parse_turns (dom_handler ex) D
      (Turn_state (True # states) tok3 lx5 (s1\<lparr>dp_stack := F_array ((ys @ [x]) @ xs) # st\<rparr>))"
    "under_way lx5 (w @ CHR '']'' # r)"
    using assms(4) [unfolded elements_parsed_def, rule_format, OF lex_ready_under_way [OF 3(1)] st, of ex states] by blast
  have s1: "s1\<lparr>dp_stack := F_array ((ys @ [x]) @ xs) # st\<rparr> = s\<lparr>dp_stack := F_array (ys @ x # xs) # st\<rparr>" by (simp add: s1_def)
  have "parse_turns (dom_handler ex) D (Turn_value (True # states) tok lx1 s) = parse_turns (dom_handler ex) D
      (Turn_state (True # states) tok3 lx5 (s\<lparr>dp_stack := F_array (ys @ x # xs) # st\<rparr>))"
    unfolding 1(3) 3(2) 4(1) fst_conv snd_conv 4(3) s1 ..
  then show "\<exists>tok lx1 tok' lx' w. scan D lx = (tok, lx1) \<and> tok \<noteq> Tok_end_array \<and> white w \<and>
      parse_turns (dom_handler ex) D (Turn_value (True # states) tok lx1 s) =
        parse_turns (dom_handler ex) D (Turn_state (True # states) tok' lx' (s\<lparr>dp_stack := F_array (ys @ x # xs) # st\<rparr>)) \<and>
      under_way lx' (w @ CHR '']'' # r)"
    using 1(1,2) 4(2,4) by blast
qed

lemma last_member_parsed:
  assumes "string_body k kt" "value_parsed D v t" and w: "white w1" "white w2" "white w3" "white w4"
  shows "members_parsed D [(k, v)] (w1 @ CHR 0x22 # kt @ CHR 0x22 # w2 @ '':'' @ w3 @ t @ w4)"
  unfolding members_parsed_def
proof (intro allI impI)
  fix lx r states and s :: dom_parser and m ko st ex
  assume a: "lex_ready lx ((w1 @ CHR 0x22 # kt @ CHR 0x22 # w2 @ '':'' @ w3 @ t @ w4) @ CHR ''}'' # r)"
    "dp_stack s = F_object m ko # st"
  have rd: "lex_ready lx (w1 @ CHR 0x22 # kt @ CHR 0x22 # w2 @ CHR '':'' # w3 @ t @ w4 @ CHR ''}'' # r)"
    and f: "follows (w4 @ CHR ''}'' # r)" using a(1) w(4) by (simp_all add: follows_white)
  have one: "fold (\<lambda>(k, v). fmupd k v) [(k, v)] m = fmupd k v m" by simp
  from member_value [OF assms(1,2) w(1-3) rd f a(2), of ex "False # states"]
  show "\<exists>lx1 tok' lx' w k'. scan D lx = (Tok_value_string, lx1) \<and> white w \<and>
      bind_sax (parse_member (dom_handler ex) D (False # states) Tok_value_string lx1 s) (parse_turns (dom_handler ex) D) =
        parse_turns (dom_handler ex) D (Turn_state (False # states) tok' lx'
          (s\<lparr>dp_stack := F_object (fold (\<lambda>(k, v). fmupd k v) [(k, v)] m) (Some k') # st\<rparr>)) \<and>
      under_way lx' (w @ CHR ''}'' # r)"
    unfolding one using w(4) by blast
qed

lemma more_members_parsed:
  assumes "string_body k kt" "value_parsed D v t" and w: "white w1" "white w2" "white w3" "white w4"
    and u: "members_parsed D kvs u"
  shows "members_parsed D ((k, v) # kvs) (w1 @ CHR 0x22 # kt @ CHR 0x22 # w2 @ '':'' @ w3 @ t @ w4 @ '','' @ u)"
  unfolding members_parsed_def
proof (intro allI impI)
  fix lx r states and s :: dom_parser and m ko st ex
  assume a: "lex_ready lx ((w1 @ CHR 0x22 # kt @ CHR 0x22 # w2 @ '':'' @ w3 @ t @ w4 @ '','' @ u) @ CHR ''}'' # r)"
    "dp_stack s = F_object m ko # st"
  have rd: "lex_ready lx (w1 @ CHR 0x22 # kt @ CHR 0x22 # w2 @ CHR '':'' # w3 @ t @ w4 @ CHR '','' # u @ CHR ''}'' # r)"
    and f: "follows (w4 @ CHR '','' # u @ CHR ''}'' # r)" using a(1) w(4) by (simp_all add: follows_white)
  define s1 where "s1 = s\<lparr>dp_stack := F_object (fmupd k v m) (Some k) # st\<rparr>"
  obtain lx1 tok' lx2 where 1: "scan D lx = (Tok_value_string, lx1)"
    "bind_sax (parse_member (dom_handler ex) D (False # states) Tok_value_string lx1 s) (parse_turns (dom_handler ex) D) =
      parse_turns (dom_handler ex) D (Turn_state (False # states) tok' lx2 s1)"
    "under_way lx2 (w4 @ CHR '','' # u @ CHR ''}'' # r)"
    using member_value [OF assms(1,2) w(1-3) rd f a(2), of ex "False # states"] unfolding s1_def by blast
  obtain lx3 where 3: "under_way lx3 (u @ CHR ''}'' # r)"
    "parse_turns (dom_handler ex) D (Turn_state (False # states) tok' lx2 s1) =
      bind_sax (parse_member (dom_handler ex) D (False # states) (fst (scan D lx3)) (snd (scan D lx3)) s1)
        (parse_turns (dom_handler ex) D)"
    using next_member [OF 1(3) w(4), where H = "dom_handler ex" and D = D and states = states and tok = tok' and s = s1]
    by blast
  have st: "dp_stack s1 = F_object (fmupd k v m) (Some k) # st" by (simp add: s1_def)
  obtain lx4 tok3 lx5 w k' where 4: "scan D lx3 = (Tok_value_string, lx4)" "white w"
    "bind_sax (parse_member (dom_handler ex) D (False # states) Tok_value_string lx4 s1) (parse_turns (dom_handler ex) D) =
      parse_turns (dom_handler ex) D (Turn_state (False # states) tok3 lx5
        (s1\<lparr>dp_stack := F_object (fold (\<lambda>(k, v). fmupd k v) kvs (fmupd k v m)) (Some k') # st\<rparr>))"
    "under_way lx5 (w @ CHR ''}'' # r)"
    using u [unfolded members_parsed_def, rule_format, OF lex_ready_under_way [OF 3(1)] st, of ex states] by blast
  have s1: "s1\<lparr>dp_stack := F_object (fold (\<lambda>(k, v). fmupd k v) kvs (fmupd k v m)) (Some k') # st\<rparr> =
      s\<lparr>dp_stack := F_object (fold (\<lambda>(k, v). fmupd k v) ((k, v) # kvs) m) (Some k') # st\<rparr>" by (simp add: s1_def)
  have "bind_sax (parse_member (dom_handler ex) D (False # states) Tok_value_string lx1 s) (parse_turns (dom_handler ex) D) =
      parse_turns (dom_handler ex) D (Turn_state (False # states) tok3 lx5
        (s\<lparr>dp_stack := F_object (fold (\<lambda>(k, v). fmupd k v) ((k, v) # kvs) m) (Some k') # st\<rparr>))"
    unfolding 1(2) 3(2) 4(1) fst_conv snd_conv 4(3) s1 ..
  then show "\<exists>lx1 tok' lx' w k'. scan D lx = (Tok_value_string, lx1) \<and> white w \<and>
      bind_sax (parse_member (dom_handler ex) D (False # states) Tok_value_string lx1 s) (parse_turns (dom_handler ex) D) =
        parse_turns (dom_handler ex) D (Turn_state (False # states) tok' lx'
          (s\<lparr>dp_stack := F_object (fold (\<lambda>(k, v). fmupd k v) ((k, v) # kvs) m) (Some k') # st\<rparr>)) \<and>
      under_way lx' (w @ CHR ''}'' # r)"
    using 1(1) 4(2,4) by blast
qed

text \<open>Every text of the grammar.\<close>

lemma grammar_parsed:
  "grammar D v t \<Longrightarrow> value_parsed D v t"
  "elements_text D xs u \<Longrightarrow> elements_parsed D xs u"
  "members_text D kvs u' \<Longrightarrow> members_parsed D kvs u'"
proof (induction rule: grammar_elements_text_members_text.inducts)
  case g_null
  show ?case by (rule value_parsed_scalar [OF s_null])
next
  case g_true
  show ?case by (rule value_parsed_scalar [OF s_true])
next
  case g_false
  show ?case by (rule value_parsed_scalar [OF s_false])
next
  case (g_string s t)
  then show ?case by (intro value_parsed_scalar s_string)
next
  case (g_number v t)
  then show ?case by (intro value_parsed_scalar s_number) (simp add: number_value_text)
next
  case (g_empty_array w)
  then show ?case by (rule empty_array_parsed)
next
  case (g_array xs t)
  from g_array(2) show ?case by (rule array_parsed)
next
  case (g_empty_object w)
  then show ?case by (rule empty_object_parsed)
next
  case (g_object kvs t)
  from g_object(2) show ?case by (rule object_parsed)
next
  case (e_last x t w1 w2)
  then show ?case by (intro last_element_parsed)
next
  case (e_more x t w1 w2 xs u)
  then show ?case by (intro more_elements_parsed)
next
  case (m_last k kt v t w1 w2 w3 w4)
  then show ?case by (intro last_member_parsed)
next
  case (m_more k kt v t w1 w2 w3 w4 kvs u)
  then show ?case by (intro more_members_parsed)
qed

end
