(* ===== verification/SS_Dump.thy ===== *)
theory SS_Dump
  imports SS_Utf8 SS_Bson
begin

text \<open>
  The serializer of \<open>include/json.hpp\<close> (class \<open>serializer\<close>), which the \<open>print\<close> functions of the
  messages reach through \<open>operator<<\<close>. The record holds what the class keeps between the calls: what
  has been written to the output, the buffer for numbers, the size of the indentation string and the
  two constants. The buffer for strings is local to \<open>dump_escaped\<close> here, since each call starts it
  anew. A write past one of the buffers and a failed assertion are \<open>Undefined\<close>.
  The text of a finite floating-point number (\<open>to_chars\<close>) is a parameter \<open>F\<close>.
\<close>

datatype error_handler = Handler_strict | Handler_replace | Handler_ignore

record serializer =
  sr_out :: string
  sr_number_buffer :: string
  sr_indent_string :: string
  sr_error_handler :: error_handler

definition new_serializer :: "char \<Rightarrow> error_handler \<Rightarrow> serializer" where
  "new_serializer indent_char handler =
     \<lparr>sr_out = [], sr_number_buffer = replicate 64 (CHR 0x00),
      sr_indent_string = replicate 512 indent_char, sr_error_handler = handler\<rparr>"

definition write_characters :: "string \<Rightarrow> serializer \<Rightarrow> serializer" where
  "write_characters cs sr = sr\<lparr>sr_out := sr_out sr @ cs\<rparr>"

section \<open>Strings\<close>

definition quote_char :: char where
  "quote_char = CHR 0x22"

definition backslash :: char where
  "backslash = CHR 0x5C"

text \<open>\<open>%04x\<close> of a 16-bit number, after \<open>\u\<close>.\<close>

definition hex_digit :: "nat \<Rightarrow> char" where
  "hex_digit d = ''0123456789abcdef'' ! d"

definition unicode_escape :: "nat \<Rightarrow> string" where
  "unicode_escape u =
     [backslash, CHR ''u'', hex_digit (u div 4096 mod 16), hex_digit (u div 256 mod 16),
      hex_digit (u div 16 mod 16), hex_digit (u mod 16)]"

text \<open>
  What an accepted code point adds to the buffer; \<open>ch\<close> is its last byte, the earlier ones have been
  copied. The second component counts the zero byte \<open>snprintf\<close> writes after the text.
\<close>

definition accepted_text :: "bool \<Rightarrow> nat \<Rightarrow> char \<Rightarrow> string \<times> nat" where
  "accepted_text ensure_ascii codepoint ch =
     (if codepoint = 0x08 then ([backslash, CHR ''b''], 0)
      else if codepoint = 0x09 then ([backslash, CHR ''t''], 0)
      else if codepoint = 0x0A then ([backslash, CHR ''n''], 0)
      else if codepoint = 0x0C then ([backslash, CHR ''f''], 0)
      else if codepoint = 0x0D then ([backslash, CHR ''r''], 0)
      else if codepoint = 0x22 then ([backslash, quote_char], 0)
      else if codepoint = 0x5C then ([backslash, backslash], 0)
      else if codepoint \<le> 0x1F \<or> ensure_ascii \<and> codepoint \<ge> 0x7F then
        if codepoint \<le> 0xFFFF then (unicode_escape codepoint, 1)
        else (unicode_escape (take_bit 16 (0xD7C0 + drop_bit 10 codepoint)) @
              unicode_escape (take_bit 16 (0xDC00 + (codepoint AND 0x3FF))), 1)
      else ([ch], 0))"

text \<open>The local variables of \<open>dump_escaped\<close>; \<open>es_buffer\<close> is \<open>string_buffer\<close> up to \<open>bytes\<close>.\<close>

record escape_state =
  es_written :: string
  es_buffer :: string
  es_accept :: nat
  es_undumped :: nat
  es_state :: nat
  es_codepoint :: nat

definition buffer_put :: "string \<times> nat \<Rightarrow> escape_state \<Rightarrow> escape_state result" where
  "buffer_put t e =
     (if length (es_buffer e) + length (fst t) + snd t \<le> 512 then Inr (e\<lparr>es_buffer := es_buffer e @ fst t\<rparr>)
      else Inl Undefined)"

text \<open>The buffer is written out when fewer than 13 bytes are left; then the place is remembered.\<close>

definition buffer_flush :: "escape_state \<Rightarrow> escape_state" where
  "buffer_flush e =
     (let e' = (if 512 - length (es_buffer e) < 13 then
                  e\<lparr>es_written := es_written e @ es_buffer e, es_buffer := []\<rparr> else e)
      in e'\<lparr>es_accept := length (es_buffer e')\<rparr>)"

definition replacement_character :: "bool \<Rightarrow> string" where
  "replacement_character ensure_ascii =
     (if ensure_ascii then backslash # ''ufffd'' else [CHR 0xEF, CHR 0xBF, CHR 0xBD])"

text \<open>An invalid byte: back to the last accepted place, with a replacement character if asked for.\<close>

definition escape_reject :: "error_handler \<Rightarrow> bool \<Rightarrow> escape_state \<Rightarrow> escape_state result" where
  "escape_reject handler ensure_ascii e =
     (let e' = e\<lparr>es_buffer := take (es_accept e) (es_buffer e)\<rparr> in
      case handler of
        Handler_strict \<Rightarrow> Inl Json_type_error
      | Handler_ignore \<Rightarrow> Inr e'
      | Handler_replace \<Rightarrow> map_res buffer_flush (buffer_put (replacement_character ensure_ascii, 0) e'))"

function (sequential) escape_loop ::
  "error_handler \<Rightarrow> bool \<Rightarrow> string \<Rightarrow> escape_state \<Rightarrow> escape_state result" where
  "escape_loop handler ensure_ascii [] e = Inr e"
| "escape_loop handler ensure_ascii (ch # s) e =
     (let (st, cp) = decode (es_state e) (es_codepoint e) (of_char ch);
          e1 = e\<lparr>es_state := st, es_codepoint := cp\<rparr>
      in if st = UTF8_ACCEPT then
           bind_res (buffer_put (accepted_text ensure_ascii cp ch) e1) (\<lambda>e2.
             escape_loop handler ensure_ascii s (buffer_flush e2\<lparr>es_undumped := 0\<rparr>))
         else if st = UTF8_REJECT then
           bind_res (escape_reject handler ensure_ascii e1) (\<lambda>e2.
             escape_loop handler ensure_ascii (if es_undumped e > 0 then ch # s else s)
               (e2\<lparr>es_undumped := 0, es_state := UTF8_ACCEPT\<rparr>))
         else
           bind_res (if ensure_ascii then Inr e1 else buffer_put ([ch], 0) e1) (\<lambda>e2.
             escape_loop handler ensure_ascii s (e2\<lparr>es_undumped := es_undumped e2 + 1\<rparr>)))"
  by pat_completeness auto
termination
  by (relation "measure (\<lambda>(_, _, s, e). 2 * length s + (if es_undumped e > 0 then 1 else 0))") auto

declare escape_loop.simps(2) [simp del]

definition escape_finish :: "error_handler \<Rightarrow> bool \<Rightarrow> escape_state \<Rightarrow> string result" where
  "escape_finish handler ensure_ascii e =
     (if es_state e = UTF8_ACCEPT then Inr (es_written e @ es_buffer e)
      else case handler of
        Handler_strict \<Rightarrow> Inl Json_type_error
      | Handler_ignore \<Rightarrow> Inr (es_written e @ take (es_accept e) (es_buffer e))
      | Handler_replace \<Rightarrow>
          Inr (es_written e @ take (es_accept e) (es_buffer e) @ replacement_character ensure_ascii))"

definition dump_escaped :: "string \<Rightarrow> bool \<Rightarrow> serializer \<Rightarrow> serializer result" where
  "dump_escaped s ensure_ascii sr =
     (let handler = sr_error_handler sr;
          e = \<lparr>es_written = [], es_buffer = [], es_accept = 0, es_undumped = 0,
               es_state = UTF8_ACCEPT, es_codepoint = 0\<rparr>
      in map_res (\<lambda>t. write_characters t sr)
           (bind_res (escape_loop handler ensure_ascii s e) (escape_finish handler ensure_ascii)))"

section \<open>Numbers\<close>

fun count_digits_from :: "nat \<Rightarrow> nat \<Rightarrow> nat" where
  "count_digits_from n_digits x =
     (if x < 10 then n_digits
      else if x < 100 then n_digits + 1
      else if x < 1000 then n_digits + 2
      else if x < 10000 then n_digits + 3
      else count_digits_from (n_digits + 4) (x div 10000))"

declare count_digits_from.simps [simp del]

definition count_digits :: "nat \<Rightarrow> nat" where
  "count_digits x = count_digits_from 1 x"

text \<open>The absolute value of a negative 64-bit number.\<close>

definition remove_sign :: "int \<Rightarrow> nat" where
  "remove_sign x = nat (((- (x + 1)) mod 2 ^ 64 + 1) mod 2 ^ 64)"

definition digits_to_99 :: "string list" where
  "digits_to_99 =
     [''00'', ''01'', ''02'', ''03'', ''04'', ''05'', ''06'', ''07'', ''08'', ''09'',
      ''10'', ''11'', ''12'', ''13'', ''14'', ''15'', ''16'', ''17'', ''18'', ''19'',
      ''20'', ''21'', ''22'', ''23'', ''24'', ''25'', ''26'', ''27'', ''28'', ''29'',
      ''30'', ''31'', ''32'', ''33'', ''34'', ''35'', ''36'', ''37'', ''38'', ''39'',
      ''40'', ''41'', ''42'', ''43'', ''44'', ''45'', ''46'', ''47'', ''48'', ''49'',
      ''50'', ''51'', ''52'', ''53'', ''54'', ''55'', ''56'', ''57'', ''58'', ''59'',
      ''60'', ''61'', ''62'', ''63'', ''64'', ''65'', ''66'', ''67'', ''68'', ''69'',
      ''70'', ''71'', ''72'', ''73'', ''74'', ''75'', ''76'', ''77'', ''78'', ''79'',
      ''80'', ''81'', ''82'', ''83'', ''84'', ''85'', ''86'', ''87'', ''88'', ''89'',
      ''90'', ''91'', ''92'', ''93'', ''94'', ''95'', ''96'', ''97'', ''98'', ''99'']"

text \<open>\<open>*(--buffer_ptr) = c\<close>.\<close>

definition store_back :: "char \<Rightarrow> nat \<times> string \<Rightarrow> (nat \<times> string) result" where
  "store_back c = (\<lambda>(p, b). if 0 < p \<and> p \<le> length b then Inr (p - 1, b[p - 1 := c]) else Inl Undefined)"

definition store_pair :: "nat \<Rightarrow> nat \<times> string \<Rightarrow> (nat \<times> string) result" where
  "store_pair digits_index pb =
     bind_res (store_back (digits_to_99 ! digits_index ! 1) pb) (store_back (digits_to_99 ! digits_index ! 0))"

text \<open>The loop that fills the buffer two digits at a time from the end, and the digits left.\<close>

function fill_digits :: "nat \<Rightarrow> nat \<times> string \<Rightarrow> (nat \<times> string) result" where
  "fill_digits abs_value pb =
     (if abs_value \<ge> 100 then bind_res (store_pair (abs_value mod 100) pb) (fill_digits (abs_value div 100))
      else if abs_value \<ge> 10 then store_pair abs_value pb
      else store_back (char_of (0x30 + abs_value)) pb)"
  by pat_completeness auto
termination by (relation "measure fst") auto

declare fill_digits.simps [simp del]

definition dump_integer :: "int \<Rightarrow> serializer \<Rightarrow> serializer result" where
  "dump_integer x sr =
     (if x = 0 then Inr (write_characters ''0'' sr)
      else
        let b = sr_number_buffer sr;
            abs_value = (if x < 0 then remove_sign x else nat (x mod 2 ^ 64));
            b0 = (if x < 0 then b[0 := CHR ''-''] else b);
            n_chars = (if x < 0 then 1 + count_digits abs_value else count_digits abs_value)
        in if n_chars < 64 - 1 then
             map_res (\<lambda>(p, b'). write_characters (take n_chars b') (sr\<lparr>sr_number_buffer := b'\<rparr>))
               (fill_digits abs_value (n_chars, b0))
           else Inl Undefined)"

text \<open>NaN and the infinities have no text in JSON.\<close>

definition dump_float :: "(double \<Rightarrow> string) \<Rightarrow> double \<Rightarrow> serializer \<Rightarrow> serializer" where
  "dump_float F x sr =
     (if \<not> isfinite x then write_characters ''null'' sr else write_characters (F x) sr)"

section \<open>Indentation\<close>

text \<open>
  After the characters of \<open>indent_string\<close> comes a zero byte; the level is an \<open>unsigned int\<close>. The string
  is doubled once when it is too short, with spaces, whatever the indentation character is.
\<close>

definition new_indent :: "nat \<Rightarrow> nat \<Rightarrow> nat" where
  "new_indent current_indent indent_step = (current_indent + indent_step) mod 2 ^ 32"

definition indent_reserve :: "nat \<Rightarrow> serializer \<Rightarrow> serializer" where
  "indent_reserve n sr =
     (if length (sr_indent_string sr) < n then
        sr\<lparr>sr_indent_string := sr_indent_string sr @ replicate (length (sr_indent_string sr)) (CHR '' '')\<rparr>
      else sr)"

definition write_indent :: "nat \<Rightarrow> serializer \<Rightarrow> serializer result" where
  "write_indent n sr =
     (if n \<le> length (sr_indent_string sr) then Inr (write_characters (take n (sr_indent_string sr)) sr)
      else if n = length (sr_indent_string sr) + 1 then
        Inr (write_characters (sr_indent_string sr @ [CHR 0x00]) sr)
      else Inl Undefined)"

section \<open>Values\<close>

definition newline_str :: string where
  "newline_str = [CHR 0x0A]"

fun dump_bytes :: "string \<Rightarrow> byte list \<Rightarrow> serializer \<Rightarrow> serializer result" where
  "dump_bytes sep [] sr = Inr sr"
| "dump_bytes sep [b] sr = dump_integer (uint b) sr"
| "dump_bytes sep (b # bs) sr =
     bind_res (dump_integer (uint b) sr) (\<lambda>sr1. dump_bytes sep bs (write_characters sep sr1))"

definition dump_subtype :: "nat option \<Rightarrow> serializer \<Rightarrow> serializer result" where
  "dump_subtype subtype sr =
     (case subtype of Some n \<Rightarrow> dump_integer (int n) sr | None \<Rightarrow> Inr (write_characters ''null'' sr))"

definition quoted :: "string \<Rightarrow> string" where
  "quoted s = quote_char # s @ [quote_char]"

definition dump_key :: "bool \<Rightarrow> bool \<Rightarrow> nat \<Rightarrow> string \<Rightarrow> serializer \<Rightarrow> serializer result" where
  "dump_key pretty ensure_ascii indent k sr =
     bind_res (if pretty then write_indent indent sr else Inr sr) (\<lambda>sr1.
       map_res (write_characters (quote_char # (if pretty then '': '' else '':'')))
         (dump_escaped k ensure_ascii (write_characters [quote_char] sr1)))"

definition separator :: "bool \<Rightarrow> string" where
  "separator pretty = (if pretty then '','' @ newline_str else '','')"

text \<open>The frame of a non-empty object or array: opening, elements at the new indentation, closing.\<close>

definition dump_container ::
  "bool \<Rightarrow> nat \<Rightarrow> nat \<Rightarrow> string \<Rightarrow> string \<Rightarrow> (nat \<Rightarrow> serializer \<Rightarrow> serializer result) \<Rightarrow>
   serializer \<Rightarrow> serializer result" where
  "dump_container pretty indent_step current_indent opening closing elements sr =
     (if pretty then
        let n = new_indent current_indent indent_step in
        bind_res (elements n (indent_reserve n (write_characters (opening @ newline_str) sr))) (\<lambda>sr1.
          map_res (write_characters closing) (write_indent current_indent (write_characters newline_str sr1)))
      else map_res (write_characters closing) (elements current_indent (write_characters opening sr)))"

text \<open>The bytes and the subtype, two lines of an object.\<close>

definition dump_binary :: "bool \<Rightarrow> nat \<Rightarrow> nat \<Rightarrow> nat option \<Rightarrow> byte list \<Rightarrow> serializer \<Rightarrow> serializer result" where
  "dump_binary pretty indent_step current_indent subtype bs sr =
     dump_container pretty indent_step current_indent ''{'' ''}'' (\<lambda>n sr.
       bind_res (if pretty then write_indent n sr else Inr sr) (\<lambda>sr1.
       bind_res (dump_bytes (if pretty then '', '' else '','') bs
         (write_characters (quoted ''bytes'' @ (if pretty then '': ['' else '':['')) sr1)) (\<lambda>sr2.
       let sr3 = write_characters ('']'' @ separator pretty) sr2 in
       bind_res (if pretty then write_indent n sr3 else Inr sr3) (\<lambda>sr4.
         dump_subtype subtype (write_characters (quoted ''subtype'' @ (if pretty then '': '' else '':'')) sr4))))) sr"

function dump ::
  "(double \<Rightarrow> string) \<Rightarrow> bool \<Rightarrow> bool \<Rightarrow> nat \<Rightarrow> nat \<Rightarrow> json \<Rightarrow> serializer \<Rightarrow> serializer result"
  and dump_elements ::
  "(double \<Rightarrow> string) \<Rightarrow> bool \<Rightarrow> bool \<Rightarrow> nat \<Rightarrow> nat \<Rightarrow> json list \<Rightarrow> serializer \<Rightarrow> serializer result"
  and dump_members ::
  "(double \<Rightarrow> string) \<Rightarrow> bool \<Rightarrow> bool \<Rightarrow> nat \<Rightarrow> nat \<Rightarrow> (string \<times> json) list \<Rightarrow> serializer \<Rightarrow> serializer result"
  where
  "dump F pretty ascii step current_indent val sr =
     (case val of
        JObj m \<Rightarrow>
          if m = fmempty then Inr (write_characters ''{}'' sr)
          else dump_container pretty step current_indent ''{'' ''}''
            (\<lambda>n. dump_members F pretty ascii step n (sorted_list_of_fmap m)) sr
      | JArr xs \<Rightarrow>
          if xs = [] then Inr (write_characters ''[]'' sr)
          else dump_container pretty step current_indent ''['' '']''
            (\<lambda>n. dump_elements F pretty ascii step n xs) sr
      | JStr s \<Rightarrow>
          map_res (write_characters [quote_char]) (dump_escaped s ascii (write_characters [quote_char] sr))
      | JBin subtype bs \<Rightarrow> dump_binary pretty step current_indent subtype bs sr
      | JBool b \<Rightarrow> Inr (write_characters (if b then ''true'' else ''false'') sr)
      | JInt i \<Rightarrow> dump_integer i sr
      | JFloat r \<Rightarrow> Inr (dump_float F r sr)
      | JDiscarded \<Rightarrow> Inr (write_characters ''<discarded>'' sr)
      | JNull \<Rightarrow> Inr (write_characters ''null'' sr))"
| "dump_elements F pretty ascii step n [] sr = Inr sr"
| "dump_elements F pretty ascii step n (x # xs) sr =
     bind_res (if pretty then write_indent n sr else Inr sr) (\<lambda>sr1.
     bind_res (dump F pretty ascii step n x sr1) (\<lambda>sr2.
       if xs = [] then Inr sr2
       else dump_elements F pretty ascii step n xs (write_characters (separator pretty) sr2)))"
| "dump_members F pretty ascii step n [] sr = Inr sr"
| "dump_members F pretty ascii step n ((k, v) # es) sr =
     bind_res (dump_key pretty ascii n k sr) (\<lambda>sr1.
     bind_res (dump F pretty ascii step n v sr1) (\<lambda>sr2.
       if es = [] then Inr sr2
       else dump_members F pretty ascii step n es (write_characters (separator pretty) sr2)))"
  by pat_completeness auto
termination
proof (relation "measure (\<lambda>x. case x of
      Inl (_, _, _, _, _, v, _) \<Rightarrow> size v
    | Inr (Inl (_, _, _, _, _, xs, _)) \<Rightarrow> sum_list (map (\<lambda>x. Suc (size x)) xs)
    | Inr (Inr (_, _, _, _, _, es, _)) \<Rightarrow> sum_list (map (\<lambda>kv. Suc (size (snd kv))) es))", goal_cases)
  case (3 F pretty ascii step current_indent val sr m)
  then show ?case by (simp add: size_sorted_entries del: json.size)
next
  case (2 F pretty ascii step current_indent val sr xs)
  have "(\<Sum>x\<leftarrow>xs. Suc (size x)) = sum_list (map size xs) + length xs" for xs :: "json list"
    by (induction xs) auto
  then show ?case using 2 by (simp add: size_list_conv_sum_list)
qed auto

declare dump.simps [simp del]

end
