(* ===== verification/SS_EscapeText.thy ===== *)
theory SS_EscapeText
  imports SS_Dump SS_BsonRoundtrip
begin

text \<open>
  What \<open>dump_escaped\<close> writes: the buffer of 512 bytes never overflows, a string that is not UTF-8
  makes the strict handler throw, and every other string comes out as the escaped texts of its code
  points (\<open>escaped_text\<close>).
\<close>

section \<open>Strings\<close>

text \<open>The code points of a string, \<open>None\<close> if it is not UTF-8.\<close>

fun utf8_scan :: "nat \<Rightarrow> nat \<Rightarrow> string \<Rightarrow> nat list option" where
  "utf8_scan state codepoint [] = (if state = UTF8_ACCEPT then Some [] else None)"
| "utf8_scan state codepoint (ch # s) =
     (case decode state codepoint (of_char ch) of (st, cp) \<Rightarrow>
        if st = UTF8_ACCEPT then map_option (Cons cp) (utf8_scan st cp s)
        else if st = UTF8_REJECT then None
        else utf8_scan st cp s)"

definition utf8_codepoints :: "string \<Rightarrow> nat list option" where
  "utf8_codepoints s = utf8_scan UTF8_ACCEPT 0 s"

lemma utf8_scan_accept: "utf8_scan 0 c s = utf8_scan 0 0 s"
  by (cases s) (simp_all add: decode_accept [of c])

lemma partly_read_0 [simp]: "partly_read 0 c r \<longleftrightarrow> c < 2 ^ 26 \<and> r = []"
  by (auto simp: partly_read_def)

lemma utf8_scan_sound:
  assumes "utf8_scan s c t = Some cps" "partly_read s c r"
  shows "list_all scalar_value cps \<and> r @ map of_char t = utf8_encode cps"
  using assms
proof (induction s c t arbitrary: r cps rule: utf8_scan.induct)
  case (1 s c)
  then show ?case by (auto simp: UTF8_ACCEPT_def utf8_encode_def split: if_splits)
next
  case (2 s c ch t)
  obtain st cp where d: "decode s c (of_char ch) = (st, cp)" by fastforce
  have step: "step_ok (r @ [of_char ch]) (st, cp)" using decode_step [OF "2.prems"(2), of "of_char ch"] d by simp
  show ?case
  proof (cases "st = 0")
    case True
    with "2.prems"(1) d obtain cps' where cps: "cps = cp # cps'" "utf8_scan 0 cp t = Some cps'"
      by (auto simp: UTF8_ACCEPT_def)
    have cp: "scalar_value cp" "codepoint_bytes cp = r @ [of_char ch]" using step True by (auto simp: step_ok_def)
    then have "partly_read 0 cp []" by (simp add: scalar_value_def)
    with "2.IH"(1) [OF d [symmetric]] cps True cp show ?thesis by (simp add: UTF8_ACCEPT_def utf8_encode_Cons)
  next
    case False
    with "2.prems"(1) d have "st \<noteq> 1" "utf8_scan st cp t = Some cps"
      by (auto simp: UTF8_ACCEPT_def UTF8_REJECT_def split: if_splits)
    moreover from this have "partly_read st cp (r @ [of_char ch])" using step False by (simp add: step_ok_def)
    ultimately show ?thesis
      using "2.IH"(2) [OF d [symmetric], of cps "r @ [of_char ch]"] False
      by (simp add: UTF8_ACCEPT_def UTF8_REJECT_def)
  qed
qed

lemma utf8_scan_codepoint:
  "reads_codepoint s c bs cp \<Longrightarrow> map of_char t = bs \<Longrightarrow>
    utf8_scan s c (t @ u) = map_option (Cons cp) (utf8_scan 0 0 u)"
proof (induction s c bs cp arbitrary: t rule: reads_codepoint.induct)
  case (2 s c b cp)
  then obtain ch where "t = [ch]" "b = of_char ch" by auto
  with 2 show ?case by (simp add: UTF8_ACCEPT_def utf8_scan_accept [of cp])
next
  case (3 s c b b' bs cp)
  then obtain ch t' where "t = ch # t'" "b = of_char ch" "map of_char t' = b' # bs" by (cases t) auto
  with 3 show ?case by (auto simp: UTF8_ACCEPT_def UTF8_REJECT_def split: prod.splits)
qed simp

lemma utf8_scan_complete:
  "list_all scalar_value cps \<Longrightarrow> map of_char t = utf8_encode cps \<Longrightarrow> utf8_scan 0 0 t = Some cps"
proof (induction cps arbitrary: t)
  case (Cons cp cps)
  from Cons.prems obtain t1 t2 where "t = t1 @ t2" "map of_char t1 = codepoint_bytes cp" "map of_char t2 = utf8_encode cps"
    by (auto simp: utf8_encode_Cons map_eq_append_conv)
  with Cons show ?case
    using utf8_scan_codepoint [OF reads_codepoint_bytes [of cp 0], of t1 t2] by simp
qed (simp add: utf8_encode_def UTF8_ACCEPT_def)

lemma utf8_codepoints_iff:
  "utf8_codepoints s = Some cps \<longleftrightarrow> list_all scalar_value cps \<and> map of_char s = utf8_encode cps"
  using utf8_scan_sound [of 0 0 s cps "[]"] utf8_scan_complete [of cps s]
  by (auto simp: utf8_codepoints_def UTF8_ACCEPT_def)

section \<open>The loop of \<open>dump_escaped\<close>\<close>

text \<open>
  The reference text of a code point, by the escapes RFC 8259 names: a letter after a backslash, four hex
  digits for each unit of UTF-16, or the bytes of the character itself. It shares nothing with the switch
  of \<open>dump_escaped\<close>.
\<close>

definition escape_letters :: "(nat \<times> char) list" where
  "escape_letters =
     [(0x22, CHR 0x22), (0x5C, CHR 0x5C), (0x08, CHR ''b''), (0x09, CHR ''t''), (0x0A, CHR ''n''),
      (0x0C, CHR ''f''), (0x0D, CHR ''r'')]"

definition utf16_units :: "nat \<Rightarrow> nat list" where
  "utf16_units cp =
     (if cp < 0x10000 then [cp]
      else [0xD800 + (cp - 0x10000) div 0x400, 0xDC00 + (cp - 0x10000) mod 0x400])"

definition hex_text :: "nat \<Rightarrow> string" where
  "hex_text u = map (\<lambda>k. ''0123456789abcdef'' ! (u div 16 ^ k mod 16)) [3, 2, 1, 0]"

definition escaped_codepoint :: "bool \<Rightarrow> nat \<Rightarrow> string" where
  "escaped_codepoint ascii cp =
     (case map_of escape_letters cp of
        Some c \<Rightarrow> [CHR 0x5C, c]
      | None \<Rightarrow>
          if cp < 0x20 \<or> ascii \<and> 0x7F \<le> cp then concat (map (\<lambda>u. u_prefix @ hex_text u) (utf16_units cp))
          else map char_of (utf8_bytes cp))"

definition escaped_text :: "bool \<Rightarrow> nat list \<Rightarrow> string" where
  "escaped_text ascii cps = concat (map (escaped_codepoint ascii) cps)"

text \<open>The switch of the code writes these texts.\<close>

lemma hex_text_escape: "u_prefix @ hex_text u = unicode_escape u"
  by (simp add: u_prefix_def hex_text_def unicode_escape_def hex_digit_def backslash_def)

lemma surrogates_of:
  assumes "0xFFFF < cp" "cp \<le> 0x10FFFF"
  shows "take_bit 16 (0xD7C0 + drop_bit 10 cp) = 0xD800 + (cp - 0x10000) div 0x400"
    "take_bit 16 (0xDC00 + (cp AND 0x3FF)) = 0xDC00 + (cp - 0x10000) mod (0x400 :: nat)"
proof -
  define k where "k = cp - 0x10000"
  have k: "cp = k + 64 * 0x400" "k < 2 ^ 20" using assms by (simp_all add: k_def)
  have "drop_bit 10 cp = k div 0x400 + 64" by (simp add: drop_bit_eq_div k(1))
  moreover have "k div 0x400 < 0x400" using k(2) by (simp add: less_mult_imp_div_less)
  ultimately show "take_bit 16 (0xD7C0 + drop_bit 10 cp) = 0xD800 + (cp - 0x10000) div 0x400"
    by (simp add: take_bit_eq_mod k_def [symmetric])
  have "cp AND 0x3FF = cp mod 0x400" using take_bit_eq_mask [of 10 cp] by (simp add: take_bit_eq_mod mask_eq_exp_minus_1)
  also have "\<dots> = k mod 0x400" unfolding k(1) by (rule mod_mult_self1)
  finally have "cp AND 0x3FF = k mod 0x400" .
  moreover have "k mod 0x400 < 0x400" by simp
  ultimately show "take_bit 16 (0xDC00 + (cp AND 0x3FF)) = 0xDC00 + (cp - 0x10000) mod 0x400"
    by (simp add: take_bit_eq_mod k_def [symmetric])
qed

lemma escaped_codepoint_code:
  assumes "cp \<le> 0x10FFFF"
  shows "escaped_codepoint ascii cp =
    (if 0x80 \<le> cp \<and> \<not> ascii then map char_of (codepoint_bytes cp)
     else fst (accepted_text ascii cp (char_of cp)))"
proof (cases "map_of escape_letters cp")
  case None
  then have n: "cp \<notin> {0x08, 0x09, 0x0A, 0x0C, 0x0D, 0x22, 0x5C}" by (auto simp: escape_letters_def split: if_splits)
  have units: "concat (map (\<lambda>u. u_prefix @ hex_text u) (utf16_units cp)) =
    (if cp \<le> 0xFFFF then unicode_escape cp
     else unicode_escape (take_bit 16 (0xD7C0 + drop_bit 10 cp)) @
       unicode_escape (take_bit 16 (0xDC00 + (cp AND 0x3FF))))"
    using surrogates_of [of cp] assms by (simp add: utf16_units_def hex_text_escape del: append_assoc)
  show ?thesis
  proof (cases "cp < 0x20 \<or> ascii \<and> 0x7F \<le> cp")
    case True
    then have "\<not> (0x80 \<le> cp \<and> \<not> ascii)" "cp \<le> 0x1F \<or> ascii \<and> 0x7F \<le> cp" by auto
    then show ?thesis using None n True units by (auto simp: escaped_codepoint_def accepted_text_def)
  next
    case False
    then have "utf8_bytes cp = [cp]" if "\<not> (0x80 \<le> cp \<and> \<not> ascii)" using that by (intro utf8_bytes_cases(1)) auto
    then show ?thesis using None n False
      by (auto simp: escaped_codepoint_def accepted_text_def codepoint_bytes_utf8 [OF assms])
  qed
next
  case (Some c)
  then show ?thesis
    by (auto simp: escape_letters_def escaped_codepoint_def accepted_text_def backslash_def quote_char_def split: if_splits)
qed

text \<open>\<open>r\<close> are the bytes read since the last accepted code point.\<close>

definition escape_inv :: "bool \<Rightarrow> escape_state \<Rightarrow> nat list \<Rightarrow> bool" where
  "escape_inv ascii e r \<longleftrightarrow>
     partly_read (es_state e) (if es_state e = 0 then 0 else es_codepoint e) r \<and>
     length r = es_undumped e \<and> es_accept e \<le> 499 \<and>
     length (es_buffer e) \<ge> es_accept e \<and>
     drop (es_accept e) (es_buffer e) = (if ascii then [] else map char_of r)"

definition escape_text_of :: "escape_state \<Rightarrow> string" where
  "escape_text_of e = es_written e @ take (es_accept e) (es_buffer e)"

lemma partly_read_short:
  assumes "partly_read s c r"
  shows "length r \<le> 3"
proof -
  have cp: "length (codepoint_bytes cp) \<le> 4" for cp by (simp add: codepoint_bytes_def)
  have "length r \<le> 3" if "\<forall>k<n. scalar_value (f k) \<and> codepoint_bytes (f k) = r @ g k" "0 < n" "g 0 \<noteq> []"
    for n f and g :: "nat \<Rightarrow> nat list"
  proof -
    have "codepoint_bytes (f 0) = r @ g 0" using that by blast
    then have "length r + length (g 0) \<le> 4" using cp [of "f 0"] by simp
    moreover have "0 < length (g 0)" using that(3) by simp
    ultimately show ?thesis by linarith
  qed
  from this [where n = 64] this [where n = 4096] this [where n = 262144] assms show ?thesis
    unfolding partly_read_def by (elim conjE disjE) simp_all
qed

lemma escape_inv_short: "escape_inv ascii e r \<Longrightarrow> length r \<le> 3"
  unfolding escape_inv_def using partly_read_short by blast

lemma codepoint_single: "codepoint_bytes cp = r @ [b] \<Longrightarrow> cp < 128 \<longleftrightarrow> r = []"
  by (auto simp: codepoint_bytes_def split: if_splits)

lemma accepted_text_escape: "cp < 0x20 \<or> ascii \<Longrightarrow> cp \<ge> 0x80 \<or> cp < 0x20 \<Longrightarrow> fst (accepted_text ascii cp c) = fst (accepted_text ascii cp c')"
  by (auto simp: accepted_text_def)

lemma accepted_text_bound: "length (fst (accepted_text ascii cp c)) + snd (accepted_text ascii cp c) \<le> 13"
  by (simp add: accepted_text_def unicode_escape_def)

lemma accepted_text_plain: "0x80 \<le> cp \<Longrightarrow> accepted_text False cp c = ([c], 0)"
  by (simp add: accepted_text_def)


lemma char_of_lt_80: "of_char ch = (cp::nat) \<Longrightarrow> char_of cp = ch"
  by auto

text \<open>An accepted code point: its escaped text joins what has been accepted.\<close>

lemma escape_accept:
  assumes inv: "escape_inv ascii e r" and cp: "codepoint_bytes cp = r @ [of_char ch]" "scalar_value cp"
    and e1: "e1 = e\<lparr>es_state := 0, es_codepoint := cp\<rparr>"
  shows "\<exists>e2. buffer_put (accepted_text ascii cp ch) e1 = Inr e2 \<and>
    escape_inv ascii (buffer_flush e2\<lparr>es_undumped := 0\<rparr>) [] \<and>
    escape_text_of (buffer_flush e2\<lparr>es_undumped := 0\<rparr>) = escape_text_of e @ escaped_codepoint ascii cp \<and>
    es_state (buffer_flush e2) = 0"
proof -
  define B where "B = take (es_accept e) (es_buffer e)"
  define p where "p = (if ascii then [] else map char_of r :: string)"
  have buf: "es_buffer e = B @ p" "length B = es_accept e" "es_accept e \<le> 499"
    using inv unfolding escape_inv_def B_def p_def by (auto simp: min_def) (metis append_take_drop_id)+
  have r3: "length r \<le> 3" by (rule escape_inv_short [OF inv])
  have le: "cp \<le> 0x10FFFF" using cp(2) by (simp add: scalar_value_def)
  have esc: "p @ fst (accepted_text ascii cp ch) = escaped_codepoint ascii cp"
  proof (cases "cp < 128")
    case True
    then have "r = []" "of_char ch = cp" using cp(1) codepoint_single [OF cp(1)] by (auto simp: codepoint_bytes_def)
    then show ?thesis using True by (auto simp: p_def escaped_codepoint_code [OF le])
  next
    case False
    then show ?thesis using cp(1) accepted_text_escape [of cp ascii ch "char_of cp"]
      by (auto simp: p_def escaped_codepoint_code [OF le] accepted_text_plain)
  qed
  have room: "length (B @ p) + length (fst (accepted_text ascii cp ch)) + snd (accepted_text ascii cp ch) \<le> 512"
  proof (cases "p = []")
    case True
    then show ?thesis using buf accepted_text_bound [of ascii cp ch] by simp
  next
    case False
    then have "\<not> ascii" "0x80 \<le> cp" using codepoint_single [OF cp(1)] by (auto simp: p_def split: if_splits)
    then show ?thesis using buf r3 by (simp add: accepted_text_plain p_def)
  qed
  define e2 where "e2 = e1\<lparr>es_buffer := B @ escaped_codepoint ascii cp\<rparr>"
  have "buffer_put (accepted_text ascii cp ch) e1 = Inr e2"
    using room buf(1) esc by (simp add: buffer_put_def e1 e2_def flip: append_assoc) (simp add: append_assoc flip: esc)
  moreover have "escape_inv ascii (buffer_flush e2\<lparr>es_undumped := 0\<rparr>) []"
    by (auto simp: escape_inv_def buffer_flush_def e2_def e1 Let_def)
  moreover have "escape_text_of (buffer_flush e2\<lparr>es_undumped := 0\<rparr>) = escape_text_of e @ escaped_codepoint ascii cp"
    by (auto simp: escape_text_of_def buffer_flush_def e2_def e1 Let_def B_def)
  moreover have "es_state (buffer_flush e2) = 0" by (simp add: buffer_flush_def e2_def e1 Let_def)
  ultimately show ?thesis by blast
qed

text \<open>A byte of a code point not complete yet.\<close>

lemma escape_more:
  assumes inv: "escape_inv ascii e r" and st: "partly_read st cp (r @ [of_char ch])" "st \<noteq> 0"
    and e1: "e1 = e\<lparr>es_state := st, es_codepoint := cp\<rparr>"
  shows "\<exists>e2. (if ascii then Inr e1 else buffer_put ([ch], 0) e1) = Inr e2 \<and>
    escape_inv ascii (e2\<lparr>es_undumped := es_undumped e2 + 1\<rparr>) (r @ [of_char ch]) \<and>
    escape_text_of (e2\<lparr>es_undumped := es_undumped e2 + 1\<rparr>) = escape_text_of e \<and> es_state e2 = st \<and> es_codepoint e2 = cp"
proof (cases ascii)
  case True
  then show ?thesis using assms by (auto simp: escape_inv_def escape_text_of_def)
next
  case False
  define e2 where "e2 = e1\<lparr>es_buffer := es_buffer e @ [ch]\<rparr>"
  have r3: "length r \<le> 3" by (rule escape_inv_short [OF inv])
  have len: "length (es_buffer e) = es_accept e + length r"
  proof -
    have "drop (es_accept e) (es_buffer e) = map char_of r" using inv False by (simp add: escape_inv_def)
    then have "length (es_buffer e) - es_accept e = length r" by (metis length_drop length_map)
    moreover have "es_accept e \<le> length (es_buffer e)" using inv by (simp add: escape_inv_def)
    ultimately show ?thesis by linarith
  qed
  have acc: "es_accept e \<le> 499" using inv by (simp add: escape_inv_def)
  have "buffer_put ([ch], 0) e1 = Inr e2" using len r3 acc by (simp add: buffer_put_def e1 e2_def)
  moreover have "escape_inv ascii (e2\<lparr>es_undumped := es_undumped e2 + 1\<rparr>) (r @ [of_char ch])"
    using inv st len False by (simp add: escape_inv_def e2_def e1)
  moreover have "escape_text_of (e2\<lparr>es_undumped := es_undumped e2 + 1\<rparr>) = escape_text_of e"
    using len by (simp add: escape_text_of_def e2_def e1)
  ultimately show ?thesis using False by (auto simp: e2_def e1)
qed

text \<open>An invalid byte, when the handler is not strict.\<close>

lemma escape_reject_ok:
  assumes inv: "escape_inv ascii e r" and h: "handler \<noteq> Handler_strict"
    and e1: "e1 = e\<lparr>es_state := st, es_codepoint := cp\<rparr>"
  shows "\<exists>e2. escape_reject handler ascii e1 = Inr e2 \<and>
    escape_inv ascii (e2\<lparr>es_undumped := 0, es_state := UTF8_ACCEPT\<rparr>) []"
proof (cases handler)
  case Handler_ignore
  then show ?thesis using assms by (auto simp: escape_reject_def escape_inv_def UTF8_ACCEPT_def Let_def)
next
  case Handler_replace
  have "length (replacement_character ascii) \<le> 6" by (simp add: replacement_character_def)
  moreover have "es_accept e \<le> 499" using inv by (simp add: escape_inv_def)
  ultimately show ?thesis
    using Handler_replace by (auto simp: escape_reject_def escape_inv_def buffer_put_def buffer_flush_def e1 UTF8_ACCEPT_def Let_def min_def)
qed (use h in simp)


text \<open>The state the automaton is in; in the accepting state the last code point does not matter.\<close>

lemma escape_inv_step:
  assumes "escape_inv ascii e r" "decode (es_state e) (es_codepoint e) (of_char ch) = (st, cp)"
  shows "step_ok (r @ [of_char ch]) (st, cp)"
proof (cases "es_state e = 0")
  case True
  then have "decode 0 0 (of_char ch) = (st, cp)" using assms(2) decode_accept by metis
  moreover have "partly_read 0 0 r" using assms(1) True by (simp add: escape_inv_def)
  ultimately show ?thesis using decode_step [of 0 0 r "of_char ch"] by simp
next
  case False
  then show ?thesis
    using assms decode_step [of "es_state e" "es_codepoint e" r "of_char ch"] by (simp add: escape_inv_def)
qed

definition escape_result :: "error_handler \<Rightarrow> bool \<Rightarrow> string \<Rightarrow> escape_state \<Rightarrow> string result" where
  "escape_result handler ascii s e =
     bind_res (escape_loop handler ascii s e) (escape_finish handler ascii)"

lemma escape_result_Nil: "escape_result handler ascii [] e = escape_finish handler ascii e"
  by (simp add: escape_result_def)

lemma escape_step_accept:
  assumes inv: "escape_inv ascii e r" and d: "decode (es_state e) (es_codepoint e) (of_char ch) = (0, cp)"
  obtains e' where "escape_result handler ascii (ch # s) e = escape_result handler ascii s e'"
    "escape_inv ascii e' []" "es_state e' = 0"
    "escape_text_of e' = escape_text_of e @ escaped_codepoint ascii cp"
proof -
  have "step_ok (r @ [of_char ch]) (0, cp)" by (rule escape_inv_step [OF inv d])
  then have cp: "codepoint_bytes cp = r @ [of_char ch]" "scalar_value cp" by (auto simp: step_ok_def)
  from escape_accept [OF inv cp refl] obtain e2
    where e2: "buffer_put (accepted_text ascii cp ch) (e\<lparr>es_state := 0, es_codepoint := cp\<rparr>) = Inr e2"
      "escape_inv ascii (buffer_flush e2\<lparr>es_undumped := 0\<rparr>) []"
      "escape_text_of (buffer_flush e2\<lparr>es_undumped := 0\<rparr>) = escape_text_of e @ escaped_codepoint ascii cp"
      "es_state (buffer_flush e2) = 0" by blast
  show thesis
    by (rule that [of "buffer_flush e2\<lparr>es_undumped := 0\<rparr>"])
      (use d e2 in \<open>simp_all add: escape_result_def escape_loop.simps(2) UTF8_ACCEPT_def\<close>)
qed

lemma escape_step_more:
  assumes inv: "escape_inv ascii e r" and d: "decode (es_state e) (es_codepoint e) (of_char ch) = (st, cp)"
    and st: "st \<noteq> 0" "st \<noteq> 1"
  obtains e' where "escape_result handler ascii (ch # s) e = escape_result handler ascii s e'"
    "escape_inv ascii e' (r @ [of_char ch])" "escape_text_of e' = escape_text_of e" "es_state e' = st" "es_codepoint e' = cp"
proof -
  have "step_ok (r @ [of_char ch]) (st, cp)" by (rule escape_inv_step [OF inv d])
  then have "partly_read st cp (r @ [of_char ch])" using st by (auto simp: step_ok_def)
  from escape_more [OF inv this st(1) refl] obtain e2 where e2:
    "(if ascii then Inr (e\<lparr>es_state := st, es_codepoint := cp\<rparr>)
      else buffer_put ([ch], 0) (e\<lparr>es_state := st, es_codepoint := cp\<rparr>)) = Inr e2"
    "escape_inv ascii (e2\<lparr>es_undumped := es_undumped e2 + 1\<rparr>) (r @ [of_char ch])"
    "escape_text_of (e2\<lparr>es_undumped := es_undumped e2 + 1\<rparr>) = escape_text_of e"
    "es_state e2 = st" "es_codepoint e2 = cp" by blast
  have "escape_result handler ascii (ch # s) e =
      escape_result handler ascii s (e2\<lparr>es_undumped := es_undumped e2 + 1\<rparr>)"
    unfolding escape_result_def escape_loop.simps(2) d Let_def using st
    by (simp add: UTF8_ACCEPT_def UTF8_REJECT_def e2(1))
  with e2 show thesis by (intro that [of "e2\<lparr>es_undumped := es_undumped e2 + 1\<rparr>"]) simp_all
qed

lemma escape_step_reject:
  assumes inv: "escape_inv ascii e r" and d: "decode (es_state e) (es_codepoint e) (of_char ch) = (1, cp)"
  shows "handler = Handler_strict \<Longrightarrow> escape_result handler ascii (ch # s) e = Inl Json_type_error"
    and "handler \<noteq> Handler_strict \<Longrightarrow> \<exists>e'. es_undumped e' = 0 \<and> escape_inv ascii e' [] \<and>
      escape_result handler ascii (ch # s) e =
        escape_result handler ascii (if es_undumped e > 0 then ch # s else s) e'"
proof -
  show "escape_result handler ascii (ch # s) e = Inl Json_type_error" if "handler = Handler_strict"
    using d that by (simp add: escape_result_def escape_loop.simps(2) UTF8_ACCEPT_def UTF8_REJECT_def escape_reject_def Let_def)
  assume h: "handler \<noteq> Handler_strict"
  from escape_reject_ok [OF inv h refl] obtain e2 where e2:
    "escape_reject handler ascii (e\<lparr>es_state := 1, es_codepoint := cp\<rparr>) = Inr e2"
    "escape_inv ascii (e2\<lparr>es_undumped := 0, es_state := UTF8_ACCEPT\<rparr>) []" by blast
  have "escape_result handler ascii (ch # s) e = escape_result handler ascii
      (if es_undumped e > 0 then ch # s else s) (e2\<lparr>es_undumped := 0, es_state := UTF8_ACCEPT\<rparr>)"
    unfolding escape_result_def escape_loop.simps(2) d Let_def
    by (simp add: UTF8_ACCEPT_def UTF8_REJECT_def e2(1) [simplified])
  with e2(2) show "\<exists>e'. es_undumped e' = 0 \<and> escape_inv ascii e' [] \<and>
      escape_result handler ascii (ch # s) e =
        escape_result handler ascii (if es_undumped e > 0 then ch # s else s) e'"
    by (intro exI [of _ "e2\<lparr>es_undumped := 0, es_state := UTF8_ACCEPT\<rparr>"]) simp
qed

text \<open>A well-formed string: every handler writes the escaped code points.\<close>

lemma escape_valid:
  assumes "utf8_scan (es_state e) (es_codepoint e) s = Some cps" "escape_inv ascii e r"
  shows "escape_result handler ascii s e = Inr (escape_text_of e @ escaped_text ascii cps)"
  using assms
proof (induction s arbitrary: e r cps)
  case Nil
  then show ?case
    by (auto simp: escape_result_Nil escape_finish_def escape_inv_def escape_text_of_def escaped_text_def
        UTF8_ACCEPT_def split: if_splits)
next
  case (Cons ch s)
  obtain st cp where d: "decode (es_state e) (es_codepoint e) (of_char ch) = (st, cp)" by fastforce
  show ?case
  proof (cases "st = 0")
    case True
    then obtain e' where e': "escape_result handler ascii (ch # s) e = escape_result handler ascii s e'"
      "escape_inv ascii e' []" "es_state e' = 0" "escape_text_of e' = escape_text_of e @ escaped_codepoint ascii cp"
      using escape_step_accept [OF Cons.prems(2)] d by metis
    from Cons.prems(1) d True obtain cps' where "cps = cp # cps'" "utf8_scan 0 cp s = Some cps'"
      by (auto simp: UTF8_ACCEPT_def)
    moreover from this have "utf8_scan (es_state e') (es_codepoint e') s = Some cps'"
      using e'(3) utf8_scan_accept by metis
    ultimately show ?thesis using Cons.IH [OF _ e'(2)] e' by (simp add: escaped_text_def)
  next
    case False
    with Cons.prems(1) d have st: "st \<noteq> 1" "utf8_scan st cp s = Some cps"
      by (auto simp: UTF8_ACCEPT_def UTF8_REJECT_def split: if_splits)
    obtain e' where e': "escape_result handler ascii (ch # s) e = escape_result handler ascii s e'"
      "escape_inv ascii e' (r @ [of_char ch])" "escape_text_of e' = escape_text_of e" "es_state e' = st" "es_codepoint e' = cp"
      using escape_step_more [OF Cons.prems(2) d False st(1)] by metis
    with Cons.IH [OF _ e'(2)] st show ?thesis by simp
  qed
qed

text \<open>Any other string: the strict handler throws.\<close>

lemma escape_invalid:
  assumes "utf8_scan (es_state e) (es_codepoint e) s = None" "escape_inv ascii e r"
  shows "escape_result Handler_strict ascii s e = Inl Json_type_error"
  using assms
proof (induction s arbitrary: e r)
  case Nil
  then show ?case by (simp add: escape_result_Nil escape_finish_def split: if_splits)
next
  case (Cons ch s)
  obtain st cp where d: "decode (es_state e) (es_codepoint e) (of_char ch) = (st, cp)" by fastforce
  consider "st = 0" | "st = 1" | "st \<noteq> 0" "st \<noteq> 1" by blast
  then show ?case
  proof cases
    case 1
    then obtain e' where e': "escape_result Handler_strict ascii (ch # s) e = escape_result Handler_strict ascii s e'"
      "escape_inv ascii e' []" "es_state e' = 0"
      using escape_step_accept [OF Cons.prems(2)] d by metis
    have "utf8_scan 0 cp s = None" using Cons.prems(1) d 1 by (auto simp: UTF8_ACCEPT_def)
    then have "utf8_scan (es_state e') (es_codepoint e') s = None" using e'(3) utf8_scan_accept by metis
    then show ?thesis using Cons.IH [OF _ e'(2)] e' by simp
  next
    case 2
    then show ?thesis using escape_step_reject(1) [OF Cons.prems(2)] d by simp
  next
    case 3
    obtain e' where e': "escape_result Handler_strict ascii (ch # s) e = escape_result Handler_strict ascii s e'"
      "escape_inv ascii e' (r @ [of_char ch])" "es_state e' = st" "es_codepoint e' = cp"
      using escape_step_more [OF Cons.prems(2) d 3] by metis
    moreover have "utf8_scan st cp s = None" using Cons.prems(1) d 3 by (simp add: UTF8_ACCEPT_def UTF8_REJECT_def)
    ultimately show ?thesis using Cons.IH [OF _ e'(2)] by simp
  qed
qed

text \<open>The other handlers never fail.\<close>

lemma escape_total:
  assumes "handler \<noteq> Handler_strict" "escape_inv ascii e r"
  shows "\<exists>t. escape_result handler ascii s e = Inr t"
  using assms(2)
proof (induction "2 * length s + (if es_undumped e > 0 then 1 else 0 :: nat)" arbitrary: s e r rule: less_induct)
  case less
  show ?case
  proof (cases s)
    case Nil
    then show ?thesis using assms(1) by (cases handler) (auto simp: escape_result_Nil escape_finish_def)
  next
    case (Cons ch s')
    obtain st cp where d: "decode (es_state e) (es_codepoint e) (of_char ch) = (st, cp)" by fastforce
    consider "st = 0" | "st = 1" | "st \<noteq> 0" "st \<noteq> 1" by blast
    then show ?thesis
    proof cases
      case 1
      then obtain e' where e': "escape_result handler ascii s e = escape_result handler ascii s' e'" "escape_inv ascii e' []"
        using escape_step_accept [OF less.prems] d Cons by metis
      then show ?thesis using less.hyps [OF _ e'(2), of s'] Cons by simp
    next
      case 2
      then obtain e' where e': "es_undumped e' = 0" "escape_inv ascii e' []"
        "escape_result handler ascii s e = escape_result handler ascii (if es_undumped e > 0 then s else s') e'"
        using escape_step_reject(2) [OF less.prems _ assms(1)] d Cons by blast
      then show ?thesis using less.hyps [OF _ e'(2), of "if es_undumped e > 0 then s else s'"] Cons by simp
    next
      case 3
      obtain e' where e': "escape_result handler ascii s e = escape_result handler ascii s' e'"
        "escape_inv ascii e' (r @ [of_char ch])"
        using escape_step_more [OF less.prems d 3] Cons by metis
      then show ?thesis using less.hyps [OF _ e'(2), of s'] Cons by simp
    qed
  qed
qed

lemma dump_escaped_result:
  "dump_escaped s ascii sr = (case utf8_codepoints s of
     Some cps \<Rightarrow> Inr (write_characters (escaped_text ascii cps) sr)
   | None \<Rightarrow> if sr_error_handler sr = Handler_strict then Inl Json_type_error else dump_escaped s ascii sr)"
  "sr_error_handler sr \<noteq> Handler_strict \<Longrightarrow> \<exists>t. dump_escaped s ascii sr = Inr (write_characters t sr)"
proof -
  define e where "e = \<lparr>es_written = [], es_buffer = [], es_accept = 0, es_undumped = 0,
    es_state = UTF8_ACCEPT, es_codepoint = 0\<rparr>"
  have inv: "escape_inv ascii e []" by (simp add: escape_inv_def e_def UTF8_ACCEPT_def)
  have dump: "dump_escaped s ascii sr =
      map_res (\<lambda>t. write_characters t sr) (escape_result (sr_error_handler sr) ascii s e)"
    by (simp add: dump_escaped_def escape_result_def Let_def flip: e_def)
  have scan: "utf8_codepoints s = utf8_scan (es_state e) (es_codepoint e) s"
    by (simp add: utf8_codepoints_def e_def)
  have "escape_text_of e = []" by (simp add: escape_text_of_def e_def)
  then show "dump_escaped s ascii sr = (case utf8_codepoints s of
     Some cps \<Rightarrow> Inr (write_characters (escaped_text ascii cps) sr)
   | None \<Rightarrow> if sr_error_handler sr = Handler_strict then Inl Json_type_error else dump_escaped s ascii sr)"
    using escape_valid [OF _ inv] escape_invalid [OF _ inv] by (auto simp: dump scan split: option.splits)
  show "\<exists>t. dump_escaped s ascii sr = Inr (write_characters t sr)" if "sr_error_handler sr \<noteq> Handler_strict"
    using escape_total [OF that inv, of s] by (auto simp: dump)
qed

text \<open>
  C34. What \<open>dump_escaped\<close> does with any string. If the bytes are the UTF-8 encoding of a list of code
  points, it writes the escaped text of these code points, which a table apart from the code gives
  (\<open>escaped_codepoint\<close>), through all the flushes of its buffer. If
  they are not, the strict handler throws a type error; the other two handlers write some text for every
  string, so the buffer never overflows and no byte is read twice without end.
\<close>

theorem dump_escaped_text:
  "(\<forall>cps. list_all scalar_value cps \<and> map of_char s = utf8_encode cps \<longrightarrow>
      dump_escaped s ascii sr = Inr (write_characters (escaped_text ascii cps) sr)) \<and>
   (\<not> valid_utf8 (map of_char s) \<and> sr_error_handler sr = Handler_strict \<longrightarrow>
      dump_escaped s ascii sr = Inl Json_type_error) \<and>
   (sr_error_handler sr \<noteq> Handler_strict \<longrightarrow> (\<exists>t. dump_escaped s ascii sr = Inr (write_characters t sr)))"
proof (intro conjI allI impI)
  fix cps assume "list_all scalar_value cps \<and> map of_char s = utf8_encode cps"
  then have "utf8_codepoints s = Some cps" by (simp add: utf8_codepoints_iff)
  then show "dump_escaped s ascii sr = Inr (write_characters (escaped_text ascii cps) sr)"
    using dump_escaped_result(1) [of s ascii sr] by simp
next
  assume a: "\<not> valid_utf8 (map of_char s) \<and> sr_error_handler sr = Handler_strict"
  then have "utf8_codepoints s = None"
    by (cases "utf8_codepoints s") (auto simp: valid_utf8_def utf8_codepoints_iff)
  then show "dump_escaped s ascii sr = Inl Json_type_error"
    using dump_escaped_result(1) [of s ascii sr] a by simp
next
  assume "sr_error_handler sr \<noteq> Handler_strict"
  then show "\<exists>t. dump_escaped s ascii sr = Inr (write_characters t sr)" by (rule dump_escaped_result(2))
qed

theorem dump_escaped_text_witness:
  "dump_escaped [CHR 0x0A, CHR ''a''] False (new_serializer CHR '' '' Handler_strict) =
     Inr (write_characters (escaped_text False [0x0A, 0x61]) (new_serializer CHR '' '' Handler_strict)) \<and>
   dump_escaped [CHR 0xFF] False (new_serializer CHR '' '' Handler_strict) = Inl Json_type_error \<and>
   (\<exists>t. dump_escaped [CHR 0xFF] False (new_serializer CHR '' '' Handler_replace) =
     Inr (write_characters t (new_serializer CHR '' '' Handler_replace)))"
proof -
  have a: "list_all scalar_value [0x0A, 0x61] \<and> map of_char [CHR 0x0A, CHR ''a''] = utf8_encode [0x0A, 0x61]"
    by (simp add: scalar_value_def utf8_encode_def utf8_bytes_def)
  have "utf8_codepoints [CHR 0xFF] = None" by code_simp
  then have b: "\<not> valid_utf8 (map of_char [CHR 0xFF])"
    unfolding valid_utf8_def using utf8_codepoints_iff [of "[CHR 0xFF]"] by fastforce
  have h: "sr_error_handler (new_serializer CHR '' '' handler) = handler" for handler by (simp add: new_serializer_def)
  show ?thesis
  proof (intro conjI)
    show "dump_escaped [CHR 0x0A, CHR ''a''] False (new_serializer CHR '' '' Handler_strict) =
        Inr (write_characters (escaped_text False [0x0A, 0x61]) (new_serializer CHR '' '' Handler_strict))"
      by (rule dump_escaped_text [THEN conjunct1, rule_format, OF a])
    show "dump_escaped [CHR 0xFF] False (new_serializer CHR '' '' Handler_strict) = Inl Json_type_error"
      by (rule dump_escaped_text [THEN conjunct2, THEN conjunct1, rule_format, OF conjI [OF b h]])
    show "\<exists>t. dump_escaped [CHR 0xFF] False (new_serializer CHR '' '' Handler_replace) =
        Inr (write_characters t (new_serializer CHR '' '' Handler_replace))"
      by (rule dump_escaped_text [THEN conjunct2, THEN conjunct2, rule_format]) (simp add: h)
  qed
qed

end
