(* ===== verification/SS_DumpText.thy ===== *)
theory SS_DumpText
  imports SS_EscapeText
begin

text \<open>
  What the serializer writes for a number and for a value: the buffer for numbers and the indentation
  string are always long enough, and what comes out is the text given here by plain recursion
  (\<open>decimal\<close>, \<open>json_text\<close>).
\<close>

section \<open>Integers\<close>

definition decimal :: "int \<Rightarrow> string" where
  "decimal x = (if x < 0 then CHR ''-'' # to_string_nat (nat (- x)) else to_string_nat (nat x))"

lemma digit_char_0: "digit_char 0 = CHR ''0''"
  by code_simp

lemma to_string_small: "n < 10 \<Longrightarrow> to_string_nat n = [digit_char n]"
  by (subst to_string_nat.simps) simp

lemma to_string_step: "10 \<le> n \<Longrightarrow> to_string_nat n = to_string_nat (n div 10) @ [digit_char (n mod 10)]"
  by (subst to_string_nat.simps) simp

lemma to_string_100:
  assumes "100 \<le> n"
  shows "to_string_nat n = to_string_nat (n div 100) @ [digit_char (n mod 100 div 10), digit_char (n mod 100 mod 10)]"
proof -
  have "n div 10 div 10 = n div 100" by (simp add: div_mult2_eq [symmetric])
  moreover have "n div 10 mod 10 = n mod 100 div 10" using mod_mult2_eq [of n 10 10] by simp
  moreover have "n mod 10 = n mod 100 mod 10" by (simp add: mod_mod_cancel)
  moreover have "10 \<le> n div 10" using div_le_mono [OF assms, of 10] by simp
  ultimately show ?thesis
    using assms to_string_step [of n] to_string_step [of "n div 10"] by simp
qed

lemma length_to_string_10000:
  "10000 \<le> n \<Longrightarrow> length (to_string_nat n) = length (to_string_nat (n div 10000)) + 4"
  using to_string_100 [of n] to_string_100 [of "n div 100"] by (simp add: div_mult2_eq [symmetric])

lemma count_digits_length: "count_digits n = length (to_string_nat n)"
proof -
  have "count_digits_from (Suc k) x = k + length (to_string_nat x)" for k x
  proof (induction "Suc k" x arbitrary: k rule: count_digits_from.induct)
    case (1 x k)
    consider "x < 10" | "10 \<le> x" "x < 100" | "100 \<le> x" "x < 1000" | "1000 \<le> x" "x < 10000" | "10000 \<le> x"
      by linarith
    then show ?case
    proof cases
      case 5
      then show ?thesis
        using 1 [of "k + 4"] by (subst count_digits_from.simps) (simp add: length_to_string_10000)
    next
      case 4
      then show ?thesis
        by (subst count_digits_from.simps) (simp add: to_string_100 to_string_step [of "x div 100"] to_string_small)
    qed (subst count_digits_from.simps; simp add: to_string_100 to_string_step to_string_small)+
  qed
  from this [of 0] show ?thesis by (simp add: count_digits_def)
qed

lemma length_to_string_bound: "n < 10 ^ Suc k \<Longrightarrow> length (to_string_nat n) \<le> Suc k"
proof (induction k arbitrary: n)
  case (Suc k)
  show ?case
  proof (cases "n < 10")
    case False
    then show ?thesis using Suc.IH [of "n div 10"] Suc.prems by (simp add: to_string_step less_mult_imp_div_less mult.commute)
  qed (simp add: to_string_small)
qed (simp add: to_string_small)

lemma count_digits_bound: "n < 2 ^ 64 \<Longrightarrow> count_digits n \<le> 20"
  using length_to_string_bound [of n 19] by (simp add: count_digits_length)

lemma digit_chars: "map digit_char [0..<10] = ''0123456789''"
  by code_simp

lemma digit_char_nth: "d < 10 \<Longrightarrow> digit_char d = ''0123456789'' ! d"
  using arg_cong [OF digit_chars, of "\<lambda>xs. xs ! d"] by simp

lemma digits_table: "digits_to_99 = map (\<lambda>i. [digit_char (i div 10), digit_char (i mod 10)]) [0..<100]"
  by (simp add: digits_to_99_def digit_char_nth upt_rec)

lemma digits_table_nth: "i < 100 \<Longrightarrow> digits_to_99 ! i = [digit_char (i div 10), digit_char (i mod 10)]"
  by (simp add: digits_table)

lemma store_back_app: "store_back c (Suc (length a), a @ x # b) = Inr (length a, a @ c # b)"
  by (simp add: store_back_def)

lemma store_pair_app:
  assumes "i < 100"
  shows "store_pair i (length a + 2, a @ x # y # b) =
    Inr (length a, a @ digit_char (i div 10) # digit_char (i mod 10) # b)"
  using store_back_app [of "digit_char (i mod 10)" "a @ [x]" y b] store_back_app [of _ a x]
  by (simp add: store_pair_def digits_table_nth [OF assms])

lemma fill_digits_app:
  "length w = length (to_string_nat v) \<Longrightarrow>
    fill_digits v (length a + length w, a @ w @ b) = Inr (length a, a @ to_string_nat v @ b)"
proof (induction v arbitrary: w b rule: less_induct)
  case (less v)
  consider "100 \<le> v" | "10 \<le> v" "v < 100" | "v < 10" by linarith
  then show ?case
  proof cases
    case 1
    define u where "u = take (length w - 2) w"
    have "2 \<le> length w" using less.prems to_string_100 [OF 1] by simp
    then have "length (drop (length w - 2) w) = Suc (Suc 0)" by simp
    then obtain x y where "drop (length w - 2) w = [x, y]" by (auto simp: length_Suc_conv simp del: length_drop)
    then have w: "w = u @ [x, y]" unfolding u_def by (metis append_take_drop_id)
    then have "length u = length (to_string_nat (v div 100))" using less.prems to_string_100 [OF 1] by simp
    from less.IH [OF _ this] 1
    have "fill_digits (v div 100) (length a + length u, a @ u @ c) = Inr (length a, a @ to_string_nat (v div 100) @ c)" for c
      by simp
    moreover have "store_pair (v mod 100) (length a + length w, a @ w @ b) = Inr (length a + length u,
        a @ u @ digit_char (v mod 100 div 10) # digit_char (v mod 100 mod 10) # b)"
      using store_pair_app [of "v mod 100" "a @ u" x y b] by (simp add: w)
    ultimately show ?thesis using 1 by (subst fill_digits.simps) (simp add: to_string_100 [OF 1])
  next
    case 2
    then have "length w = Suc (Suc 0)" using less.prems by (simp add: to_string_step to_string_small)
    then obtain x y where "w = [x, y]" by (auto simp: length_Suc_conv)
    then show ?thesis
      using 2 store_pair_app [of v a x y b] by (subst fill_digits.simps) (simp add: to_string_step to_string_small)
  next
    case 3
    then have "length w = Suc 0" using less.prems by (simp add: to_string_small)
    then obtain x where "w = [x]" by (auto simp: length_Suc_conv)
    then show ?thesis
      using 3 store_back_app [of _ a x b]
      by (subst fill_digits.simps) (simp add: to_string_small digit_char_def)
  qed
qed

definition serializer_ok :: "serializer \<Rightarrow> bool" where
  "serializer_ok sr \<longleftrightarrow> length (sr_number_buffer sr) = 64 \<and> 512 \<le> length (sr_indent_string sr)"

text \<open>The indentation string: it is made of the indentation character and grows by spaces.\<close>

definition padded :: "char \<Rightarrow> string \<Rightarrow> bool" where
  "padded c s \<longleftrightarrow> (\<exists>k. s = replicate 512 c @ replicate k (CHR '' ''))"

definition indent_text :: "char \<Rightarrow> nat \<Rightarrow> string" where
  "indent_text c n = replicate (min n 512) c @ replicate (n - 512) (CHR '' '')"

lemma padded_take: "padded c s \<Longrightarrow> n \<le> length s \<Longrightarrow> take n s = indent_text c n"
  by (auto simp: padded_def indent_text_def min_def)

lemma padded_grow: "padded c s \<Longrightarrow> padded c (s @ replicate n (CHR '' ''))"
proof -
  assume "padded c s"
  then obtain k where "s = replicate 512 c @ replicate k (CHR '' '')" by (auto simp: padded_def)
  then have "s @ replicate n (CHR '' '') = replicate 512 c @ replicate (k + n) (CHR '' '')" by (simp add: replicate_add)
  then show ?thesis unfolding padded_def by blast
qed

text \<open>The serializer after it has written \<open>t\<close>, whatever its buffers hold.\<close>

definition writes :: "serializer \<Rightarrow> string \<Rightarrow> serializer result \<Rightarrow> bool" where
  "writes sr t res \<longleftrightarrow>
     (\<exists>sr'. res = Inr sr' \<and> sr_out sr' = sr_out sr @ t \<and> serializer_ok sr' \<and>
        length (sr_indent_string sr) \<le> length (sr_indent_string sr') \<and>
        (\<forall>c. padded c (sr_indent_string sr) \<longrightarrow> padded c (sr_indent_string sr')) \<and> sr_error_handler sr' = sr_error_handler sr)"

definition int_ok :: "int \<Rightarrow> bool" where
  "int_ok x \<longleftrightarrow> - (2 ^ 63) \<le> x \<and> x < 2 ^ 64"

lemma remove_sign_eq: "- (2 ^ 63) \<le> x \<Longrightarrow> x < 0 \<Longrightarrow> remove_sign x = nat (- x)"
  by (simp add: remove_sign_def)

lemma dump_integer_writes:
  assumes "int_ok x" "serializer_ok sr"
  shows "writes sr (decimal x) (dump_integer x sr)"
proof (cases "x = 0")
  case True
  then show ?thesis using assms(2)
    by (simp add: writes_def dump_integer_def write_characters_def serializer_ok_def decimal_def to_string_small digit_char_0)
next
  case False
  define v where "v = (if x < 0 then remove_sign x else nat (x mod 2 ^ 64))"
  have v: "v = nat \<bar>x\<bar>" "v < 2 ^ 64" using assms(1) by (auto simp: v_def int_ok_def remove_sign_eq)
  define a where "a = (if x < 0 then ''-'' else [])"
  have dec: "decimal x = a @ to_string_nat v" using v(1) by (simp add: decimal_def a_def)
  define b0 where "b0 = (if x < 0 then (sr_number_buffer sr)[0 := CHR ''-''] else sr_number_buffer sr)"
  define n where "n = (if x < 0 then 1 + count_digits v else count_digits v)"
  have n: "n = length a + length (to_string_nat v)" by (simp add: n_def a_def count_digits_length)
  have n21: "n \<le> 21" using count_digits_bound [OF v(2)] by (simp add: n_def)
  define w where "w = take (length (to_string_nat v)) (drop (length a) b0)"
  have len: "length b0 = 64" using assms(2) by (simp add: b0_def serializer_ok_def)
  have "take (length a) b0 = a" using assms(2) by (cases "sr_number_buffer sr") (auto simp: a_def b0_def serializer_ok_def)
  then have split: "b0 = a @ w @ drop n b0" unfolding w_def n
    by (metis append_take_drop_id drop_drop add.commute)
  have w: "length w = length (to_string_nat v)" using n21 n len by (simp add: w_def)
  have "fill_digits v (n, b0) = Inr (length a, a @ to_string_nat v @ drop n b0)"
    using fill_digits_app [OF w, of a "drop n b0"] split n w by metis
  then have "dump_integer x sr =
      Inr (write_characters (decimal x) (sr\<lparr>sr_number_buffer := a @ to_string_nat v @ drop n b0\<rparr>))"
    using False n21 dec n unfolding dump_integer_def Let_def v_def [symmetric] b0_def [symmetric] n_def [symmetric] by simp
  moreover have "length (a @ to_string_nat v @ drop n b0) = 64" using n len n21 by simp
  ultimately show ?thesis using assms(2) by (simp add: writes_def write_characters_def serializer_ok_def)
qed


section \<open>The text of a value\<close>

fun join :: "string \<Rightarrow> string list \<Rightarrow> string" where
  "join sep [] = []"
| "join sep [t] = t"
| "join sep (t # ts) = t @ sep @ join sep ts"

text \<open>The text of a string that is UTF-8.\<close>

definition string_text :: "bool \<Rightarrow> string \<Rightarrow> string" where
  "string_text ascii s =
     (case utf8_codepoints s of Some cps \<Rightarrow> quoted (escaped_text ascii cps) | None \<Rightarrow> [])"

text \<open>How a text is laid out: the indentation character, pretty or compact, only ASCII, the step.\<close>

record layout =
  ly_char :: char
  ly_pretty :: bool
  ly_ascii :: bool
  ly_step :: nat

definition line_end :: "layout \<Rightarrow> string" where
  "line_end L = (if ly_pretty L then newline_str else [])"

definition margin :: "layout \<Rightarrow> nat \<Rightarrow> string" where
  "margin L n = (if ly_pretty L then indent_text (ly_char L) n else [])"

definition inner_indent :: "layout \<Rightarrow> nat \<Rightarrow> nat" where
  "inner_indent L n = (if ly_pretty L then new_indent n (ly_step L) else n)"

definition colon :: "layout \<Rightarrow> string" where
  "colon L = (if ly_pretty L then '': '' else '':'')"

definition block_text :: "layout \<Rightarrow> nat \<Rightarrow> string \<Rightarrow> string list \<Rightarrow> string \<Rightarrow> string" where
  "block_text L n opening ts closing =
     opening @ line_end L @ join ('','' @ line_end L) ts @ line_end L @ margin L n @ closing"

definition bytes_text :: "layout \<Rightarrow> byte list \<Rightarrow> string" where
  "bytes_text L bs = ''['' @ join (if ly_pretty L then '', '' else '','') (map (\<lambda>b. decimal (uint b)) bs) @ '']''"

definition subtype_text :: "nat option \<Rightarrow> string" where
  "subtype_text subtype = (case subtype of Some n \<Rightarrow> decimal (int n) | None \<Rightarrow> ''null'')"

definition binary_text :: "layout \<Rightarrow> nat \<Rightarrow> nat option \<Rightarrow> byte list \<Rightarrow> string" where
  "binary_text L n subtype bs =
     block_text L n ''{''
       [margin L (inner_indent L n) @ quoted ''bytes'' @ colon L @ bytes_text L bs,
        margin L (inner_indent L n) @ quoted ''subtype'' @ colon L @ subtype_text subtype] ''}''"

function (sequential) json_text :: "(double \<Rightarrow> string) \<Rightarrow> layout \<Rightarrow> nat \<Rightarrow> json \<Rightarrow> string" where
  "json_text F L n (JObj m) =
     (if m = fmempty then ''{}''
      else block_text L n ''{''
        (map (\<lambda>kv. margin L (inner_indent L n) @ string_text (ly_ascii L) (fst kv) @ colon L @
           json_text F L (inner_indent L n) (snd kv)) (sorted_list_of_fmap m)) ''}'')"
| "json_text F L n (JArr xs) =
     (if xs = [] then ''[]''
      else block_text L n ''[''
        (map (\<lambda>x. margin L (inner_indent L n) @ json_text F L (inner_indent L n) x) xs) '']'')"
| "json_text F L n (JStr s) = string_text (ly_ascii L) s"
| "json_text F L n (JBin subtype bs) = binary_text L n subtype bs"
| "json_text F L n (JBool b) = (if b then ''true'' else ''false'')"
| "json_text F L n (JInt i) = decimal i"
| "json_text F L n (JFloat r) = (if isfinite r then F r else ''null'')"
| "json_text F L n JNull = ''null''"
| "json_text F L n JDiscarded = ''<discarded>''"
  by pat_completeness auto
termination
proof (relation "measure (\<lambda>(_, _, _, j). size j)")
  show "((F, L, n', snd kv), (F, L, n, JObj m)) \<in> measure (\<lambda>(_, _, _, j). size j)"
    if "kv \<in> set (sorted_list_of_fmap m)" for F n n' m and L :: layout and kv :: "string \<times> json"
    using size_sorted_entries [of m] member_le_sum_list [of "Suc (size (snd kv))" "map (\<lambda>kv. Suc (size (snd kv))) (sorted_list_of_fmap m)"] that
    by (auto simp del: json.size)
next
  show "((F, L, n', x), (F, L, n, JArr xs)) \<in> measure (\<lambda>(_, _, _, j). size j)"
    if "x \<in> set xs" for F n n' xs x and L :: layout
    using that by (auto simp: size_list_estimation' less_Suc_eq_le)
qed simp

declare json_text.simps(1,2) [simp del]

definition utf8_string :: "string \<Rightarrow> bool" where
  "utf8_string s \<longleftrightarrow> valid_utf8 (map of_char s)"

definition utf8_here :: "json \<Rightarrow> bool" where
  "utf8_here j = (case j of
     JStr s \<Rightarrow> utf8_string s | JObj m \<Rightarrow> (\<forall>kv \<in> set (sorted_list_of_fmap m). utf8_string (fst kv)) | _ \<Rightarrow> True)"

text \<open>Every string and every key is UTF-8; every number is one the code can hold.\<close>

definition utf8_ok :: "json \<Rightarrow> bool" where
  "utf8_ok j = json_all utf8_here j"

definition int_here :: "json \<Rightarrow> bool" where
  "int_here j = (case j of JInt i \<Rightarrow> int_ok i | JBin (Some n) bs \<Rightarrow> n < 2 ^ 64 | _ \<Rightarrow> True)"

definition ints_ok :: "json \<Rightarrow> bool" where
  "ints_ok j = json_all int_here j"

lemma utf8_string_iff: "utf8_string s \<longleftrightarrow> utf8_codepoints s \<noteq> None"
  by (auto simp: utf8_string_def valid_utf8_def utf8_codepoints_iff)

section \<open>The serializer writes this text\<close>

text \<open>What a step does: it writes \<open>t\<close> if all is well, otherwise the strict handler throws.\<close>

definition outcome :: "serializer \<Rightarrow> bool \<Rightarrow> string \<Rightarrow> serializer result \<Rightarrow> bool" where
  "outcome sr ok t res \<longleftrightarrow>
     (if ok then writes sr t res else sr_error_handler sr = Handler_strict \<longrightarrow> res = Inl Json_type_error)"

lemma writesE:
  assumes "writes sr t res"
  obtains sr' where "res = Inr sr'" "sr_out sr' = sr_out sr @ t" "serializer_ok sr'"
    "length (sr_indent_string sr) \<le> length (sr_indent_string sr')"
    "\<And>c. padded c (sr_indent_string sr) \<Longrightarrow> padded c (sr_indent_string sr')"
    "sr_error_handler sr' = sr_error_handler sr"
  using assms by (auto simp: writes_def)

lemma writes_characters: "serializer_ok sr \<Longrightarrow> writes sr t (Inr (write_characters t sr))"
  by (simp add: writes_def write_characters_def serializer_ok_def)

lemma outcome_bind:
  assumes "outcome sr ok t res"
    and "\<And>sr'. ok \<Longrightarrow> writes sr t (Inr sr') \<Longrightarrow> outcome sr' ok' t' (f sr')"
  shows "outcome sr (ok \<and> ok') (t @ t') (bind_res res f)"
proof (cases ok)
  case True
  then obtain sr' where sr': "res = Inr sr'" "writes sr t (Inr sr')" using assms(1) by (auto simp: outcome_def writes_def)
  with assms(2) [OF True sr'(2)] True show ?thesis by (auto simp: outcome_def writes_def)
next
  case False
  then show ?thesis using assms(1) by (auto simp: outcome_def)
qed


lemma outcome_map: "outcome sr ok t res \<Longrightarrow> outcome sr ok (t @ u) (map_res (write_characters u) res)"
  by (cases res) (auto simp: outcome_def writes_def write_characters_def serializer_ok_def split: if_splits)

lemma outcome_write: "serializer_ok sr \<Longrightarrow> outcome sr True t (Inr (write_characters t sr))"
  by (simp add: outcome_def writes_characters)

lemma outcome_after:
  assumes "outcome sr' ok t res" "writes sr u (Inr sr')"
  shows "outcome sr ok (u @ t) res"
  using outcome_bind [of sr True u "Inr sr'" ok t "\<lambda>_. res"] assms by (auto simp: outcome_def writes_def)

lemma writes_ok: "writes sr t (Inr sr') \<Longrightarrow> serializer_ok sr'"
  by (auto simp: writes_def)

text \<open>The indentation string is long enough for the level.\<close>

definition fits :: "layout \<Rightarrow> nat \<Rightarrow> serializer \<Rightarrow> bool" where
  "fits L n sr \<longleftrightarrow>
     serializer_ok sr \<and> ly_step L \<le> 512 \<and> padded (ly_char L) (sr_indent_string sr) \<and>
     (ly_pretty L \<longrightarrow> n \<le> length (sr_indent_string sr))"

lemma fits_writes: "fits L n sr \<Longrightarrow> writes sr t (Inr sr') \<Longrightarrow> fits L n sr'"
  by (auto simp: fits_def writes_def)

lemma fits_ok: "fits L n sr \<Longrightarrow> serializer_ok sr"
  by (simp add: fits_def)

lemma outcome_margin:
  "fits L n sr \<Longrightarrow> outcome sr True (margin L n) (if ly_pretty L then write_indent n sr else Inr sr)"
  by (auto simp: fits_def outcome_def writes_def margin_def write_indent_def write_characters_def serializer_ok_def
      padded_take)

lemma fits_reserve:
  assumes "fits L n sr" "ly_pretty L"
  shows "fits L (inner_indent L n) (indent_reserve (inner_indent L n) sr)" "fits L n (indent_reserve (inner_indent L n) sr)"
    "writes sr [] (Inr (indent_reserve (inner_indent L n) sr))"
proof -
  have "inner_indent L n \<le> n + ly_step L" using assms(2) by (simp add: inner_indent_def new_indent_def)
  then show "fits L (inner_indent L n) (indent_reserve (inner_indent L n) sr)"
    using assms by (auto simp: fits_def indent_reserve_def serializer_ok_def padded_grow)
  show "fits L n (indent_reserve (inner_indent L n) sr)"
    using assms by (auto simp: fits_def indent_reserve_def serializer_ok_def padded_grow)
  show "writes sr [] (Inr (indent_reserve (inner_indent L n) sr))"
    using assms by (auto simp: fits_def indent_reserve_def serializer_ok_def writes_def padded_grow)
qed

lemma fits_inner_compact: "fits L n sr \<Longrightarrow> \<not> ly_pretty L \<Longrightarrow> fits L (inner_indent L n) sr"
  by (simp add: fits_def inner_indent_def)

lemma outcome_string:
  assumes "serializer_ok sr"
  shows "outcome sr (utf8_string s) (quote_char # (case utf8_codepoints s of Some cps \<Rightarrow> escaped_text ascii cps | None \<Rightarrow> []))
    (dump_escaped s ascii (write_characters [quote_char] sr))"
proof -
  have "outcome (write_characters [quote_char] sr) (utf8_string s)
      (case utf8_codepoints s of Some cps \<Rightarrow> escaped_text ascii cps | None \<Rightarrow> [])
      (dump_escaped s ascii (write_characters [quote_char] sr))"
    using dump_escaped_result(1) [of s ascii "write_characters [quote_char] sr"] assms
    by (auto simp: outcome_def utf8_string_iff writes_def write_characters_def serializer_ok_def)
  from outcome_after [OF this writes_characters [OF assms]] show ?thesis by simp
qed

lemma outcome_cong: "outcome sr ok t res \<Longrightarrow> ok = ok' \<Longrightarrow> (ok \<Longrightarrow> t = t') \<Longrightarrow> outcome sr ok' t' res"
  by (auto simp: outcome_def)

lemma outcome_quoted:
  assumes "serializer_ok sr"
  shows "outcome sr (utf8_string s) (string_text ascii s @ u)
    (map_res (write_characters (quote_char # u)) (dump_escaped s ascii (write_characters [quote_char] sr)))"
  by (rule outcome_cong [OF outcome_map [OF outcome_string [OF assms]]])
    (auto simp: string_text_def quoted_def utf8_string_iff)

lemma outcome_key:
  assumes "fits L n sr"
  shows "outcome sr (utf8_string k) (margin L n @ string_text (ly_ascii L) k @ colon L)
    (dump_key (ly_pretty L) (ly_ascii L) n k sr)"
proof -
  have "outcome sr (True \<and> utf8_string k) (margin L n @ (string_text (ly_ascii L) k @ colon L))
    (dump_key (ly_pretty L) (ly_ascii L) n k sr)"
    unfolding dump_key_def colon_def by (intro outcome_bind outcome_margin outcome_quoted assms) (rule writes_ok)
  then show ?thesis by simp
qed

lemma join_Cons: "ts \<noteq> [] \<Longrightarrow> join sep (t # ts) = t @ sep @ join sep ts"
  by (cases ts) auto

lemma outcome_elements:
  assumes "xs \<noteq> []" "fits L n sr"
    and "\<And>x sr. x \<in> set xs \<Longrightarrow> fits L n sr \<Longrightarrow>
      outcome sr (utf8_ok x) (json_text F L n x) (dump F (ly_pretty L) (ly_ascii L) (ly_step L) n x sr)"
  shows "outcome sr (\<forall>x \<in> set xs. utf8_ok x)
    (join ('','' @ line_end L) (map (\<lambda>x. margin L n @ json_text F L n x) xs))
    (dump_elements F (ly_pretty L) (ly_ascii L) (ly_step L) n xs sr)"
  using assms
proof (induction xs arbitrary: sr)
  case (Cons x xs)
  let ?rest = "\<lambda>sr. if xs = [] then Inr sr else
    dump_elements F (ly_pretty L) (ly_ascii L) (ly_step L) n xs (write_characters (separator (ly_pretty L)) sr)"
  let ?more = "if xs = [] then [] else
    '','' @ line_end L @ join ('','' @ line_end L) (map (\<lambda>x. margin L n @ json_text F L n x) xs)"
  have rest: "outcome sr (\<forall>x \<in> set xs. utf8_ok x) ?more (?rest sr)" if f: "fits L n sr" for sr
  proof (cases "xs = []")
    case False
    have w: "writes sr ('','' @ line_end L) (Inr (write_characters (separator (ly_pretty L)) sr))"
      using writes_characters [OF fits_ok [OF f]] by (simp add: separator_def line_end_def)
    from outcome_after [OF Cons.IH [OF False fits_writes [OF f w] Cons.prems(3)] w] False show ?thesis by simp
  qed (use f in \<open>simp add: outcome_def writes_def fits_def\<close>)
  have "outcome sr (True \<and> utf8_ok x \<and> (\<forall>x \<in> set xs. utf8_ok x)) (margin L n @ json_text F L n x @ ?more)
      (dump_elements F (ly_pretty L) (ly_ascii L) (ly_step L) n (x # xs) sr)"
    unfolding dump_elements.simps
    by (intro outcome_bind outcome_margin Cons.prems(2) Cons.prems(3) rest)
      (use Cons.prems(2) in \<open>auto intro: fits_writes\<close>)
  then show ?case by (rule outcome_cong) (auto simp: join_Cons)
qed simp

lemma outcome_members:
  assumes "es \<noteq> []" "fits L n sr"
    and "\<And>kv sr. kv \<in> set es \<Longrightarrow> fits L n sr \<Longrightarrow>
      outcome sr (utf8_ok (snd kv)) (json_text F L n (snd kv)) (dump F (ly_pretty L) (ly_ascii L) (ly_step L) n (snd kv) sr)"
  shows "outcome sr (\<forall>kv \<in> set es. utf8_string (fst kv) \<and> utf8_ok (snd kv))
    (join ('','' @ line_end L)
      (map (\<lambda>kv. margin L n @ string_text (ly_ascii L) (fst kv) @ colon L @ json_text F L n (snd kv)) es))
    (dump_members F (ly_pretty L) (ly_ascii L) (ly_step L) n es sr)"
  using assms
proof (induction es arbitrary: sr)
  case (Cons e es)
  obtain k v where e: "e = (k, v)" by fastforce
  let ?line = "\<lambda>kv. margin L n @ string_text (ly_ascii L) (fst kv) @ colon L @ json_text F L n (snd kv)"
  let ?rest = "\<lambda>sr. if es = [] then Inr sr else
    dump_members F (ly_pretty L) (ly_ascii L) (ly_step L) n es (write_characters (separator (ly_pretty L)) sr)"
  let ?more = "if es = [] then [] else '','' @ line_end L @ join ('','' @ line_end L) (map ?line es)"
  have rest: "outcome sr (\<forall>kv \<in> set es. utf8_string (fst kv) \<and> utf8_ok (snd kv)) ?more (?rest sr)" if f: "fits L n sr" for sr
  proof (cases "es = []")
    case False
    have w: "writes sr ('','' @ line_end L) (Inr (write_characters (separator (ly_pretty L)) sr))"
      using writes_characters [OF fits_ok [OF f]] by (simp add: separator_def line_end_def)
    from outcome_after [OF Cons.IH [OF False fits_writes [OF f w] Cons.prems(3)] w] False show ?thesis by simp
  qed (use f in \<open>simp add: outcome_def writes_def fits_def\<close>)
  have val: "outcome sr (utf8_ok v) (json_text F L n v) (dump F (ly_pretty L) (ly_ascii L) (ly_step L) n v sr)"
    if "fits L n sr" for sr using Cons.prems(3) [of e sr] that by (simp add: e)
  have "outcome sr (utf8_string k \<and> utf8_ok v \<and> (\<forall>kv \<in> set es. utf8_string (fst kv) \<and> utf8_ok (snd kv)))
      ((margin L n @ string_text (ly_ascii L) k @ colon L) @ json_text F L n v @ ?more)
      (dump_members F (ly_pretty L) (ly_ascii L) (ly_step L) n ((k, v) # es) sr)"
    unfolding dump_members.simps
    by (intro outcome_bind outcome_key val Cons.prems(2) rest) (use Cons.prems(2) in \<open>auto intro: fits_writes\<close>)
  then show ?case unfolding e by (rule outcome_cong) (auto simp: join_Cons)
qed simp


lemma outcome_container:
  assumes f: "fits L n sr"
    and elements: "\<And>sr. fits L (inner_indent L n) sr \<Longrightarrow>
      outcome sr ok (join ('','' @ line_end L) ts) (elements (inner_indent L n) sr)"
  shows "outcome sr ok (block_text L n opening ts closing)
    (dump_container (ly_pretty L) (ly_step L) n opening closing elements sr)"
proof (cases "ly_pretty L")
  case False
  have w: "writes sr opening (Inr (write_characters opening sr))" by (rule writes_characters [OF fits_ok [OF f]])
  have "outcome (write_characters opening sr) ok (join ('','' @ line_end L) ts @ closing)
      (map_res (write_characters closing) (elements n (write_characters opening sr)))"
    using outcome_map [OF elements [OF fits_inner_compact [OF fits_writes [OF f w] False]], of closing] False
    by (simp add: inner_indent_def)
  from outcome_after [OF this w] show ?thesis
    using False by (simp add: dump_container_def block_text_def line_end_def margin_def)
next
  case True
  define sr0 where "sr0 = write_characters (opening @ newline_str) sr"
  define sr1 where "sr1 = indent_reserve (inner_indent L n) sr0"
  have w0: "writes sr (opening @ newline_str) (Inr sr0)" unfolding sr0_def by (rule writes_characters [OF fits_ok [OF f]])
  have f0: "fits L n sr0" by (rule fits_writes [OF f w0])
  note f1 = fits_reserve [OF f0 True, folded sr1_def]
  have close: "outcome sr True (newline_str @ margin L n @ closing)
      (map_res (write_characters closing) (write_indent n (write_characters newline_str sr)))" if "fits L n sr" for sr
  proof -
    have w: "writes sr newline_str (Inr (write_characters newline_str sr))" by (rule writes_characters [OF fits_ok [OF that]])
    from outcome_after [OF outcome_map [OF outcome_margin [OF fits_writes [OF that w]], of closing] w] True
    show ?thesis by simp
  qed
  have "outcome sr1 (ok \<and> True) (join ('','' @ line_end L) ts @ newline_str @ margin L n @ closing)
      (bind_res (elements (inner_indent L n) sr1) (\<lambda>sr2.
        map_res (write_characters closing) (write_indent n (write_characters newline_str sr2))))"
    by (intro outcome_bind elements f1 close) (rule fits_writes [OF f1(2)])
  from outcome_after [OF outcome_after [OF this f1(3)] w0] True show ?thesis
    unfolding dump_container_def Let_def block_text_def line_end_def
    by (simp add: inner_indent_def sr1_def sr0_def)
qed

lemma int_ok_byte: "int_ok (uint (b :: byte))"
proof -
  have "0 \<le> uint b" "uint b < 256" using uint_bounded [of b] by simp_all
  have "- (2 ^ 63) \<le> uint b" by (rule order_trans [OF _ \<open>0 \<le> uint b\<close>]) simp
  moreover have "uint b < 2 ^ 64" by (rule order_less_trans [OF \<open>uint b < 256\<close>]) simp
  ultimately show ?thesis by (simp add: int_ok_def)
qed

lemma outcome_integer: "int_ok x \<Longrightarrow> serializer_ok sr \<Longrightarrow> outcome sr True (decimal x) (dump_integer x sr)"
  by (simp add: outcome_def dump_integer_writes)

lemma outcome_bytes:
  "serializer_ok sr \<Longrightarrow> outcome sr True (join sep (map (\<lambda>b. decimal (uint b)) bs)) (dump_bytes sep bs sr)"
proof (induction sep bs sr rule: dump_bytes.induct)
  case (3 sep b b' bs sr)
  have "outcome sr (True \<and> True) (decimal (uint b) @ sep @ join sep (map (\<lambda>b. decimal (uint b)) (b' # bs)))
      (dump_bytes sep (b # b' # bs) sr)"
    unfolding dump_bytes.simps
  proof (intro outcome_bind outcome_integer int_ok_byte "3.prems")
    fix sr' assume "writes sr (decimal (uint b)) (Inr sr')"
    then have w: "writes sr' sep (Inr (write_characters sep sr'))" by (intro writes_characters writes_ok)
    show "outcome sr' True (sep @ join sep (map (\<lambda>b. decimal (uint b)) (b' # bs)))
      (dump_bytes sep (b' # bs) (write_characters sep sr'))"
      by (rule outcome_after [OF "3.IH" [OF writes_ok [OF w]] w])
  qed
  then show ?case by simp
qed (simp_all add: outcome_def writes_def outcome_integer [unfolded outcome_def, simplified] dump_integer_writes int_ok_byte
    dump_integer_writes [unfolded writes_def])

lemma outcome_subtype:
  "(\<And>n. subtype = Some n \<Longrightarrow> n < 2 ^ 64) \<Longrightarrow> serializer_ok sr \<Longrightarrow>
    outcome sr True (subtype_text subtype) (dump_subtype subtype sr)"
  by (auto simp: dump_subtype_def subtype_text_def int_ok_def split: option.splits
      intro: outcome_write outcome_integer)


lemma outcome_then:
  assumes "writes sr u (Inr (write_characters u sr))" "outcome (write_characters u sr) True t res"
  shows "outcome sr True (u @ t) res"
  by (rule outcome_after [OF assms(2,1)])

lemma outcome_binary:
  assumes f: "fits L n sr" and subtype: "\<And>n. subtype = Some n \<Longrightarrow> n < 2 ^ 64"
  shows "outcome sr True (json_text F L n (JBin subtype bs))
    (dump_binary (ly_pretty L) (ly_step L) n subtype bs sr)"
  unfolding json_text.simps binary_text_def dump_binary_def
proof (rule outcome_container [OF f])
  fix sr assume f: "fits L (inner_indent L n) sr"
  let ?n = "inner_indent L n" and ?sep = "if ly_pretty L then '', '' else '',''"
  let ?bytes = "join ?sep (map (\<lambda>b. decimal (uint b)) bs)"
  have w: "writes sr t (Inr (write_characters t sr))" if "fits L ?n sr" for t sr
    by (rule writes_characters [OF fits_ok [OF that]])
  have bytes: "outcome sr True ((quoted ''bytes'' @ colon L @ ''['') @ ?bytes) (dump_bytes ?sep bs
      (write_characters (quoted ''bytes'' @ (if ly_pretty L then '': ['' else '':['')) sr))" if "fits L ?n sr" for sr
    using outcome_then [OF w [OF that] outcome_bytes [OF writes_ok [OF w [OF that]]],
      of "quoted ''bytes'' @ (if ly_pretty L then '': ['' else '':['')" ?sep bs]
    by (cases "ly_pretty L") (simp_all add: colon_def)
  have next_line: "outcome sr True (('']'' @ separator (ly_pretty L)) @ margin L ?n)
      (let sr3 = write_characters ('']'' @ separator (ly_pretty L)) sr in
       if ly_pretty L then write_indent ?n sr3 else Inr sr3)" if "fits L ?n sr" for sr
    unfolding Let_def by (rule outcome_then [OF w [OF that] outcome_margin [OF fits_writes [OF that w [OF that]]]])
  have sub: "outcome sr True ((quoted ''subtype'' @ colon L) @ subtype_text subtype)
      (dump_subtype subtype (write_characters (quoted ''subtype'' @ (if ly_pretty L then '': '' else '':'')) sr))"
    if "fits L ?n sr" for sr
    using outcome_then [OF w [OF that] outcome_subtype [OF subtype writes_ok [OF w [OF that]]],
      of subtype "quoted ''subtype'' @ colon L"] by (simp add: colon_def)
  let ?body = "\<lambda>sr. bind_res (if ly_pretty L then write_indent ?n sr else Inr sr) (\<lambda>sr1.
     bind_res (dump_bytes ?sep bs (write_characters (quoted ''bytes'' @ (if ly_pretty L then '': ['' else '':['')) sr1)) (\<lambda>sr2.
     bind_res (let sr3 = write_characters ('']'' @ separator (ly_pretty L)) sr2 in
       if ly_pretty L then write_indent ?n sr3 else Inr sr3) (\<lambda>sr4.
       dump_subtype subtype (write_characters (quoted ''subtype'' @ (if ly_pretty L then '': '' else '':'')) sr4))))"
  have "outcome sr (True \<and> True \<and> True \<and> True) (margin L ?n @ ((quoted ''bytes'' @ colon L @ ''['') @ ?bytes) @
      (('']'' @ separator (ly_pretty L)) @ margin L ?n) @ (quoted ''subtype'' @ colon L) @ subtype_text subtype) (?body sr)"
    by (intro outcome_bind outcome_margin bytes next_line sub f) (auto intro: f elim!: fits_writes [rotated])
  then have "outcome sr True (join ('','' @ line_end L)
       [margin L ?n @ quoted ''bytes'' @ colon L @ bytes_text L bs,
        margin L ?n @ quoted ''subtype'' @ colon L @ subtype_text subtype]) (?body sr)"
    by (rule outcome_cong) (simp_all add: bytes_text_def separator_def line_end_def)
  then show "outcome sr True (join ('','' @ line_end L)
       [margin L ?n @ quoted ''bytes'' @ colon L @ bytes_text L bs,
        margin L ?n @ quoted ''subtype'' @ colon L @ subtype_text subtype])
     (bind_res (if ly_pretty L then write_indent ?n sr else Inr sr) (\<lambda>sr1.
       bind_res (dump_bytes ?sep bs (write_characters (quoted ''bytes'' @ (if ly_pretty L then '': ['' else '':['')) sr1)) (\<lambda>sr2.
       let sr3 = write_characters ('']'' @ separator (ly_pretty L)) sr2 in
       bind_res (if ly_pretty L then write_indent ?n sr3 else Inr sr3) (\<lambda>sr4.
         dump_subtype subtype (write_characters (quoted ''subtype'' @ (if ly_pretty L then '': '' else '':'')) sr4)))))"
    by (simp add: Let_def)
qed

lemma sorted_list_of_fmap_Nil [simp]: "sorted_list_of_fmap m = [] \<longleftrightarrow> m = fmempty"
proof
  assume e: "sorted_list_of_fmap m = []"
  have "fmlookup m k = None" for k
  proof (rule ccontr)
    assume "fmlookup m k \<noteq> None"
    then obtain v where "(k, v) \<in> set (sorted_list_of_fmap m)"
      unfolding sorted_list_of_fmap_set by (auto simp: fset_of_fmap_iff)
    then show False using e by simp
  qed
  then show "m = fmempty" by (intro fmap_ext) simp
next
  assume "m = fmempty"
  then have "(x, y) \<notin> set (sorted_list_of_fmap m)" for x y unfolding sorted_list_of_fmap_set by (simp add: fset_of_fmap_iff)
  then show "sorted_list_of_fmap m = []" by (metis last_in_set surj_pair)
qed

lemma dump_outcome:
  assumes "ints_ok j" "fits L n sr"
  shows "outcome sr (utf8_ok j) (json_text F L n j)
    (dump F (ly_pretty L) (ly_ascii L) (ly_step L) n j sr)"
  using assms
proof (induction j arbitrary: n sr rule: measure_induct_rule [of size])
  case (less j)
  note ok = fits_ok [OF less.prems(2)]
  show ?case
  proof (cases j)
    case (JObj m)
    have size: "size (snd kv) < size (JObj m)" if "kv \<in> set (sorted_list_of_fmap m)" for kv
      using size_sorted_entries [of m] member_le_sum_list [of "Suc (size (snd kv))" "map (\<lambda>kv. Suc (size (snd kv))) (sorted_list_of_fmap m)"] that
      by (auto simp del: json.size)
    have IH: "outcome sr (utf8_ok (snd kv)) (json_text F L n' (snd kv)) (dump F (ly_pretty L) (ly_ascii L) (ly_step L) n' (snd kv) sr)"
      if "kv \<in> set (sorted_list_of_fmap m)" "fits L n' sr" for kv n' sr
      using less.IH [of "snd kv" n' sr] size [OF that(1)] that less.prems(1) by (auto simp: JObj ints_ok_def)
    have utf8: "utf8_ok j = (\<forall>kv \<in> set (sorted_list_of_fmap m). utf8_string (fst kv) \<and> utf8_ok (snd kv))"
      by (auto simp: JObj utf8_ok_def utf8_here_def)
    show ?thesis
    proof (cases "m = fmempty")
      case True
      then have none: "sorted_list_of_fmap m = []" by simp
      show ?thesis unfolding utf8 none using True outcome_write [OF ok, of "''{}''"] by (simp add: JObj dump.simps(1) json_text.simps)
    next
      case False
      then have "sorted_list_of_fmap m \<noteq> []" by simp
      from outcome_container [OF less.prems(2) outcome_members [OF this _ IH], of _ "''{''" "''}''"] False
      show ?thesis unfolding utf8 by (simp add: JObj dump.simps(1) json_text.simps)
    qed
  next
    case (JArr xs)
    have IH: "outcome sr (utf8_ok x) (json_text F L n' x) (dump F (ly_pretty L) (ly_ascii L) (ly_step L) n' x sr)"
      if "x \<in> set xs" "fits L n' sr" for x n' sr
      using less.IH [of x n' sr] that less.prems(1) by (auto simp: JArr ints_ok_def size_list_estimation' less_Suc_eq_le)
    have utf8: "utf8_ok j = (\<forall>x \<in> set xs. utf8_ok x)" by (auto simp: JArr utf8_ok_def utf8_here_def)
    show ?thesis
    proof (cases "xs = []")
      case True
      then show ?thesis unfolding utf8 using outcome_write [OF ok] by (simp add: JArr dump.simps(1) json_text.simps)
    next
      case False
      from outcome_container [OF less.prems(2) outcome_elements [OF False _ IH], of _ "''[''" "'']''"] False
      show ?thesis unfolding utf8 by (simp add: JArr dump.simps(1) json_text.simps)
    qed
  next
    case (JStr s)
    then show ?thesis using outcome_quoted [OF ok, of s "ly_ascii L" "[]"]
      by (simp add: dump.simps(1) utf8_ok_def utf8_here_def)
  next
    case (JBin subtype bs)
    have "n < 2 ^ 64" if "subtype = Some n" for n
      using less.prems(1) that by (simp add: JBin ints_ok_def int_here_def)
    from outcome_binary [OF less.prems(2) this, where F = F and bs = bs] show ?thesis
      by (simp add: JBin dump.simps(1) utf8_ok_def utf8_here_def)
  next
    case (JInt i)
    then show ?thesis using less.prems(1) outcome_integer [OF _ ok, of i]
      by (simp add: dump.simps(1) utf8_ok_def utf8_here_def ints_ok_def int_here_def)
  qed (use outcome_write [OF ok] in \<open>simp_all add: dump.simps(1) utf8_ok_def utf8_here_def dump_float_def\<close>)
qed


section \<open>The public operations\<close>

text \<open>\<open>dump(indent, indent_char, ensure_ascii, error_handler)\<close>.\<close>

definition json_dump ::
  "(double \<Rightarrow> string) \<Rightarrow> int \<Rightarrow> char \<Rightarrow> bool \<Rightarrow> error_handler \<Rightarrow> json \<Rightarrow> string result" where
  "json_dump F indent indent_char ensure_ascii handler j =
     map_res sr_out
       (if indent \<ge> 0 then dump F True ensure_ascii (nat indent) 0 j (new_serializer indent_char handler)
        else dump F False ensure_ascii 0 0 j (new_serializer indent_char handler))"

text \<open>\<open>operator<<\<close>: the width of the stream is the indentation, its fill character fills it.\<close>

definition json_print :: "(double \<Rightarrow> string) \<Rightarrow> nat \<Rightarrow> char \<Rightarrow> json \<Rightarrow> string result" where
  "json_print F width fill j =
     map_res sr_out
       (dump F (width > 0) False (if width > 0 then width else 0) 0 j (new_serializer fill Handler_strict))"

lemma new_serializer_fits: "ly_step L \<le> 512 \<Longrightarrow> fits L 0 (new_serializer (ly_char L) handler)"
  by (auto simp: fits_def serializer_ok_def new_serializer_def padded_def intro: exI [of _ 0])

lemma dump_new:
  assumes "ints_ok j" "ly_step L \<le> 512"
  shows "utf8_ok j \<Longrightarrow>
      map_res sr_out (dump F (ly_pretty L) (ly_ascii L) (ly_step L) 0 j (new_serializer (ly_char L) handler)) =
        Inr (json_text F L 0 j)"
    and "\<not> utf8_ok j \<Longrightarrow> handler = Handler_strict \<Longrightarrow>
      dump F (ly_pretty L) (ly_ascii L) (ly_step L) 0 j (new_serializer (ly_char L) handler) = Inl Json_type_error"
  using dump_outcome [OF assms(1) new_serializer_fits [OF assms(2), of handler], where F = F]
  by (auto simp: outcome_def writes_def new_serializer_def)

text \<open>The layout of a call of \<open>dump\<close>.\<close>

definition dump_layout :: "int \<Rightarrow> char \<Rightarrow> bool \<Rightarrow> layout" where
  "dump_layout indent c ascii = \<lparr>ly_char = c, ly_pretty = (indent \<ge> 0), ly_ascii = ascii, ly_step = nat indent\<rparr>"

lemma json_dump_text:
  assumes "ints_ok j" "indent \<le> 512"
  shows "utf8_ok j \<Longrightarrow> json_dump F indent c ascii handler j = Inr (json_text F (dump_layout indent c ascii) 0 j)"
    and "\<not> utf8_ok j \<Longrightarrow> json_dump F indent c ascii Handler_strict j = Inl Json_type_error"
  using dump_new [of j "dump_layout indent c ascii", where F = F] assms
  by (auto simp: json_dump_def dump_layout_def)

lemma json_print_text:
  assumes "ints_ok j"
  shows "utf8_ok j \<Longrightarrow> json_print F 0 c j = Inr (json_text F (dump_layout (- 1) c False) 0 j)"
    and "\<not> utf8_ok j \<Longrightarrow> json_print F 0 c j = Inl Json_type_error"
  using dump_new [of j "dump_layout (- 1) c False", where F = F] assms
  by (auto simp: json_print_def dump_layout_def)

text \<open>
  C33. For every value whose integers are in the range of the code, \<open>dump\<close> with an indentation of at
  most 512 gives the text that \<open>json_text\<close> defines by plain recursion, with any error handler, if all
  strings and keys are UTF-8; the buffers for numbers and for the indentation are long enough at every
  depth. If a string or a key is not UTF-8 the strict handler throws a type error. The escapes in the text
  are those of a table of its own (\<open>escaped_codepoint\<close>), and infinities and NaN are written as null.
\<close>

theorem dump_refines_text:
  assumes "ints_ok j" "indent \<le> 512"
  shows "(utf8_ok j \<longrightarrow> json_dump F indent c ascii handler j = Inr (json_text F (dump_layout indent c ascii) 0 j)) \<and>
    (\<not> utf8_ok j \<longrightarrow> json_dump F indent c ascii Handler_strict j = Inl Json_type_error)"
  using json_dump_text [OF assms] by blast

theorem dump_refines_text_witness:
  "json_dump (\<lambda>_. []) 2 (CHR '' '') False Handler_strict (JArr [JInt (- 5), JStr [CHR 0xFF]]) = Inl Json_type_error \<and>
   json_dump (\<lambda>_. []) 2 (CHR '' '') False Handler_strict (JArr [JInt (- 5), JNull]) =
     Inr (''['' @ newline_str @ ''  -5,'' @ newline_str @ ''  null'' @ newline_str @ '']'')"
proof -
  have i: "ints_ok (JArr [JInt (- 5), JStr [CHR 0xFF]])" "ints_ok (JArr [JInt (- 5), JNull])"
    by (simp_all add: ints_ok_def int_here_def int_ok_def)
  have "utf8_codepoints [CHR 0xFF] = None" by code_simp
  then have u: "\<not> utf8_ok (JArr [JInt (- 5), JStr [CHR 0xFF]])" "utf8_ok (JArr [JInt (- 5), JNull])"
    by (simp_all add: utf8_ok_def utf8_here_def utf8_string_iff)
  have five: "to_string_nat 5 = ''5''" by code_simp
  have two: "replicate 2 x = [x, x]" for x :: char by (simp add: numeral_2_eq_2)
  have t: "json_text (\<lambda>_. []) (dump_layout 2 (CHR '' '') False) 0 (JArr [JInt (- 5), JNull]) =
      ''['' @ newline_str @ ''  -5,'' @ newline_str @ ''  null'' @ newline_str @ '']''"
    by (simp add: json_text.simps(2) block_text_def line_end_def margin_def inner_indent_def new_indent_def
        dump_layout_def indent_text_def decimal_def five newline_str_def two)
  show ?thesis
    using dump_refines_text [OF i(1), of 2 "\<lambda>_. []" "CHR '' ''" False Handler_strict]
      dump_refines_text [OF i(2), of 2 "\<lambda>_. []" "CHR '' ''" False Handler_strict] u t by simp
qed

end
