(* ===== verification/SS_TextRoundtrip.thy ===== *)
theory SS_TextRoundtrip
  imports SS_ParseText SS_DumpText
begin

text \<open>
  Reading back what was written: \<open>parse\<close> gives the value of every text of the grammar, with white space
  around it, and the text \<open>dump\<close> writes is in the grammar.
\<close>

section \<open>A whole text\<close>

lemma grammar_head: "grammar D v t \<Longrightarrow> t \<noteq> [] \<and> hd t \<noteq> CHR 0xEF"
proof (induction rule: grammar_elements_text_members_text.inducts(1) [where ?P2.0 = "\<lambda>_ _. True" and ?P3.0 = "\<lambda>_ _. True"])
  case (g_number v t)
  then have "number_value D t = Some v" by (simp add: number_value_text)
  then obtain ty where "number_type t = Some ty" by (auto simp: number_value_def split: option.splits)
  then show ?case by (rule number_first) (auto simp: is_digit_code_def)
qed simp_all

lemma white_head: "white w \<Longrightarrow> w \<noteq> [] \<Longrightarrow> hd w \<noteq> CHR 0xEF"
  by (cases w) (auto simp: is_white_def)

lemma text_end_follows: "text_end u \<Longrightarrow> follows u"
proof -
  assume "text_end u"
  then obtain w r where u: "u = w @ r" "white w" "r = [] \<or> hd r = CHR 0x00" by (auto simp: text_end_def)
  then have "follows r" by (cases r) (auto simp: follows_def)
  then show ?thesis using u follows_white by simp
qed

lemma text_end_scan:
  assumes "under_way lx u" "text_end u"
  shows "fst (scan D lx) = Tok_end_of_input"
proof -
  from assms(2) obtain w r where u: "u = w @ r" "white w" "r = [] \<or> hd r = CHR 0x00" by (auto simp: text_end_def)
  have rd: "lex_ready lx (w @ r)" using assms(1) u(1) by simp
  show ?thesis
  proof (cases r)
    case Nil
    then show ?thesis using scan_ready(1) [OF rd u(2) Nil, of D] by auto
  next
    case (Cons c r')
    then have c: "c = CHR 0x00" using u(3) by simp
    have "\<not> is_white (of_char c)" "c \<noteq> CHR ''/''" by (simp_all add: c is_white_def)
    from scan_ready(2) [OF rd u(2) Cons this, of D] obtain lx' where
      "scan D lx = scan_token D lx'" "lx_current lx' = 0" using c by auto
    then show ?thesis by (simp add: scan_token_def is_digit_code_def)
  qed
qed

text \<open>Any receiver that builds values; the position after the value does not matter to it.\<close>

lemma parse_from:
  assumes "grammar D v t" "white w" "follows u" "lex_ready lx (w @ t @ u)"
  shows "\<exists>tok lx1. scan D lx = (tok, lx1) \<and>
    (\<exists>tok' lx'. sax_parse_internal (dom_handler ex) D tok lx1 \<lparr>dp_root = JNull, dp_stack = []\<rparr> =
      Inr (Some (tok', lx', \<lparr>dp_root = v, dp_stack = []\<rparr>)) \<and> under_way lx' u)"
proof -
  have h: "handle_value v \<lparr>dp_root = JNull, dp_stack = []\<rparr> = Inr \<lparr>dp_root = v, dp_stack = []\<rparr>"
    by (simp add: handle_value_def)
  from grammar_parsed(1) [OF assms(1), unfolded value_parsed_def, rule_format, OF assms(4,2,3) h, of ex "[]"]
  obtain tok lx1 tok' lx' where "scan D lx = (tok, lx1)"
    "parse_turns (dom_handler ex) D (Turn_value [] tok lx1 \<lparr>dp_root = JNull, dp_stack = []\<rparr>) =
      parse_turns (dom_handler ex) D (Turn_state [] tok' lx' \<lparr>dp_root = v, dp_stack = []\<rparr>)" "under_way lx' u" by blast
  then show ?thesis by (auto simp: sax_parse_internal_def parse_state_def)
qed

lemma first_ready:
  assumes "grammar D v t" "white w"
  shows "lex_ready (new_lexer ig (w @ t @ u)) (w @ t @ u)"
  using reads_new [of ig "w @ t @ u"] grammar_head [OF assms(1)] white_head [OF assms(2)]
  by (cases "w = []") (auto simp: lex_ready_def)

text \<open>The byte order mark, and the first token after it.\<close>

lemma scan_bom:
  obtains lx where "under_way lx r" "scan D (new_lexer ig (bom @ r)) = scan D lx"
proof -
  have "reads (new_lexer ig (bom @ r)) (CHR 0xEF # CHR 0xBB # CHR 0xBF # r)" using reads_new by (simp add: bom_def)
  then obtain lx1 where 1: "lex_get (new_lexer ig (bom @ r)) = lx1" "reads lx1 (CHR 0xBB # CHR 0xBF # r)"
    "lx_current lx1 = of_char (CHR 0xEF)" by (metis get_Cons)
  obtain lx2 where 2: "lex_get lx1 = lx2" "reads lx2 (CHR 0xBF # r)" "lx_current lx2 = of_char (CHR 0xBB)"
    using get_Cons [OF 1(2)] by metis
  obtain lx3 where 3: "lex_get lx2 = lx3" "under_way lx3 r" "lx_current lx3 = of_char (CHR 0xBF)"
    using get_Cons [OF 2(2)] by metis
  have "skip_bom (new_lexer ig (bom @ r)) = (True, lx3)" using 1(1,3) 2(1,3) 3(1,3) by (simp add: skip_bom_def Let_def)
  moreover have "lx_chars_read_total (new_lexer ig (bom @ r)) = 0" by (simp add: new_lexer_def)
  ultimately have "scan D (new_lexer ig (bom @ r)) = scan D lx3" using 3(2) by (simp add: scan_def under_way_def)
  then show thesis using that 3(2) by blast
qed

lemma json_parse_text_of:
  assumes "text_of D v t"
  shows "json_parse D ex ig t = Inr v"
proof -
  from assms obtain b w t' u where t: "t = b @ w @ t' @ u" "b = [] \<or> b = bom" "white w" "grammar D v t'" "text_end u"
    unfolding text_of_def by blast
  obtain lx where lx: "lex_ready lx (w @ t' @ u)" "scan D (new_lexer ig t) = scan D lx"
    using t(1,2) first_ready [OF t(4,3), of ig u] scan_bom [of "w @ t' @ u" D ig] lex_ready_under_way
    by (metis append_Nil)
  show ?thesis
    using parse_from [OF t(4,3) text_end_follows [OF t(5)] lx(1), of ex] text_end_scan [OF _ t(5), of _ D]
    by (auto simp: json_parse_def parser_parse_sax sax_parse_text_def lx(2))
qed

lemma json_parse_grammar:
  assumes "grammar D v t" "white w" "text_end u"
  shows "json_parse D ex ig (w @ t @ u) = Inr v"
proof -
  have "text_of D v (w @ t @ u)" unfolding text_of_def
    by (rule exI [of _ "[]"], rule exI [of _ w], rule exI [of _ t], rule exI [of _ u]) (simp add: assms)
  then show ?thesis by (rule json_parse_text_of)
qed

lemma json_read_grammar:
  assumes "grammar D v t" "white w" "follows u"
  shows "json_read D (w @ t @ u) = Inr v"
  using parse_from [OF assms first_ready [OF assms(1,2)], of False True]
  by (auto simp: json_read_def parser_parse_sax sax_parse_text_def)


section \<open>Strings that have been written\<close>

lemma hex_value_digit: "d < 16 \<Longrightarrow> hex_value (hex_digit d) = Some d"
proof -
  have "list_all (\<lambda>d. hex_value (hex_digit d) = Some d) [0..<16]" by code_simp
  then show "d < 16 \<Longrightarrow> hex_value (hex_digit d) = Some d" by (auto simp: list_all_iff)
qed

lemma unicode_escape_hex:
  assumes "u < 2 ^ 16"
  shows "\<exists>h. unicode_escape u = u_prefix @ h \<and> hex_number h u"
proof -
  let ?h = "[hex_digit (u div 4096 mod 16), hex_digit (u div 256 mod 16), hex_digit (u div 16 mod 16), hex_digit (u mod 16)]"
  have "u = 4096 * (u div 4096 mod 16) + 256 * (u div 256 mod 16) + 16 * (u div 16 mod 16) + u mod 16"
  proof -
    have "u = 16 * (u div 16) + u mod 16" by simp
    moreover have "u div 16 = 16 * (u div 256) + u div 16 mod 16" using div_mult2_eq [of u 16 16] by simp
    moreover have "u div 256 = 16 * (u div 4096) + u div 256 mod 16" using div_mult2_eq [of u 256 16] by simp
    moreover have "u div 4096 mod 16 = u div 4096" using assms by (simp add: less_mult_imp_div_less)
    ultimately show ?thesis by linarith
  qed
  then have "hex_number ?h u" unfolding hex_number_def
    by (intro exI conjI) (rule refl, (rule hex_value_digit, simp)+)
  then show ?thesis by (simp add: unicode_escape_def u_prefix_def backslash_def)
qed

lemma codepoint_bytes_ascii: "cp < 0x80 \<Longrightarrow> codepoint_bytes cp = [cp]"
  by (simp add: codepoint_bytes_def)

lemma char_text_escape:
  assumes "(e, cp) \<in> {(0x22, 0x22), (0x5C, 0x5C), (0x62, 0x08), (0x66, 0x0C), (0x6E, 0x0A), (0x72, 0x0D), (0x74, 0x09 :: nat)}"
  shows "char_text (map char_of (codepoint_bytes cp)) [backslash, char_of (e :: nat)]"
proof -
  have "codepoint_bytes cp = [cp]" using assms by (auto simp: codepoint_bytes_def)
  moreover have "char_text [char_of cp] [CHR 0x5C, char_of e]" by (rule char_escape) (use assms in auto)
  ultimately show ?thesis by (simp add: backslash_def)
qed

lemma code_char: "of_char c = (n :: nat) \<Longrightarrow> char_of n = c"
  by auto

lemma letter_codes:
  "char_of (98 :: nat) = CHR ''b''" "char_of (116 :: nat) = CHR ''t''" "char_of (110 :: nat) = CHR ''n''"
  "char_of (102 :: nat) = CHR ''f''" "char_of (114 :: nat) = CHR ''r''" "char_of (34 :: nat) = CHR 0x22"
  "char_of (92 :: nat) = CHR 0x5C"
  by (rule code_char, simp)+

lemma escaped_codepoint_char:
  assumes "scalar_value cp"
  shows "char_text (map char_of (codepoint_bytes cp)) (escaped_codepoint ascii cp)"
proof -
  have cp: "cp \<le> 0x10FFFF" using assms by (simp add: scalar_value_def)
  consider "cp \<in> {0x08, 0x09, 0x0A, 0x0C, 0x0D, 0x22, 0x5C}"
    | "cp \<notin> {0x08, 0x09, 0x0A, 0x0C, 0x0D, 0x22, 0x5C}" "cp \<le> 0x1F \<or> ascii \<and> 0x7F \<le> cp" "cp \<le> 0xFFFF"
    | "ascii" "0xFFFF < cp" | "\<not> ascii" "0x80 \<le> cp"
    | "cp \<notin> {0x22, 0x5C}" "0x20 \<le> cp" "cp < 0x80" "\<not> (cp \<le> 0x1F \<or> ascii \<and> 0x7F \<le> cp)" by force
  then show ?thesis
  proof cases
    case 1
    then have "\<exists>e. (e, cp) \<in> {(0x22, 0x22), (0x5C, 0x5C), (0x62, 0x08), (0x66, 0x0C), (0x6E, 0x0A), (0x72, 0x0D), (0x74, 0x09 :: nat)} \<and>
        escaped_codepoint ascii cp = [backslash, char_of (e :: nat)]"
      by (elim insertE) (simp_all add: escaped_codepoint_def escape_letters_def backslash_def letter_codes)
    then show ?thesis by (elim exE conjE) (simp only: char_text_escape)
  next
    case 2
    obtain h where "unicode_escape cp = u_prefix @ h" "hex_number h cp" using unicode_escape_hex [of cp] 2(3) by auto
    moreover have "escaped_codepoint ascii cp = unicode_escape cp"
      using 2 by (auto simp: escaped_codepoint_code [OF cp] accepted_text_def)
    ultimately show ?thesis using char_text_code(2) assms by simp
  next
    case 3
    define hi lo where "hi = (cp - 0x10000) div 0x400" and "lo = (cp - 0x10000) mod (0x400 :: nat)"
    have hl: "hi < 0x400" "lo < 0x400" using cp 3(2) by (simp_all add: hi_def lo_def less_mult_imp_div_less)
    obtain h1 where h1: "unicode_escape (0xD800 + hi) = u_prefix @ h1" "hex_number h1 (0xD800 + hi)"
      using unicode_escape_hex [of "0xD800 + hi"] hl by auto
    obtain h2 where h2: "unicode_escape (0xDC00 + lo) = u_prefix @ h2" "hex_number h2 (0xDC00 + lo)"
      using unicode_escape_hex [of "0xDC00 + lo"] hl by auto
    have "escaped_codepoint ascii cp = u_prefix @ h1 @ u_prefix @ h2"
      using 3 cp h1(1) h2(1) surrogates_of [OF 3(2) cp]
      by (simp add: escaped_codepoint_code [OF cp] accepted_text_def hi_def lo_def)
    moreover have "0x10000 + 0x400 * (0xD800 + hi - 0xD800) + (0xDC00 + lo - 0xDC00) = cp"
      using 3(2) by (simp add: hi_def lo_def)
    ultimately show ?thesis using char_text_code(3) [OF h1(2) h2(2)] hl by simp
  next
    case 4
    then show ?thesis using char_text_code(1) [OF assms 4(2)] by (simp add: escaped_codepoint_code [OF cp])
  next
    case 5
    have "(of_char (char_of cp) :: nat) = cp" using 5 by simp
    moreover have "char_of cp \<noteq> CHR 0x22" "char_of cp \<noteq> CHR 0x5C" using 5 by (auto dest: arg_cong [where f = "of_char :: char \<Rightarrow> nat"])
    ultimately have "char_text [char_of cp] [char_of cp]" using 5 by (intro char_plain) simp_all
    moreover have "escaped_codepoint ascii cp = [char_of cp]"
      using 5 by (auto simp: escaped_codepoint_code [OF cp] accepted_text_def)
    ultimately show ?thesis using codepoint_bytes_ascii [OF 5(3)] by simp
  qed
qed

lemma escaped_text_body:
  "list_all scalar_value cps \<Longrightarrow> string_body (map char_of (utf8_encode cps)) (escaped_text ascii cps)"
proof (induction cps)
  case (Cons cp cps)
  then show ?case using body_char [OF escaped_codepoint_char [of cp ascii]]
    by (auto simp: utf8_encode_Cons escaped_text_def)
qed (simp add: utf8_encode_def escaped_text_def body_end)

text \<open>The text of a string that is UTF-8, read as a string, is the string.\<close>

definition string_inside :: "bool \<Rightarrow> string \<Rightarrow> string" where
  "string_inside ascii s = (case utf8_codepoints s of Some cps \<Rightarrow> escaped_text ascii cps | None \<Rightarrow> [])"

lemma string_text_body:
  assumes "utf8_string s"
  shows "string_text ascii s = quoted (string_inside ascii s)" "string_body s (string_inside ascii s)"
proof -
  obtain cps where cps: "utf8_codepoints s = Some cps" using assms by (auto simp: utf8_string_iff)
  then have "list_all scalar_value cps" "map of_char s = utf8_encode cps" by (auto simp: utf8_codepoints_iff)
  then have "string_body (map char_of (map of_char s :: nat list)) (escaped_text ascii cps)" using escaped_text_body by simp
  then have "string_body s (escaped_text ascii cps)" by (simp add: comp_def)
  then show "string_text ascii s = quoted (string_inside ascii s)" "string_body s (string_inside ascii s)"
    using cps by (simp_all add: string_text_def string_inside_def)
qed

lemma plain_body:
  "list_all (\<lambda>c. 0x20 \<le> (of_char c :: nat) \<and> (of_char c :: nat) < 0x80 \<and> c \<noteq> CHR 0x22 \<and> c \<noteq> CHR 0x5C) s \<Longrightarrow> string_body s s"
proof (induction s)
  case (Cons c s)
  then show ?case using body_char [OF char_plain [of c], of s s] by simp
qed (rule body_end)

section \<open>Numbers that have been written\<close>

lemma digit_code: "is_digit c \<Longrightarrow> is_digit_code (of_char c)"
  by (simp add: is_digit_def is_digit_code_def of_char_int_nat)

lemma run_digits: "list_all is_digit ds \<Longrightarrow> number_run Num_any1 ty ds = Some (Num_any1, ty)"
  by (induction ds) (simp_all add: digit_code)

text \<open>The digits of a positive number: the first is not zero.\<close>

lemma to_string_first:
  assumes "0 < n"
  obtains c ds where "to_string_nat n = c # ds" "is_digit c" "c \<noteq> CHR ''0''" "list_all is_digit ds"
proof -
  have "\<exists>c ds. to_string_nat n = c # ds \<and> c \<noteq> CHR ''0''" using assms
  proof (induction n rule: to_string_nat.induct)
    case (1 n)
    show ?case
    proof (cases "n < 10")
      case True
      have "digit_char n \<noteq> digit_char 0"
      proof
        assume "digit_char n = digit_char 0"
        then have "char_digit (digit_char n) = char_digit (digit_char 0)" by simp
        then show False using True 1(2) by simp
      qed
      then show ?thesis using True by (simp add: to_string_small digit_char_0)
    next
      case False
      then have "0 < n div 10" by (simp add: div_greater_zero_iff)
      then show ?thesis using 1(1) [OF False] False by (auto simp: to_string_step)
    qed
  qed
  then show thesis using that to_string_nat_digits [of n] by auto
qed

lemma number_type_decimal: "number_type (decimal i) = Some (if i < 0 then Tok_value_integer else Tok_value_unsigned)"
proof (cases "i = 0")
  case True
  then show ?thesis
    by (simp add: decimal_def to_string_small digit_char_0 number_type_def is_digit_code_def accepting_def)
next
  case False
  then obtain c ds where t: "to_string_nat (nat \<bar>i\<bar>) = c # ds" "is_digit c" "c \<noteq> CHR ''0''" "list_all is_digit ds"
    using to_string_first [of "nat \<bar>i\<bar>"] by auto
  have code: "is_digit_code (of_char c)" "(of_char c :: int) \<noteq> 0x30" "c \<noteq> CHR ''-''"
    using t(2,3) digit_code code_eq_iff [of c "CHR ''0''"] by (auto simp: is_digit_def)
  show ?thesis using t code False
    by (auto simp: decimal_def number_type_def accepting_def run_digits)
qed

lemma number_value_decimal:
  assumes "int_ok i"
  shows "number_value D (decimal i) = Some (JInt i)"
proof (cases "i < 0")
  case True
  then have "strtoll (decimal i) = Some i"
    using assms by (simp add: strtoll_def decimal_def int_ok_def)
  then show ?thesis using True by (simp add: number_value_def number_type_decimal)
next
  case False
  then have "strtoull (decimal i) = Some (nat i)"
    using assms by (simp add: strtoull_def decimal_def int_ok_def)
  then show ?thesis using False by (simp add: number_value_def number_type_decimal)
qed


section \<open>Values that have been written\<close>

text \<open>What a text can say of a value: binary data has become an object.\<close>

definition binary_view :: "nat option \<Rightarrow> byte list \<Rightarrow> json" where
  "binary_view subtype bs =
     JObj (fmupd ''subtype'' (case subtype of Some n \<Rightarrow> JInt (int n) | None \<Rightarrow> JNull)
       (fmupd ''bytes'' (JArr (map (\<lambda>b. JInt (uint b)) bs)) fmempty))"

primrec text_view :: "json \<Rightarrow> json" where
  "text_view JNull = JNull"
| "text_view (JBool b) = JBool b"
| "text_view (JInt i) = JInt i"
| "text_view (JFloat r) = (if isfinite r then JFloat r else JNull)"
| "text_view (JStr s) = JStr s"
| "text_view (JBin subtype bs) = binary_view subtype bs"
| "text_view (JArr xs) = JArr (map text_view xs)"
| "text_view (JObj m) = JObj (fmmap text_view m)"
| "text_view JDiscarded = JDiscarded"

text \<open>No discarded value, and \<open>strtod\<close> reads the text of every floating-point number back.\<close>

definition float_here :: "strtod \<Rightarrow> (double \<Rightarrow> string) \<Rightarrow> json \<Rightarrow> bool" where
  "float_here D F j =
     (case j of JFloat r \<Rightarrow> isfinite r \<longrightarrow> number_text D (JFloat r) (F r) | JDiscarded \<Rightarrow> False | _ \<Rightarrow> True)"

definition floats_ok :: "strtod \<Rightarrow> (double \<Rightarrow> string) \<Rightarrow> json \<Rightarrow> bool" where
  "floats_ok D F j = json_all (float_here D F) j"

definition white_layout :: "layout \<Rightarrow> bool" where
  "white_layout L \<longleftrightarrow> (ly_pretty L \<longrightarrow> white [ly_char L])"

lemma white_line_end [simp]: "white (line_end L)"
  by (simp add: line_end_def newline_str_def is_white_def)

lemma white_margin [simp]: "white_layout L \<Longrightarrow> white (margin L n)"
  by (auto simp: margin_def white_layout_def white_is_white indent_text_def is_white_def)

lemma colon_white: obtains w where "colon L = '':'' @ w" "white w"
  using that [of "'' ''"] that [of "[]"] by (cases "ly_pretty L") (simp_all add: colon_def is_white_def)

text \<open>The elements, joined.\<close>

lemma elements_join:
  assumes "xs \<noteq> []" "\<And>x. x \<in> set xs \<Longrightarrow> grammar D (f x) (g x)" "white a" "white b" "white c" "white d"
  shows "elements_text D (map f xs) (a @ join ('','' @ b) (map (\<lambda>x. c @ g x) xs) @ d)"
  using assms
proof (induction "'','' @ b" "map (\<lambda>x. c @ g x) xs" arbitrary: xs a rule: join.induct)
  case (2 t)
  then obtain x where "xs = [x]" by auto
  then show ?case using 2 e_last [of D "f x" "g x" "a @ c" d] by simp
next
  case (3 t t' ts)
  then obtain x y ys where xs: "xs = x # y # ys" by (auto simp: Cons_eq_map_conv)
  from 3(1) [of "y # ys" b] 3 xs have "elements_text D (map f (y # ys)) (b @ join ('','' @ b) (map (\<lambda>x. c @ g x) (y # ys)) @ d)"
    by simp
  from e_more [OF _ _ _ this, of "f x" "g x" "a @ c" "[]"] 3 xs show ?case by simp
qed simp

lemma members_join:
  assumes "kvs \<noteq> []" "\<And>kv. kv \<in> set kvs \<Longrightarrow> string_body (fst kv) (h kv) \<and> grammar D (f (snd kv)) (g kv)"
    and w: "white a" "white b" "white c" "white d" "white e"
  shows "members_text D (map (\<lambda>(k, v). (k, f v)) kvs)
    (a @ join ('','' @ b) (map (\<lambda>kv. c @ quoted (h kv) @ ('':'' @ e) @ g kv) kvs) @ d)"
  using assms
proof (induction "'','' @ b" "map (\<lambda>kv. c @ quoted (h kv) @ ('':'' @ e) @ g kv) kvs" arbitrary: kvs a rule: join.induct)
  case (2 t)
  then obtain kv where "kvs = [kv]" by auto
  then show ?case using 2 m_last [of "fst kv" "h kv" D "f (snd kv)" "g kv" "a @ c" "[]" e d]
    by (simp add: quoted_def quote_char_def split_beta)
next
  case (3 t t' ts)
  then obtain x y ys where xs: "kvs = x # y # ys" by (auto simp: Cons_eq_map_conv)
  from 3(1) [of "y # ys" b] 3 xs have "members_text D (map (\<lambda>(k, v). (k, f v)) (y # ys))
      (b @ join ('','' @ b) (map (\<lambda>kv. c @ quoted (h kv) @ ('':'' @ e) @ g kv) (y # ys)) @ d)"
    by simp
  from m_more [OF _ _ _ _ _ _ this, of "fst x" "h x" "f (snd x)" "g x" "a @ c" "[]" e "[]"] 3 xs show ?case
    by (simp add: quoted_def quote_char_def split_beta)
qed simp


lemma fmmap_fmupd: "fmmap f (fmupd k v m) = fmupd k (f v) (fmmap f m)"
  by (intro fmap_ext) simp

lemma fold_fmmap:
  "fold (\<lambda>(k, v). fmupd k v) (map (\<lambda>(k, v). (k, f v)) es) (fmmap f m) = fmmap f (fold (\<lambda>(k, v). fmupd k v) es m)"
  by (induction es arbitrary: m) (auto simp: fmmap_fmupd [symmetric])

lemma fold_view: "fold (\<lambda>(k, v). fmupd k v) (map (\<lambda>(k, v). (k, f v)) (sorted_list_of_fmap m)) fmempty = fmmap f m"
  using fold_fmmap [of f "sorted_list_of_fmap m" fmempty] by (simp add: fold_sorted_list)

text \<open>The frame of an array and of an object.\<close>

lemma array_grammar:
  assumes "xs \<noteq> []" "\<And>x. x \<in> set xs \<Longrightarrow> grammar D (f x) (g x)" "white_layout L"
  shows "grammar D (JArr (map f xs)) (block_text L n ''['' (map (\<lambda>x. margin L k @ g x) xs) '']'')"
  using g_array [OF elements_join [OF assms(1,2), where a = "line_end L" and b = "line_end L" and c = "margin L k" and d = "line_end L @ margin L n"]]
    assms(3) by (simp add: block_text_def)

lemma object_grammar:
  assumes "kvs \<noteq> []" "\<And>kv. kv \<in> set kvs \<Longrightarrow> string_body (fst kv) (h kv) \<and> grammar D (f (snd kv)) (g kv)" "white_layout L"
  shows "grammar D (JObj (fold (\<lambda>(k, v). fmupd k v) (map (\<lambda>(k, v). (k, f v)) kvs) fmempty))
    (block_text L n ''{'' (map (\<lambda>kv. margin L k @ quoted (h kv) @ colon L @ g kv) kvs) ''}'')"
proof -
  obtain w where w: "colon L = '':'' @ w" "white w" by (rule colon_white)
  from g_object [OF members_join [OF assms(1,2), where a = "line_end L" and b = "line_end L" and c = "margin L k" and d = "line_end L @ margin L n" and e = w]]
  show ?thesis using assms(3) w by (simp add: block_text_def)
qed

lemma bytes_grammar: "grammar D (JArr (map (\<lambda>b. JInt (uint b)) bs)) (bytes_text L bs)"
proof (cases "bs = []")
  case True
  then show ?thesis using g_empty_array [of "[]" D] by (simp add: bytes_text_def)
next
  case False
  have "grammar D (JInt (uint b)) (decimal (uint b))" for b :: byte
    by (rule g_number_value [OF number_value_decimal [OF int_ok_byte]])
  from g_array [OF elements_join [OF False this, where a = "[]" and b = "if ly_pretty L then '' '' else []" and c = "[]" and d = "[]"]]
  show ?thesis by (cases "ly_pretty L") (simp_all add: bytes_text_def is_white_def)
qed

lemma binary_grammar:
  assumes "\<And>n. subtype = Some n \<Longrightarrow> n < 2 ^ 64" "white_layout L"
  shows "grammar D (binary_view subtype bs) (binary_text L n subtype bs)"
proof -
  define kvs where "kvs = [(''bytes'', True), (''subtype'', False)]"
  define f where "f = (\<lambda>b. if b then JArr (map (\<lambda>b. JInt (uint b)) bs) else case subtype of Some n \<Rightarrow> JInt (int n) | None \<Rightarrow> JNull)"
  define g where "g = (\<lambda>kv :: string \<times> bool. if snd kv then bytes_text L bs else subtype_text subtype)"
  have sub: "grammar D (f False) (subtype_text subtype)"
    using assms(1) by (auto simp: f_def subtype_text_def int_ok_def intro!: g_null g_number_value number_value_decimal split: option.split)
  have "string_body (fst kv) (fst kv) \<and> grammar D (f (snd kv)) (g kv)" if "kv \<in> set kvs" for kv
    using that sub bytes_grammar [of D bs L] by (auto simp: kvs_def f_def g_def intro!: plain_body)
  moreover have "kvs \<noteq> []" by (simp add: kvs_def)
  ultimately have "grammar D (JObj (fold (\<lambda>(k, v). fmupd k v) (map (\<lambda>(k, v). (k, f v)) kvs) fmempty))
      (block_text L n ''{'' (map (\<lambda>kv. margin L (inner_indent L n) @ quoted (fst kv) @ colon L @ g kv) kvs) ''}'')"
    using object_grammar [of kvs fst D f g L n "inner_indent L n"] assms(2) by blast
  then show ?thesis
    by (simp add: kvs_def f_def g_def binary_view_def binary_text_def)
qed

lemma json_text_grammar:
  assumes "utf8_ok j" "ints_ok j" "floats_ok D F j" "white_layout L"
  shows "grammar D (text_view j) (json_text F L n j)"
  using assms(1-3)
proof (induction j arbitrary: n rule: measure_induct_rule [of size])
  case (less j)
  show ?case
  proof (cases j)
    case (JObj m)
    have size: "size (snd kv) < size (JObj m)" if "kv \<in> set (sorted_list_of_fmap m)" for kv
      using size_sorted_entries [of m] member_le_sum_list [of "Suc (size (snd kv))" "map (\<lambda>kv. Suc (size (snd kv))) (sorted_list_of_fmap m)"] that
      by (auto simp del: json.size)
    show ?thesis
    proof (cases "m = fmempty")
      case True
      then show ?thesis using g_empty_object [of "[]" D] by (simp add: JObj json_text.simps(1))
    next
      case False
      have key: "utf8_string (fst kv)" if "kv \<in> set (sorted_list_of_fmap m)" for kv
        using less.prems(1) that by (auto simp: JObj utf8_ok_def utf8_here_def)
      have "grammar D (text_view (snd kv)) (json_text F L k (snd kv))" if "kv \<in> set (sorted_list_of_fmap m)" for kv k
        using less.IH [of "snd kv" k] size [OF that] less.prems that by (auto simp: JObj utf8_ok_def ints_ok_def floats_ok_def)
      then have "grammar D (JObj (fmmap text_view m)) (block_text L n ''{''
          (map (\<lambda>kv. margin L (inner_indent L n) @ quoted (string_inside (ly_ascii L) (fst kv)) @ colon L @
             json_text F L (inner_indent L n) (snd kv)) (sorted_list_of_fmap m)) ''}'')"
        unfolding fold_view [symmetric] using False string_text_body(2) key assms(4)
        by (intro object_grammar) auto
      then show ?thesis using False key string_text_body(1) by (simp add: JObj json_text.simps(1) cong: map_cong)
    qed
  next
    case (JArr xs)
    have IH: "grammar D (text_view x) (json_text F L k x)" if "x \<in> set xs" for x k
      using less.IH [of x k] less.prems that
      by (auto simp: JArr utf8_ok_def ints_ok_def floats_ok_def size_list_estimation' less_Suc_eq_le)
    show ?thesis
    proof (cases "xs = []")
      case True
      then show ?thesis using g_empty_array [of "[]" D] by (simp add: JArr json_text.simps(2))
    next
      case False
      then show ?thesis using array_grammar [OF False IH assms(4)] by (simp add: JArr json_text.simps(2))
    qed
  next
    case (JStr s)
    then have "utf8_string s" using less.prems(1) by (simp add: utf8_ok_def utf8_here_def)
    then show ?thesis using g_string [OF string_text_body(2)] string_text_body(1) JStr by (simp add: quoted_def quote_char_def)
  next
    case (JBin subtype bs)
    then have "m < 2 ^ 64" if "subtype = Some m" for m using less.prems(2) that by (simp add: ints_ok_def int_here_def)
    then show ?thesis using binary_grammar [OF _ assms(4), of subtype D bs n] JBin by simp
  next
    case (JInt i)
    then show ?thesis using less.prems(2) by (auto simp: ints_ok_def int_here_def intro!: g_number_value number_value_decimal)
  next
    case (JFloat r)
    then show ?thesis using less.prems(3) by (auto simp: floats_ok_def float_here_def intro!: g_null g_number)
  next
    case (JBool b)
    then show ?thesis by (cases b) (auto intro: g_true g_false)
  next
    case JNull
    then show ?thesis by (auto intro: g_null)
  next
    case JDiscarded
    then show ?thesis using less.prems(3) by (simp add: floats_ok_def float_here_def)
  qed
qed

text \<open>\<open>parse\<close> after \<open>dump\<close>, and without binary data the value itself.\<close>

lemma parse_dump:
  assumes "utf8_ok j" "ints_ok j" "floats_ok D F j" "indent \<le> 512" "0 \<le> indent \<Longrightarrow> white [c]"
  shows "bind_res (json_dump F indent c ascii handler j) (json_parse D ex ig) = Inr (text_view j)"
proof -
  let ?L = "dump_layout indent c ascii"
  have "white_layout ?L" using assms(5) by (simp add: white_layout_def dump_layout_def)
  from json_parse_grammar [OF json_text_grammar [OF assms(1-3) this, of 0], of "[]" "[]" ex ig]
  show ?thesis using json_dump_text(1) [OF assms(2,4,1)] by (simp add: text_end_def)
qed

text \<open>An indentation over 1025 is more than one doubling of the indentation string gives.\<close>

lemma dump_deep_indent:
  assumes "1025 < indent" "indent < 2 ^ 31" "xs \<noteq> []"
  shows "json_dump F indent c ascii handler (JArr xs) = Inl Undefined"
proof -
  have n: "new_indent 0 (nat indent) = nat indent" and big: "1025 < nat indent" using assms by (simp_all add: new_indent_def)
  have "write_indent (nat indent) (indent_reserve (nat indent) (write_characters (''['' @ newline_str) (new_serializer c handler))) =
      Inl Undefined"
    using big by (simp add: write_indent_def indent_reserve_def write_characters_def new_serializer_def)
  then have "dump_elements F True ascii (nat indent) (nat indent) xs
      (indent_reserve (nat indent) (write_characters (''['' @ newline_str) (new_serializer c handler))) = Inl Undefined"
    using assms(3) by (cases xs) (simp_all add: dump_elements.simps)
  then show ?thesis using assms by (simp add: json_dump_def dump.simps(1) dump_container_def n)
qed

text \<open>
  C30. Reading what was written. For a value with UTF-8 strings, integers of 64 bits, no discarded part
  and finite floating-point numbers whose texts \<open>strtod\<close> reads back, \<open>parse\<close> of what \<open>dump\<close> gives is the
  value, except that binary data comes back as the object with the members \<open>bytes\<close> and \<open>subtype\<close> it was
  written as, and that infinities and NaN, which may occur as well, come back as null. The layout may be
  compact, or pretty with an indentation of at most 512 and any white-space character, all ASCII or not.
\<close>

theorem dump_parse_roundtrip:
  assumes "utf8_ok j" "ints_ok j" "floats_ok D F j" "indent \<le> 512" "0 \<le> indent \<Longrightarrow> white [c]"
  shows "bind_res (json_dump F indent c ascii handler j) (json_parse D ex ig) = Inr (text_view j)"
  by (rule parse_dump [OF assms])

theorem dump_parse_roundtrip_witness:
  "bind_res (json_dump (\<lambda>_. []) 4 (CHR 0x09) True Handler_strict (JArr [JStr [CHR 0xC3, CHR 0xA9], JInt (- 5), JBin None [7]]))
     (json_parse (\<lambda>_. D_nan) True False) =
   Inr (JArr [JStr [CHR 0xC3, CHR 0xA9], JInt (- 5), binary_view None [7]])"
proof -
  let ?j = "JArr [JStr [CHR 0xC3, CHR 0xA9], JInt (- 5), JBin None [7]]"
  have "utf8_codepoints [CHR 0xC3, CHR 0xA9] = Some [0xE9]"
    by (simp add: utf8_codepoints_iff scalar_value_def utf8_encode_def utf8_bytes_def)
  then have "utf8_ok ?j" by (simp add: utf8_ok_def utf8_here_def utf8_string_iff)
  moreover have "ints_ok ?j" by (simp add: ints_ok_def int_here_def int_ok_def)
  moreover have "floats_ok (\<lambda>_. D_nan) (\<lambda>_. []) ?j" by (simp add: floats_ok_def float_here_def)
  moreover have "white [CHR 0x09]" by (simp add: white_def)
  ultimately show ?thesis
    using dump_parse_roundtrip [of ?j "\<lambda>_. D_nan" "\<lambda>_. []" 4 "CHR 0x09" True Handler_strict True False] by simp
qed

end
