(* ===== verification/SS_Print.thy ===== *)
theory SS_Print
  imports SS_TextRoundtrip SS_KMessage SS_IceMessage
begin

text \<open>
  The functions that print a message (\<open>message.cpp\<close>, \<open>k_message.cpp\<close>, \<open>ice_message.cpp\<close>): the body on
  \<open>std::cout\<close>, whose width is 0, and a line end. The value is what has been written when the function
  returns. The decoder takes any bytes as the text of a string, so what is printed need not be UTF-8.
\<close>

definition print_line :: "(double \<Rightarrow> string) \<Rightarrow> json \<Rightarrow> string result" where
  "print_line F body = map_res (\<lambda>t. t @ newline_str) (json_print F 0 (CHR '' '') body)"

definition message_print :: "(double \<Rightarrow> string) \<Rightarrow> message \<Rightarrow> string result" where
  "message_print F body = print_line F body"

definition k_message_print :: "(double \<Rightarrow> string) \<Rightarrow> k_message \<Rightarrow> string result" where
  "k_message_print F body = print_line F body"

definition ice_message_print :: "(double \<Rightarrow> string) \<Rightarrow> ice_message \<Rightarrow> string result" where
  "ice_message_print F m = print_line F (im_body m)"

definition sgnl_print :: "(double \<Rightarrow> string) \<Rightarrow> ice_message \<Rightarrow> string result" where
  "sgnl_print F m = print_line F (im_body m)"

section \<open>Messages that have been decoded\<close>

lemma bson_ok_ints: "bson_ok E j \<Longrightarrow> ints_ok j"
proof (induction j rule: bson_ok.induct)
  case (3 E i)
  then show ?case by (auto simp: ints_ok_def int_here_def int_ok_def)
next
  case (6 E xs)
  then show ?case by (auto simp: ints_ok_def int_here_def bson_ok_list)
next
  case (8 E m)
  then show ?case by (auto simp: ints_ok_def int_here_def bson_ok.simps(8) simp del: bson_ok_fields)
qed (auto simp: ints_ok_def int_here_def)

lemma decoded_ints:
  assumes "double_ok E" "message_decode E bs = Inr msg"
  shows "ints_ok msg"
  using from_bson_cases [OF assms(1), of bs] assms(2) bson_ok_ints
  by (auto simp: message_decode_def message_of_json_def ints_ok_def int_here_def)

lemma print_line_text:
  assumes "ints_ok j"
  shows "print_line F j =
    (if utf8_ok j then Inr (json_text F (dump_layout (- 1) (CHR '' '') False) 0 j @ newline_str)
     else Inl Json_type_error)"
  using json_print_text [OF assms, of F "CHR '' ''"] by (simp add: print_line_def)

text \<open>
  C35. Printing a message that has come from the network: its compact text and a line end if every string
  and key in it, at any depth, is UTF-8, and otherwise the type error of the serializer, which
  nothing catches.
\<close>

theorem print_outcomes:
  assumes "double_ok E" "message_decode E bs = Inr msg"
  shows "message_print F msg =
      (if utf8_ok msg then Inr (json_text F (dump_layout (- 1) (CHR '' '') False) 0 msg @ newline_str)
       else Inl Json_type_error) \<and>
    k_message_print F (k_message_of_json msg) = message_print F msg"
  using print_line_text [OF decoded_ints [OF assms]]
  by (simp_all add: message_print_def k_message_print_def k_message_of_json_def)

theorem print_outcomes_witness:
  "\<exists>bs. message_decode sample_ext bs = Inr (JObj (fmupd ''a'' (JStr [CHR 0xFF]) fmempty)) \<and>
     message_print (\<lambda>_. []) (JObj (fmupd ''a'' (JStr [CHR 0xFF]) fmempty)) = Inl Json_type_error"
proof -
  let ?m = "fmupd ''a'' (JStr [CHR 0xFF]) fmempty"
  have "bson_ok sample_ext (JObj ?m)" by (simp add: bson_key_ok_def)
  from bson_roundtrip_object [OF sample_double_ok this] obtain bs where
    "from_bson sample_ext bs = Inr (JObj ?m)" by blast
  then have "message_decode sample_ext bs = Inr (JObj ?m)" by (simp add: message_decode_def message_of_json_def)
  moreover have "utf8_codepoints [CHR 0xFF] = None" by code_simp
  moreover have "(''a'', JStr [CHR 0xFF]) \<in> set (sorted_list_of_fmap ?m)"
    unfolding sorted_list_of_fmap_set by (simp add: fset_of_fmap_iff)
  ultimately have "message_decode sample_ext bs = Inr (JObj ?m)" "\<not> utf8_ok (JObj ?m)"
    by (force simp: utf8_ok_def utf8_here_def utf8_string_iff)+
  then show ?thesis using print_outcomes [OF sample_double_ok, of bs "JObj ?m" "\<lambda>_. []"] by auto
qed

end
