(* ===== verification/SS_LexSound.thy ===== *)
theory SS_LexSound
  imports SS_TextRoundtrip
begin

text \<open>
  The converse of \<open>SS_Grammar\<close>: a token the lexer reads is a text of the grammar. Every operation of
  the lexer that succeeds is taken back to the characters it has read.
\<close>

section \<open>Where the lexer is\<close>

text \<open>Comments are not ignored; \<open>r\<close> is still to be read.\<close>

definition strict_at :: "lexer \<Rightarrow> string \<Rightarrow> bool" where
  "strict_at lx r \<longleftrightarrow> reads lx r \<and> \<not> lx_ignore_comments lx"

definition strict_on :: "lexer \<Rightarrow> string \<Rightarrow> bool" where
  "strict_on lx r \<longleftrightarrow> under_way lx r \<and> \<not> lx_ignore_comments lx"

lemma strict_on_at [simp, intro]: "strict_on lx r \<Longrightarrow> strict_at lx r"
  by (simp add: strict_on_def strict_at_def)

lemma strict_simps [simp]:
  "strict_at (lex_add c lx) r = strict_at lx r" "strict_at (lex_reset lx) r = strict_at lx r"
  "strict_on (lex_add c lx) r = strict_on lx r" "strict_on (lex_reset lx) r = strict_on lx r"
  "strict_on (add_bytes bs lx) r = strict_on lx r"
proof -
  have a: "lx_ignore_comments (lex_add c lx) = lx_ignore_comments lx" for c lx by (simp add: lex_add_def)
  then show "strict_at (lex_add c lx) r = strict_at lx r" "strict_on (lex_add c lx) r = strict_on lx r"
    by (simp_all add: strict_at_def strict_on_def)
  show "strict_at (lex_reset lx) r = strict_at lx r" "strict_on (lex_reset lx) r = strict_on lx r"
    by (simp_all add: strict_at_def strict_on_def) (simp_all add: lex_reset_def)
  have "lx_ignore_comments (add_bytes bs lx) = lx_ignore_comments lx"
    unfolding add_bytes_def by (induction bs arbitrary: lx) (simp_all add: a)
  then show "strict_on (add_bytes bs lx) r = strict_on lx r" by (simp add: strict_on_def)
qed

lemma ignore_get [simp]: "lx_ignore_comments (lex_get lx) = lx_ignore_comments lx"
  by (simp add: lex_get_def get_character_def Let_def split: list.split)

lemma ignore_unget [simp]: "lx_ignore_comments (lex_unget lx) = lx_ignore_comments lx"
  by (simp add: lex_unget_def)

lemma strict_get:
  assumes "strict_at lx r"
  shows "strict_on (lex_get lx) (tl r)" "lx_current (lex_get lx) = (case r of [] \<Rightarrow> eof | c # _ \<Rightarrow> of_char c)"
    "lx_token_buffer (lex_get lx) = lx_token_buffer lx"
  using assms get_cases [of lx r] by (cases r; auto simp: strict_at_def strict_on_def same_buffer_def)+

lemma strict_char:
  assumes "strict_at lx r" "lx_current (lex_get lx) \<noteq> eof"
  obtains c r' where "r = c # r'" "strict_on (lex_get lx) r'" "lx_current (lex_get lx) = of_char c"
  using assms strict_get [OF assms(1)] by (cases r) auto

lemma strict_code:
  assumes "strict_at lx r" "lx_current (lex_get lx) = of_char c"
  obtains r' where "r = c # r'" "strict_on (lex_get lx) r'"
proof -
  have "lx_current (lex_get lx) \<noteq> eof" using assms(2) by simp
  with assms(1) obtain d r' where d: "r = d # r'" "strict_on (lex_get lx) r'" "lx_current (lex_get lx) = of_char d"
    by (rule strict_char)
  then have "d = c" using assms(2) by (metis code_eq_iff)
  then show thesis using that d by simp
qed

section \<open>Strings\<close>

definition byte_within :: "int \<times> int \<Rightarrow> nat \<Rightarrow> bool" where
  "byte_within lh b \<longleftrightarrow> fst lh \<le> int b \<and> int b \<le> snd lh"

lemma bytes_in_range_sound:
  assumes "bytes_in_range rs lx = (True, lx')" "strict_on lx r" "list_all (\<lambda>lh. 0 \<le> fst lh) rs"
  shows "\<exists>bs r'. r = map char_of bs @ r' \<and> list_all2 byte_within rs bs \<and> strict_on lx' r' \<and>
    lx_token_buffer lx' = lx_token_buffer lx @ map char_of bs"
  using assms
proof (induction rs lx arbitrary: r rule: bytes_in_range.induct)
  case (2 lo hi rs lx)
  then have rng: "lo \<le> lx_current (lex_get lx)" "lx_current (lex_get lx) \<le> hi" "0 \<le> lo"
    and go: "bytes_in_range rs (lex_add (lx_current (lex_get lx)) (lex_get lx)) = (True, lx')"
    by (auto simp: Let_def split: if_splits)
  have "lx_current (lex_get lx) \<noteq> eof" using rng by (simp add: eof_def)
  with strict_on_at [OF "2.prems"(2)] obtain c r1 where c: "r = c # r1" "strict_on (lex_get lx) r1"
    "lx_current (lex_get lx) = of_char c" by (rule strict_char)
  from "2.IH" [OF refl _ go, of r1] rng "2.prems"(3) c(2) obtain bs r' where
    bs: "r1 = map char_of bs @ r'" "list_all2 byte_within rs bs" "strict_on lx' r'"
    "lx_token_buffer lx' = lx_token_buffer lx @ c # map char_of bs"
    using strict_get(3) [OF strict_on_at [OF "2.prems"(2)]] c(3) by auto
  show ?case
    by (rule exI [of _ "of_char c # bs"], rule exI [of _ r'])
      (use bs c rng in \<open>simp add: byte_within_def [of "(lo, hi)"] of_char_int_nat\<close>)
qed (auto intro!: exI [of _ "[]"])

lemma scalar_bounds:
  "cp \<le> 0x10FFFF \<Longrightarrow> cp < 0xD800 \<or> 0xDFFF < cp \<Longrightarrow> scalar_value cp"
  by (auto simp: scalar_value_def)

lemma lead_sound_2:
  assumes "194 \<le> b" "b \<le> 223" "j < 64"
  shows "\<exists>cp. scalar_value cp \<and> 0x80 \<le> cp \<and> codepoint_bytes cp = [b, 128 + j]"
proof -
  define m where "m = b - 192"
  have m: "2 \<le> m" "m < 32" "b = 192 + m" using assms by (simp_all add: m_def)
  have "codepoint_bytes (64 * m + j) = [192 + m, 128 + j]"
    using m assms(3) by (simp add: codepoint_bytes_arith)
  then show ?thesis using m assms(3) by (intro exI [of _ "64 * m + j"]) (simp add: scalar_value_def)
qed

lemma lead_sound_3:
  assumes "q < 16" "m < 64" "j < 64" "q = 0 \<Longrightarrow> 32 \<le> m" "q = 13 \<Longrightarrow> m < 32"
  shows "\<exists>cp. scalar_value cp \<and> 0x80 \<le> cp \<and> codepoint_bytes cp = [224 + q, 128 + m, 128 + j]"
proof -
  have n: "32 \<le> 64 * q + m" "64 * q + m < 1024" using assms by (cases "q = 0"; simp)+
  have "codepoint_bytes (64 * (64 * q + m) + j) = [224 + q, 128 + m, 128 + j]"
    using codepoint_bytes_3 [OF n assms(3)] assms(2) by simp
  moreover have "scalar_value (64 * (64 * q + m) + j)"
  proof (rule scalar_bounds)
    show "64 * (64 * q + m) + j \<le> 0x10FFFF" using n assms(3) by simp
    consider "q < 13" | "q = 13" | "13 < q" by linarith
    then show "64 * (64 * q + m) + j < 0xD800 \<or> 0xDFFF < 64 * (64 * q + m) + j"
      by cases (use assms in simp_all)
  qed
  ultimately show ?thesis using n by (intro exI [of _ "64 * (64 * q + m) + j"]) simp
qed

lemma lead_sound_4:
  assumes "q \<le> 4" "m < 64" "k < 64" "l < 64" "q = 0 \<Longrightarrow> 16 \<le> m" "q = 4 \<Longrightarrow> m < 16"
  shows "\<exists>cp. scalar_value cp \<and> 0x80 \<le> cp \<and> codepoint_bytes cp = [240 + q, 128 + m, 128 + k, 128 + l]"
proof -
  have n: "16 \<le> 64 * q + m" "64 * q + m < 272" using assms by (cases "q = 0"; cases "q = 4"; simp)+
  have j: "64 * k + l < 4096" using assms(3,4) by simp
  have "codepoint_bytes (4096 * (64 * q + m) + (64 * k + l)) = [240 + q, 128 + m, 128 + k, 128 + l]"
    using codepoint_bytes_4 [OF n j] assms(2,4) by simp
  moreover have "scalar_value (4096 * (64 * q + m) + (64 * k + l))"
    using n j by (intro scalar_bounds) simp_all
  ultimately show ?thesis using n by (intro exI [of _ "4096 * (64 * q + m) + (64 * k + l)"]) simp
qed

text \<open>What the lexer takes after a lead byte is the encoding of a scalar value.\<close>

lemma byte_low: "byte_within (128 + lo, 128 + hi) b \<longleftrightarrow> (\<exists>m. b = 128 + m \<and> lo \<le> int m \<and> int m \<le> hi)" if "0 \<le> lo"
proof
  assume "byte_within (128 + lo, 128 + hi) b"
  then show "\<exists>m. b = 128 + m \<and> lo \<le> int m \<and> int m \<le> hi"
    using that by (intro exI [of _ "b - 128"]) (auto simp: byte_within_def)
qed (use that in \<open>auto simp: byte_within_def\<close>)

lemma lead_sound:
  assumes "lead_ranges (int b) = Some rs" "list_all2 byte_within rs bs"
  shows "\<exists>cp. scalar_value cp \<and> 0x80 \<le> cp \<and> codepoint_bytes cp = b # bs"
proof -
  have tail: "byte_within (0x80, 0xBF) y \<longleftrightarrow> (\<exists>m. y = 128 + m \<and> m < 64)" for y
    using byte_low [of 0 63 y] by auto
  have second: "byte_within (0xA0, 0xBF) y \<longleftrightarrow> (\<exists>m. y = 128 + m \<and> 32 \<le> m \<and> m < 64)"
    "byte_within (0x80, 0x9F) y \<longleftrightarrow> (\<exists>m. y = 128 + m \<and> m < 32)"
    "byte_within (0x90, 0xBF) y \<longleftrightarrow> (\<exists>m. y = 128 + m \<and> 16 \<le> m \<and> m < 64)"
    "byte_within (0x80, 0x8F) y \<longleftrightarrow> (\<exists>m. y = 128 + m \<and> m < 16)" for y
    using byte_low [of 32 63 y] byte_low [of 0 31 y] byte_low [of 16 63 y] byte_low [of 0 15 y] by auto
  consider "194 \<le> b" "b \<le> 223" "rs = [(0x80, 0xBF)]"
    | q where "b = 224 + q" "q < 16" "rs = [(if q = 0 then 0xA0 else 0x80, if q = 13 then 0x9F else 0xBF), (0x80, 0xBF)]"
    | q where "b = 240 + q" "q \<le> 4"
        "rs = [(if q = 0 then 0x90 else 0x80, if q = 4 then 0x8F else 0xBF), (0x80, 0xBF), (0x80, 0xBF)]"
  proof -
    have "(194 \<le> b \<and> b \<le> 223 \<and> rs = [(0x80, 0xBF)]) \<or>
      (224 \<le> b \<and> b < 240 \<and> rs = [(if b = 224 then 0xA0 else 0x80, if b = 237 then 0x9F else 0xBF), (0x80, 0xBF)]) \<or>
      (240 \<le> b \<and> b \<le> 244 \<and> rs = [(if b = 240 then 0x90 else 0x80, if b = 244 then 0x8F else 0xBF), (0x80, 0xBF), (0x80, 0xBF)])"
      using assms(1) unfolding lead_ranges_def by (auto split: if_splits)
    then show thesis using that(1) that(2) [of "b - 224"] that(3) [of "b - 240"]
      by (elim disjE conjE; simp add: le_imp_diff_is_add; cases "b = 237"; cases "b = 244"; simp)
  qed
  then show ?thesis
  proof cases
    case 1
    then obtain j where "bs = [128 + j]" "j < 64" using assms(2) by (auto simp: list_all2_Cons1 tail)
    then show ?thesis using lead_sound_2 [OF 1(1,2)] by simp
  next
    case 2
    then obtain m j where "bs = [128 + m, 128 + j]" "m < 64" "j < 64" "q = 0 \<Longrightarrow> 32 \<le> m" "q = 13 \<Longrightarrow> m < 32"
      using assms(2) by (auto simp: list_all2_Cons1 tail second split: if_splits)
    then show ?thesis using lead_sound_3 [OF 2(2)] 2(1) by simp
  next
    case 3
    then obtain m k l where "bs = [128 + m, 128 + k, 128 + l]" "m < 64" "k < 64" "l < 64" "q = 0 \<Longrightarrow> 16 \<le> m" "q = 4 \<Longrightarrow> m < 16"
      using assms(2) by (auto simp: list_all2_Cons1 tail second split: if_splits)
    then show ?thesis using lead_sound_4 [OF 3(2)] 3(1) by simp
  qed
qed


lemma hex_value_nat:
  "(0x30 \<le> (of_char c :: int) \<and> (of_char c :: int) \<le> 0x39 \<longrightarrow> hex_value c = Some (nat (of_char c - 0x30))) \<and>
   (0x41 \<le> (of_char c :: int) \<and> (of_char c :: int) \<le> 0x46 \<longrightarrow> hex_value c = Some (nat (of_char c - 0x37))) \<and>
   (0x61 \<le> (of_char c :: int) \<and> (of_char c :: int) \<le> 0x66 \<longrightarrow> hex_value c = Some (nat (of_char c - 0x57)))"
  unfolding of_char_int_nat by (auto simp: hex_value_def Let_def)

lemma codepoint_digit_sound:
  assumes "get_codepoint_from (f # fs) cp lx = (x, lx')" "x \<noteq> - 1" "strict_at lx r"
  obtains c d lx1 r1 where "r = c # r1" "hex_value c = Some d" "strict_on lx1 r1" "same_buffer lx lx1"
    "get_codepoint_from fs (cp + push_bit f (int d)) lx1 = (x, lx')"
proof -
  let ?c = "lx_current (lex_get lx)"
  have code: "0x30 \<le> ?c \<and> ?c \<le> 0x39 \<or> 0x41 \<le> ?c \<and> ?c \<le> 0x46 \<or> 0x61 \<le> ?c \<and> ?c \<le> 0x66"
    using assms(1,2) by (auto simp: Let_def split: if_splits)
  then have "?c \<noteq> eof" by (auto simp: eof_def)
  with assms(3) obtain c r1 where c: "r = c # r1" "strict_on (lex_get lx) r1" "?c = of_char c" by (rule strict_char)
  from code hex_value_nat [of c] c(3) have "\<exists>d. hex_value c = Some d \<and>
      get_codepoint_from fs (cp + push_bit f (int d)) (lex_get lx) = (x, lx')"
    using assms(1) by (elim disjE) (auto simp: Let_def)
  then show thesis using that c strict_get(3) [OF assms(3)] by (auto simp: same_buffer_def)
qed

lemma get_codepoint_sound:
  assumes "get_codepoint lx = (x, lx')" "x \<noteq> - 1" "strict_at lx r"
  obtains h u r' where "r = h @ r'" "hex_number h u" "x = int u" "strict_on lx' r'" "same_buffer lx lx'"
proof -
  from assms have "get_codepoint_from [12, 8, 4, 0] 0 lx = (x, lx')" by (simp add: get_codepoint_def)
  from codepoint_digit_sound [OF this assms(2,3)] obtain c1 d1 lx1 r1 where 1: "r = c1 # r1" "hex_value c1 = Some d1"
    "strict_on lx1 r1" "same_buffer lx lx1" "get_codepoint_from [8, 4, 0] (0 + push_bit 12 (int d1)) lx1 = (x, lx')" .
  from codepoint_digit_sound [OF 1(5) assms(2) strict_on_at [OF 1(3)]] obtain c2 d2 lx2 r2 where 2: "r1 = c2 # r2"
    "hex_value c2 = Some d2" "strict_on lx2 r2" "same_buffer lx1 lx2"
    "get_codepoint_from [4, 0] (0 + push_bit 12 (int d1) + push_bit 8 (int d2)) lx2 = (x, lx')" .
  from codepoint_digit_sound [OF 2(5) assms(2) strict_on_at [OF 2(3)]] obtain c3 d3 lx3 r3 where 3: "r2 = c3 # r3"
    "hex_value c3 = Some d3" "strict_on lx3 r3" "same_buffer lx2 lx3"
    "get_codepoint_from [0] (0 + push_bit 12 (int d1) + push_bit 8 (int d2) + push_bit 4 (int d3)) lx3 = (x, lx')" .
  from codepoint_digit_sound [OF 3(5) assms(2) strict_on_at [OF 3(3)]] obtain c4 d4 lx4 r4 where 4: "r3 = c4 # r4"
    "hex_value c4 = Some d4" "strict_on lx4 r4" "same_buffer lx3 lx4" "get_codepoint_from []
      (0 + push_bit 12 (int d1) + push_bit 8 (int d2) + push_bit 4 (int d3) + push_bit 0 (int d4)) lx4 = (x, lx')" .
  show thesis
  proof (rule that)
    show "r = [c1, c2, c3, c4] @ r4" using 1(1) 2(1) 3(1) 4(1) by simp
    show "hex_number [c1, c2, c3, c4] (4096 * d1 + 256 * d2 + 16 * d3 + d4)"
      unfolding hex_number_def using 1(2) 2(2) 3(2) 4(2) by blast
    show "x = int (4096 * d1 + 256 * d2 + 16 * d3 + d4)" using 4(5) by (simp add: push_bit_eq_mult)
    show "strict_on lx' r4" using 4(3,5) by simp
    show "same_buffer lx lx'" using 1(4) 2(4) 3(4) 4(4,5) by (simp add: same_buffer_def)
  qed
qed

text \<open>What a step of the loop has read: the text \<open>t\<close>, for the characters \<open>s\<close>.\<close>

definition has_read :: "lexer \<Rightarrow> string \<Rightarrow> string \<Rightarrow> lexer \<Rightarrow> string \<Rightarrow> bool" where
  "has_read lx r s lx' t \<longleftrightarrow>
     (\<exists>r'. r = t @ r' \<and> strict_on lx' r' \<and> lx_token_buffer lx' = lx_token_buffer lx @ s)"

lemma unicode_escape_sound:
  assumes "scan_unicode_escape lx = (True, lx')" "strict_at lx r"
  shows "\<exists>s t. has_read lx r s lx' t \<and> char_text s (u_prefix @ t)"
proof -
  obtain x1 lx1 where x1: "get_codepoint lx = (x1, lx1)" by fastforce
  obtain x2 lx4 where x2: "get_codepoint (lex_get (lex_get lx1)) = (x2, lx4)" by fastforce
  note scan = assms(1) [unfolded scan_unicode_escape_def Let_def x1 prod.case x2]
  have "x1 \<noteq> - 1" using scan by (auto split: if_splits)
  from get_codepoint_sound [OF x1 this assms(2)] obtain h1 u1 r1 where
    1: "r = h1 @ r1" "hex_number h1 u1" "x1 = int u1" "strict_on lx1 r1" "same_buffer lx lx1" .
  show ?thesis
  proof (cases "0xD800 \<le> u1 \<and> u1 \<le> 0xDBFF")
    case True
    let ?s = "map char_of (codepoint_bytes (0x10000 + 0x400 * (u1 - 0xD800) + (nat x2 - 0xDC00)))"
    have c: "lx_current (lex_get lx1) = of_char (CHR 0x5C)" "lx_current (lex_get (lex_get lx1)) = of_char (CHR ''u'')"
      "x2 \<noteq> - 1" "0xDC00 \<le> x2" "x2 \<le> 0xDFFF"
      and lx': "lx' = add_bytes (codepoint_bytes (nat ((push_bit 10 x1 + x2 - 0x35FDC00) mod 2 ^ 32))) lx4"
      using scan 1(3) True by (auto split: if_splits)
    obtain r2 where 2: "r1 = CHR 0x5C # r2" "strict_on (lex_get lx1) r2" using strict_code [OF strict_on_at [OF 1(4)] c(1)] .
    obtain r3 where 3: "r2 = CHR ''u'' # r3" "strict_on (lex_get (lex_get lx1)) r3"
      using strict_code [OF strict_on_at [OF 2(2)] c(2)] .
    obtain h2 u2 r4 where 4: "r3 = h2 @ r4" "hex_number h2 u2" "x2 = int u2" "strict_on lx4 r4"
      "same_buffer (lex_get (lex_get lx1)) lx4" using get_codepoint_sound [OF x2 c(3) strict_on_at [OF 3(2)]] .
    have u2: "0xDC00 \<le> u2" "u2 \<le> 0xDFFF" using c(4,5) 4(3) by simp_all
    have "char_text ?s (u_prefix @ h1 @ u_prefix @ h2)"
      using char_text_code(3) [OF 1(2) 4(2) _ _ u2] True 4(3) by simp
    moreover have "has_read lx r ?s lx' (h1 @ u_prefix @ h2)"
      unfolding has_read_def using 1 2 3 4 True lx' surrogate_pair [OF _ _ u2, of u1]
        strict_get(3) [OF strict_on_at [OF 1(4)]] strict_get(3) [OF strict_on_at [OF 2(2)]]
      by (intro exI [of _ r4]) (simp add: same_buffer_def u_prefix_def)
    ultimately show ?thesis by blast
  next
    case False
    then have "\<not> (0xDC00 \<le> u1 \<and> u1 \<le> 0xDFFF)" and lx': "lx' = add_bytes (codepoint_bytes u1) lx1"
      using scan 1(3) by (auto split: if_splits)
    moreover have "u1 < 65536" using get_codepoint_reads [of lx h1 r1 u1] 1(1,2) assms(2) by (auto simp: strict_at_def)
    ultimately have "char_text (map char_of (codepoint_bytes u1)) (u_prefix @ h1)"
      using False by (intro char_text_code(2) [OF 1(2)]) (auto simp: scalar_value_def)
    moreover have "has_read lx r (map char_of (codepoint_bytes u1)) lx' h1"
      unfolding has_read_def using 1 lx' by (auto simp: same_buffer_def)
    ultimately show ?thesis by blast
  qed
qed

lemma escape_sound:
  assumes "scan_escape lx = (True, lx')" "strict_at lx r"
  shows "\<exists>s t. has_read lx r s lx' t \<and> char_text s (CHR 0x5C # t)"
proof -
  let ?c = "lx_current (lex_get lx)"
  consider (letter) e c where "(e, c) \<in> {(0x22, 0x22), (0x5C, 0x5C), (0x2F, 0x2F), (0x62, 0x08), (0x66, 0x0C),
      (0x6E, 0x0A), (0x72, 0x0D), (0x74, 0x09 :: nat)}" "?c = int e" "lx' = lex_add (int c) (lex_get lx)"
    | (unicode) "?c = 0x75" "scan_unicode_escape (lex_get lx) = (True, lx')"
    using assms(1) unfolding scan_escape_def Let_def by (auto split: if_splits)
  then show ?thesis
  proof cases
    case letter
    then have e: "e < 256" "c < 256" by auto
    then have "?c = of_char (char_of e)" using letter(2) by (simp add: of_char_char_of_int)
    from strict_code [OF assms(2) this] obtain r1 where "r = char_of e # r1" "strict_on (lex_get lx) r1" .
    then have "has_read lx r [char_of c] lx' [char_of e]"
      using letter(3) strict_get(3) [OF assms(2)] by (simp add: has_read_def to_char_def nat_mod_distrib)
    then show ?thesis using char_escape [OF letter(1)] by blast
  next
    case unicode
    then have "?c = of_char (CHR ''u'')" by simp
    from strict_code [OF assms(2) this] obtain r1 where 1: "r = CHR ''u'' # r1" "strict_on (lex_get lx) r1" .
    from unicode_escape_sound [OF unicode(2) strict_on_at [OF 1(2)]] obtain s t where
      st: "has_read (lex_get lx) r1 s lx' t" "char_text s (u_prefix @ t)" by blast
    then have "has_read lx r s lx' (CHR ''u'' # t)" using 1(1) strict_get(3) [OF assms(2)] by (auto simp: has_read_def)
    moreover have "u_prefix @ t = CHR 0x5C # CHR ''u'' # t" by (simp add: u_prefix_def)
    ultimately show ?thesis using st(2) by metis
  qed
qed


lemma string_loop_sound:
  assumes "scan_string_loop lx = (tok, lx')" "tok \<noteq> Tok_parse_error" "strict_at lx r"
  shows "tok = Tok_value_string \<and> (\<exists>s t. has_read lx r s lx' (t @ [CHR 0x22]) \<and> string_body s t)"
  using assms
proof (induction lx arbitrary: r rule: scan_string_loop.induct)
  case (1 lx)
  let ?c = "lx_current (lex_get lx)"
  note run = "1.prems"(1) [unfolded scan_string_loop.simps [of lx] Let_def]
  note buf = strict_get(3) [OF "1.prems"(3)]
  have c: "?c \<noteq> eof" using run "1.prems"(2) by (auto split: if_splits)
  with "1.prems"(3) obtain ch r1 where ch: "r = ch # r1" "strict_on (lex_get lx) r1" "?c = of_char ch" by (rule strict_char)
  have more: "tok = Tok_value_string \<and> (\<exists>s t. has_read lx r s lx' (t @ [CHR 0x22]) \<and> string_body s t)"
    if "has_read lx r s1 lx1 t1" "char_text s1 t1"
      "\<And>r1. strict_at lx1 r1 \<Longrightarrow> tok = Tok_value_string \<and> (\<exists>s t. has_read lx1 r1 s lx' (t @ [CHR 0x22]) \<and> string_body s t)"
    for s1 lx1 t1
  proof -
    from that(1) obtain r2 where 2: "r = t1 @ r2" "strict_on lx1 r2" "lx_token_buffer lx1 = lx_token_buffer lx @ s1"
      by (auto simp: has_read_def)
    from that(3) [OF strict_on_at [OF 2(2)]] obtain s t where 3: "tok = Tok_value_string"
      "has_read lx1 r2 s lx' (t @ [CHR 0x22])" "string_body s t" by blast
    then have "has_read lx r (s1 @ s) lx' ((t1 @ t) @ [CHR 0x22])" using 2 by (auto simp: has_read_def)
    then show ?thesis using 3(1) body_char [OF that(2) 3(3)] by blast
  qed
  consider (quote) "?c = of_char (CHR 0x22)" | (backslash) "?c = 0x5C"
    | (plain) "?c \<noteq> 0x22" "?c \<noteq> 0x5C" "plain_code ?c"
    | (other) "?c \<noteq> 0x22" "?c \<noteq> 0x5C" "\<not> ?c \<le> 0x1F" "\<not> plain_code ?c"
    using run "1.prems"(2) by (auto split: if_splits)
  then show ?case
  proof cases
    case quote
    then have "ch = CHR 0x22" using ch(3) by (metis code_eq_iff)
    moreover have "tok = Tok_value_string" "lx' = lex_get lx" using run quote by (simp_all add: eof_def)
    ultimately show ?thesis using ch buf body_end
      by (intro conjI exI [of _ "[]"]) (auto simp: has_read_def)
  next
    case backslash
    then obtain lx1 where esc: "scan_escape (lex_get lx) = (True, lx1)" "scan_string_loop lx1 = (tok, lx')"
      using run "1.prems"(2) by (auto simp: eof_def split: prod.splits bool.splits)
    have "of_char ch = (of_char (CHR 0x5C) :: int)" using backslash ch(3) by simp
    then have bs: "ch = CHR 0x5C" by (simp only: code_eq_iff)
    from escape_sound [OF esc(1) strict_on_at [OF ch(2)]] obtain s1 t1 where
      1: "has_read (lex_get lx) r1 s1 lx1 t1" "char_text s1 (CHR 0x5C # t1)" by blast
    have "has_read lx r s1 lx1 (CHR 0x5C # t1)" using 1(1) ch(1) bs buf by (auto simp: has_read_def)
    from more [OF this 1(2)] "1.IH"(1) [OF refl refl c _ backslash esc(1) [symmetric] refl esc(2) "1.prems"(2)] backslash
    show ?thesis by auto
  next
    case plain
    then have go: "scan_string_loop (lex_add ?c (lex_get lx)) = (tok, lx')" using run c by (auto simp: plain_code_def)
    have "has_read lx r [ch] (lex_add ?c (lex_get lx)) [ch]" using ch buf by (simp add: has_read_def)
    moreover have "char_text [ch] [ch]"
      using plain ch(3) by (intro char_plain) (auto simp: plain_code_def of_char_int_nat)
    moreover have "\<not> ?c \<le> 0x1F" using plain(3) by (simp add: plain_code_def)
    then have "tok = Tok_value_string \<and> (\<exists>s t. has_read (lex_add ?c (lex_get lx)) r' s lx' (t @ [CHR 0x22]) \<and> string_body s t)"
      if "strict_at (lex_add ?c (lex_get lx)) r'" for r'
      by (rule "1.IH"(2) [OF refl refl c plain(1,2) _ plain(3) go "1.prems"(2) that])
    ultimately show ?thesis by (rule more)
  next
    case other
    then obtain rs lx1 where rs: "lead_ranges ?c = Some rs" "next_byte_in_range rs (lex_get lx) = (True, lx1)"
      "scan_string_loop lx1 = (tok, lx')"
      using run "1.prems"(2) c by (auto split: option.splits prod.splits bool.splits)
    have "list_all (\<lambda>lh. 0 \<le> fst lh) rs" using rs(1) by (auto simp: lead_ranges_def split: if_splits)
    from bytes_in_range_sound [OF rs(2) [unfolded next_byte_in_range_def] _ this, of r1] ch(2) obtain bs r2 where
      2: "r1 = map char_of bs @ r2" "list_all2 byte_within rs bs" "strict_on lx1 r2"
      "lx_token_buffer lx1 = lx_token_buffer lx @ ch # map char_of bs" using ch(3) buf by auto
    obtain cp where cp: "scalar_value cp" "0x80 \<le> cp" "codepoint_bytes cp = of_char ch # bs"
      using lead_sound [of "of_char ch" rs bs] rs(1) ch(3) 2(2) by (auto simp: of_char_int_nat)
    have "has_read lx r (map char_of (codepoint_bytes cp)) lx1 (map char_of (codepoint_bytes cp))"
      using 2 ch(1) cp(3) by (simp add: has_read_def)
    moreover have "tok = Tok_value_string \<and> (\<exists>s t. has_read lx1 r' s lx' (t @ [CHR 0x22]) \<and> string_body s t)"
      if "strict_at lx1 r'" for r'
      by (rule "1.IH"(3) [OF refl refl c other rs(1) rs(2) [symmetric] refl rs(3) "1.prems"(2) that])
    ultimately show ?thesis by (intro more [OF _ char_text_code(1) [OF cp(1,2)]])
  qed
qed

section \<open>Numbers\<close>

lemma number_done_accepting: "number_next st c = Num_done \<Longrightarrow> accepting st"
  by (cases st) (auto simp: accepting_def split: if_splits)

lemma number_loop_sound:
  assumes "scan_number_loop D st ty lx = (tok, lx')" "tok \<noteq> Tok_parse_error" "strict_on lx r"
  shows "\<exists>t r1 st' ty' lx1. r = t @ r1 \<and> number_run st ty t = Some (st', ty') \<and> accepting st' \<and>
    strict_on lx1 r1 \<and> lx_token_buffer lx1 = lx_token_buffer lx @ t \<and> (tok, lx') = scan_number_done D ty' (lex_get lx1)"
  using assms
proof (induction D st ty lx arbitrary: r rule: scan_number_loop.induct)
  case (1 D st ty lx)
  let ?c = "lx_current (lex_get lx)"
  note run = "1.prems"(1) [unfolded scan_number_loop.simps [of D st ty lx] Let_def]
  show ?case
  proof (cases "number_next st ?c")
    case (Num_goto st1)
    then have "?c \<noteq> eof" using number_next_eof [of st st1] by auto
    with strict_on_at [OF "1.prems"(3)] obtain c r1 where c: "r = c # r1" "strict_on (lex_get lx) r1" "?c = of_char c"
      by (rule strict_char)
    have "lx_decimal_point (lex_get lx) = 0x2E" using c(2) by (simp add: strict_on_def under_way_def reads_def lex_ok_def)
    then have pt: "(if ?c = 0x2E then lx_decimal_point (lex_get lx) else ?c) = of_char c" using c(3) by simp
    note go = run [unfolded Num_goto number_action.case pt]
    from "1.IH" [OF refl refl refl Num_goto, unfolded pt, OF go "1.prems"(2), of r1] c(2) obtain t r2 st' ty' lx1 where
      2: "r1 = t @ r2" "number_run st1 (number_type_at st ty) t = Some (st', ty')" "accepting st'" "strict_on lx1 r2"
      "lx_token_buffer lx1 = lx_token_buffer lx @ c # t" "(tok, lx') = scan_number_done D ty' (lex_get lx1)"
      using strict_get(3) [OF strict_on_at [OF "1.prems"(3)]] by auto
    show ?thesis
      by (rule exI [of _ "c # t"]) (use 2 c Num_goto in auto)
  next
    case Num_done
    then have "(tok, lx') = scan_number_done D (number_type_at st ty) (lex_get lx)" using run by simp
    then show ?thesis using "1.prems"(3) number_done_accepting [OF Num_done]
      by (intro exI [of _ "[]"] exI [of _ r] exI [of _ st] exI [of _ "number_type_at st ty"] exI [of _ lx]) simp
  next
    case (Num_error m)
    then show ?thesis using run "1.prems"(2) by simp
  qed
qed

lemma number_done_ignore:
  "lx_ignore_comments (snd (scan_number_done D ty lx)) = lx_ignore_comments lx"
  by (simp add: scan_number_done_def Let_def split: option.split)

lemma scan_number_sound:
  assumes "scan_number D lx = (tok, lx')" "tok \<noteq> Tok_parse_error" "strict_on lx r"
    and c: "lx_current lx = of_char c" "c = CHR ''-'' \<or> is_digit_code (of_char c)"
  shows "\<exists>t r1. r = t @ r1 \<and> strict_on lx' r1 \<and> number_type (c # t) \<noteq> None \<and>
    tok \<in> {Tok_value_unsigned, Tok_value_integer, Tok_value_float} \<and> token_value tok lx' = number_value D (c # t)"
proof -
  define st where "st = (if c = CHR ''-'' then Num_minus else if c = CHR ''0'' then Num_zero else Num_any1)"
  have st: "(if (of_char c :: int) = 0x2D then Num_minus else if (of_char c :: int) = 0x30 then Num_zero else Num_any1) = st"
    using code_eq_iff [of c "CHR ''-''"] code_eq_iff [of c "CHR ''0''"] by (auto simp: st_def)
  have "scan_number_loop D st Tok_value_unsigned (lex_add (of_char c) (lex_reset lx)) = (tok, lx')"
    using assms(1) unfolding scan_number_def st [symmetric] by (simp add: c(1) Let_def split: if_splits)
  moreover have "strict_on (lex_add (of_char c) (lex_reset lx)) r" using assms(3) by simp
  ultimately obtain t r1 st' ty lx1 where
    1: "r = t @ r1" "number_run st Tok_value_unsigned t = Some (st', ty)" "accepting st'" "strict_on lx1 r1"
    "lx_token_buffer lx1 = c # t" "(tok, lx') = scan_number_done D ty (lex_get lx1)"
    using number_loop_sound [of D st Tok_value_unsigned "lex_add (of_char c) (lex_reset lx)" tok lx' r] assms(2) by force
  have ty: "number_type (c # t) = Some ty" using 1(2,3) c(2) by (simp add: number_type_def st_def)
  from scan_number_done_value [OF _ 1(5) ty, of r1 D] 1(4,6)
  have "under_way lx' r1" "token_value tok lx' = number_value D (c # t)"
    "tok \<in> {Tok_value_unsigned, Tok_value_integer, Tok_value_float}" by (auto simp: strict_on_def)
  moreover have "\<not> lx_ignore_comments lx'"
    using number_done_ignore [of D ty "lex_get lx1"] 1(4,6) by (metis snd_conv ignore_get strict_on_def)
  ultimately show ?thesis using 1(1) ty by (auto simp: strict_on_def)
qed

section \<open>Tokens\<close>

lemma literal_sound:
  assumes "scan_literal t ty lx = (tok, lx')" "tok \<noteq> Tok_parse_error" "strict_on lx r" "CHR 0xFF \<notin> set t"
  shows "tok = ty \<and> (\<exists>r1. r = t @ r1 \<and> strict_on lx' r1)"
  using assms
proof (induction t ty lx arbitrary: r rule: scan_literal.induct)
  case (2 c t ty lx)
  then have c: "to_char (lx_current (lex_get lx)) = c" and go: "scan_literal t ty (lex_get lx) = (tok, lx')"
    by (auto simp: scan_literal.simps(2) Let_def split: if_splits)
  have "to_char eof = CHR 0xFF" by code_simp
  then have "lx_current (lex_get lx) \<noteq> eof" using c "2.prems"(4) by auto
  with strict_on_at [OF "2.prems"(3)] obtain d r1 where d: "r = d # r1" "strict_on (lex_get lx) r1"
    "lx_current (lex_get lx) = of_char d" by (rule strict_char)
  then show ?case using "2.IH" [OF refl _ go, of r1] "2.prems"(2,4) c by auto
qed simp

lemma ignore_skip_whitespace [simp]: "lx_ignore_comments (skip_whitespace lx) = lx_ignore_comments lx"
proof (induction lx rule: skip_whitespace.induct)
  case (1 lx)
  then show ?case by (subst skip_whitespace.simps) (auto simp: Let_def)
qed

lemma skip_whitespace_sound:
  assumes "strict_at lx r"
  obtains (eof) "white r" "strict_on (skip_whitespace lx) []" "lx_current (skip_whitespace lx) = eof"
    | (char) w c r' where "r = w @ c # r'" "white w" "strict_on (skip_whitespace lx) r'"
        "lx_current (skip_whitespace lx) = of_char c" "\<not> is_white (of_char c)"
proof -
  define w where "w = takeWhile (\<lambda>c. is_white (of_char c)) r"
  define u where "u = dropWhile (\<lambda>c. is_white (of_char c)) r"
  have r: "r = w @ u" by (simp add: w_def u_def)
  have w: "white w" by (auto simp: w_def white_is_white dest: set_takeWhileD)
  have rd: "reads lx (w @ u)" "\<not> lx_ignore_comments lx" using assms r by (simp_all add: strict_at_def)
  show thesis
  proof (cases u)
    case Nil
    then show thesis using skip_whitespace_reads(1) [OF rd(1) w Nil] rd(2) r w eof by (simp add: strict_on_def)
  next
    case (Cons c r')
    then have "\<not> is_white (of_char c)" unfolding u_def by (metis dropWhile_eq_Cons_conv)
    then show thesis using skip_whitespace_reads(2) [OF rd(1) w Cons] rd(2) r w Cons char by (auto simp: strict_on_def)
  qed
qed

text \<open>The text a token was read from.\<close>

definition token_text :: "strtod \<Rightarrow> token_type \<Rightarrow> lexer \<Rightarrow> string \<Rightarrow> bool" where
  "token_text D tok lx t \<longleftrightarrow>
     (case tok of
        Tok_begin_array \<Rightarrow> t = ''[''
      | Tok_end_array \<Rightarrow> t = '']''
      | Tok_begin_object \<Rightarrow> t = ''{''
      | Tok_end_object \<Rightarrow> t = ''}''
      | Tok_name_separator \<Rightarrow> t = '':''
      | Tok_value_separator \<Rightarrow> t = '',''
      | Tok_literal_true \<Rightarrow> t = ''true''
      | Tok_literal_false \<Rightarrow> t = ''false''
      | Tok_literal_null \<Rightarrow> t = ''null''
      | Tok_value_string \<Rightarrow> (\<exists>b. t = CHR 0x22 # b @ [CHR 0x22] \<and> string_body (lx_token_buffer lx) b)
      | Tok_value_unsigned \<Rightarrow> token_value tok lx = number_value D t
      | Tok_value_integer \<Rightarrow> token_value tok lx = number_value D t
      | Tok_value_float \<Rightarrow> token_value tok lx = number_value D t
      | _ \<Rightarrow> False)"

lemma scan_token_sound:
  assumes "scan_token D lx = (tok, lx')" "strict_on lx r" "lx_current lx = of_char c"
  shows "tok = Tok_parse_error \<or> tok = Tok_end_of_input \<and> c = CHR 0x00 \<or>
    (\<exists>t r'. c # r = t @ r' \<and> strict_on lx' r' \<and> token_text D tok lx' t)"
proof (cases "tok = Tok_parse_error")
  case False
  note run = assms(1) [unfolded scan_token_def Let_def assms(3)]
  have lit: ?thesis if "c = d" "scan_literal t ty lx = (tok, lx')" "CHR 0xFF \<notin> set t"
    "token_text D ty lx' (d # t)" for d t ty
  proof -
    from literal_sound [OF that(2) False assms(2) that(3)] obtain r1 where "tok = ty" "r = t @ r1" "strict_on lx' r1" by blast
    then show ?thesis using that(1,4) by (intro disjI2 exI [of _ "d # t"] exI [of _ r1]) simp
  qed
  have code: "(of_char c :: int) = of_char d \<longleftrightarrow> c = d" for d by (rule code_eq_iff)
  note codes = code [of "CHR ''[''"] code [of "CHR '']''"] code [of "CHR ''{''"] code [of "CHR ''}''"] code [of "CHR '':''"]
    code [of "CHR '',''"] code [of "CHR ''t''"] code [of "CHR ''f''"] code [of "CHR ''n''"] code [of "CHR 0x22"]
    code [of "CHR ''-''"] code [of "CHR 0x00"]
  consider (punct) "(c, tok) \<in> {(CHR ''['', Tok_begin_array), (CHR '']'', Tok_end_array), (CHR ''{'', Tok_begin_object),
      (CHR ''}'', Tok_end_object), (CHR '':'', Tok_name_separator), (CHR '','', Tok_value_separator)}" "lx' = lx"
    | (true) "c = CHR ''t''" "scan_literal ''rue'' Tok_literal_true lx = (tok, lx')"
    | (false) "c = CHR ''f''" "scan_literal ''alse'' Tok_literal_false lx = (tok, lx')"
    | (null) "c = CHR ''n''" "scan_literal ''ull'' Tok_literal_null lx = (tok, lx')"
    | (string) "c = CHR 0x22" "scan_string lx = (tok, lx')"
    | (number) "c = CHR ''-'' \<or> is_digit_code (of_char c)" "scan_number D lx = (tok, lx')"
    | (zero) "c = CHR 0x00" "tok = Tok_end_of_input"
    using run codes False by (auto split: if_splits)
  then show ?thesis
  proof cases
    case punct
    then show ?thesis using assms(2) by (intro disjI2 exI [of _ "[c]"] exI [of _ r]) (auto simp: token_text_def)
  next
    case true
    then show ?thesis by (rule lit) (simp_all add: token_text_def)
  next
    case false
    then show ?thesis by (rule lit) (simp_all add: token_text_def)
  next
    case null
    then show ?thesis by (rule lit) (simp_all add: token_text_def)
  next
    case string
    from string_loop_sound [OF string(2) [unfolded scan_string_def] False, of r] assms(2) obtain s b where
      "tok = Tok_value_string" "has_read (lex_reset lx) r s lx' (b @ [CHR 0x22])" "string_body s b" by auto
    moreover obtain r1 where "r = (b @ [CHR 0x22]) @ r1" "strict_on lx' r1" "lx_token_buffer lx' = s"
      using calculation(2) by (auto simp: has_read_def)
    ultimately have "c # r = (CHR 0x22 # b @ [CHR 0x22]) @ r1 \<and> strict_on lx' r1 \<and>
        token_text D tok lx' (CHR 0x22 # b @ [CHR 0x22])" using string(1) by (simp add: token_text_def)
    then show ?thesis by blast
  next
    case number
    from scan_number_sound [OF number(2) False assms(2,3) number(1)] obtain t r1 where
      "r = t @ r1" "strict_on lx' r1" "tok \<in> {Tok_value_unsigned, Tok_value_integer, Tok_value_float}"
      "token_value tok lx' = number_value D (c # t)" by blast
    then have "c # r = (c # t) @ r1 \<and> strict_on lx' r1 \<and> token_text D tok lx' (c # t)" by (auto simp: token_text_def)
    then show ?thesis by blast
  next
    case zero
    then show ?thesis by simp
  qed
qed simp

text \<open>A token at the text \<open>r\<close>: an error, the end, or the text of the token after white space.\<close>

definition token_at :: "strtod \<Rightarrow> string \<Rightarrow> token_type \<Rightarrow> lexer \<Rightarrow> bool" where
  "token_at D r tok lx \<longleftrightarrow>
     tok = Tok_parse_error \<or> tok = Tok_end_of_input \<and> text_end r \<or>
     (\<exists>w t r'. r = w @ t @ r' \<and> white w \<and> strict_on lx r' \<and> token_text D tok lx t)"

lemma scan_after_bom_sound:
  assumes "strict_at lx r" "scan_token D (skip_whitespace lx) = (tok, lx')"
  shows "token_at D r tok lx'"
  using assms(1)
proof (cases rule: skip_whitespace_sound)
  case eof
  then have "tok = Tok_end_of_input" using assms(2) by (simp add: scan_token_def eof_def is_digit_code_def)
  moreover have "text_end r" unfolding text_end_def using eof(1) by (intro exI [of _ r] exI [of _ "[]"]) simp
  ultimately show ?thesis by (simp add: token_at_def)
next
  case (char w c r')
  from scan_token_sound [OF assms(2) char(3,4)]
  consider "tok = Tok_parse_error" | "tok = Tok_end_of_input" "c = CHR 0x00"
    | t r2 where "c # r' = t @ r2" "strict_on lx' r2" "token_text D tok lx' t" by blast
  then show ?thesis
  proof cases
    case 2
    then have "text_end r" unfolding text_end_def using char(1,2) by (intro exI [of _ w] exI [of _ "c # r'"]) simp
    then show ?thesis using 2(1) by (simp add: token_at_def)
  next
    case 3
    then show ?thesis unfolding token_at_def using char(1,2) by metis
  qed (simp add: token_at_def)
qed

lemma strict_no_comments: "\<not> lx_ignore_comments lx \<Longrightarrow> skip_comments lx = (True, lx)"
  by (subst skip_comments.simps) simp

lemma scan_sound:
  assumes "strict_on lx r" "scan D lx = (tok, lx')"
  shows "token_at D r tok lx'"
proof -
  have "skip_comments (skip_whitespace lx) = (True, skip_whitespace lx)"
    using assms(1) by (intro strict_no_comments) (simp add: strict_on_def)
  then have "scan_token D (skip_whitespace lx) = (tok, lx')"
    using assms by (simp add: scan_def strict_on_def under_way_def)
  then show ?thesis by (rule scan_after_bom_sound [OF strict_on_at [OF assms(1)]])
qed

text \<open>The first token: the byte order mark may come before it.\<close>

lemma skip_bom_sound:
  assumes "skip_bom lx = (True, lx')" "strict_at lx t"
  shows "strict_at lx' t \<or> (\<exists>r. t = bom @ r \<and> strict_at lx' r)"
proof (cases "lx_current (lex_get lx) = of_char (CHR 0xEF)")
  case True
  then have c: "lx_current (lex_get (lex_get lx)) = of_char (CHR 0xBB)"
    "lx_current (lex_get (lex_get (lex_get lx))) = of_char (CHR 0xBF)" "lx' = lex_get (lex_get (lex_get lx))"
    using assms(1) by (auto simp: skip_bom_def Let_def split: if_splits)
  obtain r1 where 1: "t = CHR 0xEF # r1" "strict_on (lex_get lx) r1" using strict_code [OF assms(2) True] .
  obtain r2 where 2: "r1 = CHR 0xBB # r2" "strict_on (lex_get (lex_get lx)) r2"
    using strict_code [OF strict_on_at [OF 1(2)] c(1)] .
  obtain r3 where "r2 = CHR 0xBF # r3" "strict_on lx' r3"
    using strict_code [OF strict_on_at [OF 2(2)] c(2)] c(3) by auto
  then show ?thesis using 1 2 by (auto simp: bom_def)
next
  case False
  then have "lx' = lex_unget (lex_get lx)" using assms(1) by (simp add: skip_bom_def Let_def)
  then show ?thesis using unget_get(1) [of lx t] assms(2) by (simp add: strict_at_def)
qed

lemma scan_first_sound:
  assumes "scan D (new_lexer False t) = (tok, lx)" "tok \<noteq> Tok_parse_error"
  shows "\<exists>b r. t = b @ r \<and> (b = [] \<or> b = bom) \<and> token_at D r tok lx"
proof -
  have t: "strict_at (new_lexer False t) t" "lx_chars_read_total (new_lexer False t) = 0"
    using reads_new by (simp_all add: strict_at_def) (simp_all add: new_lexer_def)
  obtain ok lx1 where b: "skip_bom (new_lexer False t) = (ok, lx1)" by fastforce
  then have ok: "ok = True" using assms t(2) by (cases ok) (simp_all add: scan_def)
  have "strict_at lx1 t \<or> (\<exists>r. t = bom @ r \<and> strict_at lx1 r)" using skip_bom_sound [OF _ t(1)] b ok by simp
  then obtain b r where r: "t = b @ r" "b = [] \<or> b = bom" "strict_at lx1 r" by (metis append_Nil)
  have "skip_comments (skip_whitespace lx1) = (True, skip_whitespace lx1)"
    using r(3) by (intro strict_no_comments) (simp add: strict_at_def)
  then have "scan_token D (skip_whitespace lx1) = (tok, lx)" using assms(1) t(2) b ok by (simp add: scan_def)
  then show ?thesis using scan_after_bom_sound [OF r(3)] r by blast
qed

end
