(* ===== verification/SS_Accept.thy ===== *)
theory SS_Accept
  imports SS_ParseText SS_DumpText
begin

text \<open>
  The two receivers of the events of the parser, compared: \<open>json_sax_acceptor\<close> and
  \<open>json_sax_dom_parser\<close> are driven through the same turns, so \<open>accept\<close> says whether \<open>parse\<close> gives a value.
  The stack of the parser and the stack of the receiver are of the same shape at every turn, so the
  receiver never writes through a pointer that has not been set.
\<close>

section \<open>The two stacks\<close>

definition shape_ok :: "bool \<Rightarrow> frame \<Rightarrow> bool" where
  "shape_ok b f \<longleftrightarrow> (case f of F_array xs \<Rightarrow> b | F_object m k \<Rightarrow> \<not> b \<and> k \<noteq> None)"

definition frames :: "bool list \<Rightarrow> dom_parser \<Rightarrow> bool" where
  "frames states d \<longleftrightarrow> list_all2 shape_ok states (dp_stack d)"

text \<open>Inside an object, before a key.\<close>

definition before_key :: "bool list \<Rightarrow> dom_parser \<Rightarrow> bool" where
  "before_key states d \<longleftrightarrow>
     (\<exists>m k st outer. dp_stack d = F_object m k # st \<and> states = False # outer \<and> list_all2 shape_ok outer st)"

lemma shape_ok_simps [simp]:
  "shape_ok b (F_array xs) \<longleftrightarrow> b" "shape_ok b (F_object m k) \<longleftrightarrow> \<not> b \<and> k \<noteq> None"
  by (simp_all add: shape_ok_def)

lemma shape_ok_iff: "shape_ok True f \<longleftrightarrow> (\<exists>xs. f = F_array xs)" "shape_ok False f \<longleftrightarrow> (\<exists>m k. f = F_object m (Some k))"
  by (cases f; simp; auto)+

lemma frames_array: "frames (True # states) d \<longleftrightarrow> (\<exists>xs st. dp_stack d = F_array xs # st \<and> list_all2 shape_ok states st)"
  by (auto simp: frames_def list_all2_Cons1 shape_ok_iff)

lemma frames_object:
  "frames (False # states) d \<longleftrightarrow> (\<exists>m k st. dp_stack d = F_object m (Some k) # st \<and> list_all2 shape_ok states st)"
  by (auto simp: frames_def list_all2_Cons1 shape_ok_iff)

lemma frames_before_key: "frames (False # states) d \<Longrightarrow> before_key (False # states) d"
  by (auto simp: frames_object before_key_def)

text \<open>
  What the acceptor gives and what the parser of values gives: an error of the second is \<open>false\<close> of
  the first, and it is an error of syntax or of a number out of range.
\<close>

definition syntax_errors :: "cpp_error set" where
  "syntax_errors = {Json_parse_error, Json_out_of_range}"

definition agrees :: "bool \<Rightarrow> ('a \<Rightarrow> 'b \<Rightarrow> bool) \<Rightarrow> 'a sax \<Rightarrow> 'b sax \<Rightarrow> bool" where
  "agrees ex R a b \<longleftrightarrow>
     (case b of
        Inl e \<Rightarrow> ex \<and> e \<in> syntax_errors \<and> a = Inr None
      | Inr None \<Rightarrow> \<not> ex \<and> a = Inr None
      | Inr (Some y) \<Rightarrow> \<exists>x. a = Inr (Some x) \<and> R x y)"

lemma agrees_simps [simp]:
  "agrees ex R a (Inr (Some y)) \<longleftrightarrow> (\<exists>x. a = Inr (Some x) \<and> R x y)"
  "agrees ex R a (Inl e) \<longleftrightarrow> ex \<and> e \<in> syntax_errors \<and> a = Inr None"
  "agrees ex R a (Inr None) \<longleftrightarrow> \<not> ex \<and> a = Inr None"
  by (simp_all add: agrees_def)

lemma agrees_bind_from:
  assumes "agrees ex R a b" "\<And>x y. a = Inr (Some x) \<Longrightarrow> R x y \<Longrightarrow> agrees ex S (f x) (g y)"
  shows "agrees ex S (bind_sax a f) (bind_sax b g)"
proof -
  consider e where "b = Inl e" | "b = Inr None" | y where "b = Inr (Some y)" by (metis not_None_eq sum.exhaust)
  then show ?thesis by cases (use assms in auto)
qed

lemma agrees_bind:
  "agrees ex R a b \<Longrightarrow> (\<And>x y. R x y \<Longrightarrow> agrees ex S (f x) (g y)) \<Longrightarrow> agrees ex S (bind_sax a f) (bind_sax b g)"
  by (rule agrees_bind_from)

lemma agrees_error:
  assumes "e \<in> syntax_errors"
  shows "agrees ex S (bind_sax (on_parse_error acceptor e s) (\<lambda>_. Inr None))
    (bind_sax (on_parse_error (dom_handler ex) e d) (\<lambda>_. Inr None))"
  using assms by (auto simp: acceptor_def)

section \<open>The events\<close>

lemma acceptor_simps [simp]:
  "on_null acceptor s = Inr (Some ())" "on_boolean acceptor b s = Inr (Some ())"
  "on_number_integer acceptor i s = Inr (Some ())" "on_number_unsigned acceptor n s = Inr (Some ())"
  "on_number_float acceptor r s = Inr (Some ())" "on_string acceptor t s = Inr (Some ())"
  "on_start_object acceptor s = Inr (Some ())" "on_key acceptor t s = Inr (Some ())"
  "on_end_object acceptor s = Inr (Some ())" "on_start_array acceptor s = Inr (Some ())"
  "on_end_array acceptor s = Inr (Some ())" "on_parse_error acceptor e s = Inr None"
  by (simp_all add: acceptor_def)

lemma put_value:
  assumes "frames states d"
  obtains d' where "handle_value v d = Inr d'" "frames states d'"
proof -
  have "\<exists>d'. handle_value v d = Inr d' \<and> frames states d'"
  proof (cases states)
    case Nil
    then show ?thesis using assms by (simp add: frames_def handle_value_def)
  next
    case (Cons b outer)
    then show ?thesis using assms by (cases b) (auto simp: frames_array frames_object handle_value_def)
  qed
  then show thesis using that by blast
qed

lemma agrees_value:
  assumes "frames states d"
  shows "agrees ex (\<lambda>_ d'. frames states d') (Inr (Some ())) (proceed (handle_value v d))"
proof -
  obtain d' where "handle_value v d = Inr d'" "frames states d'" by (rule put_value [OF assms])
  then show ?thesis by simp
qed

lemma agrees_end_array:
  assumes "frames (True # states) d"
  shows "agrees ex (\<lambda>_ d'. frames states d') (Inr (Some ())) (proceed (dom_end_array d))"
proof -
  from assms obtain xs st where d: "dp_stack d = F_array xs # st" "list_all2 shape_ok states st"
    by (auto simp: frames_array)
  then have "frames states (d\<lparr>dp_stack := st\<rparr>)" by (simp add: frames_def)
  then obtain d' where "handle_value (JArr xs) (d\<lparr>dp_stack := st\<rparr>) = Inr d'" "frames states d'" by (rule put_value)
  then show ?thesis using d by (simp add: dom_end_array_def)
qed

lemma agrees_end_object:
  assumes "before_key (False # states) d"
  shows "agrees ex (\<lambda>_ d'. frames states d') (Inr (Some ())) (proceed (dom_end_object d))"
proof -
  from assms obtain m k st where d: "dp_stack d = F_object m k # st" "list_all2 shape_ok states st"
    by (auto simp: before_key_def)
  then have "frames states (d\<lparr>dp_stack := st\<rparr>)" by (simp add: frames_def)
  then obtain d' where "handle_value (JObj m) (d\<lparr>dp_stack := st\<rparr>) = Inr d'" "frames states d'" by (rule put_value)
  then show ?thesis using d by (simp add: dom_end_object_def)
qed

lemma agrees_key:
  assumes "before_key states d"
  shows "agrees ex (\<lambda>_ d'. frames states d') (Inr (Some ())) (proceed (dom_key k d))"
  using assms by (auto simp: before_key_def dom_key_def frames_def)

section \<open>The turns\<close>

text \<open>The same place, and the two stacks of the same shape.\<close>

fun same_turn :: "unit turn \<Rightarrow> dom_parser turn \<Rightarrow> bool" where
  "same_turn (Turn_value states tok lx s) (Turn_value states' tok' lx' d) \<longleftrightarrow>
     states' = states \<and> tok' = tok \<and> lx' = lx \<and> frames states d"
| "same_turn (Turn_state states tok lx s) (Turn_state states' tok' lx' d) \<longleftrightarrow>
     states' = states \<and> tok' = tok \<and> lx' = lx \<and> frames states d"
| "same_turn (Turn_done tok lx s) (Turn_done tok' lx' d) \<longleftrightarrow> tok' = tok \<and> lx' = lx"
| "same_turn _ _ \<longleftrightarrow> False"

lemma agrees_scalar:
  assumes "agrees ex (\<lambda>_ d'. frames states d') a b"
  shows "agrees ex same_turn (scalar_turn states tok lx a) (scalar_turn states tok lx b)"
  unfolding scalar_turn_def by (rule agrees_bind [OF assms]) simp

lemma agrees_member:
  assumes "before_key states d"
  shows "agrees ex same_turn (parse_member acceptor D states tok lx s) (parse_member (dom_handler ex) D states tok lx d)"
proof -
  obtain tok1 lx1 where 1: "scan D lx = (tok1, lx1)" by fastforce
  obtain tok2 lx2 where 2: "scan D lx1 = (tok2, lx2)" by fastforce
  have "agrees ex same_turn
      (if tok1 \<noteq> Tok_name_separator then bind_sax (on_parse_error acceptor Json_parse_error s1) (\<lambda>_. Inr None)
       else Inr (Some (Turn_value states tok2 lx2 s1)))
      (if tok1 \<noteq> Tok_name_separator then bind_sax (on_parse_error (dom_handler ex) Json_parse_error d1) (\<lambda>_. Inr None)
       else Inr (Some (Turn_value states tok2 lx2 d1)))" if "frames states d1" for s1 d1
    using that by (auto simp: syntax_errors_def)
  from agrees_bind [OF agrees_key [OF assms, of ex "lx_token_buffer lx"] this] show ?thesis
    by (auto simp: parse_member_def 1 2 syntax_errors_def)
qed

lemma agrees_parse_value:
  assumes "frames states d"
  shows "agrees ex same_turn (parse_value acceptor D states tok lx s) (parse_value (dom_handler ex) D states tok lx d)"
proof -
  note scalar = agrees_scalar [OF agrees_value [OF assms]]
  obtain tok1 lx1 where 1: "scan D lx = (tok1, lx1)" by fastforce
  have o: "before_key (False # states) (dom_start_object d)" and a: "frames (True # states) (dom_start_array d)"
    using assms by (simp_all add: before_key_def frames_def dom_start_object_def dom_start_array_def)
  show ?thesis
  proof (cases tok)
    case Tok_begin_object
    then show ?thesis using agrees_scalar [OF agrees_end_object [OF o]] agrees_member [OF o] by (simp add: parse_value_def 1)
  next
    case Tok_begin_array
    then show ?thesis using agrees_scalar [OF agrees_end_array [OF a]] a by (simp add: parse_value_def 1)
  next
    case Tok_value_float
    then show ?thesis using scalar by (simp add: parse_value_def syntax_errors_def Let_def)
  qed (use scalar in \<open>simp_all add: parse_value_def syntax_errors_def\<close>)
qed

lemma agrees_parse_state:
  assumes "frames states d"
  shows "agrees ex same_turn (parse_state acceptor D states tok lx s) (parse_state (dom_handler ex) D states tok lx d)"
proof (cases states)
  case (Cons b outer)
  obtain tok1 lx1 where 1: "scan D lx = (tok1, lx1)" by fastforce
  obtain tok2 lx2 where 2: "scan D lx1 = (tok2, lx2)" by fastforce
  have pop: "agrees ex same_turn (bind_sax m (\<lambda>s1. Inr (Some (Turn_state outer tok1 lx1 s1))))
      (bind_sax m' (\<lambda>s1. Inr (Some (Turn_state outer tok1 lx1 s1))))"
    if "agrees ex (\<lambda>_ d'. frames outer d') m m'" for m m' using agrees_scalar [OF that] by (simp add: scalar_turn_def)
  show ?thesis
  proof (cases b)
    case True
    then show ?thesis using assms pop [OF agrees_end_array [of outer d]] Cons
      by (auto simp: parse_state_def 1 2 syntax_errors_def)
  next
    case False
    then have bk: "before_key (False # outer) d" using assms frames_before_key Cons by simp
    then show ?thesis using False agrees_member [OF bk] pop [OF agrees_end_object [OF bk]] Cons
      by (auto simp: parse_state_def 1 2 syntax_errors_def)
  qed
qed (simp add: parse_state_def)

lemma agrees_turns:
  "same_turn t t' \<Longrightarrow> agrees ex (\<lambda>(tok, lx, s) (tok', lx', d). tok' = tok \<and> lx' = lx)
    (parse_turns acceptor D t) (parse_turns (dom_handler ex) D t')"
proof (induction "acceptor" D t arbitrary: t' rule: parse_turns.induct)
  case (1 D tok lx s)
  then show ?case by (cases t') auto
next
  case (2 D states tok lx s)
  then obtain d where t': "t' = Turn_value states tok lx d" "frames states d" by (cases t') auto
  show ?case unfolding t'(1) parse_turns.simps
    by (rule agrees_bind_from [OF agrees_parse_value [OF t'(2)] "2.hyps"(1)]) simp_all
next
  case (3 D states tok lx s)
  then obtain d where t': "t' = Turn_state states tok lx d" "frames states d" by (cases t') auto
  show ?case unfolding t'(1) parse_turns.simps
    by (rule agrees_bind_from [OF agrees_parse_state [OF t'(2)] "3.hyps"(1)]) simp_all
qed

section \<open>The operations\<close>

lemma agrees_text:
  "agrees ex (\<lambda>_ _. True) (sax_parse_text acceptor D strict ig t ())
    (sax_parse_text (dom_handler ex) D strict ig t \<lparr>dp_root = JNull, dp_stack = []\<rparr>)"
proof -
  obtain tok lx where 1: "scan D (new_lexer ig t) = (tok, lx)" by fastforce
  let ?R = "\<lambda>(tok, lx, s) (tok', lx', d). tok' = tok \<and> lx' = lx" and ?d = "\<lparr>dp_root = JNull, dp_stack = []\<rparr>"
  have "same_turn (Turn_value [] tok lx ()) (Turn_value [] tok lx ?d)" by (simp add: frames_def)
  then have "agrees ex ?R (sax_parse_internal acceptor D tok lx ()) (sax_parse_internal (dom_handler ex) D tok lx ?d)"
    unfolding sax_parse_internal_def by (rule agrees_turns)
  then show ?thesis unfolding sax_parse_text_def 1 Let_def prod.case
    by (rule agrees_bind) (auto simp: syntax_errors_def)
qed

lemma parse_outcome:
  "\<exists>b. json_accept D ig t = Inr b"
  "json_accept D ig t = Inr True \<Longrightarrow> \<exists>v. json_parse D ex ig t = Inr v"
  "json_accept D ig t = Inr False \<Longrightarrow> \<exists>e \<in> syntax_errors. json_parse D True ig t = Inl e"
  "json_accept D ig t = Inr False \<Longrightarrow> json_parse D False ig t = Inr JDiscarded"
proof -
  note simps = json_accept_def json_parse_def parser_parse_sax
  have a: "agrees ex (\<lambda>_ _. True) (sax_parse_text acceptor D True ig t ())
      (sax_parse_text (dom_handler ex) D True ig t \<lparr>dp_root = JNull, dp_stack = []\<rparr>)" for ex
    by (rule agrees_text)
  show "\<exists>b. json_accept D ig t = Inr b"
    using a [of True] by (auto simp: simps agrees_def split: sum.splits option.splits)
  show "json_accept D ig t = Inr True \<Longrightarrow> \<exists>v. json_parse D ex ig t = Inr v"
    using a [of ex] by (auto simp: simps agrees_def split: sum.splits option.splits)
  show "json_accept D ig t = Inr False \<Longrightarrow> \<exists>e \<in> syntax_errors. json_parse D True ig t = Inl e"
    using a [of True] by (auto simp: simps agrees_def split: sum.splits option.splits)
  show "json_accept D ig t = Inr False \<Longrightarrow> json_parse D False ig t = Inr JDiscarded"
    using a [of False] by (auto simp: simps agrees_def split: sum.splits option.splits)
qed

text \<open>
  C32. \<open>accept\<close> and \<open>parse\<close> agree on every text, with the grammar or against it: \<open>accept\<close> says yes
  exactly when \<open>parse\<close> gives a value, and no exactly when \<open>parse\<close> throws a syntax error or a number out of
  range. There is no third outcome: \<open>accept\<close> does not throw, and the parser of values never writes to a
  member whose key has not been set.
\<close>

theorem accept_decides_parse:
  "(json_accept D ig t = Inr True \<longleftrightarrow> (\<exists>v. json_parse D True ig t = Inr v)) \<and>
   (json_accept D ig t = Inr False \<longleftrightarrow> json_parse D True ig t \<in> Inl ` syntax_errors) \<and>
   (json_accept D ig t = Inr False \<longleftrightarrow> json_accept D ig t \<noteq> Inr True)"
proof -
  from parse_outcome(1) obtain b where b: "json_accept D ig t = Inr b" by blast
  show ?thesis
  proof (cases b)
    case True
    then obtain v where "json_parse D True ig t = Inr v" using b parse_outcome(2) [of D ig t True] by auto
    then show ?thesis using b True by auto
  next
    case False
    then obtain e where "e \<in> syntax_errors" "json_parse D True ig t = Inl e" using b parse_outcome(3) [of D ig t] by auto
    then show ?thesis using b False by auto
  qed
qed

end
