(* ===== verification/SS_ParseSound.thy ===== *)
theory SS_ParseSound
  imports SS_LexSound SS_Accept
begin

text \<open>
  The converse of \<open>SS_ParseText\<close>: a text the parser gives a value for is a text of the grammar, for that
  value. The loop is followed backwards from where it ends; what is open on the stack of the receiver
  says what the text still to be read must close.
\<close>

section \<open>The text that closes what is open\<close>

text \<open>The rest of an array, or of an object, after one of its elements.\<close>

definition elements_tail :: "strtod \<Rightarrow> json list \<Rightarrow> string \<Rightarrow> bool" where
  "elements_tail D xs t \<longleftrightarrow>
     xs = [] \<and> white t \<or> (\<exists>w t'. t = w @ '','' @ t' \<and> white w \<and> elements_text D xs t')"

definition members_tail :: "strtod \<Rightarrow> (string \<times> json) list \<Rightarrow> string \<Rightarrow> bool" where
  "members_tail D kvs t \<longleftrightarrow>
     kvs = [] \<and> white t \<or> (\<exists>w t'. t = w @ '','' @ t' \<and> white w \<and> members_text D kvs t')"

lemma elements_cons:
  assumes "grammar D x t" "white w" "elements_tail D xs t'"
  shows "elements_text D (x # xs) (w @ t @ t')"
  using assms e_last [OF assms(1,2)] e_more [OF assms(1,2)] by (auto simp: elements_tail_def)

lemma members_cons:
  assumes "string_body k kt" "grammar D v t" "white w1" "white w2" "white w3" "members_tail D kvs t'"
  shows "members_text D ((k, v) # kvs) (w1 @ CHR 0x22 # kt @ CHR 0x22 # w2 @ '':'' @ w3 @ t @ t')"
  using assms m_last [OF assms(1-5)] m_more [OF assms(1-5)] by (auto simp: members_tail_def)

definition put_members :: "(string \<times> json) list \<Rightarrow> (string, json) fmap \<Rightarrow> (string, json) fmap" where
  "put_members kvs m = fold (\<lambda>(k, v). fmupd k v) kvs m"

lemma put_members_simps [simp]: "put_members [] m = m" "put_members ((k, v) # kvs) m = put_members kvs (fmupd k v m)"
  by (simp_all add: put_members_def)

text \<open>The text \<open>u\<close> closes everything the receiver \<open>d\<close> has open, and then its root is \<open>v\<close>.\<close>

inductive closes :: "strtod \<Rightarrow> dom_parser \<Rightarrow> string \<Rightarrow> json \<Rightarrow> bool" for D where
  closes_root: "dp_stack d = [] \<Longrightarrow> closes D d [] (dp_root d)"
| closes_array: "dp_stack d = F_array ys # st \<Longrightarrow> elements_tail D xs t \<Longrightarrow>
    handle_value (JArr (ys @ xs)) (d\<lparr>dp_stack := st\<rparr>) = Inr d' \<Longrightarrow> closes D d' u v \<Longrightarrow>
    closes D d (t @ CHR '']'' # u) v"
| closes_object: "dp_stack d = F_object m ko # st \<Longrightarrow> members_tail D kvs t \<Longrightarrow>
    handle_value (JObj (put_members kvs m)) (d\<lparr>dp_stack := st\<rparr>) = Inr d' \<Longrightarrow> closes D d' u v \<Longrightarrow>
    closes D d (t @ CHR ''}'' # u) v"

inductive_cases closes_elim: "closes D d u v"

lemma closes_nothing: "closes D d u v \<Longrightarrow> dp_stack d = [] \<Longrightarrow> u = [] \<and> v = dp_root d"
  by (erule closes_elim) simp_all

text \<open>An element, or a member, is read and the array, or the object, goes on to its end.\<close>

definition value_from :: "strtod \<Rightarrow> dom_parser \<Rightarrow> string \<Rightarrow> json \<Rightarrow> string \<Rightarrow> bool" where
  "value_from D d r v r' \<longleftrightarrow>
     (\<exists>w x t u d'. r = w @ t @ u @ r' \<and> white w \<and> grammar D x t \<and> handle_value x d = Inr d' \<and> closes D d' u v)"

definition elements_from :: "strtod \<Rightarrow> json list \<Rightarrow> dom_parser \<Rightarrow> string \<Rightarrow> json \<Rightarrow> string \<Rightarrow> bool" where
  "elements_from D ys d r v r' \<longleftrightarrow>
     (\<exists>xs t u d'. r = t @ CHR '']'' # u @ r' \<and> elements_text D xs t \<and> handle_value (JArr (ys @ xs)) d = Inr d' \<and>
        closes D d' u v)"

definition members_from :: "strtod \<Rightarrow> (string, json) fmap \<Rightarrow> dom_parser \<Rightarrow> string \<Rightarrow> json \<Rightarrow> string \<Rightarrow> bool" where
  "members_from D m d r v r' \<longleftrightarrow>
     (\<exists>kvs t u d'. r = t @ CHR ''}'' # u @ r' \<and> members_text D kvs t \<and>
        handle_value (JObj (put_members kvs m)) d = Inr d' \<and> closes D d' u v)"

lemma elements_fromI:
  assumes "value_from D d r v r'" "dp_stack d = F_array ys # st"
  shows "elements_from D ys (d\<lparr>dp_stack := st\<rparr>) r v r'"
proof -
  from assms(1) obtain w x t u d1 where 1: "r = w @ t @ u @ r'" "white w" "grammar D x t"
    "handle_value x d = Inr d1" "closes D d1 u v" unfolding value_from_def by blast
  have d1: "d1 = d\<lparr>dp_stack := F_array (ys @ [x]) # st\<rparr>" using 1(4) put_element [OF assms(2), of x] by simp
  from 1(5) show ?thesis
  proof (cases rule: closes.cases)
    case (closes_array ys' st' xs t2 d2 u2)
    then have "ys' = ys @ [x]" "st' = st" using d1 by simp_all
    with closes_array d1 have 2: "handle_value (JArr (ys @ x # xs)) (d\<lparr>dp_stack := st\<rparr>) = Inr d2" by simp
    have "r = (w @ t @ t2) @ CHR '']'' # u2 @ r'" using 1(1) closes_array by simp
    then show ?thesis unfolding elements_from_def
      using elements_cons [OF 1(3,2) closes_array(3)] 2 closes_array(5) by blast
  qed (use d1 in simp_all)
qed

lemma members_fromI:
  assumes "value_from D (d\<lparr>dp_stack := F_object m0 (Some k) # st\<rparr>) r v r'"
    and "string_body k kt" "white w1" "white w2" and m0: "\<And>x. fmupd k x m0 = fmupd k x m"
  shows "members_from D m (d\<lparr>dp_stack := st\<rparr>) (w1 @ CHR 0x22 # kt @ CHR 0x22 # w2 @ CHR '':'' # r) v r'"
proof -
  from assms(1) obtain w3 x t u d1 where 1: "r = w3 @ t @ u @ r'" "white w3" "grammar D x t"
    "handle_value x (d\<lparr>dp_stack := F_object m0 (Some k) # st\<rparr>) = Inr d1" "closes D d1 u v" unfolding value_from_def by blast
  have d1: "d1 = d\<lparr>dp_stack := F_object (fmupd k x m) (Some k) # st\<rparr>" using 1(4) by (simp add: handle_value_def m0)
  from 1(5) show ?thesis
  proof (cases rule: closes.cases)
    case (closes_object m' ko st' kvs t2 d2 u2)
    then have "m' = fmupd k x m" "st' = st" using d1 by simp_all
    with closes_object d1 have 2: "handle_value (JObj (put_members ((k, x) # kvs) m)) (d\<lparr>dp_stack := st\<rparr>) = Inr d2" by simp
    have "w1 @ CHR 0x22 # kt @ CHR 0x22 # w2 @ CHR '':'' # r =
        (w1 @ CHR 0x22 # kt @ CHR 0x22 # w2 @ '':'' @ w3 @ t @ t2) @ CHR ''}'' # u2 @ r'"
      using 1(1) closes_object by simp
    then show ?thesis unfolding members_from_def
      using members_cons [OF assms(2) 1(3) assms(3,4) 1(2) closes_object(3)] 2 closes_object(5) by blast
  qed (use d1 in simp_all)
qed

section \<open>The turns\<close>

text \<open>Where a turn begins in the text, and what the text says when the turns after it end well.\<close>

fun turn_before :: "strtod \<Rightarrow> dom_parser turn \<Rightarrow> string \<Rightarrow> bool" where
  "turn_before D (Turn_value states tok lx d) r \<longleftrightarrow> frames states d \<and> token_at D r tok lx"
| "turn_before D (Turn_state states tok lx d) r \<longleftrightarrow> frames states d \<and> strict_on lx r"
| "turn_before D (Turn_done tok lx d) r \<longleftrightarrow> strict_on lx r \<and> dp_stack d = []"

fun turn_after :: "strtod \<Rightarrow> dom_parser turn \<Rightarrow> string \<Rightarrow> json \<Rightarrow> string \<Rightarrow> bool" where
  "turn_after D (Turn_value states tok lx d) r v r' \<longleftrightarrow> value_from D d r v r'"
| "turn_after D (Turn_state states tok lx d) r v r' \<longleftrightarrow> (\<exists>u. r = u @ r' \<and> closes D d u v)"
| "turn_after D (Turn_done tok lx d) r v r' \<longleftrightarrow> r' = r \<and> v = dp_root d"

definition turn_back :: "strtod \<Rightarrow> dom_parser turn \<Rightarrow> string \<Rightarrow> dom_parser turn \<Rightarrow> bool" where
  "turn_back D t r t' \<longleftrightarrow>
     (\<exists>r1. turn_before D t' r1 \<and> (\<forall>v r'. turn_after D t' r1 v r' \<longrightarrow> turn_after D t r v r'))"

lemma proceed_Some [simp]: "proceed m = Inr (Some x) \<longleftrightarrow> m = Inr x"
  by (cases m) (simp_all add: proceed_def)

lemma error_not_Some [simp]: "bind_sax (on_parse_error (dom_handler ex) e s) (\<lambda>_. Inr None) \<noteq> Inr (Some y)"
  by (simp add: bind_sax_Some)

lemma token_read:
  assumes "token_at D r tok lx" "tok \<noteq> Tok_parse_error" "tok \<noteq> Tok_end_of_input"
  obtains w t r' where "r = w @ t @ r'" "white w" "strict_on lx r'" "token_text D tok lx t"
  using assms by (auto simp: token_at_def)

lemma token_punct:
  assumes "token_at D r tok lx"
    and "(c, tok) \<in> {(CHR ''['', Tok_begin_array), (CHR '']'', Tok_end_array), (CHR ''{'', Tok_begin_object),
      (CHR ''}'', Tok_end_object), (CHR '':'', Tok_name_separator), (CHR '','', Tok_value_separator)}"
  obtains w r' where "r = w @ c # r'" "white w" "strict_on lx r'"
proof -
  have "tok \<noteq> Tok_parse_error" "tok \<noteq> Tok_end_of_input" using assms(2) by auto
  with assms(1) obtain w t r' where "r = w @ t @ r'" "white w" "strict_on lx r'" "token_text D tok lx t"
    by (rule token_read)
  moreover have "t = [c]" using assms(2) calculation(4) by (auto simp: token_text_def)
  ultimately show thesis using that by simp
qed

lemma handle_frames:
  assumes "handle_value v d = Inr d'" "frames states d"
  shows "frames states d'"
proof -
  obtain d'' where "handle_value v d = Inr d''" "frames states d''" by (rule put_value [OF assms(2)])
  then show ?thesis using assms(1) by simp
qed

lemma scalar_grammar:
  assumes "token_text D tok lx t" "token_value tok lx = Some x"
  shows "grammar D x t"
  using assms
  by (cases tok) (auto simp: token_text_def token_value_def intro: g_number_value grammar_elements_text_members_text.intros)

lemma parse_value_scalar:
  assumes "parse_value (dom_handler ex) D states tok lx d = Inr (Some t')" "tok \<noteq> Tok_begin_array" "tok \<noteq> Tok_begin_object"
  obtains x d' where "token_value tok lx = Some x" "handle_value x d = Inr d'" "t' = Turn_state states tok lx d'"
  using assms
  by (cases tok) (auto simp: parse_value_def Let_def scalar_turn_def bind_sax_Some token_value_def split: if_splits)

lemma back_scalar:
  assumes "parse_value (dom_handler ex) D states tok lx d = Inr (Some t')" "tok \<noteq> Tok_begin_array" "tok \<noteq> Tok_begin_object"
    and "frames states d" "token_at D r tok lx"
  shows "turn_back D (Turn_value states tok lx d) r t'"
proof -
  obtain x d' where x: "token_value tok lx = Some x" "handle_value x d = Inr d'" "t' = Turn_state states tok lx d'"
    using parse_value_scalar [OF assms(1-3)] .
  have "tok \<noteq> Tok_parse_error" "tok \<noteq> Tok_end_of_input" using x(1) by (auto simp: token_value_def)
  with assms(5) obtain w t r1 where t: "r = w @ t @ r1" "white w" "strict_on lx r1" "token_text D tok lx t" by (rule token_read)
  have "value_from D d r v r'" if "r1 = u @ r'" "closes D d' u v" for u v r'
    unfolding value_from_def using t(1,2) that scalar_grammar [OF t(4) x(1)] x(2) by blast
  then show ?thesis unfolding turn_back_def
    using x(3) handle_frames [OF x(2) assms(4)] t(3) by (intro exI [of _ r1]) auto
qed

lemma member_back:
  assumes "parse_member (dom_handler ex) D states tok lx d = Inr (Some t')" "token_at D r tok lx"
    and "states = False # outer" "dp_stack d = F_object m ko # st" "list_all2 shape_ok outer st"
  shows "\<exists>r1. turn_before D t' r1 \<and>
    (\<forall>v r'. turn_after D t' r1 v r' \<longrightarrow> members_from D m (d\<lparr>dp_stack := st\<rparr>) r v r')"
proof -
  obtain tok1 lx1 where 1: "scan D lx = (tok1, lx1)" by fastforce
  obtain tok2 lx2 where 2: "scan D lx1 = (tok2, lx2)" by fastforce
  define k where "k = lx_token_buffer lx"
  obtain m0 where m0: "dom_key k d = Inr (d\<lparr>dp_stack := F_object m0 (Some k) # st\<rparr>)" "\<And>x. fmupd k x m0 = fmupd k x m"
    using assms(4) by (auto simp: dom_key_def)
  have tok: "tok = Tok_value_string" "tok1 = Tok_name_separator"
    and t': "t' = Turn_value states tok2 lx2 (d\<lparr>dp_stack := F_object m0 (Some k) # st\<rparr>)"
    using assms(1) m0(1) by (auto simp: parse_member_def bind_sax_Some 1 2 k_def split: if_splits)
  obtain w1 t r1 where t: "r = w1 @ t @ r1" "white w1" "strict_on lx r1" "token_text D tok lx t"
    using token_read [OF assms(2)] tok(1) by auto
  then obtain kt where kt: "t = CHR 0x22 # kt @ [CHR 0x22]" "string_body k kt" using tok(1) by (auto simp: token_text_def k_def)
  have "token_at D r1 tok1 lx1" by (rule scan_sound [OF t(3) 1])
  then obtain w2 r2 where 3: "r1 = w2 @ CHR '':'' # r2" "white w2" "strict_on lx1 r2"
    using token_punct [of D r1 tok1 lx1 "CHR '':''"] tok(2) by auto
  have r: "r = w1 @ CHR 0x22 # kt @ CHR 0x22 # w2 @ CHR '':'' # r2" using t(1) kt(1) 3(1) by simp
  have "frames states (d\<lparr>dp_stack := F_object m0 (Some k) # st\<rparr>)" using assms(3,5) by (simp add: frames_def)
  then show ?thesis using scan_sound [OF 3(3) 2] members_fromI [OF _ kt(2) t(2) 3(2) m0(2)] unfolding t' r
    by (intro exI [of _ r2]) simp
qed

lemma back_array:
  assumes "parse_value (dom_handler ex) D states Tok_begin_array lx d = Inr (Some t')"
    and "frames states d" "token_at D r Tok_begin_array lx"
  shows "turn_back D (Turn_value states Tok_begin_array lx d) r t'"
proof -
  obtain w r1 where 1: "r = w @ CHR ''['' # r1" "white w" "strict_on lx r1" using token_punct [OF assms(3), of "CHR ''[''"] by auto
  obtain tok1 lx1 where sc: "scan D lx = (tok1, lx1)" by fastforce
  note at1 = scan_sound [OF 1(3) sc]
  have start: "(dom_start_array d)\<lparr>dp_stack := dp_stack d\<rparr> = d" "dp_stack (dom_start_array d) = F_array [] # dp_stack d"
    by (simp_all add: dom_start_array_def)
  show ?thesis
  proof (cases "tok1 = Tok_end_array")
    case True
    then obtain d' where d': "handle_value (JArr []) d = Inr d'" "t' = Turn_state states tok1 lx1 d'"
      using assms(1) by (auto simp: parse_value_def sc scalar_turn_def bind_sax_Some dom_end_array_def start)
    obtain w1 r2 where 2: "r1 = w1 @ CHR '']'' # r2" "white w1" "strict_on lx1 r2"
      using token_punct [OF at1, of "CHR '']''"] True by auto
    have "value_from D d r v r'" if "r2 = u @ r'" "closes D d' u v" for u v r'
    proof -
      have "r = w @ (CHR ''['' # w1 @ '']'') @ u @ r'" using 1(1) 2(1) that(1) by simp
      then show ?thesis unfolding value_from_def using 1(2) g_empty_array [OF 2(2)] d'(1) that(2) by blast
    qed
    then show ?thesis unfolding turn_back_def
      using d' handle_frames [OF d'(1) assms(2)] 2(3) by (intro exI [of _ r2]) auto
  next
    case False
    then have t': "t' = Turn_value (True # states) tok1 lx1 (dom_start_array d)"
      using assms(1) by (simp add: parse_value_def sc)
    have "value_from D d r v r'" if "value_from D (dom_start_array d) r1 v r'" for v r'
    proof -
      from elements_fromI [OF that start(2)] obtain xs t u d' where
        2: "r1 = t @ CHR '']'' # u @ r'" "elements_text D xs t" "handle_value (JArr xs) d = Inr d'" "closes D d' u v"
        unfolding start elements_from_def by auto
      then have "r = w @ (CHR ''['' # t @ '']'') @ u @ r'" using 1(1) by simp
      then show ?thesis unfolding value_from_def using 1(2) g_array [OF 2(2)] 2(3,4) by blast
    qed
    moreover have "frames (True # states) (dom_start_array d)" using assms(2) by (simp add: frames_def start)
    ultimately show ?thesis unfolding turn_back_def t' using at1 by (intro exI [of _ r1]) simp
  qed
qed

lemma back_object:
  assumes "parse_value (dom_handler ex) D states Tok_begin_object lx d = Inr (Some t')"
    and "frames states d" "token_at D r Tok_begin_object lx"
  shows "turn_back D (Turn_value states Tok_begin_object lx d) r t'"
proof -
  obtain w r1 where 1: "r = w @ CHR ''{'' # r1" "white w" "strict_on lx r1" using token_punct [OF assms(3), of "CHR ''{''"] by auto
  obtain tok1 lx1 where sc: "scan D lx = (tok1, lx1)" by fastforce
  note at1 = scan_sound [OF 1(3) sc]
  have start: "(dom_start_object d)\<lparr>dp_stack := dp_stack d\<rparr> = d"
    "dp_stack (dom_start_object d) = F_object fmempty None # dp_stack d" by (simp_all add: dom_start_object_def)
  show ?thesis
  proof (cases "tok1 = Tok_end_object")
    case True
    then obtain d' where d': "handle_value (JObj fmempty) d = Inr d'" "t' = Turn_state states tok1 lx1 d'"
      using assms(1) by (auto simp: parse_value_def sc scalar_turn_def bind_sax_Some dom_end_object_def start)
    obtain w1 r2 where 2: "r1 = w1 @ CHR ''}'' # r2" "white w1" "strict_on lx1 r2"
      using token_punct [OF at1, of "CHR ''}''"] True by auto
    have "value_from D d r v r'" if "r2 = u @ r'" "closes D d' u v" for u v r'
    proof -
      have "r = w @ (CHR ''{'' # w1 @ ''}'') @ u @ r'" using 1(1) 2(1) that(1) by simp
      then show ?thesis unfolding value_from_def using 1(2) g_empty_object [OF 2(2)] d'(1) that(2) by blast
    qed
    then show ?thesis unfolding turn_back_def
      using d' handle_frames [OF d'(1) assms(2)] 2(3) by (intro exI [of _ r2]) auto
  next
    case False
    then have pm: "parse_member (dom_handler ex) D (False # states) tok1 lx1 (dom_start_object d) = Inr (Some t')"
      using assms(1) by (simp add: parse_value_def sc)
    have "value_from D d r v r'" if "members_from D fmempty d r1 v r'" for v r'
    proof -
      from that obtain kvs t u d' where 2: "r1 = t @ CHR ''}'' # u @ r'" "members_text D kvs t"
        "handle_value (JObj (put_members kvs fmempty)) d = Inr d'" "closes D d' u v" unfolding members_from_def by blast
      then have "r = w @ (CHR ''{'' # t @ ''}'') @ u @ r'" using 1(1) by simp
      then show ?thesis unfolding value_from_def
        using 1(2) g_object [OF 2(2), folded put_members_def] 2(3,4) by blast
    qed
    then show ?thesis unfolding turn_back_def
      using member_back [OF pm at1 refl start(2)] assms(2) by (auto simp: start frames_def)
  qed
qed

lemma back_value:
  assumes "parse_value (dom_handler ex) D states tok lx d = Inr (Some t')" "turn_before D (Turn_value states tok lx d) r"
  shows "turn_back D (Turn_value states tok lx d) r t'"
  using assms back_array [of ex D states lx d t' r] back_object [of ex D states lx d t' r]
    back_scalar [OF assms(1), of r] by (cases "tok = Tok_begin_array"; cases "tok = Tok_begin_object") simp_all

lemma closes_elements:
  assumes "elements_from D ys (d\<lparr>dp_stack := st\<rparr>) r v r'" "dp_stack d = F_array ys # st" "white w"
  shows "\<exists>u. w @ CHR '','' # r = u @ r' \<and> closes D d u v"
proof -
  from assms(1) obtain xs t u d' where 1: "r = t @ CHR '']'' # u @ r'" "elements_text D xs t"
    "handle_value (JArr (ys @ xs)) (d\<lparr>dp_stack := st\<rparr>) = Inr d'" "closes D d' u v" unfolding elements_from_def by blast
  have "elements_tail D xs (w @ '','' @ t)" using 1(2) assms(3) by (auto simp: elements_tail_def)
  from closes_array [OF assms(2) this 1(3,4)] show ?thesis using 1(1)
    by (intro exI [of _ "(w @ '','' @ t) @ CHR '']'' # u"]) simp
qed

lemma closes_members:
  assumes "members_from D m (d\<lparr>dp_stack := st\<rparr>) r v r'" "dp_stack d = F_object m ko # st" "white w"
  shows "\<exists>u. w @ CHR '','' # r = u @ r' \<and> closes D d u v"
proof -
  from assms(1) obtain kvs t u d' where 1: "r = t @ CHR ''}'' # u @ r'" "members_text D kvs t"
    "handle_value (JObj (put_members kvs m)) (d\<lparr>dp_stack := st\<rparr>) = Inr d'" "closes D d' u v" unfolding members_from_def by blast
  have "members_tail D kvs (w @ '','' @ t)" using 1(2) assms(3) by (auto simp: members_tail_def)
  from closes_object [OF assms(2) this 1(3,4)] show ?thesis using 1(1)
    by (intro exI [of _ "(w @ '','' @ t) @ CHR ''}'' # u"]) simp
qed

lemma back_state_array:
  assumes "parse_state (dom_handler ex) D (True # outer) tok lx d = Inr (Some t')"
    and "dp_stack d = F_array ys # st" "list_all2 shape_ok outer st" "strict_on lx r"
  shows "turn_back D (Turn_state (True # outer) tok lx d) r t'"
proof -
  obtain tok1 lx1 where 1: "scan D lx = (tok1, lx1)" by fastforce
  obtain tok2 lx2 where 2: "scan D lx1 = (tok2, lx2)" by fastforce
  note at1 = scan_sound [OF assms(4) 1]
  consider (more) "tok1 = Tok_value_separator" "t' = Turn_value (True # outer) tok2 lx2 d"
    | (close) d' where "tok1 = Tok_end_array" "handle_value (JArr ys) (d\<lparr>dp_stack := st\<rparr>) = Inr d'" "t' = Turn_state outer tok1 lx1 d'"
    using assms(1,2) by (auto simp: parse_state_def 1 2 bind_sax_Some dom_end_array_def split: if_splits)
  then show ?thesis
  proof cases
    case more
    obtain w r1 where 3: "r = w @ CHR '','' # r1" "white w" "strict_on lx1 r1"
      using token_punct [OF at1, of "CHR '',''"] more(1) by auto
    have "\<exists>u. r = u @ r' \<and> closes D d u v" if "value_from D d r1 v r'" for v r'
      unfolding 3(1) by (rule closes_elements [OF elements_fromI [OF that assms(2)] assms(2) 3(2)])
    then show ?thesis unfolding turn_back_def more(2)
      using scan_sound [OF 3(3) 2] assms(2,3) by (intro exI [of _ r1]) (simp add: frames_def)
  next
    case close
    obtain w r1 where 3: "r = w @ CHR '']'' # r1" "white w" "strict_on lx1 r1"
      using token_punct [OF at1, of "CHR '']''"] close(1) by auto
    have w: "elements_tail D [] w" using 3(2) by (simp add: elements_tail_def)
    have "\<exists>u. r = u @ r' \<and> closes D d u v" if "r1 = u @ r'" "closes D d' u v" for u v r'
      using closes_array [OF assms(2) w _ that(2)] close(2) 3(1) that(1)
      by (intro exI [of _ "w @ CHR '']'' # u"]) simp
    moreover have "frames outer d'" using handle_frames [OF close(2)] assms(3) by (simp add: frames_def)
    ultimately show ?thesis unfolding turn_back_def close(3) using 3(3) by (intro exI [of _ r1]) auto
  qed
qed

lemma back_state_object:
  assumes "parse_state (dom_handler ex) D (False # outer) tok lx d = Inr (Some t')"
    and "dp_stack d = F_object m ko # st" "list_all2 shape_ok outer st" "strict_on lx r"
  shows "turn_back D (Turn_state (False # outer) tok lx d) r t'"
proof -
  obtain tok1 lx1 where 1: "scan D lx = (tok1, lx1)" by fastforce
  obtain tok2 lx2 where 2: "scan D lx1 = (tok2, lx2)" by fastforce
  note at1 = scan_sound [OF assms(4) 1]
  consider (more) "tok1 = Tok_value_separator" "parse_member (dom_handler ex) D (False # outer) tok2 lx2 d = Inr (Some t')"
    | (close) d' where "tok1 = Tok_end_object" "handle_value (JObj m) (d\<lparr>dp_stack := st\<rparr>) = Inr d'" "t' = Turn_state outer tok1 lx1 d'"
    using assms(1,2) by (auto simp: parse_state_def 1 2 bind_sax_Some dom_end_object_def split: if_splits)
  then show ?thesis
  proof cases
    case more
    obtain w r1 where 3: "r = w @ CHR '','' # r1" "white w" "strict_on lx1 r1"
      using token_punct [OF at1, of "CHR '',''"] more(1) by auto
    have "\<exists>u. r = u @ r' \<and> closes D d u v" if "members_from D m (d\<lparr>dp_stack := st\<rparr>) r1 v r'" for v r'
      unfolding 3(1) by (rule closes_members [OF that assms(2) 3(2)])
    then show ?thesis unfolding turn_back_def turn_after.simps(2)
      using member_back [OF more(2) scan_sound [OF 3(3) 2] refl assms(2,3)] by blast
  next
    case close
    obtain w r1 where 3: "r = w @ CHR ''}'' # r1" "white w" "strict_on lx1 r1"
      using token_punct [OF at1, of "CHR ''}''"] close(1) by auto
    have w: "members_tail D [] w" using 3(2) by (simp add: members_tail_def)
    have "\<exists>u. r = u @ r' \<and> closes D d u v" if "r1 = u @ r'" "closes D d' u v" for u v r'
      using closes_object [OF assms(2) w _ that(2)] close(2) 3(1) that(1)
      by (intro exI [of _ "w @ CHR ''}'' # u"]) simp
    moreover have "frames outer d'" using handle_frames [OF close(2)] assms(3) by (simp add: frames_def)
    ultimately show ?thesis unfolding turn_back_def close(3) using 3(3) by (intro exI [of _ r1]) auto
  qed
qed

lemma back_state:
  assumes "parse_state (dom_handler ex) D states tok lx d = Inr (Some t')" "turn_before D (Turn_state states tok lx d) r"
  shows "turn_back D (Turn_state states tok lx d) r t'"
proof (cases states)
  case Nil
  then have "t' = Turn_done tok lx d" "dp_stack d = []" using assms by (simp_all add: parse_state_def frames_def)
  then show ?thesis unfolding turn_back_def
    using assms(2) closes_root [of d D] by (intro exI [of _ r]) auto
next
  case (Cons b outer)
  show ?thesis
  proof (cases b)
    case True
    then obtain ys st where "dp_stack d = F_array ys # st" "list_all2 shape_ok outer st"
      using assms(2) Cons by (auto simp: frames_array)
    then show ?thesis using back_state_array [of ex D outer tok lx d t'] assms Cons True by simp
  next
    case False
    then obtain m k st where "dp_stack d = F_object m (Some k) # st" "list_all2 shape_ok outer st"
      using assms(2) Cons by (auto simp: frames_object)
    then show ?thesis using back_state_object [of ex D outer tok lx d t'] assms Cons False by simp
  qed
qed

lemma turns_sound:
  assumes "parse_turns (dom_handler ex) D t = Inr (Some (tok, lx, d))" "turn_before D t r"
  shows "\<exists>r'. turn_after D t r (dp_root d) r' \<and> strict_on lx r'"
  using assms
proof (induction "dom_handler ex" D t arbitrary: r rule: parse_turns.induct)
  case (1 D tok lx d)
  then show ?case by auto
next
  case (2 D states tok' lx' d')
  then obtain t' where t': "parse_value (dom_handler ex) D states tok' lx' d' = Inr (Some t')"
    "parse_turns (dom_handler ex) D t' = Inr (Some (tok, lx, d))" by (auto simp: bind_sax_Some)
  from back_value [OF t'(1) "2.prems"(2)] obtain r1 where "turn_before D t' r1"
    "\<forall>v r'. turn_after D t' r1 v r' \<longrightarrow> turn_after D (Turn_value states tok' lx' d') r v r'" unfolding turn_back_def by blast
  then show ?case using "2.hyps" [OF t' ] by blast
next
  case (3 D states tok' lx' d')
  then obtain t' where t': "parse_state (dom_handler ex) D states tok' lx' d' = Inr (Some t')"
    "parse_turns (dom_handler ex) D t' = Inr (Some (tok, lx, d))" by (auto simp: bind_sax_Some)
  from back_state [OF t'(1) "3.prems"(2)] obtain r1 where "turn_before D t' r1"
    "\<forall>v r'. turn_after D t' r1 v r' \<longrightarrow> turn_after D (Turn_state states tok' lx' d') r v r'" unfolding turn_back_def by blast
  then show ?case using "3.hyps" [OF t'] by blast
qed


section \<open>The operations\<close>

lemma text_sound:
  assumes "sax_parse_text (dom_handler ex) D True False t \<lparr>dp_root = JNull, dp_stack = []\<rparr> = Inr (Some d)"
  shows "text_of D (dp_root d) t"
proof -
  let ?d = "\<lparr>dp_root = JNull, dp_stack = []\<rparr>"
  obtain tok lx where 1: "scan D (new_lexer False t) = (tok, lx)" by fastforce
  obtain tok1 lx1 where 2: "parse_turns (dom_handler ex) D (Turn_value [] tok lx ?d) = Inr (Some (tok1, lx1, d))"
    "fst (scan D lx1) = Tok_end_of_input"
    using assms by (auto simp: sax_parse_text_def sax_parse_internal_def 1 bind_sax_Some split: if_splits)
  have "tok \<noteq> Tok_parse_error" using 2(1) by (cases ex) (auto simp: parse_value_def)
  from scan_first_sound [OF 1 this] obtain b r where b: "t = b @ r" "b = [] \<or> b = bom" "token_at D r tok lx" by blast
  then have "turn_before D (Turn_value [] tok lx ?d) r" by (simp add: frames_def)
  from turns_sound [OF 2(1) this] obtain r' where r': "value_from D ?d r (dp_root d) r'" "strict_on lx1 r'" by auto
  then obtain w x t' u d' where 3: "r = w @ t' @ u @ r'" "white w" "grammar D x t'" "handle_value x ?d = Inr d'"
    "closes D d' u (dp_root d)" unfolding value_from_def by blast
  have d': "d' = \<lparr>dp_root = x, dp_stack = []\<rparr>" using 3(4) by (simp add: handle_value_def)
  then have u: "u = []" "dp_root d = x" using closes_nothing [OF 3(5)] by simp_all
  obtain tok2 lx2 where sc: "scan D lx1 = (tok2, lx2)" by fastforce
  have "text_end r'" using scan_sound [OF r'(2) sc] 2(2) sc by (auto simp: token_at_def token_text_def)
  then show ?thesis unfolding text_of_def u(2) using b(1,2) 3(1-3) u(1) by auto
qed

lemma json_parse_sound:
  assumes "json_parse D True False t = Inr v"
  shows "text_of D v t"
proof -
  let ?p = "sax_parse_text (dom_handler True) D True False t \<lparr>dp_root = JNull, dp_stack = []\<rparr>"
  have "?p \<noteq> Inr None" using agrees_text [of True D True False t] by auto
  then obtain d where "?p = Inr (Some d)" "v = dp_root d"
    using assms by (cases ?p) (auto simp: json_parse_def parser_parse_sax split: option.splits)
  then show ?thesis using text_sound by blast
qed

text \<open>A text has one value.\<close>

lemma text_of_unique: "text_of D v t \<Longrightarrow> text_of D v' t \<Longrightarrow> v' = v"
  using json_parse_text_of [of D v t True False] json_parse_text_of [of D v' t True False] by simp

text \<open>
  C31. \<open>parse\<close> decides the grammar of RFC 8259. It gives the value \<open>v\<close> for the text \<open>t\<close> exactly when
  \<open>t\<close> is a text of the grammar for \<open>v\<close>, with white space around it, perhaps a byte order mark before it,
  and perhaps a zero byte and anything else after it; it throws a syntax error or a number out of range
  exactly when \<open>t\<close> is no such text for any value; and \<open>accept\<close> says which. The grammar (theory
  \<open>SS_Rfc8259\<close>) has its own white space, strings, escapes and numbers and uses no definition of the lexer
  or the parser. It gives the last of several members with the same key, the code points that \<open>\u\<close> and
  surrogate pairs stand for, for a number an integer where it is written as one and 64 bits can hold it, and
  otherwise the \<open>double\<close> that \<open>strtod\<close> gives, which must be finite.
\<close>

theorem parse_decides_grammar:
  "(json_parse D True False t = Inr v \<longleftrightarrow> text_of D v t) \<and>
   (json_parse D True False t \<in> Inl ` syntax_errors \<longleftrightarrow> \<not> (\<exists>v'. text_of D v' t)) \<and>
   (json_accept D False t = Inr True \<longleftrightarrow> (\<exists>v'. text_of D v' t))"
proof -
  have a: "json_parse D True False t = Inr v \<longleftrightarrow> text_of D v t" for v
    using json_parse_sound json_parse_text_of by blast
  from parse_outcome(1) obtain b where b: "json_accept D False t = Inr b" by blast
  show ?thesis
  proof (cases b)
    case True
    then obtain v' where "json_parse D True False t = Inr v'" using b parse_outcome(2) [of D False t True] by auto
    then show ?thesis using a b True by auto
  next
    case False
    then obtain e where "e \<in> syntax_errors" "json_parse D True False t = Inl e" using b parse_outcome(3) [of D False t] by auto
    then show ?thesis using a b False by (auto simp flip: a)
  qed
qed

theorem parse_decides_grammar_witness:
  "json_parse (\<lambda>_. D_nan) True False (bom @ '' '' @ (CHR ''{'' # (CHR 0x22 # ''a'' @ CHR 0x22 # [] @ '':'' @ '' '' @ ''true'' @ []) @ ''}'') @
     [CHR 0x00, CHR ''x'']) = Inr (JObj (fmupd ''a'' (JBool True) fmempty))"
proof -
  have "string_body ''a'' ''a''" by (rule plain_body) simp
  from m_last [OF this g_true, of "[]" "[]" "'' ''" "[]" "\<lambda>_. D_nan"]
  have m: "members_text (\<lambda>_. D_nan) [(''a'', JBool True)] (CHR 0x22 # ''a'' @ CHR 0x22 # [] @ '':'' @ '' '' @ ''true'' @ [])"
    by (simp add: is_white_def)
  have e: "text_end [CHR 0x00, CHR ''x'']" unfolding text_end_def by (rule exI [of _ "[]"]) simp
  have w: "white '' ''" by (simp add: is_white_def)
  have o: "fold (\<lambda>(k, v). fmupd k v) [(''a'', JBool True)] fmempty = fmupd ''a'' (JBool True) fmempty" by simp
  show ?thesis
    by (rule parse_decides_grammar [THEN conjunct1, THEN iffD2])
      (use g_object [OF m, unfolded o] w e in \<open>unfold text_of_def, blast\<close>)
qed

end
