(* ===== verification/Spec2Isabelle.thy ===== *)
theory Spec2Isabelle
  imports SS_KadExchange SS_Traversal SS_NodeStart SS_Multicast SS_Logger SS_Print SS_ParseSound
begin

text \<open>
  A verification development for the C++ library \<open>ss_p2p\<close>: a node of a peer-to-peer network that
  finds other nodes with a Kademlia table, opens the way to them through NATs with a signaling
  protocol, learns its own address by asking others for it, and hands text messages between peers.

  The program. One \<open>boost::asio::io_context\<close> runs everything. \<open>node_controller\<close> owns the parts and
  dispatches every datagram that \<open>udp_server\<close> receives, after it has been decoded from BSON into a JSON
  object: a message with a field \<open>kademlia\<close> goes to \<open>dht_manager\<close>, one with a field \<open>ice_agent\<close> to
  \<open>ice_agent\<close>, any other one to \<open>message_pool\<close>. \<open>dht_manager\<close> keeps the routing table, which
  \<open>connection_maintainer\<close> refreshes by pings, and answers requests by \<open>rpc_manager\<close>; what the node waits
  for is kept in observers, which a storage finds by identifier and removes when they expire. \<open>ice_agent\<close>
  consists of \<open>stun_server\<close>, which asks nodes for the own endpoint and lets them vote, and
  \<open>signaling_server\<close>, which sends directly to a known endpoint and otherwise asks the network to have the
  destination open its NAT. The Kademlia layer and the peers send through \<open>signaling_send\<close>.
\<close>

text \<open>
  The theories, in the order of the imports, with the files under \<open>src/src\<close> and \<open>src/include\<close> they model.

  \<^item> \<open>SS_Prelude\<close>: machine types, results of fallible code, vector loops, byte lists, reachability.
  \<^item> \<open>SS_Json\<close>: the values of \<open>include/json.hpp\<close> and the accessors the program calls. A \<open>double\<close> is a
    rational number, minus zero, one of the infinities, or NaN.
  \<^item> \<open>SS_Utils\<close>: \<open>utils.hpp\<close>, \<open>utils.cpp\<close>; the record \<open>ext\<close> of what is not in the repository.
  \<^item> \<open>SS_Bson\<close>, \<open>SS_BsonRoundtrip\<close>: the BSON writer and reader of \<open>include/json.hpp\<close>
    (\<open>binary_writer\<close>, \<open>binary_reader\<close>, \<open>json_sax_dom_parser\<close>) and what they guarantee.
  \<^item> \<open>SS_Rfc8259\<close>: the grammar of RFC 8259 with the characters of UTF-8, as relations that use no definition
    of the code: what the theories on the texts are proved against.
  \<^item> \<open>SS_Utf8\<close>: the UTF-8 automaton of the serializer and the encoding of the lexer, compared with the
    encoding of Unicode. \<open>SS_Dump\<close>, \<open>SS_EscapeText\<close>, \<open>SS_DumpText\<close>: the class \<open>serializer\<close>, \<open>dump\<close> and
    \<open>operator<<\<close>, and the texts they write. \<open>SS_Lexer\<close>, \<open>SS_Parser\<close>: the classes \<open>lexer\<close> and \<open>parser\<close>, with
    \<open>json_sax_dom_parser\<close> and \<open>json_sax_acceptor\<close> as receivers; \<open>SS_NumberText\<close>: what
    the number automaton of the lexer takes and gives is a number of the grammar; \<open>SS_Grammar\<close>, \<open>SS_ParseText\<close>:
    what lexer and parser do on the texts of the grammar; \<open>SS_LexSound\<close>, \<open>SS_ParseSound\<close>: the converse, what they
    take is a text of the grammar; \<open>SS_TextRoundtrip\<close>, \<open>SS_Accept\<close>: \<open>parse\<close> after \<open>dump\<close>, and
    \<open>accept\<close> beside \<open>parse\<close>. \<open>SS_Print\<close>: the \<open>print\<close> functions of the messages.
  \<^item> \<open>SS_NodeId\<close>, \<open>SS_KBucket\<close>, \<open>SS_RoutingTable\<close>, \<open>SS_Collect\<close>, \<open>SS_DirectTable\<close>: \<open>node_id\<close>,
    \<open>k_node\<close>, \<open>k_bucket\<close>, \<open>k_routing_table\<close>, \<open>direct_routing_table_controller\<close>. A bucket is a list,
    the table a list of 160 buckets, an iterator a pair of the position and the branch it claims.
  \<^item> \<open>SS_Io\<close>: the clock, the generator of identifiers, the socket, the queue and the timers of the
    \<open>io_context\<close>; a posted lambda is a value of the type \<open>task\<close>.
  \<^item> \<open>SS_Message\<close>, \<open>SS_KMessage\<close>, \<open>SS_IceMessage\<close>: \<open>message\<close>, \<open>sender\<close>, \<open>k_message\<close>, \<open>ice_message\<close>;
    \<open>SS_Truncated\<close>: what the decoder makes of an encoded message cut inside its last string.
  \<^item> \<open>SS_ObserverStorage\<close>, \<open>SS_KObserver\<close>, \<open>SS_IceObserver\<close>: \<open>observer\<close>, \<open>observer_strage\<close> and the
    observers of the two layers, with the state of each layer as an extension of the world below it.
  \<^item> \<open>SS_RpcManager\<close>, \<open>SS_DhtManager\<close>: \<open>rpc_manager\<close>, \<open>dht_manager\<close>, \<open>connection_maintainer\<close>.
  \<^item> \<open>SS_Stun\<close>, \<open>SS_Signaling\<close>: \<open>stun_server\<close>, \<open>signaling_server\<close>, \<open>ice_agent\<close>, \<open>ice_sender\<close>.
  \<^item> \<open>SS_KadProtocol\<close>, \<open>SS_IceProtocol\<close>, \<open>SS_KadExchange\<close>: the exchanges between two nodes over the wire;
    \<open>SS_Maintenance\<close>: a round of the connection maintainer.
  \<^item> \<open>SS_PeerBuffer\<close>, \<open>SS_MessagePool\<close>: \<open>message_pool\<close>, \<open>peer\<close>.
  \<^item> \<open>SS_Multicast\<close>: \<open>multicast_manager\<close>. \<open>SS_Logger\<close>: \<open>logger\<close>, \<open>ss_logger\<close>.
  \<^item> \<open>SS_NodeController\<close>: \<open>udp_server\<close>, \<open>node_controller\<close>, \<open>interface\<close>, and the steps of a node.
  \<^item> \<open>SS_Frame\<close>, \<open>SS_NodeInvariant\<close>, \<open>SS_NodeProtocol\<close>: what holds of a whole node; \<open>SS_Traversal\<close>: the
    way of a text to a node the sender does not know, through the event loops of three nodes;
    \<open>SS_NodeStart\<close>: what starting a new node sets off.

  How state and effects are read. An object with members is a record; the worlds \<open>io_world\<close>,
  \<open>kad_world\<close>, \<open>ice_world\<close>, \<open>pool_world\<close>, \<open>node_world\<close> extend one another as the components build on one
  another, so a function of a lower layer works on the state of a whole node. An exception, and a step
  the C++ standard leaves undefined, is the left side of a sum (\<open>'a result\<close>), an absent or null value is
  \<open>None\<close>. A datagram that is sent is appended to \<open>w_net\<close>, a posted handler to \<open>w_queue\<close>, an armed timer to
  \<open>w_timers\<close>; \<open>node_task\<close> runs one handler, and \<open>node_step\<close> is any event in the life of a node, so a
  statement about reachable states covers every interleaving of datagrams, timers, handlers and calls.
  The node has three endpoint objects. Its global endpoint is \<open>nc_glob_self_ep\<close>; the one the
  application passed, to which the ICE agent keeps a reference, is \<open>iw_glob_self_ep\<close>; and \<open>node_controller::_self_ep\<close>, to which
  \<open>dht_manager::_self_ep\<close> is a reference, is the one field \<open>kd_self_ep\<close>, which both read and write.
  Words are used where the width matters (identifiers, ports, bytes); sizes are natural numbers, reduced
  modulo their width where the code converts them.
\<close>

text \<open>
  What the lemmas show.

  \<^item> Data: the routing table and its buckets keep their invariant under every operation; \<open>collect_node\<close>
    is compared with the list of all admissible nodes in order; the iterator and its two defects.
  \<^item> Wire: BSON encoding and decoding are inverse on the values in range, with the computed sizes; decoding
    ends on every input with a value or a parse error; every failing branch of the encoder is characterised;
    Kademlia and ICE messages read back what was written to them.
  \<^item> Text: the serializer refines a plain recursive definition of the text, with all its buffers long enough,
    and throws exactly on strings that are not UTF-8; the parser gives a value exactly for the texts of the
    grammar, and that value (with comments not ignored, as the program calls it); the tables of escapes, white
    space, digits and UTF-8 bytes of the statements are their own, not those of the code;
    \<open>parse\<close> reads back what \<open>dump\<close> wrote; \<open>accept\<close> and \<open>parse\<close> agree on every input; every token reads on.
  \<^item> Protocols: ping, find-node, STUN and signaling from the request of one node over the wire to the
    effect of the answer, with the state each leaves behind; the vote on the own endpoint; the two halves
    of a maintenance round. Where the program sends through \<open>signaling_send\<close>, the statements do.
  \<^item> Pool: storing and refreshing act on the abstract queues as an append and a filter; what a peer
    receives; the refresh that never rests.
  \<^item> Node: the invariant of every reachable state, with the storages of both layers, the delivery of a text from peer to peer, directly and by
    signaling through a relay, the finality of stopping, and what malformed or overlapping datagrams do.

  Interfaces. \<open>inductive_invariant\<close> (prelude) is interpreted for the node invariant and for the stopped
  node; \<open>json_object\<close> for the JSON accessors; \<open>bucket_op\<close> states what the table needs of an operation on a
  bucket and is interpreted for each of them; \<open>observer_storage\<close> for the storage; \<open>send_func\<close> is the
  contract of the function the Kademlia layer sends through, interpreted for the plain sender and for
  \<open>signaling_send\<close>; \<open>kad_keeps\<close>, \<open>ice_keeps\<close> and their special cases \<open>kad_frame\<close> and
  \<open>ice_frame\<close> (each a \<open>sublocale\<close>, twice) say what a layer leaves alone or keeps, and are interpreted for the pool,
  for the node, for the storages of the ICE agent, for the identifiers of the nodes in the table and for the
  stopped flag.

  Loops and bounds. Most loops are structural. The walk of the prefix, the binary search, the splitting of
  a line and the recursion of the BSON writer end by a measure. The BSON reader takes as fuel one more than
  the length of its input, and since every element consumes at least one byte the fuel does not run out
  (\<open>from_bson_cases\<close>: it ends with a value or a parse error). The loops of the lexer and of the parser end by
  the number of characters left, the one of \<open>dump_escaped\<close> by the bytes left, counted twice because a byte
  may be read again. What is shown of the indented text holds for steps of at most 512, where one doubling
  of the indentation string is enough; over 1025 it is not (\<open>dump_deep_indent\<close>). The substitution of the logger is a partial
  function, and the texts on which it does not end are exactly determined. \<open>sync_get\<close> and \<open>wait_pop\<close> may
  wait for ever, which is the value \<open>None\<close>.

  Outside of the repository, hence parameters in \<open>ext\<close>: SHA-1 (the submodule \<open>crypto_utils\<close>), the text of
  addresses and UUIDs, whether an address is a loopback address, the bytes of a \<open>double\<close>, the time texts
  of \<open>strftime\<close>, random endpoints and shuffles. What is relied on is named (\<open>ip_text_ok\<close>, \<open>uuid_text_ok\<close>,
  \<open>double_ok\<close>, \<open>v4_no_colon\<close>) and shown to hold of the concrete \<open>sample_ext\<close>.
\<close>

text \<open>
  Not modelled. The opening and binding of the socket (\<open>socket_manager\<close>) and the run and test programs;
  \<open>union_observer\<close>, which is not in the list of sources and does not
  compile against the present observers; the memory counter of the pool, which is
  read uninitialised; the print functions of the tables, observers and buffers, which only write to the
  console; of \<open>json.hpp\<close> the other binary formats, iterators, pointers, patches and the parser with a callback,
  which the program does not use, and the texts of the exceptions; the conversions between \<open>double\<close> and
  decimal text (\<open>to_chars\<close>, \<open>strtod\<close>), which are the parameters \<open>F\<close> and \<open>D\<close>; waking a thread that is
  blocked on a condition variable, and every thread other than the one of the \<open>io_context\<close>; loss,
  duplication and delay of datagrams, beyond that a node accepts any datagram at any time.
\<close>

end
